(* ===== verification/Prelude.thy ===== *)
theory Prelude
  imports Main "HOL-Library.Word"
begin

text \<open>
  Types, combinators and generic facts shared by every component theory: machine integers,
  Rust's checked and saturating arithmetic on words, the result type of fallible code,
  byte slices and in-place writes, little-endian encodings, decimal and hexadecimal text.
\<close>

section \<open>Machine types\<close>

type_synonym byte = "8 word"
type_synonym bytes = "byte list"
type_synonym u16 = "16 word"
type_synonym u32 = "32 word"
type_synonym u64 = "64 word"

named_theorems result_simps
  \<open>rewrite rules that turn an equation about a fallible pipeline into its successful steps\<close>

named_theorems unat_simps
  \<open>rewrite rules from word arithmetic to arithmetic on natural numbers\<close>

section \<open>Results\<close>

text \<open>Rust's \<open>Result<T, E>\<close> is \<open>'e + 'a\<close>, the \<open>?\<close> operator is \<open>bindE\<close>.\<close>

definition bindE :: "'e + 'a \<Rightarrow> ('a \<Rightarrow> 'e + 'b) \<Rightarrow> 'e + 'b" where
  "bindE m f = (case m of Inl e \<Rightarrow> Inl e | Inr a \<Rightarrow> f a)"

definition ensureE :: "bool \<Rightarrow> 'e \<Rightarrow> 'e + unit" where
  "ensureE b e = (if b then Inr () else Inl e)"

definition ok_or :: "'e \<Rightarrow> 'a option \<Rightarrow> 'e + 'a" where
  "ok_or e o' = (case o' of None \<Rightarrow> Inl e | Some a \<Rightarrow> Inr a)"

definition map_err :: "('e \<Rightarrow> 'f) \<Rightarrow> 'e + 'a \<Rightarrow> 'f + 'a" where
  "map_err f m = (case m of Inl e \<Rightarrow> Inl (f e) | Inr a \<Rightarrow> Inr a)"

lemma bindE_simps [simp]: "bindE (Inl e) f = Inl e" "bindE (Inr a) f = f a"
  by (simp_all add: bindE_def)

lemma bindE_eq_Inr [result_simps]: "bindE m f = Inr b \<longleftrightarrow> (\<exists>a. m = Inr a \<and> f a = Inr b)"
  by (cases m) simp_all

lemma bindE_eq_Inl [result_simps]:
  "bindE m f = Inl e \<longleftrightarrow> m = Inl e \<or> (\<exists>a. m = Inr a \<and> f a = Inl e)"
  by (cases m) simp_all

lemma ensureE_eq_Inr [result_simps]: "ensureE b e = Inr u \<longleftrightarrow> b"
  by (simp add: ensureE_def)

lemma ensureE_eq_Inl [result_simps]: "ensureE b e = Inl e' \<longleftrightarrow> \<not> b \<and> e' = e"
  by (auto simp: ensureE_def)

lemma ensureE_simps [simp]: "ensureE True e = Inr ()" "ensureE False e = Inl e"
  by (simp_all add: ensureE_def)

lemma ok_or_simps [simp]: "ok_or e None = Inl e" "ok_or e (Some a) = Inr a"
  by (simp_all add: ok_or_def)

lemma ok_or_eq_Inr [result_simps]: "ok_or e o' = Inr a \<longleftrightarrow> o' = Some a"
  by (cases o') simp_all

lemma ok_or_eq_Inl [result_simps]: "ok_or e o' = Inl e' \<longleftrightarrow> o' = None \<and> e' = e"
  by (cases o') auto

lemma map_err_simps [simp]: "map_err f (Inl e) = Inl (f e)" "map_err f (Inr a) = Inr a"
  by (simp_all add: map_err_def)

lemma map_err_eq_Inr [result_simps]: "map_err f m = Inr a \<longleftrightarrow> m = Inr a"
  by (cases m) simp_all

lemma map_err_eq_Inl [result_simps]: "map_err f m = Inl e \<longleftrightarrow> (\<exists>e'. m = Inl e' \<and> e = f e')"
  by (cases m) auto

lemma case_result_iff [result_simps]:
  "(case r of Inl e \<Rightarrow> False | Inr a \<Rightarrow> Q a) \<longleftrightarrow> (\<exists>a. r = Inr a \<and> Q a)"
  by (cases r) simp_all

lemma case_option_iff [result_simps]:
  "(case o' of None \<Rightarrow> False | Some a \<Rightarrow> Q a) \<longleftrightarrow> (\<exists>a. o' = Some a \<and> Q a)"
  by (cases o') simp_all

text \<open>A loop whose body may fail, over the elements of a list (\<open>try_for_each\<close>, \<open>collect\<close>
  of results).\<close>

fun mapE :: "('a \<Rightarrow> 'e + 'b) \<Rightarrow> 'a list \<Rightarrow> 'e + 'b list" where
  "mapE f [] = Inr []"
| "mapE f (x # xs) = bindE (f x) (\<lambda>y. bindE (mapE f xs) (\<lambda>ys. Inr (y # ys)))"

fun foldE :: "('a \<Rightarrow> 's \<Rightarrow> 'e + 's) \<Rightarrow> 'a list \<Rightarrow> 's \<Rightarrow> 'e + 's" where
  "foldE f [] s = Inr s"
| "foldE f (x # xs) s = bindE (f x s) (foldE f xs)"

lemma mapE_eq_Inr: "mapE f xs = Inr ys \<longleftrightarrow> list_all2 (\<lambda>x y. f x = Inr y) xs ys"
proof (induction xs arbitrary: ys)
  case (Cons x xs)
  then show ?case by (cases ys) (auto simp: result_simps)
qed auto

lemma mapE_cong: "(\<And>x. x \<in> set xs \<Longrightarrow> f x = g x) \<Longrightarrow> mapE f xs = mapE g xs"
  by (induction xs) auto

lemma mapE_all_Inr: "(\<And>x. x \<in> set xs \<Longrightarrow> f x = Inr (g x)) \<Longrightarrow> mapE f xs = Inr (map g xs)"
  by (induction xs) auto

lemma foldE_append: "foldE f (xs @ ys) s = bindE (foldE f xs s) (foldE f ys)"
proof (induction xs arbitrary: s)
  case (Cons x xs)
  then show ?case by (cases "f x s") simp_all
qed simp

lemma foldE_invariant:
  assumes "foldE f xs s = Inr t" and "I s"
    and "\<And>x s s'. x \<in> set xs \<Longrightarrow> I s \<Longrightarrow> f x s = Inr s' \<Longrightarrow> I s'"
  shows "I t"
  using assms
proof (induction xs arbitrary: s)
  case (Cons x xs)
  then show ?case by (auto simp: result_simps)
qed simp

section \<open>Checked and saturating word arithmetic\<close>

definition checked_add :: "'a::len word \<Rightarrow> 'a word \<Rightarrow> 'a word option" where
  "checked_add a b = (if unat a + unat b < 2 ^ LENGTH('a) then Some (a + b) else None)"

definition checked_sub :: "'a::len word \<Rightarrow> 'a word \<Rightarrow> 'a word option" where
  "checked_sub a b = (if b \<le> a then Some (a - b) else None)"

definition checked_mul :: "'a::len word \<Rightarrow> 'a word \<Rightarrow> 'a word option" where
  "checked_mul a b = (if unat a * unat b < 2 ^ LENGTH('a) then Some (a * b) else None)"

definition saturating_add :: "'a::len word \<Rightarrow> 'a word \<Rightarrow> 'a word" where
  "saturating_add a b = (if unat a + unat b < 2 ^ LENGTH('a) then a + b else - 1)"

definition saturating_sub :: "'a::len word \<Rightarrow> 'a word \<Rightarrow> 'a word" where
  "saturating_sub a b = (if b \<le> a then a - b else 0)"

lemma unat_add_exact: "unat (a::'a::len word) + unat b < 2 ^ LENGTH('a) \<Longrightarrow> unat (a + b) = unat a + unat b"
  by (simp add: unat_word_ariths)

lemma unat_mul_exact: "unat (a::'a::len word) * unat b < 2 ^ LENGTH('a) \<Longrightarrow> unat (a * b) = unat a * unat b"
  by (simp add: unat_word_ariths)

lemma checked_add_eq_Some:
  "checked_add a b = Some c \<longleftrightarrow> unat c = unat a + unat (b::'a::len word)"
proof
  assume "checked_add a b = Some c"
  then show "unat c = unat a + unat b"
    by (auto simp: checked_add_def unat_add_exact split: if_splits)
next
  assume c: "unat c = unat a + unat b"
  then have lt: "unat a + unat b < 2 ^ LENGTH('a)"
    by (metis unsigned_less)
  moreover from this c have "c = a + b"
    by (metis unat_add_exact word_unat_eq_iff)
  ultimately show "checked_add a b = Some c"
    by (simp add: checked_add_def)
qed

lemma checked_add_eq_None: "checked_add a b = None \<longleftrightarrow> 2 ^ LENGTH('a) \<le> unat a + unat (b::'a::len word)"
  by (simp add: checked_add_def not_less)

lemma checked_mul_eq_Some:
  "checked_mul a b = Some c \<longleftrightarrow> unat c = unat a * unat (b::'a::len word)"
proof
  assume "checked_mul a b = Some c"
  then show "unat c = unat a * unat b"
    by (auto simp: checked_mul_def unat_mul_exact split: if_splits)
next
  assume c: "unat c = unat a * unat b"
  then have lt: "unat a * unat b < 2 ^ LENGTH('a)"
    by (metis unsigned_less)
  moreover from this c have "c = a * b"
    by (metis unat_mul_exact word_unat_eq_iff)
  ultimately show "checked_mul a b = Some c"
    by (simp add: checked_mul_def)
qed

lemma checked_mul_eq_None: "checked_mul a b = None \<longleftrightarrow> 2 ^ LENGTH('a) \<le> unat a * unat (b::'a::len word)"
  by (simp add: checked_mul_def not_less)

lemma unat_sub_exact: "b \<le> a \<Longrightarrow> unat (a - b) = unat a - unat (b::'a::len word)"
  by (simp add: unat_sub)

lemma checked_sub_eq_Some:
  "checked_sub a b = Some c \<longleftrightarrow> unat b \<le> unat a \<and> unat c = unat a - unat (b::'a::len word)"
proof
  assume "checked_sub a b = Some c"
  then show "unat b \<le> unat a \<and> unat c = unat a - unat b"
    by (auto simp: checked_sub_def unat_sub_exact word_le_nat_alt split: if_splits)
next
  assume c: "unat b \<le> unat a \<and> unat c = unat a - unat b"
  then have "c = a - b"
    by (metis unat_sub_exact word_le_nat_alt word_unat_eq_iff)
  with c show "checked_sub a b = Some c"
    by (simp add: checked_sub_def word_le_nat_alt)
qed

lemma unat_saturating_add [unat_simps]:
  "unat (saturating_add a b) = min (unat a + unat b) (2 ^ LENGTH('a) - 1)" for a b :: "'a::len word"
proof (cases "unat a + unat b < 2 ^ LENGTH('a)")
  case True
  then show ?thesis by (simp add: saturating_add_def unat_add_exact)
next
  case False
  then show ?thesis by (simp add: saturating_add_def unsigned_minus_1_eq_mask mask_eq_exp_minus_1)
qed

lemma unat_saturating_sub [unat_simps]:
  "unat (saturating_sub a b) = unat a - unat b" for a b :: "'a::len word"
  by (auto simp: saturating_sub_def unat_sub_exact word_le_nat_alt)

lemma unat_min [unat_simps]: "unat (min a b) = min (unat a) (unat (b::'a::len word))"
  by (simp add: min_def word_le_nat_alt)

lemma unat_of_nat_small: "n < 2 ^ LENGTH('a) \<Longrightarrow> unat (of_nat n :: 'a::len word) = n"
  by (simp add: unat_of_nat take_bit_nat_eq_self)

lemma eq_of_nat: "unat (w::'a::len word) = n \<Longrightarrow> w = of_nat n"
  by auto

lemma unat_u64_bound [simp]: "unat (a::u64) < 18446744073709551616"
  using unsigned_less [of a] by simp

lemma unat_u32_bound [simp]: "unat (a::u32) < 4294967296"
  using unsigned_less [of a] by simp

lemma unat_ucast_u32_u64 [simp]: "unat (ucast (x::u32) :: u64) = unat x"
  by (simp add: unsigned_ucast_eq take_bit_nat_eq_self_iff less_trans [OF unat_u32_bound])

section \<open>Byte slices and positional writes\<close>

definition slice :: "nat \<Rightarrow> nat \<Rightarrow> 'a list \<Rightarrow> 'a list" where
  "slice off len xs = take len (drop off xs)"

text \<open>A positional write replaces the bytes under it; past the end the gap is zero filled, as
  a sparse file reads back.\<close>

definition write_bytes :: "nat \<Rightarrow> bytes \<Rightarrow> bytes \<Rightarrow> bytes" where
  "write_bytes off xs file =
     (let f = file @ replicate (off - length file) 0
      in take off f @ xs @ drop (off + length xs) f)"

lemma length_slice [simp]: "length (slice off len xs) = min len (length xs - off)"
  by (simp add: slice_def)

lemma slice_append_skip: "length xs \<le> off \<Longrightarrow> slice off n (xs @ ys) = slice (off - length xs) n ys"
  by (simp add: slice_def)

lemma slice_0_append [simp]: "slice 0 (length xs) (xs @ ys) = xs"
  by (simp add: slice_def)

lemma slice_slice: "o2 + l2 \<le> l1 \<Longrightarrow> slice o2 l2 (slice o1 l1 xs) = slice (o1 + o2) l2 xs"
  by (simp add: slice_def take_drop add.commute min_def)

lemma slice_split: "slice off (a + b) xs = slice off a xs @ slice (off + a) b xs"
  by (simp add: slice_def take_add add.commute)

lemma slice_all: "length xs \<le> n \<Longrightarrow> slice 0 n xs = xs"
  by (simp add: slice_def)

lemma nth_slice: "i < length (slice off len xs) \<Longrightarrow> slice off len xs ! i = xs ! (off + i)"
  by (cases "off \<le> length xs") (auto simp: slice_def nth_drop)

lemma length_write_bytes [simp]:
  "length (write_bytes off xs file) = max (length file) (off + length xs)"
  by (auto simp: write_bytes_def Let_def max_def min_def)

lemma nth_write_bytes:
  assumes "i < length (write_bytes off xs file)"
  shows "write_bytes off xs file ! i =
    (if off \<le> i \<and> i < off + length xs then xs ! (i - off)
     else if i < length file then file ! i else 0)"
  using assms
  by (auto simp: write_bytes_def Let_def nth_append min_def max_def not_less split: if_splits)

lemma slice_write_same: "slice off (length xs) (write_bytes off xs file) = xs"
proof -
  have len: "length (take off (file @ replicate (off - length file) (0::byte))) = off"
    by simp
  show ?thesis
    by (simp add: write_bytes_def Let_def slice_def)
qed

lemma slice_write_other:
  assumes "o1 + n \<le> o2 \<or> o2 + length xs \<le> o1" and "o1 + n \<le> length file"
  shows "slice o1 n (write_bytes o2 xs file) = slice o1 n file"
proof (rule nth_equalityI)
  show "length (slice o1 n (write_bytes o2 xs file)) = length (slice o1 n file)"
    using assms(2) by simp
next
  fix i
  assume i: "i < length (slice o1 n (write_bytes o2 xs file))"
  with assms(2) have i': "i < length (slice o1 n file)" by simp
  then have "o1 + i < length file" by auto
  with i i' assms show "slice o1 n (write_bytes o2 xs file) ! i = slice o1 n file ! i"
    by (auto simp: nth_slice nth_write_bytes)
qed

lemma write_bytes_commute:
  assumes "o1 + length xs \<le> o2 \<or> o2 + length ys \<le> o1"
  shows "write_bytes o1 xs (write_bytes o2 ys file) = write_bytes o2 ys (write_bytes o1 xs file)"
proof (rule nth_equalityI)
  show "length (write_bytes o1 xs (write_bytes o2 ys file)) =
    length (write_bytes o2 ys (write_bytes o1 xs file))"
    by simp
next
  fix i
  assume "i < length (write_bytes o1 xs (write_bytes o2 ys file))"
  with assms show "write_bytes o1 xs (write_bytes o2 ys file) ! i =
    write_bytes o2 ys (write_bytes o1 xs file) ! i"
    by (auto simp: nth_write_bytes)
qed

lemma write_bytes_split:
  assumes "k \<le> length xs"
  shows "write_bytes (off + k) (drop k xs) (write_bytes off (take k xs) file) = write_bytes off xs file"
proof (rule nth_equalityI)
  show "length (write_bytes (off + k) (drop k xs) (write_bytes off (take k xs) file)) =
    length (write_bytes off xs file)"
    using assms by auto
next
  fix i
  assume "i < length (write_bytes (off + k) (drop k xs) (write_bytes off (take k xs) file))"
  with assms show "write_bytes (off + k) (drop k xs) (write_bytes off (take k xs) file) ! i =
    write_bytes off xs file ! i"
    by (auto simp: nth_write_bytes)
qed

section \<open>Little-endian integers\<close>

primrec le_digits :: "nat \<Rightarrow> nat \<Rightarrow> bytes" where
  "le_digits 0 n = []"
| "le_digits (Suc k) n = of_nat (n mod 256) # le_digits k (n div 256)"

primrec from_le_digits :: "bytes \<Rightarrow> nat" where
  "from_le_digits [] = 0"
| "from_le_digits (b # bs) = unat b + 256 * from_le_digits bs"

definition to_le_bytes :: "'a::len word \<Rightarrow> bytes" where
  "to_le_bytes w = le_digits (LENGTH('a) div 8) (unat w)"

definition from_le_bytes :: "bytes \<Rightarrow> 'a::len word" where
  "from_le_bytes bs = of_nat (from_le_digits bs)"

lemma length_le_digits [simp]: "length (le_digits k n) = k"
  by (induction k arbitrary: n) simp_all

lemma length_to_le_bytes [simp]: "length (to_le_bytes (w::'a::len word)) = LENGTH('a) div 8"
  by (simp add: to_le_bytes_def)

lemma from_le_digits_le_digits: "from_le_digits (le_digits k n) = n mod 256 ^ k"
proof (induction k arbitrary: n)
  case (Suc k)
  have "unat (of_nat (n mod 256) :: byte) = n mod 256"
    by (simp add: unat_of_nat_small)
  then show ?case
    by (simp add: Suc.IH mod_mult2_eq)
qed simp

lemma from_to_le_bytes:
  fixes w :: "'a::len word"
  assumes "LENGTH('a) = 8 * k"
  shows "from_le_bytes (to_le_bytes w) = w"
proof -
  have "unat w < 256 ^ k"
    using unsigned_less [of w] assms by (simp add: power_mult)
  with assms show ?thesis
    by (simp add: from_le_bytes_def to_le_bytes_def from_le_digits_le_digits)
qed

lemma to_le_bytes_inject:
  fixes v w :: "'a::len word"
  assumes "LENGTH('a) = 8 * k"
  shows "to_le_bytes v = to_le_bytes w \<longleftrightarrow> v = w"
  using from_to_le_bytes [OF assms] by metis

lemma to_le_bytes_u16 [simp]: "to_le_bytes v = to_le_bytes w \<longleftrightarrow> v = (w::u16)"
  by (rule to_le_bytes_inject [where k = 2]) simp

lemma to_le_bytes_u32 [simp]: "to_le_bytes v = to_le_bytes w \<longleftrightarrow> v = (w::u32)"
  by (rule to_le_bytes_inject [where k = 4]) simp

lemma to_le_bytes_u64 [simp]: "to_le_bytes v = to_le_bytes w \<longleftrightarrow> v = (w::u64)"
  by (rule to_le_bytes_inject [where k = 8]) simp

end
