(* ===== verification/Text.thy ===== *)
theory Text
  imports Prelude
begin

text \<open>
  Rust's \<open>str\<close> as UTF-8 bytes: a \<^typ>\<open>string\<close> is the byte sequence, \<open>str::len\<close> its
  length, \<open>==\<close> and the order of \<open>str\<close> those of the byte list. The operations of the
  standard library that the program uses, for the characters it uses them with.
\<close>

section \<open>Bytes of a string\<close>

definition code :: "char \<Rightarrow> nat" where
  "code c = of_char c"

lemma code_char_of [simp]: "code (char_of n) = n mod 256"
  by (simp add: code_def)

lemma code_less [simp]: "code c < 256"
  by (simp add: code_def)

lemma code_inject: "code c = code d \<longleftrightarrow> c = d"
  by (metis char_of_char code_def)

definition bytes_of :: "string \<Rightarrow> bytes" where
  "bytes_of s = map (\<lambda>c. of_nat (code c)) s"

lemma bytes_of_simps [simp]: "bytes_of [] = []" "length (bytes_of s) = length s"
  by (simp_all add: bytes_of_def)

lemma bytes_of_inject: "bytes_of s = bytes_of t \<longleftrightarrow> s = t"
proof
  assume eq: "bytes_of s = bytes_of t"
  have inj: "inj (\<lambda>c. of_nat (code c) :: byte)"
  proof (rule injI)
    fix c d
    assume "of_nat (code c) = (of_nat (code d) :: byte)"
    then have "unat (of_nat (code c) :: byte) = unat (of_nat (code d) :: byte)" by simp
    then show "c = d" by (simp add: unat_of_nat_small code_inject)
  qed
  from eq show "s = t" by (simp add: bytes_of_def inj_map_eq_map [OF inj])
qed simp

section \<open>Searching\<close>

definition starts_with :: "'a list \<Rightarrow> 'a list \<Rightarrow> bool" where
  "starts_with p s \<longleftrightarrow> take (length p) s = p"

fun contains :: "'a list \<Rightarrow> 'a list \<Rightarrow> bool" where
  "contains p [] \<longleftrightarrow> p = []"
| "contains p (c # s) \<longleftrightarrow> starts_with p (c # s) \<or> contains p s"

lemma starts_with_append [simp]: "starts_with p (p @ s)"
  by (simp add: starts_with_def)

lemma starts_with_iff: "starts_with p s \<longleftrightarrow> (\<exists>t. s = p @ t)"
  by (metis append_take_drop_id starts_with_append starts_with_def)

lemma contains_iff: "contains p s \<longleftrightarrow> (\<exists>l r. s = l @ p @ r)"
proof (induction s)
  case (Cons c s)
  have "contains p (c # s) \<longleftrightarrow> (\<exists>r. c # s = p @ r) \<or> (\<exists>l r. s = l @ p @ r)"
    by (simp add: starts_with_iff Cons.IH)
  also have "\<dots> \<longleftrightarrow> (\<exists>l r. c # s = l @ p @ r)"
    by (auto simp: Cons_eq_append_conv)
  finally show ?case .
qed auto

lemma contains_refl [simp]: "contains p p"
  unfolding contains_iff by (metis append_Nil append_Nil2)

lemma contains_appendI: "contains p s \<Longrightarrow> contains p (l @ s @ r)"
  unfolding contains_iff by (metis append.assoc)

definition strip_prefix :: "'a list \<Rightarrow> 'a list \<Rightarrow> 'a list option" where
  "strip_prefix p s = (if starts_with p s then Some (drop (length p) s) else None)"

section \<open>UTF-8\<close>

text \<open>\<open>OsStr::to_str\<close>: the bytes of a file name as a \<open>str\<close>, when they are well-formed UTF-8: no
  overlong form, no surrogate, nothing above U+10FFFF.\<close>

definition continuation :: "char \<Rightarrow> bool" where
  "continuation c \<longleftrightarrow> 128 \<le> code c \<and> code c \<le> 191"

fun valid_utf8 :: "string \<Rightarrow> bool" where
  "valid_utf8 [] \<longleftrightarrow> True"
| "valid_utf8 (a # s) \<longleftrightarrow>
     (if code a < 128 then valid_utf8 s
      else if 194 \<le> code a \<and> code a \<le> 223 then
        (case s of b # s' \<Rightarrow> continuation b \<and> valid_utf8 s' | _ \<Rightarrow> False)
      else if 224 \<le> code a \<and> code a \<le> 239 then
        (case s of b # c # s' \<Rightarrow>
             continuation b \<and> continuation c \<and> (code a = 224 \<longrightarrow> 160 \<le> code b) \<and>
             (code a = 237 \<longrightarrow> code b \<le> 159) \<and> valid_utf8 s'
           | _ \<Rightarrow> False)
      else if 240 \<le> code a \<and> code a \<le> 244 then
        (case s of b # c # d # s' \<Rightarrow>
             continuation b \<and> continuation c \<and> continuation d \<and> (code a = 240 \<longrightarrow> 144 \<le> code b) \<and>
             (code a = 244 \<longrightarrow> code b \<le> 143) \<and> valid_utf8 s'
           | _ \<Rightarrow> False)
      else False)"

definition to_str :: "string \<Rightarrow> string option" where
  "to_str s = (if valid_utf8 s then Some s else None)"

lemma valid_utf8_ascii: "\<forall>c \<in> set s. code c < 128 \<Longrightarrow> valid_utf8 s"
  by (induction s) auto

section \<open>ASCII case\<close>

definition ascii_lower :: "char \<Rightarrow> char" where
  "ascii_lower c = (if 65 \<le> code c \<and> code c \<le> 90 then char_of (code c + 32) else c)"

definition ascii_upper :: "char \<Rightarrow> char" where
  "ascii_upper c = (if 97 \<le> code c \<and> code c \<le> 122 then char_of (code c - 32) else c)"

definition to_ascii_lowercase :: "string \<Rightarrow> string" where
  "to_ascii_lowercase s = map ascii_lower s"

definition to_ascii_uppercase :: "string \<Rightarrow> string" where
  "to_ascii_uppercase s = map ascii_upper s"

definition eq_ignore_ascii_case :: "string \<Rightarrow> string \<Rightarrow> bool" where
  "eq_ignore_ascii_case s t \<longleftrightarrow> to_ascii_lowercase s = to_ascii_lowercase t"

lemma to_ascii_lowercase_append:
  "to_ascii_lowercase (s @ t) = to_ascii_lowercase s @ to_ascii_lowercase t"
  by (simp add: to_ascii_lowercase_def)

definition is_ascii_digit :: "char \<Rightarrow> bool" where
  "is_ascii_digit c \<longleftrightarrow> 48 \<le> code c \<and> code c \<le> 57"

definition is_ascii_hexdigit :: "char \<Rightarrow> bool" where
  "is_ascii_hexdigit c \<longleftrightarrow>
     is_ascii_digit c \<or> (65 \<le> code c \<and> code c \<le> 70) \<or> (97 \<le> code c \<and> code c \<le> 102)"

definition is_ascii_alphabetic :: "char \<Rightarrow> bool" where
  "is_ascii_alphabetic c \<longleftrightarrow> (65 \<le> code c \<and> code c \<le> 90) \<or> (97 \<le> code c \<and> code c \<le> 122)"

section \<open>Numbers as text\<close>

definition digit_char :: "nat \<Rightarrow> char" where
  "digit_char d = (if d < 10 then char_of (48 + d) else char_of (87 + d))"

fun dec_string :: "nat \<Rightarrow> string" where
  "dec_string n = (if n < 10 then [digit_char n] else dec_string (n div 10) @ [digit_char (n mod 10)])"

declare dec_string.simps [simp del]

text \<open>\<open>str::parse\<close> for an unsigned integer: an optional plus sign, then at least one digit,
  nothing else, and the value must fit the type.\<close>

fun parse_digits :: "nat \<Rightarrow> string \<Rightarrow> nat option" where
  "parse_digits acc [] = Some acc"
| "parse_digits acc (c # s) =
     (if is_ascii_digit c then parse_digits (10 * acc + (code c - 48)) s else None)"

definition parse_unsigned :: "nat \<Rightarrow> string \<Rightarrow> nat option" where
  "parse_unsigned bound s =
     (let t = (case s of [] \<Rightarrow> [] | c # r \<Rightarrow> if c = CHR ''+'' then r else s)
      in if t = [] then None
         else (case parse_digits 0 t of None \<Rightarrow> None
               | Some n \<Rightarrow> if n < bound then Some n else None))"

primrec hex_digits :: "nat \<Rightarrow> nat \<Rightarrow> string" where
  "hex_digits 0 n = []"
| "hex_digits (Suc k) n = hex_digits k (n div 16) @ [digit_char (n mod 16)]"

definition hex_encode :: "bytes \<Rightarrow> string" where
  "hex_encode bs = concat (map (\<lambda>b. hex_digits 2 (unat b)) bs)"

lemma length_hex_digits [simp]: "length (hex_digits k n) = k"
  by (induction k arbitrary: n) simp_all

lemma length_hex_encode [simp]: "length (hex_encode bs) = 2 * length bs"
  by (induction bs) (simp_all add: hex_encode_def)

lemma digit_char_inject: "a < 16 \<Longrightarrow> b < 16 \<Longrightarrow> digit_char a = digit_char b \<longleftrightarrow> a = b"
proof -
  assume "a < 16" "b < 16"
  moreover have "code (digit_char d) = (if d < 10 then 48 + d else 87 + d)" if "d < 16" for d
    using that by (simp add: digit_char_def)
  ultimately have "code (digit_char a) = code (digit_char b) \<longleftrightarrow> a = b"
    by auto
  then show ?thesis by (simp add: code_inject)
qed

lemma hex_digits_inject:
  "a < 16 ^ k \<Longrightarrow> b < 16 ^ k \<Longrightarrow> hex_digits k a = hex_digits k b \<longleftrightarrow> a = b"
proof (induction k arbitrary: a b)
  case (Suc k)
  have "a div 16 < 16 ^ k" "b div 16 < 16 ^ k"
    using Suc.prems by (auto simp: less_mult_imp_div_less mult.commute)
  then have "hex_digits (Suc k) a = hex_digits (Suc k) b \<longleftrightarrow> a div 16 = b div 16 \<and> a mod 16 = b mod 16"
    by (simp add: Suc.IH digit_char_inject)
  also have "\<dots> \<longleftrightarrow> a = b"
    by (metis div_mult_mod_eq)
  finally show ?case .
qed simp

end
