(* ===== verification/Operation.thy ===== *)
theory Operation
  imports Text
begin

text \<open>
  \<open>operation.rs\<close> and \<open>parallel.rs\<close>: phases, events and error kinds every frontend shares,
  the error chain of \<open>anyhow\<close> and its classification, the cancellation token, the progress
  tracker that serialises parallel callbacks, and the sizes of the worker pool.
  A path is the list of components of an absolute, normalised path.
\<close>

section \<open>Paths\<close>

type_synonym path = "string list"

definition display_path :: "path \<Rightarrow> string" where
  "display_path p = concat (map (\<lambda>c. CHR ''/'' # c) p)"

definition path_parent :: "path \<Rightarrow> path option" where
  "path_parent p = (if p = [] then None else Some (butlast p))"

definition path_file_name :: "path \<Rightarrow> string option" where
  "path_file_name p = (if p = [] then None else Some (last p))"

section \<open>Phases, events and error kinds\<close>

datatype operation_phase = Scan | KeyDerivation | Encrypt | SelfVerify | Extract | Verify | Commit

record operation_progress =
  pr_phase :: operation_phase
  pr_completed :: u64
  pr_total :: u64

datatype temporary_artifact_kind = PackContainer | ExtractionTree

datatype operation_event =
    PhaseStarted operation_phase
  | ScanCompleted nat u64
  | Progress operation_progress
  | Warning string
  | TemporaryArtifact temporary_artifact_kind path
  | CommitStarted
  | Committed
  | MutationStarted

datatype core_error_kind =
    KCancelled | Authentication | Integrity | InvalidFormat | UnsafePath | DestinationExists
  | SourceChanged | Io | Internal

section \<open>Error chains\<close>

text \<open>
  An \<open>anyhow::Error\<close> is its chain of causes, outermost context first. A root cause is a
  message of \<open>bail!\<close>, an I/O error with the text the operating system gives it, the
  cancellation marker, a typed core error, another library's error with its text, or a panic.
\<close>

datatype cause =
    Msg string
  | IoError string
  | OperationCancelled
  | CoreError core_error_kind string
  | Foreign string
  | Panic string

type_synonym error = "cause list"
type_synonym 'a result = "error + 'a"

definition bail :: "string \<Rightarrow> 'a result" where
  "bail m = Inl [Msg m]"

definition ensure :: "bool \<Rightarrow> string \<Rightarrow> unit result" where
  "ensure b m = ensureE b [Msg m]"

definition context_err :: "string \<Rightarrow> 'a result \<Rightarrow> 'a result" where
  "context_err m r = map_err (\<lambda>e. Msg m # e) r"

definition context_opt :: "string \<Rightarrow> 'a option \<Rightarrow> 'a result" where
  "context_opt m o' = ok_or [Msg m] o'"

lemma bail_neq_Inr [simp]: "bail m = Inr a \<longleftrightarrow> False" "bail m = Inl e \<longleftrightarrow> e = [Msg m]"
  by (auto simp: bail_def)

lemma bindE_bail [simp]: "bindE (bail m) f = bail m"
  by (simp add: bail_def)

lemma ensure_simps [simp]: "ensure True m = Inr ()" "ensure False m = Inl [Msg m]"
  by (simp_all add: ensure_def)

lemma ensure_eq_Inr [result_simps]: "ensure b m = Inr u \<longleftrightarrow> b"
  by (simp add: ensure_def result_simps)

lemma ensure_eq_Inl [result_simps]: "ensure b m = Inl e \<longleftrightarrow> \<not> b \<and> e = [Msg m]"
  by (simp add: ensure_def result_simps)

lemma context_err_eq_Inr [result_simps]: "context_err m r = Inr a \<longleftrightarrow> r = Inr a"
  by (simp add: context_err_def result_simps)

lemma context_err_eq_Inl [result_simps]:
  "context_err m r = Inl e \<longleftrightarrow> (\<exists>e'. r = Inl e' \<and> e = Msg m # e')"
  by (simp add: context_err_def result_simps)

lemma context_err_Inr [simp]: "context_err m (Inr a) = Inr a"
  "context_err m (Inl e) = Inl (Msg m # e)"
  by (simp_all add: context_err_def)

lemma context_opt_eq_Inr [result_simps]: "context_opt m o' = Inr a \<longleftrightarrow> o' = Some a"
  by (simp add: context_opt_def result_simps)

lemma context_opt_eq_Inl [result_simps]: "context_opt m o' = Inl e \<longleftrightarrow> o' = None \<and> e = [Msg m]"
  by (simp add: context_opt_def result_simps)

lemma context_opt_simps [simp]: "context_opt m (Some a) = Inr a" "context_opt m None = Inl [Msg m]"
  by (simp_all add: context_opt_def)

fun display_cause :: "cause \<Rightarrow> string" where
  "display_cause (Msg m) = m"
| "display_cause (IoError m) = m"
| "display_cause OperationCancelled = ''CipherFS operation cancelled''"
| "display_cause (CoreError k m) = m"
| "display_cause (Foreign m) = m"
| "display_cause (Panic m) = m"

text \<open>\<open>format!("{error:#}")\<close>: all causes, separated by a colon and a space.\<close>

fun display_chain :: "error \<Rightarrow> string" where
  "display_chain [] = []"
| "display_chain [c] = display_cause c"
| "display_chain (c # cs) = display_cause c @ '': '' @ display_chain cs"

definition is_io :: "cause \<Rightarrow> bool" where
  "is_io c = (case c of IoError _ \<Rightarrow> True | _ \<Rightarrow> False)"

fun find_core :: "error \<Rightarrow> core_error_kind option" where
  "find_core [] = None"
| "find_core (CoreError k m # cs) = Some k"
| "find_core (c # cs) = find_core cs"

definition error_kind :: "error \<Rightarrow> core_error_kind" where
  "error_kind e =
     (case find_core e of Some k \<Rightarrow> k
      | None \<Rightarrow>
          if OperationCancelled \<in> set e then KCancelled
          else if list_ex is_io e then Io
          else Internal)"

definition infer_kind :: "error \<Rightarrow> core_error_kind" where
  "infer_kind e =
     (if OperationCancelled \<in> set e then KCancelled
      else let message = to_ascii_lowercase (display_chain e) in
        if contains ''password'' message \<or> contains ''key slot'' message then Authentication
        else if contains ''authentication'' message \<or> contains ''integrity'' message then Integrity
        else if contains ''destination'' message \<and> contains ''exist'' message then DestinationExists
        else if contains ''source file changed'' message then SourceChanged
        else if contains ''unsafe'' message \<or> contains ''link'' message
             \<or> contains ''reparse'' message \<or> contains ''escape'' message then UnsafePath
        else if contains ''format'' message \<or> contains ''header'' message
             \<or> contains ''container version'' message then InvalidFormat
        else if list_ex is_io e then Io
        else Internal)"

definition typed :: "error \<Rightarrow> error" where
  "typed e = (if find_core e \<noteq> None then e else [CoreError (infer_kind e) (display_chain e)])"

lemma find_core_None: "find_core e = None \<longleftrightarrow> (\<forall>k m. CoreError k m \<notin> set e)"
  by (induction e rule: find_core.induct) auto

lemma typed_has_core: "find_core (typed e) \<noteq> None"
  by (simp add: typed_def)

lemma typed_idem: "typed (typed e) = typed e"
  using typed_has_core [of e] by (simp add: typed_def [of "typed e"])

lemma error_kind_typed:
  "error_kind (typed e) = (case find_core e of Some k \<Rightarrow> k | None \<Rightarrow> infer_kind e)"
  by (auto simp: typed_def error_kind_def split: option.splits)

lemma display_chain_Cons: "\<exists>r. display_chain (c # cs) = display_cause c @ r"
  by (cases cs) auto

lemma display_chain_mem: "c \<in> set e \<Longrightarrow> contains (display_cause c) (display_chain e)"
proof (induction e rule: display_chain.induct)
  case (3 c' d cs)
  show ?case
  proof (cases "c = c'")
    case True
    with display_chain_Cons [of c' "d # cs"] show ?thesis
      unfolding contains_iff by (metis append_Nil)
  next
    case False
    with 3 have "contains (display_cause c) (display_chain (d # cs))" by simp
    from contains_appendI [OF this, of "display_cause c' @ '': ''" "[]"]
    show ?thesis by simp
  qed
qed auto

lemma contains_lower_mem:
  assumes "c \<in> set e" and "contains p (to_ascii_lowercase (display_cause c))"
  shows "contains p (to_ascii_lowercase (display_chain e))"
proof -
  from display_chain_mem [OF assms(1)] obtain l r where "display_chain e = l @ display_cause c @ r"
    by (auto simp: contains_iff)
  then show ?thesis
    using contains_appendI [OF assms(2)] by (simp add: to_ascii_lowercase_append)
qed

section \<open>Cancellation\<close>

type_synonym cancellation_token = bool

definition cancel :: "cancellation_token \<Rightarrow> cancellation_token" where
  "cancel t = True"

definition is_cancelled :: "cancellation_token \<Rightarrow> bool" where
  "is_cancelled t = t"

definition check :: "cancellation_token \<Rightarrow> unit result" where
  "check t = (if is_cancelled t then Inl [OperationCancelled] else Inr ())"

section \<open>Progress\<close>

record progress_tracker =
  tr_phase :: operation_phase
  tr_total :: u64
  tr_completed :: u64

definition tracker_event :: "progress_tracker \<Rightarrow> operation_event" where
  "tracker_event t =
     Progress \<lparr>pr_phase = tr_phase t, pr_completed = tr_completed t, pr_total = tr_total t\<rparr>"

definition tracker_new :: "operation_phase \<Rightarrow> u64 \<Rightarrow> progress_tracker \<times> operation_event list" where
  "tracker_new phase tot =
     (let t = \<lparr>tr_phase = phase, tr_total = tot, tr_completed = 0\<rparr>
      in (t, [PhaseStarted phase, tracker_event t]))"

definition advance :: "u64 \<Rightarrow> progress_tracker \<Rightarrow> progress_tracker \<times> operation_event list" where
  "advance amount t =
     (let t' = t\<lparr>tr_completed := min (saturating_add (tr_completed t) amount) (tr_total t)\<rparr>
      in (t', [tracker_event t']))"

text \<open>The default \<open>ProgressReporter::event\<close> passes progress on and drops every other event;
  \<open>SelfVerifyReporter\<close> keeps that default and renames the verification phase.\<close>

definition default_event :: "(operation_progress \<Rightarrow> operation_event list) \<Rightarrow> operation_event \<Rightarrow> operation_event list" where
  "default_event report ev = (case ev of Progress p \<Rightarrow> report p | _ \<Rightarrow> [])"

definition self_verify_report :: "operation_progress \<Rightarrow> operation_event list" where
  "self_verify_report p =
     [Progress (if pr_phase p = Verify then p\<lparr>pr_phase := SelfVerify\<rparr> else p)]"

definition self_verify_event :: "operation_event \<Rightarrow> operation_event list" where
  "self_verify_event = default_event self_verify_report"

text \<open>The lock of the tracker serialises concurrent callers, so any parallel run is some
  sequence of \<open>advance\<close> calls.\<close>

fun advance_all :: "u64 list \<Rightarrow> progress_tracker \<Rightarrow> progress_tracker \<times> operation_event list" where
  "advance_all [] t = (t, [])"
| "advance_all (a # as) t =
     (let (t', ev) = advance a t; (t'', evs) = advance_all as t' in (t'', ev @ evs))"

definition completed_of :: "operation_event list \<Rightarrow> nat list" where
  "completed_of evs = concat (map (\<lambda>e. case e of Progress p \<Rightarrow> [unat (pr_completed p)] | _ \<Rightarrow> []) evs)"

lemma completed_of_simps [simp]:
  "completed_of [] = []"
  "completed_of (e # es) =
    (case e of Progress p \<Rightarrow> [unat (pr_completed p)] | _ \<Rightarrow> []) @ completed_of es"
  "completed_of (xs @ ys) = completed_of xs @ completed_of ys"
  by (simp_all add: completed_of_def)

lemma unat_advance:
  assumes "unat (tr_completed t) \<le> unat (tr_total t)"
  shows "unat (tr_completed (fst (advance a t))) =
    min (unat (tr_completed t) + unat a) (unat (tr_total t))"
proof -
  have "unat (tr_total t) \<le> 18446744073709551615"
    using unat_u64_bound [of "tr_total t"] by linarith
  then show ?thesis
    by (simp add: advance_def Let_def unat_simps)
qed

lemma advance_facts:
  assumes "unat (tr_completed t) \<le> unat (tr_total t)" and "advance a t = (t', evs)"
  shows "unat (tr_completed t') = min (unat (tr_completed t) + unat a) (unat (tr_total t))"
    and "tr_total t' = tr_total t" and "evs = [tracker_event t']"
  using unat_advance [OF assms(1), of a] assms(2) by (auto simp: advance_def Let_def)

lemma advance_all_final:
  assumes "unat (tr_completed t) \<le> unat (tr_total t)"
  shows "unat (tr_completed (fst (advance_all as t))) =
    min (unat (tr_completed t) + sum_list (map unat as)) (unat (tr_total t))"
  using assms
proof (induction as arbitrary: t)
  case (Cons a as)
  obtain t' ev where adv: "advance a t = (t', ev)" by (cases "advance a t")
  note f = advance_facts [OF Cons.prems adv]
  have "fst (advance_all (a # as) t) = fst (advance_all as t')"
    by (simp add: adv case_prod_beta)
  moreover have "unat (tr_completed (fst (advance_all as t'))) =
      min (unat (tr_completed t') + sum_list (map unat as)) (unat (tr_total t'))"
    using f by (intro Cons.IH) simp
  ultimately show ?case unfolding f by simp
qed simp

lemma advance_all_events:
  assumes "unat (tr_completed t) \<le> unat (tr_total t)"
  shows "sorted (unat (tr_completed t) # completed_of (snd (advance_all as t))) \<and>
    length (snd (advance_all as t)) = length as \<and>
    (\<forall>n \<in> set (completed_of (snd (advance_all as t))). n \<le> unat (tr_total t))"
  using assms
proof (induction as arbitrary: t)
  case (Cons a as)
  obtain t' ev where adv: "advance a t = (t', ev)" by (cases "advance a t")
  note f = advance_facts [OF Cons.prems adv]
  have ev: "snd (advance_all (a # as) t) = tracker_event t' # snd (advance_all as t')"
    by (simp add: adv f(3) case_prod_beta)
  have comp: "completed_of (snd (advance_all (a # as) t)) =
      unat (tr_completed t') # completed_of (snd (advance_all as t'))"
    unfolding ev by (simp add: tracker_event_def)
  have le: "unat (tr_completed t') \<le> unat (tr_total t')"
    "unat (tr_completed t) \<le> unat (tr_completed t')"
    using f Cons.prems by simp_all
  show ?case
    unfolding comp using ev Cons.IH [OF le(1)] le f(2) by (auto intro: order_trans)
qed simp

section \<open>Worker pool sizes\<close>

definition AUTO_THREADS :: nat where "AUTO_THREADS = 0"

definition MAX_DEFAULT_THREADS :: nat where "MAX_DEFAULT_THREADS = 6"

definition balanced_threads :: "nat \<Rightarrow> nat" where
  "balanced_threads available = max 1 (min MAX_DEFAULT_THREADS (available div 2))"

text \<open>\<open>available_parallelism\<close> may fail; the default is then one thread.\<close>

definition default_threads :: "nat option \<Rightarrow> nat" where
  "default_threads parallelism = balanced_threads (case parallelism of None \<Rightarrow> 1 | Some n \<Rightarrow> n)"

text \<open>The pool \<open>install\<close> builds: the requested number of threads, or rayon's own choice.\<close>

definition install_threads :: "nat \<Rightarrow> nat \<Rightarrow> nat" where
  "install_threads rayon_default threads = (if threads \<noteq> AUTO_THREADS then threads else rayon_default)"

definition ordered_batch_size :: "nat \<Rightarrow> nat" where
  "ordered_batch_size current_num_threads = max current_num_threads 1"

lemma balanced_threads_bounds: "1 \<le> balanced_threads n" "balanced_threads n \<le> MAX_DEFAULT_THREADS"
  by (simp_all add: balanced_threads_def MAX_DEFAULT_THREADS_def)

end
