(* ===== verification/PlatformIo.thy ===== *)
theory PlatformIo
  imports Operation
begin

text \<open>
  \<open>platform_io.rs\<close> and the fingerprint of \<open>platform_metadata.rs\<close>: positional reads and
  writes that retry short transfers until the buffer is done, over any \<open>read_at\<close> and
  \<open>write_at\<close> of the platform. The interface of the platform is the locale
  \<open>positional_file\<close>; a file whose transfers may be cut short anywhere provides it.
\<close>

section \<open>The retry loops\<close>

definition eof_error :: error where
  "eof_error = [IoError ''failed to fill whole buffer'']"

definition write_zero_error :: error where
  "write_zero_error = [IoError ''failed to write whole buffer'']"

definition offset_overflow_error :: error where
  "offset_overflow_error = [IoError ''file offset overflow'']"

type_synonym read_at = "u64 \<Rightarrow> nat \<Rightarrow> bytes result"
type_synonym write_at = "u64 \<Rightarrow> bytes \<Rightarrow> bytes \<Rightarrow> nat result \<times> bytes"

function read_exact_at :: "read_at \<Rightarrow> nat \<Rightarrow> u64 \<Rightarrow> bytes result" where
  "read_exact_at rd n off =
     (if n = 0 then Inr []
      else bindE (rd off n) (\<lambda>bs.
        if bs = [] then Inl eof_error
        else bindE (ok_or offset_overflow_error (checked_add off (of_nat (length bs)))) (\<lambda>off'.
          bindE (read_exact_at rd (n - length bs) off') (\<lambda>rest. Inr (bs @ rest)))))"
  by pat_completeness auto
termination
  by (relation "measure (\<lambda>(rd, n, off). n)") (simp_all add: diff_less)

declare read_exact_at.simps [simp del]

text \<open>\<open>write_at\<close> takes the offset, the data and the file and gives the number of bytes it
  took with the file it leaves.\<close>

function write_all_at :: "write_at \<Rightarrow> bytes \<Rightarrow> u64 \<Rightarrow> bytes \<Rightarrow> unit result \<times> bytes" where
  "write_all_at wr data off file =
     (if data = [] then (Inr (), file)
      else (case wr off data file of
        (Inl e, file') \<Rightarrow> (Inl e, file')
      | (Inr count, file') \<Rightarrow>
          if count = 0 then (Inl write_zero_error, file')
          else (case checked_add off (of_nat count) of
            None \<Rightarrow> (Inl offset_overflow_error, file')
          | Some off' \<Rightarrow> write_all_at wr (drop count data) off' file')))"
  by pat_completeness auto
termination
  by (relation "measure (\<lambda>(wr, data, off, file). length data)") auto

declare write_all_at.simps [simp del]

section \<open>The interface of the platform\<close>

text \<open>A read inside the file gives a nonempty prefix of what was asked for, a read at or past
  the end gives nothing; a write of something takes a nonempty prefix.\<close>

locale positional_file =
  fixes rd :: "bytes \<Rightarrow> read_at" and wr :: write_at
  assumes read_inside: "0 < n \<Longrightarrow> unat off < length c \<Longrightarrow>
      \<exists>k. 0 < k \<and> k \<le> n \<and> unat off + k \<le> length c \<and> rd c off n = Inr (slice (unat off) k c)"
    and read_outside: "0 < n \<Longrightarrow> length c \<le> unat off \<Longrightarrow> rd c off n = Inr []"
    and write_prefix: "data \<noteq> [] \<Longrightarrow>
      \<exists>k. 0 < k \<and> k \<le> length data \<and> wr off data c = (Inr k, write_bytes (unat off) (take k data) c)"
begin

lemma read_exact_at_inside:
  assumes "unat off + n \<le> length c" and "length c < 2 ^ 64"
  shows "read_exact_at (rd c) n off = Inr (slice (unat off) n c)"
  using assms(1)
proof (induction n arbitrary: off rule: less_induct)
  case (less n)
  show ?case
  proof (cases "n = 0")
    case True
    then show ?thesis by (simp add: read_exact_at.simps slice_def)
  next
    case False
    with less.prems obtain k where k: "0 < k" "k \<le> n" "unat off + k \<le> length c"
        "rd c off n = Inr (slice (unat off) k c)"
      using read_inside [of n off c] by auto
    have len: "length (slice (unat off) k c) = k"
      using k by simp
    have small: "unat off + k < 2 ^ 64"
      using k(3) assms(2) by linarith
    then have uk: "unat (of_nat k :: u64) = k"
      by (intro unat_of_nat_small) simp
    define off' where "off' = off + (of_nat k :: u64)"
    have off': "checked_add off (of_nat k) = Some off'" "unat off' = unat off + k"
      using small uk by (simp_all add: off'_def checked_add_def unat_add_exact)
    have "read_exact_at (rd c) (n - k) off' = Inr (slice (unat off') (n - k) c)"
      using k less.prems off'(2) by (intro less.IH) simp_all
    moreover have "slice (unat off) k c @ slice (unat off') (n - k) c = slice (unat off) n c"
      using k(2) by (simp add: off'(2) slice_split [symmetric])
    moreover have "slice (unat off) k c \<noteq> []"
      using len k(1) by (metis length_0_conv less_irrefl)
    ultimately show ?thesis
      using False k(4) len off'(1) by (simp add: read_exact_at.simps [of "rd c" n off])
  qed
qed

lemma read_exact_at_eof:
  assumes "length c < unat off + n" and "0 < n" and "length c < 2 ^ 64"
  shows "read_exact_at (rd c) n off = Inl eof_error"
  using assms(1,2)
proof (induction n arbitrary: off rule: less_induct)
  case (less n)
  show ?case
  proof (cases "length c \<le> unat off")
    case True
    with less.prems read_outside show ?thesis
      by (simp add: read_exact_at.simps [of "rd c" n off])
  next
    case False
    with less.prems obtain k where k: "0 < k" "k \<le> n" "unat off + k \<le> length c"
        "rd c off n = Inr (slice (unat off) k c)"
      using read_inside [of n off c] by auto
    have len: "length (slice (unat off) k c) = k"
      using k by simp
    have small: "unat off + k < 2 ^ 64"
      using k(3) assms(3) by linarith
    then have uk: "unat (of_nat k :: u64) = k"
      by (intro unat_of_nat_small) simp
    define off' where "off' = off + (of_nat k :: u64)"
    have off': "checked_add off (of_nat k) = Some off'" "unat off' = unat off + k"
      using small uk by (simp_all add: off'_def checked_add_def unat_add_exact)
    have "read_exact_at (rd c) (n - k) off' = Inl eof_error"
      using k less.prems off'(2) by (intro less.IH) simp_all
    moreover have "slice (unat off) k c \<noteq> []"
      using len k(1) by (metis length_0_conv less_irrefl)
    ultimately show ?thesis
      using less.prems k(4) len off'(1) by (simp add: read_exact_at.simps [of "rd c" n off])
  qed
qed

lemma write_all_at_whole:
  assumes "unat off + length data < 2 ^ 64"
  shows "write_all_at wr data off c = (Inr (), if data = [] then c else write_bytes (unat off) data c)"
  using assms
proof (induction data arbitrary: off c rule: length_induct)
  case (1 data)
  show ?case
  proof (cases "data = []")
    case True
    then show ?thesis by (simp add: write_all_at.simps)
  next
    case False
    then obtain k where k: "0 < k" "k \<le> length data"
        "wr off data c = (Inr k, write_bytes (unat off) (take k data) c)"
      using write_prefix [of data off c] by auto
    have "k < 2 ^ 64" using k(2) "1.prems" by simp
    then have uk: "unat (of_nat k :: u64) = k"
      by (intro unat_of_nat_small) simp
    define off' where "off' = off + (of_nat k :: u64)"
    have off': "checked_add off (of_nat k) = Some off'" "unat off' = unat off + k"
      using "1.prems" k(2) uk by (simp_all add: off'_def checked_add_def unat_add_exact)
    have "write_all_at wr (drop k data) off' (write_bytes (unat off) (take k data) c) =
      (Inr (), if drop k data = [] then write_bytes (unat off) (take k data) c
        else write_bytes (unat off') (drop k data) (write_bytes (unat off) (take k data) c))"
      using k False "1.prems" off'(2) by (intro "1.IH" [rule_format]) simp_all
    moreover have "write_bytes (unat off') (drop k data) (write_bytes (unat off) (take k data) c) =
        write_bytes (unat off) data c"
      unfolding off'(2) using write_bytes_split k(2) by simp
    ultimately show ?thesis
      using False k off'(1)
      by (auto simp: write_all_at.simps [of wr data off c])
  qed
qed

end

section \<open>Files with short transfers\<close>

text \<open>\<open>lim\<close> says how many bytes the platform moves at most in the transfer at an offset.\<close>

definition file_read_at :: "(u64 \<Rightarrow> nat) \<Rightarrow> bytes \<Rightarrow> read_at" where
  "file_read_at lim c off n = Inr (slice (unat off) (min n (max 1 (lim off))) c)"

definition file_write_at :: "(u64 \<Rightarrow> nat) \<Rightarrow> write_at" where
  "file_write_at lim off data c =
     (let k = min (length data) (max 1 (lim off))
      in (Inr k, write_bytes (unat off) (take k data) c))"

interpretation pf: positional_file "file_read_at lim" "file_write_at lim" for lim
proof unfold_locales
  fix n :: nat and off :: u64 and c :: bytes
  assume "0 < n" "unat off < length c"
  then show "\<exists>k. 0 < k \<and> k \<le> n \<and> unat off + k \<le> length c \<and>
      file_read_at lim c off n = Inr (slice (unat off) k c)"
    by (intro exI [of _ "min (min n (max 1 (lim off))) (length c - unat off)"])
      (auto simp: file_read_at_def slice_def min_def)
next
  fix n :: nat and off :: u64 and c :: bytes
  assume "0 < n" "length c \<le> unat off"
  then show "file_read_at lim c off n = Inr []"
    by (simp add: file_read_at_def slice_def)
next
  fix data c :: bytes and off :: u64
  assume "data \<noteq> []"
  then show "\<exists>k. 0 < k \<and> k \<le> length data \<and>
      file_write_at lim off data c = (Inr k, write_bytes (unat off) (take k data) c)"
    by (intro exI [of _ "min (length data) (max 1 (lim off))"])
      (simp add: file_write_at_def Let_def)
qed

section \<open>Exact readers\<close>

text \<open>What the rest of the program sees of \<open>read_exact_at\<close> on a file with content \<open>c\<close>.\<close>

type_synonym reader = "u64 \<Rightarrow> nat \<Rightarrow> bytes result"

definition content_reader :: "bytes \<Rightarrow> reader" where
  "content_reader c off n =
     (if n = 0 then Inr []
      else if unat off + n \<le> length c then Inr (slice (unat off) n c)
      else Inl eof_error)"

lemma content_reader_refines:
  assumes "length c < 2 ^ 64"
  shows "read_exact_at (file_read_at lim c) n off = content_reader c off n"
proof (cases "n = 0")
  case True
  then show ?thesis by (simp add: content_reader_def read_exact_at.simps)
next
  case False
  with pf.read_exact_at_inside [of off n c] pf.read_exact_at_eof [of c off n] assms
  show ?thesis by (auto simp: content_reader_def not_le)
qed

lemma content_reader_Inr:
  "content_reader c off n = Inr bs \<Longrightarrow> bs = slice (unat off) n c \<and> length bs = n"
  by (auto simp: content_reader_def slice_def split: if_splits)

section \<open>Fingerprints\<close>

text \<open>\<open>FileFingerprint\<close>: length, modification time and identity (device and inode) of an open
  file, compared to notice a source that changed.\<close>

record file_data =
  fd_bytes :: bytes
  fd_modified :: u64
  fd_identity :: "(u64 \<times> u64) option"

record file_fingerprint =
  fp_len :: u64
  fp_modified :: u64
  fp_identity :: "(u64 \<times> u64) option"

definition fingerprint_from_file :: "file_data \<Rightarrow> file_fingerprint" where
  "fingerprint_from_file f =
     \<lparr>fp_len = of_nat (length (fd_bytes f)), fp_modified = fd_modified f, fp_identity = fd_identity f\<rparr>"

end
