(* ===== verification/V2Format.thy ===== *)
theory V2Format
  imports PlatformIo
begin

text \<open>
  The v2 container format of \<open>v2.rs\<close>: constants, header, key slots and entries, the
  resource limits checked before anything expensive, the size arithmetic of encrypted files,
  and the associated data that binds header, index, slots and chunks to their ciphertexts.
  Argon2, HKDF, BLAKE3, ChaCha20-Poly1305 and MessagePack are third-party packages: they are the
  fields of the parameter \<open>prims\<close>.
\<close>

section \<open>Constants\<close>

definition MAGIC :: bytes where "MAGIC = [0x43, 0x46, 0x53, 0x02]"

definition VERSION :: u16 where "VERSION = 2"

definition HEADER_SIZE :: nat where "HEADER_SIZE = 4096"

definition CHUNK_SIZE :: nat where "CHUNK_SIZE = 4 * 1024 * 1024"

definition TAG_SIZE :: u64 where "TAG_SIZE = 16"

definition MAX_INDEX_SIZE :: u64 where "MAX_INDEX_SIZE = 512 * 1024 * 1024"

definition MAX_ENTRIES :: nat where "MAX_ENTRIES = 5000000"

definition MAX_NAME_BYTES :: nat where "MAX_NAME_BYTES = 255"

definition MAX_DEPTH :: u32 where "MAX_DEPTH = 1024"

definition MIN_ARGON_MEMORY_KIB :: u32 where "MIN_ARGON_MEMORY_KIB = 8 * 1024"

definition MAX_ARGON_MEMORY_KIB :: u32 where "MAX_ARGON_MEMORY_KIB = 1024 * 1024"

definition MAX_ARGON_TIME :: u32 where "MAX_ARGON_TIME = 10"

definition MAX_ARGON_LANES :: u32 where "MAX_ARGON_LANES = 16"

text \<open>\<open>CHUNK_SIZE as u64\<close> and \<open>HEADER_SIZE as u64\<close>.\<close>

abbreviation CHUNK64 :: u64 where "CHUNK64 \<equiv> of_nat CHUNK_SIZE"

abbreviation HEADER64 :: u64 where "HEADER64 \<equiv> of_nat HEADER_SIZE"

lemma CHUNK_SIZE_pos [simp]: "0 < CHUNK_SIZE" "CHUNK_SIZE \<noteq> 0"
  by (simp_all add: CHUNK_SIZE_def)

lemma unat_consts [simp]:
  "unat CHUNK64 = CHUNK_SIZE" "unat HEADER64 = HEADER_SIZE" "unat TAG_SIZE = 16"
  by (simp_all add: CHUNK_SIZE_def HEADER_SIZE_def TAG_SIZE_def)

section \<open>Records of the format\<close>

record argon2_params =
  m_cost :: u32
  t_cost :: u32
  p_cost :: u32

definition argon2_default :: argon2_params where
  "argon2_default = \<lparr>m_cost = 65536, t_cost = 3, p_cost = 4\<rparr>"

record key_slot =
  ks_generation :: u64
  ks_salt :: bytes
  ks_params :: argon2_params
  ks_nonce :: bytes
  ks_encrypted_dek :: bytes

record duress_slot =
  ds_enabled :: bool
  ds_salt :: bytes
  ds_params :: argon2_params
  ds_nonce :: bytes
  ds_encrypted_marker :: bytes

record header =
  h_magic :: bytes
  h_version :: u16
  h_header_size :: u32
  h_container_id :: bytes
  h_chunk_size :: u32
  h_index_size :: u64
  h_data_size :: u64
  h_entry_count :: u64
  h_index_nonce :: bytes
  h_slots :: "key_slot \<times> key_slot"
  h_duress :: duress_slot

datatype entry_kind = File | Directory

record entry =
  e_id :: u64
  e_parent_id :: u64
  e_name :: string
  e_depth :: u32
  e_kind :: entry_kind
  e_file_id :: bytes
  e_size :: u64
  e_data_offset :: u64
  e_encrypted_size :: u64
  e_chunk_count :: u64

text \<open>A sequence as a deserialiser hands it out: the announced length, if any, and the
  elements one by one, each of which may fail to decode.\<close>

record entry_seq =
  es_hint :: "nat option"
  es_items :: "entry result list"

section \<open>Third-party operations\<close>

record prims =
  p_argon2_params :: "argon2_params \<Rightarrow> string + unit"
  p_argon2 :: "string \<Rightarrow> bytes \<Rightarrow> argon2_params \<Rightarrow> string + bytes"
  p_hkdf_expand :: "bytes \<Rightarrow> bytes \<Rightarrow> bytes \<Rightarrow> bytes option"
  p_blake3 :: "bytes \<Rightarrow> bytes"
  p_encrypt :: "bytes \<Rightarrow> bytes \<Rightarrow> bytes \<Rightarrow> bytes \<Rightarrow> bytes option"
  p_decrypt :: "bytes \<Rightarrow> bytes \<Rightarrow> bytes \<Rightarrow> bytes \<Rightarrow> bytes option"
  p_header_to_vec :: "header \<Rightarrow> bytes result"
  p_header_from :: "bytes \<Rightarrow> header result"
  p_index_to_vec :: "entry list \<Rightarrow> bytes result"
  p_index_seq :: "bytes \<Rightarrow> entry_seq option result"

text \<open>What the code relies on, as documented by the packages. An AEAD decrypts what it
  encrypted under the same key, nonce and associated data, and appends a 16 byte tag;
  decryption accepts only outputs of encryption. A digest has 32 bytes. The codecs give back
  what they wrote; the header decoder stops at the end of the value, so zero padding after it
  changes nothing.\<close>

definition aead_ok :: "prims \<Rightarrow> bool" where
  "aead_ok P \<longleftrightarrow>
     (\<forall>k n a m. \<exists>c. p_encrypt P k n a m = Some c \<and> length c = length m + 16) \<and>
     (\<forall>k n a m c. p_encrypt P k n a m = Some c \<longrightarrow> p_decrypt P k n a c = Some m) \<and>
     (\<forall>k n a m c. p_decrypt P k n a c = Some m \<longrightarrow> p_encrypt P k n a m = Some c)"

definition digest_ok :: "prims \<Rightarrow> bool" where
  "digest_ok P \<longleftrightarrow> (\<forall>m. length (p_blake3 P m) = 32)"

definition hkdf_ok :: "prims \<Rightarrow> bool" where
  "hkdf_ok P \<longleftrightarrow> (\<forall>s k i. \<exists>out. p_hkdf_expand P s k i = Some out \<and> length out = 32)"

definition header_codec_ok :: "prims \<Rightarrow> bool" where
  "header_codec_ok P \<longleftrightarrow>
     (\<forall>h bs. p_header_to_vec P h = Inr bs \<longrightarrow> (\<forall>k. p_header_from P (bs @ replicate k 0) = Inr h))"

definition index_codec_ok :: "prims \<Rightarrow> bool" where
  "index_codec_ok P \<longleftrightarrow>
     (\<forall>es bs. p_index_to_vec P es = Inr bs \<longrightarrow>
        p_index_seq P bs = Inr (Some \<lparr>es_hint = Some (length es), es_items = map Inr es\<rparr>))"

lemma aead_encrypt_total: "aead_ok P \<Longrightarrow> \<exists>c. p_encrypt P k n a m = Some c \<and> length c = length m + 16"
  unfolding aead_ok_def by blast

lemma aead_decrypt_encrypt: "aead_ok P \<Longrightarrow> p_encrypt P k n a m = Some c \<Longrightarrow> p_decrypt P k n a c = Some m"
  unfolding aead_ok_def by blast

lemma aead_decrypt_length:
  assumes "aead_ok P" and "p_decrypt P k n a c = Some m"
  shows "length c = length m + 16"
proof -
  from assms have "p_encrypt P k n a m = Some c" unfolding aead_ok_def by blast
  with aead_encrypt_total [OF assms(1), of k n a m] show ?thesis by auto
qed

section \<open>Limits\<close>

definition validate_argon2 :: "argon2_params \<Rightarrow> unit result" where
  "validate_argon2 params =
     (if \<not> (MIN_ARGON_MEMORY_KIB \<le> m_cost params \<and> m_cost params \<le> MAX_ARGON_MEMORY_KIB)
       \<or> \<not> (1 \<le> t_cost params \<and> t_cost params \<le> MAX_ARGON_TIME)
       \<or> \<not> (1 \<le> p_cost params \<and> p_cost params \<le> MAX_ARGON_LANES)
      then bail (''Argon2 parameters exceed local safety limits (m='' @ dec_string (unat (m_cost params))
        @ '', t='' @ dec_string (unat (t_cost params)) @ '', p='' @ dec_string (unat (p_cost params)) @ '')'')
      else Inr ())"

definition argon2_within_limits :: "argon2_params \<Rightarrow> bool" where
  "argon2_within_limits params \<longleftrightarrow>
     8192 \<le> unat (m_cost params) \<and> unat (m_cost params) \<le> 1048576 \<and>
     1 \<le> unat (t_cost params) \<and> unat (t_cost params) \<le> 10 \<and>
     1 \<le> unat (p_cost params) \<and> unat (p_cost params) \<le> 16"

lemma validate_argon2_eq_Inr [result_simps]:
  "validate_argon2 params = Inr u \<longleftrightarrow> argon2_within_limits params"
  by (auto simp: validate_argon2_def argon2_within_limits_def MIN_ARGON_MEMORY_KIB_def
      MAX_ARGON_MEMORY_KIB_def MAX_ARGON_TIME_def MAX_ARGON_LANES_def word_le_nat_alt)

definition validate_header_basic :: "header \<Rightarrow> u64 option \<Rightarrow> unit result" where
  "validate_header_basic h file_len =
     (if h_magic h \<noteq> MAGIC \<or> h_version h \<noteq> VERSION \<or> unat (h_header_size h) \<noteq> HEADER_SIZE
        \<or> unat (h_chunk_size h) \<noteq> CHUNK_SIZE
      then bail ''Unsupported or invalid CipherFS v2 header''
      else if h_index_size h < TAG_SIZE \<or> MAX_INDEX_SIZE < h_index_size h
      then bail ''Index size exceeds local safety limits''
      else if MAX_ENTRIES < unat (h_entry_count h)
      then bail ''Entry count exceeds local safety limits''
      else
        bindE (foldE (\<lambda>slot _. if 0 < ks_generation slot then validate_argon2 (ks_params slot) else Inr ())
          [fst (h_slots h), snd (h_slots h)] ()) (\<lambda>_.
        bindE (if ds_enabled (h_duress h) then validate_argon2 (ds_params (h_duress h)) else Inr ()) (\<lambda>_.
        (case file_len of
          None \<Rightarrow> Inr ()
        | Some len \<Rightarrow>
            bindE (context_opt ''Container length overflow''
              (Option.bind (checked_add HEADER64 (h_index_size h)) (\<lambda>v. checked_add v (h_data_size h))))
              (\<lambda>expected.
                if expected \<noteq> len
                then bail ''Container length does not match authenticated layout''
                else Inr ())))))"

text \<open>The same checks as one condition.\<close>

definition header_within_limits :: "header \<Rightarrow> bool" where
  "header_within_limits h \<longleftrightarrow>
     h_magic h = MAGIC \<and> h_version h = VERSION \<and> unat (h_header_size h) = HEADER_SIZE \<and>
     unat (h_chunk_size h) = CHUNK_SIZE \<and>
     16 \<le> unat (h_index_size h) \<and> unat (h_index_size h) \<le> 512 * 1024 * 1024 \<and>
     unat (h_entry_count h) \<le> MAX_ENTRIES \<and>
     (\<forall>slot \<in> {fst (h_slots h), snd (h_slots h)}.
        0 < ks_generation slot \<longrightarrow> argon2_within_limits (ks_params slot)) \<and>
     (ds_enabled (h_duress h) \<longrightarrow> argon2_within_limits (ds_params (h_duress h)))"

lemma validate_header_basic_None:
  "validate_header_basic h None = Inr () \<longleftrightarrow> header_within_limits h"
  by (auto simp: validate_header_basic_def header_within_limits_def result_simps
      word_less_nat_alt TAG_SIZE_def MAX_INDEX_SIZE_def)

lemma validate_header_basic_Some:
  "validate_header_basic h (Some len) = Inr () \<longleftrightarrow>
     header_within_limits h \<and>
     HEADER_SIZE + unat (h_index_size h) + unat (h_data_size h) = unat len"
proof -
  have idx: "checked_add HEADER64 (h_index_size h) = Some v \<longleftrightarrow>
      unat v = HEADER_SIZE + unat (h_index_size h)" for v
    by (simp add: checked_add_eq_Some)
  have "validate_header_basic h (Some len) = Inr () \<longleftrightarrow>
      header_within_limits h \<and>
      (\<exists>v. checked_add HEADER64 (h_index_size h) = Some v \<and> checked_add v (h_data_size h) = Some len)"
    by (auto simp: validate_header_basic_def header_within_limits_def result_simps
        word_less_nat_alt TAG_SIZE_def MAX_INDEX_SIZE_def Option.bind_eq_Some_conv)
  also have "\<dots> \<longleftrightarrow> header_within_limits h \<and>
      HEADER_SIZE + unat (h_index_size h) + unat (h_data_size h) = unat len"
  proof (intro conj_cong refl iffI)
    assume "\<exists>v. checked_add HEADER64 (h_index_size h) = Some v \<and> checked_add v (h_data_size h) = Some len"
    then show "HEADER_SIZE + unat (h_index_size h) + unat (h_data_size h) = unat len"
      by (auto simp: checked_add_eq_Some)
  next
    assume w: "header_within_limits h"
      and eq: "HEADER_SIZE + unat (h_index_size h) + unat (h_data_size h) = unat len"
    have "unat (HEADER64 + h_index_size h) = HEADER_SIZE + unat (h_index_size h)"
      using w by (subst unat_add_exact) (simp_all add: header_within_limits_def HEADER_SIZE_def)
    with eq show "\<exists>v. checked_add HEADER64 (h_index_size h) = Some v \<and>
        checked_add v (h_data_size h) = Some len"
      by (intro exI [of _ "HEADER64 + h_index_size h"]) (simp add: checked_add_eq_Some)
  qed
  finally show ?thesis .
qed

section \<open>Sizes of encrypted files\<close>

definition encrypted_file_size :: "u64 \<Rightarrow> (u64 \<times> u64) result" where
  "encrypted_file_size sz =
     (if sz = 0 then Inr (0, 0)
      else
        bindE (context_opt ''File size overflow'' (checked_add sz (CHUNK64 - 1))) (\<lambda>padded.
        let chunks = padded div CHUNK64 in
        bindE (context_opt ''Chunk overhead overflow'' (checked_mul chunks TAG_SIZE)) (\<lambda>overhead.
        bindE (context_opt ''Encrypted file size overflow'' (checked_add sz overhead)) (\<lambda>encrypted.
        Inr (chunks, encrypted)))))"

text \<open>Chunks needed for a size, rounded up, and the plaintext length of one chunk.\<close>

definition chunks_for :: "nat \<Rightarrow> nat" where
  "chunks_for n = (n + (CHUNK_SIZE - 1)) div CHUNK_SIZE"

definition chunk_len :: "nat \<Rightarrow> nat \<Rightarrow> nat" where
  "chunk_len n i = min CHUNK_SIZE (n - i * CHUNK_SIZE)"

lemma chunks_for_0 [simp]: "chunks_for 0 = 0"
  by (simp add: chunks_for_def CHUNK_SIZE_def)

lemma chunks_for_upper: "n \<le> chunks_for n * CHUNK_SIZE"
proof -
  have "n + (CHUNK_SIZE - 1) < (chunks_for n + 1) * CHUNK_SIZE"
    unfolding chunks_for_def using dividend_less_div_times [of CHUNK_SIZE "n + (CHUNK_SIZE - 1)"]
    by (simp add: algebra_simps)
  then show ?thesis by (simp add: algebra_simps)
qed

lemma less_chunks_for: "i < chunks_for n \<longleftrightarrow> i * CHUNK_SIZE < n"
proof
  assume "i < chunks_for n"
  then have "Suc i * CHUNK_SIZE \<le> chunks_for n * CHUNK_SIZE"
    by (intro mult_le_mono1) simp
  also have "\<dots> \<le> n + (CHUNK_SIZE - 1)"
    unfolding chunks_for_def by simp
  finally have "i * CHUNK_SIZE + CHUNK_SIZE \<le> n + (CHUNK_SIZE - 1)" by simp
  moreover have "0 < CHUNK_SIZE" by simp
  ultimately show "i * CHUNK_SIZE < n" by linarith
next
  assume "i * CHUNK_SIZE < n"
  with chunks_for_upper [of n] have "i * CHUNK_SIZE < chunks_for n * CHUNK_SIZE" by linarith
  then show "i < chunks_for n" by simp
qed

lemma chunk_len_bounds: "i < chunks_for n \<Longrightarrow> 0 < chunk_len n i" "chunk_len n i \<le> CHUNK_SIZE"
  by (simp_all add: chunk_len_def less_chunks_for)

lemma chunk_len_full: "Suc i < chunks_for n \<Longrightarrow> chunk_len n i = CHUNK_SIZE"
  by (simp add: chunk_len_def less_chunks_for)

lemma encrypted_file_size_eq_Inr:
  "encrypted_file_size sz = Inr (c, enc) \<longleftrightarrow>
     (sz = 0 \<or> unat sz + (CHUNK_SIZE - 1) < 2 ^ 64) \<and>
     unat c = chunks_for (unat sz) \<and> unat enc = unat sz + 16 * chunks_for (unat sz)"
proof (cases "sz = 0")
  case True
  have "encrypted_file_size sz = Inr (c, enc) \<longleftrightarrow> 0 = c \<and> 0 = enc"
    using True by (simp add: encrypted_file_size_def)
  also have "\<dots> \<longleftrightarrow> unat c = 0 \<and> unat enc = 0"
    by (metis unat_eq_zero)
  finally show ?thesis
    using True by simp
next
  case False
  have one: "unat (CHUNK64 - 1) = CHUNK_SIZE - 1"
    by (subst unat_sub_exact) (simp_all add: word_le_nat_alt CHUNK_SIZE_def)
  have padded: "checked_add sz (CHUNK64 - 1) = Some p \<longleftrightarrow> unat p = unat sz + (CHUNK_SIZE - 1)" for p
    by (simp add: checked_add_eq_Some one)
  have "encrypted_file_size sz = Inr (c, enc) \<longleftrightarrow>
      (\<exists>p. checked_add sz (CHUNK64 - 1) = Some p \<and> c = p div CHUNK64 \<and>
        (\<exists>ov. checked_mul c TAG_SIZE = Some ov \<and> checked_add sz ov = Some enc))"
    using False by (auto simp: encrypted_file_size_def Let_def result_simps)
  also have "\<dots> \<longleftrightarrow> unat sz + (CHUNK_SIZE - 1) < 2 ^ 64 \<and>
      unat c = chunks_for (unat sz) \<and> unat enc = unat sz + 16 * chunks_for (unat sz)"
  proof (intro iffI conjI; (elim exE conjE)?)
    fix p ov
    assume "checked_add sz (CHUNK64 - 1) = Some p" and c: "c = p div CHUNK64"
      and "checked_mul c TAG_SIZE = Some ov" and "checked_add sz ov = Some enc"
    then have p: "unat p = unat sz + (CHUNK_SIZE - 1)" and ov: "unat ov = unat c * 16"
      and enc: "unat enc = unat sz + unat ov"
      by (simp_all only: one checked_mul_eq_Some checked_add_eq_Some unat_consts)
    show "unat sz + (CHUNK_SIZE - 1) < 2 ^ 64"
      using unat_u64_bound [of p] p by simp
    show cc: "unat c = chunks_for (unat sz)"
      using p by (simp add: c unat_div chunks_for_def)
    show "unat enc = unat sz + 16 * chunks_for (unat sz)"
      using ov enc cc by simp
  next
    assume lt: "unat sz + (CHUNK_SIZE - 1) < 2 ^ 64" and cc: "unat c = chunks_for (unat sz)"
      and enc: "unat enc = unat sz + 16 * chunks_for (unat sz)"
    define p :: u64 where "p = of_nat (unat sz + (CHUNK_SIZE - 1))"
    define ov :: u64 where "ov = of_nat (16 * chunks_for (unat sz))"
    have p: "unat p = unat sz + (CHUNK_SIZE - 1)"
      unfolding p_def by (rule unat_of_nat_small) (use lt in simp)
    have "16 * chunks_for (unat sz) < 2 ^ 64"
      using enc unat_u64_bound [of enc] by simp
    then have ov: "unat ov = 16 * chunks_for (unat sz)"
      unfolding ov_def by (intro unat_of_nat_small) simp
    have "c = p div CHUNK64"
      using cc p by (simp add: word_unat_eq_iff unat_div chunks_for_def)
    moreover have "checked_add sz (CHUNK64 - 1) = Some p"
      using p one by (simp only: checked_add_eq_Some)
    moreover have "checked_mul c TAG_SIZE = Some ov"
      using cc ov by (simp only: checked_mul_eq_Some unat_consts)
    moreover have "checked_add sz ov = Some enc"
      using enc ov by (simp only: checked_add_eq_Some)
    ultimately show "\<exists>p. checked_add sz (CHUNK64 - 1) = Some p \<and> c = p div CHUNK64 \<and>
        (\<exists>ov. checked_mul c TAG_SIZE = Some ov \<and> checked_add sz ov = Some enc)"
      by blast
  qed
  finally show ?thesis using False by simp
qed

end
