(* ===== verification/V2Index.thy ===== *)
theory V2Index
  imports V2Format
begin

text \<open>
  The index of a container (\<open>v2.rs\<close>): decoding with its entry bound, the check of a name, and
  \<open>validate_index\<close>, the loop over the entries, the parent and sibling checks and the layout
  of the data. \<open>index_ok\<close> says what an accepted index is, without loops or accumulators.
\<close>

section \<open>Decoding\<close>

fun bounded_entries_loop :: "entry result list \<Rightarrow> entry list \<Rightarrow> entry list result" where
  "bounded_entries_loop [] entries = Inr entries"
| "bounded_entries_loop (item # items) entries =
     bindE item (\<lambda>entry.
       if MAX_ENTRIES \<le> length entries
       then Inl [Foreign ''Index entry count exceeds local safety limits'']
       else bounded_entries_loop items (entries @ [entry]))"

definition bounded_entries :: "entry_seq \<Rightarrow> entry list result" where
  "bounded_entries sequence =
     (case es_hint sequence of
        Some count \<Rightarrow>
          if MAX_ENTRIES < count
          then Inl [Foreign ''Index entry count exceeds local safety limits'']
          else bounded_entries_loop (es_items sequence) []
      | None \<Rightarrow> bounded_entries_loop (es_items sequence) [])"

definition deserialize_index :: "prims \<Rightarrow> bytes \<Rightarrow> entry list result" where
  "deserialize_index P serialized =
     bindE (p_index_seq P serialized) (\<lambda>element.
     bindE (ok_or [Foreign ''invalid length 0, expected a CipherFS v2 index tuple''] element) (\<lambda>sequence.
     bounded_entries sequence))"

lemma bounded_entries_loop_eq:
  "length entries \<le> MAX_ENTRIES \<Longrightarrow>
   bounded_entries_loop items entries = Inr es \<longleftrightarrow>
     (\<exists>xs. items = map Inr xs \<and> es = entries @ xs \<and> length es \<le> MAX_ENTRIES)"
proof (induction items arbitrary: entries)
  case (Cons item items)
  show ?case
  proof (cases item)
    case (Inr e)
    have *: "bounded_entries_loop (item # items) entries = Inr es \<longleftrightarrow>
        length entries < MAX_ENTRIES \<and> bounded_entries_loop items (entries @ [e]) = Inr es"
      by (auto simp: Inr)
    also have "\<dots> \<longleftrightarrow> length entries < MAX_ENTRIES \<and>
        (\<exists>xs. items = map Inr xs \<and> es = entries @ e # xs \<and> length es \<le> MAX_ENTRIES)"
      using Cons.IH [of "entries @ [e]"] by (auto simp: Suc_le_eq)
    also have "\<dots> \<longleftrightarrow> (\<exists>xs. item # items = map Inr xs \<and> es = entries @ xs \<and> length es \<le> MAX_ENTRIES)"
      by (auto simp: Inr Cons_eq_map_conv)
    finally show ?thesis .
  qed auto
qed auto

text \<open>Decoding never hands out more entries than the bound, whatever length is announced.\<close>

lemma bounded_entries_eq_Inr:
  "bounded_entries sequence = Inr es \<longleftrightarrow>
     es_items sequence = map Inr es \<and> length es \<le> MAX_ENTRIES \<and>
     (\<forall>count. es_hint sequence = Some count \<longrightarrow> count \<le> MAX_ENTRIES)"
  by (auto simp: bounded_entries_def bounded_entries_loop_eq split: option.split)

lemma deserialize_index_encoded:
  "index_codec_ok P \<Longrightarrow> p_index_to_vec P es = Inr bs \<Longrightarrow> length es \<le> MAX_ENTRIES \<Longrightarrow>
   deserialize_index P bs = Inr es"
  by (simp add: deserialize_index_def index_codec_ok_def bounded_entries_eq_Inr)

section \<open>Names\<close>

text \<open>\<open>Path::components\<close> on Unix: empty parts and \<open>.\<close> parts vanish, except a leading \<open>.\<close>.\<close>

datatype component = RootDir | CurDir | ParentDir | Normal string

fun split_slash :: "string \<Rightarrow> string list" where
  "split_slash [] = [[]]"
| "split_slash (c # cs) =
     (if c = CHR ''/'' then [] # split_slash cs
      else (case split_slash cs of [] \<Rightarrow> [[c]] | p # ps \<Rightarrow> (c # p) # ps))"

definition component_of :: "string \<Rightarrow> component" where
  "component_of part = (if part = ''..'' then ParentDir else Normal part)"

definition inner_components :: "string list \<Rightarrow> component list" where
  "inner_components parts = map component_of (filter (\<lambda>p. p \<noteq> [] \<and> p \<noteq> ''.'') parts)"

definition path_components :: "string \<Rightarrow> component list" where
  "path_components name =
     (if starts_with ''/'' name then RootDir # inner_components (split_slash name)
      else if name \<noteq> [] \<and> hd (split_slash name) = ''.''
        then CurDir # inner_components (tl (split_slash name))
      else inner_components (split_slash name))"

definition validate_name :: "string \<Rightarrow> unit result" where
  "validate_name name =
     (if name = [] \<or> MAX_NAME_BYTES < length name then bail ''Invalid filename length''
      else (case path_components name of
          Normal _ # rest \<Rightarrow> if rest \<noteq> [] then bail ''Unsafe filename component'' else Inr ()
        | _ \<Rightarrow> bail ''Unsafe filename component''))"

lemma split_slash_neq_Nil [simp]: "split_slash s \<noteq> []"
  by (induction s) (auto split: list.splits)

lemma split_slash_no_slash: "CHR ''/'' \<notin> set s \<Longrightarrow> split_slash s = [s]"
  by (induction s) auto

lemma split_slash_parts: "p \<in> set (split_slash s) \<Longrightarrow> CHR ''/'' \<notin> set p"
proof (induction s arbitrary: p)
  case (Cons c s)
  then show ?case by (cases "split_slash s") (auto split: if_splits)
qed simp

lemma validate_name_eq_Inr:
  "validate_name name = Inr u \<longleftrightarrow>
     name \<noteq> [] \<and> length name \<le> 255 \<and> (\<exists>n. path_components name = [Normal n])"
proof -
  have "(case path_components name of
          Normal _ # rest \<Rightarrow> if rest \<noteq> [] then bail ''Unsafe filename component'' else Inr ()
        | _ \<Rightarrow> bail ''Unsafe filename component'') = Inr u \<longleftrightarrow>
      (\<exists>n. path_components name = [Normal n])"
    by (cases "path_components name" rule: list.exhaust) (auto split: component.splits)
  then show ?thesis
    by (auto simp: validate_name_def MAX_NAME_BYTES_def)
qed

text \<open>A name without a slash is accepted exactly when it is neither empty, too long, \<open>.\<close>
  nor \<open>..\<close>.\<close>

lemma validate_name_simple:
  assumes "CHR ''/'' \<notin> set name"
  shows "validate_name name = Inr u \<longleftrightarrow>
    name \<noteq> [] \<and> length name \<le> 255 \<and> name \<noteq> ''.'' \<and> name \<noteq> ''..''"
proof -
  have "\<not> starts_with ''/'' name"
    using assms by (cases name) (auto simp: starts_with_def)
  then show ?thesis
    using split_slash_no_slash [OF assms]
    by (auto simp: validate_name_eq_Inr path_components_def inner_components_def component_of_def)
qed

text \<open>An accepted name has one ordinary component, free of slashes and dots.\<close>

lemma validate_name_component:
  assumes "validate_name name = Inr u"
  shows "\<exists>n. path_components name = [Normal n] \<and> n \<noteq> [] \<and> n \<noteq> ''.'' \<and> n \<noteq> ''..'' \<and> CHR ''/'' \<notin> set n"
proof -
  obtain n where n: "path_components name = [Normal n]"
    using assms by (auto simp: validate_name_eq_Inr)
  then have "inner_components (split_slash name) = [Normal n]"
    by (auto simp: path_components_def split: if_splits)
  then obtain p where p: "filter (\<lambda>p. p \<noteq> [] \<and> p \<noteq> ''.'') (split_slash name) = [p]" "component_of p = Normal n"
    by (auto simp: inner_components_def map_eq_Cons_conv)
  then have "p \<in> set (filter (\<lambda>p. p \<noteq> [] \<and> p \<noteq> ''.'') (split_slash name))" by simp
  with n p(2) split_slash_parts show ?thesis
    by (auto simp: component_of_def split: if_splits)
qed

section \<open>Validation of the index\<close>

record validated_index =
  vi_entries :: "(u64 \<times> entry) list"
  vi_children :: "u64 \<Rightarrow> u64 list option"

record index_state =
  vs_ids :: "u64 set"
  vs_file_ids :: "bytes set"
  vs_entries :: "(u64 \<times> entry) list"
  vs_children :: "u64 \<Rightarrow> u64 list option"
  vs_files :: "(u64 \<times> u64 \<times> u64) list"

definition index_state_new :: index_state where
  "index_state_new = \<lparr>vs_ids = {}, vs_file_ids = {}, vs_entries = [], vs_children = (\<lambda>_. None), vs_files = []\<rparr>"

definition push_child :: "u64 \<Rightarrow> u64 \<Rightarrow> (u64 \<Rightarrow> u64 list option) \<Rightarrow> u64 \<Rightarrow> u64 list option" where
  "push_child parent child children =
     children(parent := Some ((case children parent of None \<Rightarrow> [] | Some ids \<Rightarrow> ids) @ [child]))"

definition validate_entry :: "entry \<Rightarrow> index_state \<Rightarrow> index_state result" where
  "validate_entry entry s =
     bindE (ensure (e_id entry \<noteq> 0) ''Entry id zero is reserved'') (\<lambda>_.
     bindE (ensure (e_id entry \<notin> vs_ids s) (''Duplicate entry id '' @ dec_string (unat (e_id entry)))) (\<lambda>_.
     bindE (ensure (e_depth entry \<le> MAX_DEPTH) ''Directory depth exceeds local safety limits'') (\<lambda>_.
     bindE (if e_id entry = 1
            then ensure (e_parent_id entry = 1 \<and> e_depth entry = 0 \<and> e_kind entry = Directory \<and>
                   e_name entry = []) ''Invalid root entry''
            else validate_name (e_name entry)) (\<lambda>_.
     bindE (case e_kind entry of
         Directory \<Rightarrow>
           bindE (ensure (e_size entry = 0 \<and> e_data_offset entry = 0 \<and> e_encrypted_size entry = 0 \<and>
               e_chunk_count entry = 0 \<and> e_file_id entry = replicate 16 0)
             ''Directory entry contains file data'') (\<lambda>_.
           Inr (s\<lparr>vs_ids := insert (e_id entry) (vs_ids s)\<rparr>))
       | File \<Rightarrow>
           bindE (ensure (e_file_id entry \<noteq> replicate 16 0 \<and> e_file_id entry \<notin> vs_file_ids s)
             ''Invalid or duplicate file id'') (\<lambda>_.
           bindE (encrypted_file_size (e_size entry)) (\<lambda>(chunks, encrypted).
           bindE (ensure (chunks = e_chunk_count entry \<and> encrypted = e_encrypted_size entry)
             ''File chunk layout mismatch'') (\<lambda>_.
           Inr (s\<lparr>vs_ids := insert (e_id entry) (vs_ids s),
                  vs_file_ids := insert (e_file_id entry) (vs_file_ids s),
                  vs_files := vs_files s @ [(e_data_offset entry, e_encrypted_size entry, e_id entry)]\<rparr>)))))
       (\<lambda>s.
     Inr (s\<lparr>vs_children := (if e_id entry \<noteq> 1
                then push_child (e_parent_id entry) (e_id entry) (vs_children s) else vs_children s),
            vs_entries := vs_entries s @ [(e_id entry, entry)]\<rparr>))))))"

definition validate_link :: "(u64 \<times> entry) list \<Rightarrow> entry \<Rightarrow> (u64 \<Rightarrow> string set) \<Rightarrow> (u64 \<Rightarrow> string set) result" where
  "validate_link entries entry sibling_names =
     (if e_id entry = 1 then Inr sibling_names
      else
        bindE (context_opt ''Entry references a missing parent'' (map_of entries (e_parent_id entry))) (\<lambda>parent.
        bindE (ensure (e_kind parent = Directory \<and> checked_add (e_depth parent) 1 = Some (e_depth entry))
          (''Invalid parent or depth for entry '' @ dec_string (unat (e_id entry)))) (\<lambda>_.
        bindE (ensure (e_name entry \<notin> sibling_names (e_parent_id entry)) ''Duplicate name within directory'') (\<lambda>_.
        Inr (sibling_names(e_parent_id entry :=
          insert (e_name entry) (sibling_names (e_parent_id entry))))))))"

definition validate_region :: "u64 \<times> u64 \<times> u64 \<Rightarrow> u64 \<Rightarrow> u64 result" where
  "validate_region file expected_offset =
     (case file of (offset, encrypted_size, _) \<Rightarrow>
        bindE (ensure (offset = expected_offset) ''File data must be contiguous and non-overlapping'') (\<lambda>_.
        context_opt ''Data layout overflow'' (checked_add expected_offset encrypted_size)))"

definition validate_index :: "header \<Rightarrow> entry list \<Rightarrow> validated_index result" where
  "validate_index h es =
     bindE (ensure (length es = unat (h_entry_count h) \<and> length es \<le> MAX_ENTRIES)
       ''Index entry count mismatch'') (\<lambda>_.
     bindE (foldE validate_entry es index_state_new) (\<lambda>s.
     bindE (context_opt ''Index has no root entry'' (map_of (vs_entries s) 1)) (\<lambda>root.
     bindE (ensure (e_kind root = Directory) ''Root is not a directory'') (\<lambda>_.
     bindE (foldE (validate_link (vs_entries s)) (map snd (vs_entries s)) (\<lambda>_. {})) (\<lambda>_.
     bindE (foldE validate_region (sort_key fst (vs_files s)) 0) (\<lambda>expected_offset.
     bindE (ensure (expected_offset = h_data_size h) ''Data size does not match index'') (\<lambda>_.
     Inr \<lparr>vi_entries = vs_entries s, vi_children = vs_children s\<rparr>)))))))"

section \<open>What an accepted index is\<close>

definition entry_ok :: "entry \<Rightarrow> bool" where
  "entry_ok e \<longleftrightarrow>
     e_id e \<noteq> 0 \<and> e_depth e \<le> MAX_DEPTH \<and>
     (if e_id e = 1 then e_parent_id e = 1 \<and> e_depth e = 0 \<and> e_kind e = Directory \<and> e_name e = []
      else validate_name (e_name e) = Inr ()) \<and>
     (case e_kind e of
        Directory \<Rightarrow> e_size e = 0 \<and> e_data_offset e = 0 \<and> e_encrypted_size e = 0 \<and>
          e_chunk_count e = 0 \<and> e_file_id e = replicate 16 0
      | File \<Rightarrow> e_file_id e \<noteq> replicate 16 0 \<and>
          encrypted_file_size (e_size e) = Inr (e_chunk_count e, e_encrypted_size e))"

definition files_of :: "entry list \<Rightarrow> entry list" where
  "files_of es = filter (\<lambda>e. e_kind e = File) es"

fun layout_end :: "nat \<Rightarrow> entry list \<Rightarrow> nat option" where
  "layout_end n [] = Some n"
| "layout_end n (e # es) =
     (if unat (e_data_offset e) = n then layout_end (n + unat (e_encrypted_size e)) es else None)"

definition index_ok :: "header \<Rightarrow> entry list \<Rightarrow> bool" where
  "index_ok h es \<longleftrightarrow>
     length es = unat (h_entry_count h) \<and> length es \<le> MAX_ENTRIES \<and>
     (\<forall>e \<in> set es. entry_ok e) \<and> distinct (map e_id es) \<and> distinct (map e_file_id (files_of es)) \<and>
     1 \<in> e_id ` set es \<and>
     (\<forall>e \<in> set es. e_id e \<noteq> 1 \<longrightarrow>
        (\<exists>p \<in> set es. e_id p = e_parent_id e \<and> e_kind p = Directory \<and>
           unat (e_depth e) = unat (e_depth p) + 1)) \<and>
     distinct (map (\<lambda>e. (e_parent_id e, e_name e)) (filter (\<lambda>e. e_id e \<noteq> 1) es)) \<and>
     layout_end 0 (sort_key e_data_offset (files_of es)) = Some (unat (h_data_size h))"

lemma layout_end_le: "layout_end n es = Some m \<Longrightarrow> n \<le> m"
proof (induction es arbitrary: n)
  case (Cons e es)
  then show ?case by (auto split: if_splits) (use le_trans in fastforce)
qed simp

text \<open>The tables of an accepted index: every entry under its id, and for every directory the ids of
  the entries that name it as their parent, in index order.\<close>

definition index_tables :: "entry list \<Rightarrow> validated_index" where
  "index_tables es =
     \<lparr>vi_entries = map (\<lambda>e. (e_id e, e)) es,
      vi_children = (\<lambda>i. let ids = map e_id (filter (\<lambda>e. e_id e \<noteq> 1 \<and> e_parent_id e = i) es)
        in if ids = [] then None else Some ids)\<rparr>"

definition add_entry :: "entry \<Rightarrow> index_state \<Rightarrow> index_state" where
  "add_entry e s =
     s\<lparr>vs_ids := insert (e_id e) (vs_ids s),
       vs_file_ids := (if e_kind e = File then insert (e_file_id e) (vs_file_ids s) else vs_file_ids s),
       vs_entries := vs_entries s @ [(e_id e, e)],
       vs_children := (if e_id e \<noteq> 1 then push_child (e_parent_id e) (e_id e) (vs_children s) else vs_children s),
       vs_files := (if e_kind e = File then vs_files s @ [(e_data_offset e, e_encrypted_size e, e_id e)]
         else vs_files s)\<rparr>"

lemma validate_entry_eq_Inr:
  "validate_entry e s = Inr t \<longleftrightarrow>
     entry_ok e \<and> e_id e \<notin> vs_ids s \<and> (e_kind e = File \<longrightarrow> e_file_id e \<notin> vs_file_ids s) \<and> t = add_entry e s"
  by (cases "e_kind e")
    (auto simp: validate_entry_def entry_ok_def add_entry_def result_simps split: if_splits)

text \<open>\<open>HashSet::insert\<close> answering true for each of a list of values: they are new and distinct.\<close>

definition fresh :: "'a list \<Rightarrow> 'a set \<Rightarrow> bool" where
  "fresh xs A \<longleftrightarrow> distinct xs \<and> set xs \<inter> A = {}"

lemma fresh_simps [simp]:
  "fresh [] A" "fresh (x # xs) A \<longleftrightarrow> x \<notin> A \<and> fresh xs (insert x A)" "fresh xs {} \<longleftrightarrow> distinct xs"
  by (auto simp: fresh_def)

lemma add_entry_sets:
  "vs_ids (add_entry e s) = insert (e_id e) (vs_ids s)"
  "vs_file_ids (add_entry e s) = (if e_kind e = File then insert (e_file_id e) (vs_file_ids s) else vs_file_ids s)"
  by (simp_all add: add_entry_def)

lemma foldE_validate_entry:
  "foldE validate_entry es s = Inr t \<longleftrightarrow>
     (\<forall>e \<in> set es. entry_ok e) \<and> fresh (map e_id es) (vs_ids s) \<and>
     fresh (map e_file_id (files_of es)) (vs_file_ids s) \<and> t = fold add_entry es s"
proof (induction es arbitrary: s)
  case (Cons e es)
  have "foldE validate_entry (e # es) s = Inr t \<longleftrightarrow>
    entry_ok e \<and> e_id e \<notin> vs_ids s \<and> (e_kind e = File \<longrightarrow> e_file_id e \<notin> vs_file_ids s) \<and>
    foldE validate_entry es (add_entry e s) = Inr t"
    by (simp only: foldE.simps bindE_eq_Inr validate_entry_eq_Inr) blast
  then show ?case
    unfolding Cons.IH by (cases "e_kind e = File") (simp_all add: files_of_def add_entry_sets conj_ac)
qed (auto simp: files_of_def)

lemma fold_add_entry:
  "vs_entries (fold add_entry es s) = vs_entries s @ map (\<lambda>e. (e_id e, e)) es"
  "vs_files (fold add_entry es s) =
     vs_files s @ map (\<lambda>e. (e_data_offset e, e_encrypted_size e, e_id e)) (files_of es)"
  by (induction es arbitrary: s) (auto simp: add_entry_def files_of_def)

lemma fold_add_entry_children:
  "vs_children (fold add_entry es s) i =
     (let ids = map e_id (filter (\<lambda>e. e_id e \<noteq> 1 \<and> e_parent_id e = i) es)
      in if ids = [] then vs_children s i
         else Some ((case vs_children s i of None \<Rightarrow> [] | Some xs \<Rightarrow> xs) @ ids))"
proof (induction es arbitrary: s)
  case (Cons e es)
  then show ?case
    by (auto simp: add_entry_def push_child_def Let_def split: option.splits)
qed simp

lemma fold_add_entry_new:
  "vs_entries (fold add_entry es index_state_new) = map (\<lambda>e. (e_id e, e)) es"
  "vs_files (fold add_entry es index_state_new) =
     map (\<lambda>e. (e_data_offset e, e_encrypted_size e, e_id e)) (files_of es)"
  "vs_children (fold add_entry es index_state_new) = vi_children (index_tables es)"
  by (auto simp: fold_add_entry fold_add_entry_children index_state_new_def index_tables_def Let_def
      intro!: ext)

definition link_ok :: "(u64 \<times> entry) list \<Rightarrow> entry \<Rightarrow> bool" where
  "link_ok entries e \<longleftrightarrow>
     (case map_of entries (e_parent_id e) of
        None \<Rightarrow> False
      | Some p \<Rightarrow> e_kind p = Directory \<and> unat (e_depth e) = unat (e_depth p) + 1)"

lemma validate_link_eq_Inr:
  "validate_link entries e names = Inr names' \<longleftrightarrow>
     (if e_id e = 1 then names' = names
      else link_ok entries e \<and> e_name e \<notin> names (e_parent_id e) \<and>
        names' = names(e_parent_id e := insert (e_name e) (names (e_parent_id e))))"
  by (auto simp: validate_link_def link_ok_def result_simps checked_add_eq_Some split: option.splits)

lemma foldE_validate_link:
  "(\<exists>names'. foldE (validate_link entries) es names = Inr names') \<longleftrightarrow>
     (\<forall>e \<in> set es. e_id e \<noteq> 1 \<longrightarrow> link_ok entries e \<and> e_name e \<notin> names (e_parent_id e)) \<and>
     distinct (map (\<lambda>e. (e_parent_id e, e_name e)) (filter (\<lambda>e. e_id e \<noteq> 1) es))"
proof (induction es arbitrary: names)
  case (Cons e es)
  show ?case
  proof (cases "e_id e = 1")
    case True
    then show ?thesis using Cons.IH by (simp add: bindE_eq_Inr validate_link_eq_Inr)
  next
    case False
    have "(\<exists>names'. foldE (validate_link entries) (e # es) names = Inr names') \<longleftrightarrow>
        link_ok entries e \<and> e_name e \<notin> names (e_parent_id e) \<and>
        (\<exists>names'. foldE (validate_link entries) es
           (names(e_parent_id e := insert (e_name e) (names (e_parent_id e)))) = Inr names')"
      using False by (auto simp: bindE_eq_Inr validate_link_eq_Inr)
    also have "\<dots> \<longleftrightarrow> link_ok entries e \<and> e_name e \<notin> names (e_parent_id e) \<and>
        (\<forall>x \<in> set es. e_id x \<noteq> 1 \<longrightarrow> link_ok entries x \<and> e_name x \<notin> names (e_parent_id x) \<and>
           (e_parent_id x, e_name x) \<noteq> (e_parent_id e, e_name e)) \<and>
        distinct (map (\<lambda>e. (e_parent_id e, e_name e)) (filter (\<lambda>e. e_id e \<noteq> 1) es))"
      unfolding Cons.IH fun_upd_def prod.inject
      by (intro conj_cong ball_cong refl) auto
    also have "\<dots> \<longleftrightarrow> (\<forall>x \<in> set (e # es). e_id x \<noteq> 1 \<longrightarrow> link_ok entries x \<and> e_name x \<notin> names (e_parent_id x)) \<and>
        distinct (map (\<lambda>e. (e_parent_id e, e_name e)) (filter (\<lambda>e. e_id e \<noteq> 1) (e # es)))"
      using False by (simp add: image_iff) (blast dest: sym)
    finally show ?thesis .
  qed
qed simp

lemma foldE_validate_region:
  "foldE validate_region (map (\<lambda>e. (e_data_offset e, e_encrypted_size e, e_id e)) es) n = Inr m \<longleftrightarrow>
     layout_end (unat n) es = Some (unat m)"
proof (induction es arbitrary: n)
  case (Cons e es)
  have "foldE validate_region (map (\<lambda>e. (e_data_offset e, e_encrypted_size e, e_id e)) (e # es)) n = Inr m \<longleftrightarrow>
      e_data_offset e = n \<and>
      (\<exists>n' :: u64. unat n' = unat n + unat (e_encrypted_size e) \<and> layout_end (unat n') es = Some (unat m))"
    by (auto simp: validate_region_def result_simps checked_add_eq_Some Cons.IH)
  also have "\<dots> \<longleftrightarrow> unat (e_data_offset e) = unat n \<and>
      layout_end (unat n + unat (e_encrypted_size e)) es = Some (unat m)"
  proof -
    have "\<exists>n' :: u64. unat n' = k" if "layout_end k es = Some (unat m)" for k
    proof -
      have "k < 18446744073709551616"
        using layout_end_le [OF that] unat_u64_bound [of m] by linarith
      then have "k < 2 ^ LENGTH(64)" by simp
      then show ?thesis by (intro exI [of _ "of_nat k"] unat_of_nat_small)
    qed
    from this [of "unat n + unat (e_encrypted_size e)"] show ?thesis
      by (auto simp: word_unat_eq_iff) metis
  qed
  finally show ?case by simp
qed (simp add: word_unat_eq_iff)

lemma map_of_entries:
  "distinct (map e_id es) \<Longrightarrow>
   map_of (map (\<lambda>e. (e_id e, e)) es) i = Some e \<longleftrightarrow> e \<in> set es \<and> e_id e = i"
  by (induction es) (auto simp: image_iff)

lemma insort_key_map: "insort_key g (f x) (map f xs) = map f (insort_key (\<lambda>x. g (f x)) x xs)"
  by (induction xs) auto

lemma sort_key_map: "sort_key g (map f xs) = map f (sort_key (\<lambda>x. g (f x)) xs)"
proof (induction xs)
  case (Cons x xs)
  then show ?case by (simp add: insort_key_map)
qed simp

lemma link_ok_entries:
  "distinct (map e_id es) \<Longrightarrow>
   link_ok (map (\<lambda>e. (e_id e, e)) es) e \<longleftrightarrow>
     (\<exists>p \<in> set es. e_id p = e_parent_id e \<and> e_kind p = Directory \<and> unat (e_depth e) = unat (e_depth p) + 1)"
  unfolding link_ok_def by (auto simp: case_option_iff map_of_entries)

lemma validate_index_eq_Inr:
  "validate_index h es = Inr v \<longleftrightarrow> index_ok h es \<and> v = index_tables es"
proof -
  let ?s = "fold add_entry es index_state_new"
  let ?entries = "map (\<lambda>e. (e_id e, e)) es"
  let ?A = "length es = unat (h_entry_count h) \<and> length es \<le> MAX_ENTRIES"
  let ?B = "(\<forall>e \<in> set es. entry_ok e) \<and> distinct (map e_id es) \<and> distinct (map e_file_id (files_of es))"
  let ?C = "\<exists>root. map_of ?entries 1 = Some root \<and> e_kind root = Directory"
  let ?D = "\<exists>names. foldE (validate_link ?entries) es (\<lambda>_. {}) = Inr names"
  let ?E = "foldE validate_region (sort_key fst (vs_files ?s)) 0 = Inr (h_data_size h)"
  have state: "foldE validate_entry es index_state_new = Inr t \<longleftrightarrow> ?B \<and> t = ?s" for t
    by (simp add: foldE_validate_entry index_state_new_def)
  have snd: "map snd ?entries = es"
    by (simp add: comp_def)
  have tables: "\<lparr>vi_entries = vs_entries ?s, vi_children = vs_children ?s\<rparr> = index_tables es"
    by (simp add: fold_add_entry_new index_tables_def)
  have "validate_index h es = Inr v \<longleftrightarrow> ?A \<and> ?B \<and> ?C \<and> ?D \<and> ?E \<and> v = index_tables es"
    unfolding validate_index_def
    by (simp only: bindE_eq_Inr ensure_eq_Inr context_opt_eq_Inr state tables [symmetric]
        fold_add_entry_new(1) snd) (auto simp: fold_add_entry_new comp_def)
  moreover have "?B \<Longrightarrow> ?C \<longleftrightarrow> 1 \<in> e_id ` set es"
    by (auto simp: map_of_entries entry_ok_def image_iff)
  moreover have "?B \<Longrightarrow> ?D \<longleftrightarrow>
      (\<forall>e \<in> set es. e_id e \<noteq> 1 \<longrightarrow>
        (\<exists>p \<in> set es. e_id p = e_parent_id e \<and> e_kind p = Directory \<and>
           unat (e_depth e) = unat (e_depth p) + 1)) \<and>
      distinct (map (\<lambda>e. (e_parent_id e, e_name e)) (filter (\<lambda>e. e_id e \<noteq> 1) es))"
    by (simp add: foldE_validate_link link_ok_entries)
  moreover have "?E \<longleftrightarrow> layout_end 0 (sort_key e_data_offset (files_of es)) = Some (unat (h_data_size h))"
    by (simp add: fold_add_entry_new sort_key_map foldE_validate_region)
  ultimately show ?thesis
    unfolding index_ok_def by blast
qed

section \<open>Consequences of acceptance\<close>

lemma index_ok_parent:
  assumes "index_ok h es" "e \<in> set es" "e_id e \<noteq> 1"
  obtains p where "p \<in> set es" "e_id p = e_parent_id e" "e_kind p = Directory"
    "unat (e_depth e) = unat (e_depth p) + 1"
  using assms unfolding index_ok_def by blast

text \<open>Following parents from any entry reaches the root after as many steps as its depth says:
  the index is a tree, without cycles or unreachable entries.\<close>

fun ancestor :: "(u64 \<times> entry) list \<Rightarrow> nat \<Rightarrow> u64 \<Rightarrow> u64 option" where
  "ancestor entries 0 i = Some i"
| "ancestor entries (Suc n) i =
     (case map_of entries i of None \<Rightarrow> None | Some e \<Rightarrow> ancestor entries n (e_parent_id e))"

lemma index_ok_reaches_root:
  assumes ok: "index_ok h es" and "e \<in> set es"
  shows "ancestor (vi_entries (index_tables es)) (unat (e_depth e)) (e_id e) = Some 1"
  using assms(2)
proof (induction "unat (e_depth e)" arbitrary: e)
  case 0
  have "e_id e = 1"
    using index_ok_parent [OF ok 0(2)] 0(1) by (metis add_is_0 one_neq_zero)
  with 0 show ?case by (metis ancestor.simps(1))
next
  case (Suc n)
  have dist: "distinct (map e_id es)" and ent: "entry_ok e"
    using ok Suc.prems by (simp_all add: index_ok_def)
  have "e_id e \<noteq> 1"
    using ent Suc(2) by (auto simp: entry_ok_def)
  then obtain p where p: "p \<in> set es" "e_id p = e_parent_id e" "unat (e_depth e) = unat (e_depth p) + 1"
    using index_ok_parent [OF ok Suc.prems] by metis
  have "map_of (vi_entries (index_tables es)) (e_id e) = Some e"
    using dist Suc.prems by (simp add: index_tables_def map_of_entries)
  moreover have "ancestor (vi_entries (index_tables es)) n (e_id p) = Some 1"
    using Suc(1) [of p] p Suc(2) by auto
  ultimately show ?case
    using p(2) by (simp flip: Suc(2))
qed

lemma layout_end_regions:
  assumes "layout_end n es = Some m"
  shows "\<forall>e \<in> set es. n \<le> unat (e_data_offset e) \<and> unat (e_data_offset e) + unat (e_encrypted_size e) \<le> m"
    and "sorted_wrt (\<lambda>a b. unat (e_data_offset a) + unat (e_encrypted_size a) \<le> unat (e_data_offset b)) es"
    and "m = n + sum_list (map (\<lambda>e. unat (e_encrypted_size e)) es)"
proof -
  have "(\<forall>e \<in> set es. n \<le> unat (e_data_offset e) \<and> unat (e_data_offset e) + unat (e_encrypted_size e) \<le> m) \<and>
    sorted_wrt (\<lambda>a b. unat (e_data_offset a) + unat (e_encrypted_size a) \<le> unat (e_data_offset b)) es \<and>
    m = n + sum_list (map (\<lambda>e. unat (e_encrypted_size e)) es)"
    using assms
  proof (induction es arbitrary: n)
    case (Cons e es)
    then have off: "unat (e_data_offset e) = n"
      and rest: "layout_end (n + unat (e_encrypted_size e)) es = Some m"
      by (auto split: if_splits)
    with Cons.IH [OF rest] layout_end_le [OF rest] show ?case
      by (auto dest: bspec intro: order_trans)
  qed simp
  then show "\<forall>e \<in> set es. n \<le> unat (e_data_offset e) \<and> unat (e_data_offset e) + unat (e_encrypted_size e) \<le> m"
    and "sorted_wrt (\<lambda>a b. unat (e_data_offset a) + unat (e_encrypted_size a) \<le> unat (e_data_offset b)) es"
    and "m = n + sum_list (map (\<lambda>e. unat (e_encrypted_size e)) es)"
    by blast+
qed

lemma sorted_wrt_pairs:
  "sorted_wrt R xs \<Longrightarrow> x \<in> set xs \<Longrightarrow> y \<in> set xs \<Longrightarrow> x \<noteq> y \<Longrightarrow> R x y \<or> R y x"
  by (induction xs) auto

text \<open>The data regions of distinct files do not overlap and end inside the data section.\<close>

lemma index_ok_regions:
  assumes ok: "index_ok h es" and f: "f \<in> set es" "e_kind f = File"
  shows "unat (e_data_offset f) + unat (e_encrypted_size f) \<le> unat (h_data_size h)"
    and "g \<in> set es \<Longrightarrow> e_kind g = File \<Longrightarrow> f \<noteq> g \<Longrightarrow>
      unat (e_data_offset f) + unat (e_encrypted_size f) \<le> unat (e_data_offset g) \<or>
      unat (e_data_offset g) + unat (e_encrypted_size g) \<le> unat (e_data_offset f)"
proof -
  let ?fs = "sort_key e_data_offset (files_of es)"
  have l: "layout_end 0 ?fs = Some (unat (h_data_size h))"
    using ok by (simp add: index_ok_def)
  have mem: "f \<in> set ?fs" using f by (simp add: files_of_def)
  show "unat (e_data_offset f) + unat (e_encrypted_size f) \<le> unat (h_data_size h)"
    using layout_end_regions(1) [OF l] mem by blast
  show "unat (e_data_offset f) + unat (e_encrypted_size f) \<le> unat (e_data_offset g) \<or>
      unat (e_data_offset g) + unat (e_encrypted_size g) \<le> unat (e_data_offset f)"
    if "g \<in> set es" "e_kind g = File" "f \<noteq> g"
    using sorted_wrt_pairs [OF layout_end_regions(2) [OF l] mem] that by (simp add: files_of_def)
qed

end
