(* ===== verification/World.thy ===== *)
theory World
  imports PlatformIo
begin

text \<open>
  The outside world of an operation, threaded explicitly: the file system, the random generator,
  the cancellation token as the operation polls it, and the events reported so far. Every file
  system call may fail: \<open>w_fault\<close> decides it by the number of the call, so a theorem over all
  worlds is a theorem over all failure patterns. An open file is named by its path.
\<close>

section \<open>State\<close>

text \<open>A symbolic link holds the canonical path it resolves to.\<close>

datatype node =
    FileNode file_data
  | DirNode
  | LinkNode path
  | SpecialNode

type_synonym disk = "path \<Rightarrow> node option"

record world =
  w_disk :: disk
  w_random :: "nat \<Rightarrow> byte"
  w_drawn :: nat
  w_calls :: nat
  w_fault :: "nat \<Rightarrow> string option"
  w_polls :: nat
  w_cancelled :: "nat \<Rightarrow> bool"
  w_now :: u64
  w_events :: "operation_event list"

type_synonym 'a io = "world \<Rightarrow> 'a result \<times> world"

section \<open>Composition\<close>

definition returnM :: "'a \<Rightarrow> 'a io" where
  "returnM a w = (Inr a, w)"

definition failM :: "error \<Rightarrow> 'a io" where
  "failM e w = (Inl e, w)"

definition bindM :: "'a io \<Rightarrow> ('a \<Rightarrow> 'b io) \<Rightarrow> 'b io" where
  "bindM m f w = (case m w of (Inl e, w') \<Rightarrow> (Inl e, w') | (Inr a, w') \<Rightarrow> f a w')"

definition liftE :: "'a result \<Rightarrow> 'a io" where
  "liftE r w = (r, w)"

definition contextM :: "string \<Rightarrow> 'a io \<Rightarrow> 'a io" where
  "contextM msg m w = (case m w of (r, w') \<Rightarrow> (context_err msg r, w'))"

definition map_errM :: "(error \<Rightarrow> error) \<Rightarrow> 'a io \<Rightarrow> 'a io" where
  "map_errM f m w = (case m w of (r, w') \<Rightarrow> (map_err f r, w'))"

text \<open>A value's destructor runs on every exit of its scope; its own result is ignored.\<close>

definition finallyM :: "'a io \<Rightarrow> unit io \<Rightarrow> 'a io" where
  "finallyM m d w = (case m w of (r, w') \<Rightarrow> (r, snd (d w')))"

fun mapM :: "('a \<Rightarrow> 'b io) \<Rightarrow> 'a list \<Rightarrow> 'b list io" where
  "mapM f [] = returnM []"
| "mapM f (x # xs) = bindM (f x) (\<lambda>y. bindM (mapM f xs) (\<lambda>ys. returnM (y # ys)))"

fun foldM :: "('a \<Rightarrow> 's \<Rightarrow> 's io) \<Rightarrow> 'a list \<Rightarrow> 's \<Rightarrow> 's io" where
  "foldM f [] s = returnM s"
| "foldM f (x # xs) s = bindM (f x s) (foldM f xs)"

lemma bindM_eq_Inr:
  "bindM m f w = (Inr b, w') \<longleftrightarrow> (\<exists>a w1. m w = (Inr a, w1) \<and> f a w1 = (Inr b, w'))"
  by (auto simp: bindM_def split: prod.splits sum.splits)

lemma bindM_cases:
  assumes "bindM m f w = (r, w')"
  obtains (fails) e where "m w = (Inl e, w')" "r = Inl e"
    | (steps) a w1 where "m w = (Inr a, w1)" "f a w1 = (r, w')"
  using assms by (auto simp: bindM_def split: prod.splits sum.splits)

lemma liftE_eq [simp]: "liftE r w = (r', w') \<longleftrightarrow> r = r' \<and> w' = w"
  by (auto simp: liftE_def)

lemma returnM_eq [simp]: "returnM a w = (r', w') \<longleftrightarrow> r' = Inr a \<and> w' = w"
  by (auto simp: returnM_def)

lemma failM_eq [simp]: "failM e w = (r', w') \<longleftrightarrow> r' = Inl e \<and> w' = w"
  by (auto simp: failM_def)

lemma contextM_eq_Inr: "contextM msg m w = (Inr a, w') \<longleftrightarrow> m w = (Inr a, w')"
  by (auto simp: contextM_def result_simps split: prod.splits)

lemma bindM_returnM [simp]: "bindM (returnM a) f = f a"
  by (rule ext) (simp add: bindM_def returnM_def)

lemma bindM_failM [simp]: "bindM (failM e) f = failM e"
  by (rule ext) (simp add: bindM_def failM_def)

lemma bindM_liftE_Inr [simp]: "bindM (liftE (Inr a)) f = f a"
  by (rule ext) (simp add: bindM_def liftE_def)

lemma bindM_liftE_Inl [simp]: "bindM (liftE (Inl e)) f = failM e"
  by (rule ext) (simp add: bindM_def liftE_def failM_def)

lemma bindM_run: "m w = (Inr a, w') \<Longrightarrow> bindM m f w = f a w'"
  by (simp add: bindM_def)

lemma foldM_steps:
  "foldM f xs s w = (Inr t, w') \<Longrightarrow> x \<in> set xs \<Longrightarrow> \<exists>s1 w1 s2 w2. f x s1 w1 = (Inr s2, w2)"
  by (induction xs arbitrary: s w) (auto simp: bindM_eq_Inr)

lemma foldM_total:
  assumes "\<And>x s w. x \<in> set xs \<Longrightarrow> J w \<Longrightarrow> \<exists>t w'. f x s w = (Inr t, w') \<and> J w'" and "J w"
  shows "\<exists>t w'. foldM f xs s w = (Inr t, w') \<and> J w'"
  using assms
proof (induction xs arbitrary: s w)
  case (Cons x xs)
  obtain s1 w1 where "f x s w = (Inr s1, w1)" "J w1"
    using Cons.prems by (meson list.set_intros(1))
  then show ?case
    using Cons.IH [of w1 s1] Cons.prems by (auto simp: bindM_def)
qed simp

text \<open>What a successful loop has established for every element it took, in the order it took them.\<close>

lemma foldM_collect:
  assumes "foldM f xs s w = (Inr t, w')" and "J A w"
    and "\<And>x A s w s' w'. x \<in> set xs \<Longrightarrow> J A w \<Longrightarrow> f x s w = (Inr s', w') \<Longrightarrow> J (insert x A) w'"
  shows "J (A \<union> set xs) w'"
  using assms
proof (induction xs arbitrary: s w A)
  case (Cons x xs)
  from Cons.prems(1) obtain s1 w1 where x: "f x s w = (Inr s1, w1)" and rest: "foldM f xs s1 w1 = (Inr t, w')"
    by (auto simp: bindM_eq_Inr)
  have "J (insert x A) w1" using Cons.prems(2,3) x by (meson list.set_intros(1))
  from Cons.IH [OF rest this] Cons.prems(3) show ?case by simp
qed simp

text \<open>A destructor that only acts when its scope is left by an error.\<close>

definition on_error :: "unit io \<Rightarrow> 'a io \<Rightarrow> 'a io" where
  "on_error d m w = (case m w of (Inr a, w') \<Rightarrow> (Inr a, w') | (Inl e, w') \<Rightarrow> (Inl e, snd (d w')))"

lemma on_error_eq_Inr: "on_error d m w = (Inr a, w') \<longleftrightarrow> m w = (Inr a, w')"
  by (auto simp: on_error_def split: prod.splits sum.splits)

section \<open>Cancellation, events, random bytes\<close>

definition check_cancel :: "unit io" where
  "check_cancel w = (check (w_cancelled w (w_polls w)), w\<lparr>w_polls := Suc (w_polls w)\<rparr>)"

definition emit :: "operation_event \<Rightarrow> unit io" where
  "emit ev w = (Inr (), w\<lparr>w_events := w_events w @ [ev]\<rparr>)"

definition emit_all :: "operation_event list \<Rightarrow> unit io" where
  "emit_all evs w = (Inr (), w\<lparr>w_events := w_events w @ evs\<rparr>)"

lemma bindM_emit: "bindM (emit ev) f w = f () (w\<lparr>w_events := w_events w @ [ev]\<rparr>)"
  by (simp add: bindM_def emit_def)

text \<open>A reporter that passes on a transformed stream of the events of \<open>m\<close>.\<close>

definition reporting :: "(operation_event \<Rightarrow> operation_event list) \<Rightarrow> 'a io \<Rightarrow> 'a io" where
  "reporting f m w = (case m (w\<lparr>w_events := []\<rparr>) of
     (r, w') \<Rightarrow> (r, w'\<lparr>w_events := w_events w @ concat (map f (w_events w'))\<rparr>))"

definition fill_bytes :: "nat \<Rightarrow> bytes io" where
  "fill_bytes n w =
     (Inr (map (\<lambda>i. w_random w (w_drawn w + i)) [0..<n]), w\<lparr>w_drawn := w_drawn w + n\<rparr>)"

lemma fill_bytes_eq: "fill_bytes n w = (r, w') \<Longrightarrow> \<exists>bs. r = Inr bs \<and> length bs = n"
  by (auto simp: fill_bytes_def)

section \<open>File system calls\<close>

definition fs_call :: "'a io \<Rightarrow> 'a io" where
  "fs_call m w = (case w_fault w (w_calls w) of
     Some msg \<Rightarrow> (Inl [IoError msg], w\<lparr>w_calls := Suc (w_calls w)\<rparr>)
   | None \<Rightarrow> m (w\<lparr>w_calls := Suc (w_calls w)\<rparr>))"

definition not_found :: error where
  "not_found = [IoError ''No such file or directory (os error 2)'']"

definition already_exists :: error where
  "already_exists = [IoError ''File exists (os error 17)'']"

definition is_a_directory :: error where
  "is_a_directory = [IoError ''Is a directory (os error 21)'']"

definition not_a_directory :: error where
  "not_a_directory = [IoError ''Not a directory (os error 20)'']"

definition follow :: "disk \<Rightarrow> path \<Rightarrow> path" where
  "follow d p = (case d p of Some (LinkNode t) \<Rightarrow> t | _ \<Rightarrow> p)"

definition put_node :: "path \<Rightarrow> node option \<Rightarrow> world \<Rightarrow> world" where
  "put_node p n w = w\<lparr>w_disk := (w_disk w)(p := n)\<rparr>"

text \<open>\<open>File::open\<close>: the handle is the path of the file itself.\<close>

definition open_file :: "path \<Rightarrow> path io" where
  "open_file p = fs_call (\<lambda>w. let q = follow (w_disk w) p in
     (case w_disk w q of None \<Rightarrow> (Inl not_found, w) | Some n \<Rightarrow> (Inr q, w)))"

text \<open>Read and write access is refused on a directory.\<close>

definition open_read_write :: "path \<Rightarrow> path io" where
  "open_read_write p = fs_call (\<lambda>w. let q = follow (w_disk w) p in
     (case w_disk w q of None \<Rightarrow> (Inl not_found, w)
      | Some DirNode \<Rightarrow> (Inl is_a_directory, w)
      | Some n \<Rightarrow> (Inr q, w)))"

definition file_contents :: "disk \<Rightarrow> path \<Rightarrow> bytes result" where
  "file_contents d p = (case d p of
     None \<Rightarrow> Inl not_found
   | Some (FileNode f) \<Rightarrow> Inr (fd_bytes f)
   | Some _ \<Rightarrow> Inl is_a_directory)"

definition read_exact_file :: "path \<Rightarrow> nat \<Rightarrow> u64 \<Rightarrow> bytes io" where
  "read_exact_file p n off = fs_call (\<lambda>w.
     (bindE (file_contents (w_disk w) p) (\<lambda>c. content_reader c off n), w))"

definition file_len :: "path \<Rightarrow> u64 io" where
  "file_len p = fs_call (\<lambda>w.
     (bindE (file_contents (w_disk w) p) (\<lambda>c. Inr (of_nat (length c))), w))"

definition write_file_at :: "path \<Rightarrow> u64 \<Rightarrow> bytes \<Rightarrow> unit io" where
  "write_file_at p off data = fs_call (\<lambda>w. (case w_disk w p of
     Some (FileNode f) \<Rightarrow>
       (Inr (), put_node p (Some (FileNode (f\<lparr>fd_bytes := write_bytes (unat off) data (fd_bytes f),
          fd_modified := w_now w\<rparr>))) w)
   | None \<Rightarrow> (Inl not_found, w)
   | Some _ \<Rightarrow> (Inl is_a_directory, w)))"

definition set_file_len :: "path \<Rightarrow> u64 \<Rightarrow> unit io" where
  "set_file_len p len = fs_call (\<lambda>w. (case w_disk w p of
     Some (FileNode f) \<Rightarrow>
       (Inr (), put_node p (Some (FileNode (f\<lparr>fd_bytes :=
          take (unat len) (fd_bytes f) @ replicate (unat len - length (fd_bytes f)) 0\<rparr>))) w)
   | None \<Rightarrow> (Inl not_found, w)
   | Some _ \<Rightarrow> (Inl is_a_directory, w)))"

definition sync_file :: "path \<Rightarrow> unit io" where
  "sync_file p = fs_call (returnM ())"

text \<open>\<open>create_new\<close>: exclusive creation, never through a link.\<close>

definition create_new_file :: "path \<Rightarrow> path io" where
  "create_new_file p = fs_call (\<lambda>w. (case w_disk w p of
     Some _ \<Rightarrow> (Inl already_exists, w)
   | None \<Rightarrow>
       if p \<noteq> [] \<and> w_disk w (butlast p) = Some DirNode
       then (Inr p, put_node p (Some (FileNode \<lparr>fd_bytes = [], fd_modified = w_now w,
          fd_identity = Some (0, of_nat (w_calls w))\<rparr>)) w)
       else (Inl not_found, w)))"

definition create_new_dir :: "path \<Rightarrow> unit io" where
  "create_new_dir p = fs_call (\<lambda>w. (case w_disk w p of
     Some _ \<Rightarrow> (Inl already_exists, w)
   | None \<Rightarrow>
       if p \<noteq> [] \<and> w_disk w (butlast p) = Some DirNode
       then (Inr (), put_node p (Some DirNode) w)
       else (Inl not_found, w)))"

definition remove_one_file :: "path \<Rightarrow> unit io" where
  "remove_one_file p = fs_call (\<lambda>w. (case w_disk w p of
     None \<Rightarrow> (Inl not_found, w)
   | Some DirNode \<Rightarrow> (Inl is_a_directory, w)
   | Some _ \<Rightarrow> (Inr (), put_node p None w)))"

text \<open>Nodes at or below a path.\<close>

definition below :: "path \<Rightarrow> path \<Rightarrow> bool" where
  "below root p \<longleftrightarrow> starts_with root p"

definition remove_tree :: "path \<Rightarrow> unit io" where
  "remove_tree p = fs_call (\<lambda>w. (case w_disk w p of
     None \<Rightarrow> (Inl not_found, w)
   | Some DirNode \<Rightarrow> (Inr (), w\<lparr>w_disk := (\<lambda>q. if below p q then None else w_disk w q)\<rparr>)
   | Some _ \<Rightarrow> (Inl not_a_directory, w)))"

text \<open>\<open>rename_noreplace\<close>: the whole tree at the source appears at the destination, or nothing
  happens.\<close>

definition moved_disk :: "path \<Rightarrow> path \<Rightarrow> disk \<Rightarrow> disk" where
  "moved_disk src dst d = (\<lambda>q.
     if below dst q then d (src @ drop (length dst) q)
     else if below src q then None
     else d q)"

definition rename_noreplace :: "path \<Rightarrow> path \<Rightarrow> unit io" where
  "rename_noreplace src dst = fs_call (\<lambda>w.
     (if w_disk w src = None then (Inl not_found, w)
      else if w_disk w dst \<noteq> None then (Inl already_exists, w)
      else if below src dst then (Inl [IoError ''Invalid argument (os error 22)''], w)
      else if dst = [] \<or> w_disk w (butlast dst) \<noteq> Some DirNode then (Inl not_found, w)
      else (Inr (), w\<lparr>w_disk := moved_disk src dst (w_disk w)\<rparr>)))"

definition symlink_metadata :: "path \<Rightarrow> node io" where
  "symlink_metadata p = fs_call (\<lambda>w. (case w_disk w p of
     None \<Rightarrow> (Inl not_found, w) | Some n \<Rightarrow> (Inr n, w)))"

text \<open>\<open>Path::exists\<close> follows links and takes any failure for absence.\<close>

definition path_exists :: "path \<Rightarrow> bool io" where
  "path_exists p w = (case fs_call (\<lambda>w. (case w_disk w (follow (w_disk w) p) of
       None \<Rightarrow> (Inl not_found, w) | Some n \<Rightarrow> (Inr n, w))) w of
     (Inl _, w') \<Rightarrow> (Inr False, w') | (Inr _, w') \<Rightarrow> (Inr True, w'))"

text \<open>\<open>symlink_metadata(..).is_err()\<close>: any failure counts as absence.\<close>

definition is_absent :: "path \<Rightarrow> bool io" where
  "is_absent p w = (case symlink_metadata p w of (Inl _, w') \<Rightarrow> (Inr True, w') | (Inr _, w') \<Rightarrow> (Inr False, w'))"

text \<open>\<open>FileFingerprint::from_file\<close> on an open file; the metadata of anything but a file is not
  modelled beyond being there.\<close>

definition fingerprint_of :: "path \<Rightarrow> file_fingerprint io" where
  "fingerprint_of p = fs_call (\<lambda>w. (case w_disk w p of
     None \<Rightarrow> (Inl not_found, w)
   | Some (FileNode f) \<Rightarrow> (Inr (fingerprint_from_file f), w)
   | Some _ \<Rightarrow> (Inr \<lparr>fp_len = 0, fp_modified = 0, fp_identity = None\<rparr>, w)))"

section \<open>Successful calls\<close>

lemma fs_call_eq_Inr:
  "fs_call m w = (Inr a, w') \<longleftrightarrow>
     w_fault w (w_calls w) = None \<and> m (w\<lparr>w_calls := Suc (w_calls w)\<rparr>) = (Inr a, w')"
  by (auto simp: fs_call_def split: option.splits)

lemma read_exact_file_Inr:
  "read_exact_file p n off w = (Inr bs, w') \<Longrightarrow>
   w_disk w' = w_disk w \<and>
   (\<exists>f. w_disk w p = Some (FileNode f) \<and> content_reader (fd_bytes f) off n = Inr bs)"
  by (auto simp: read_exact_file_def fs_call_eq_Inr result_simps file_contents_def
      split: option.splits node.splits)

lemma file_len_Inr:
  "file_len p w = (Inr len, w') \<Longrightarrow>
   w_disk w' = w_disk w \<and> (\<exists>f. w_disk w p = Some (FileNode f) \<and> len = of_nat (length (fd_bytes f)))"
  by (auto simp: file_len_def fs_call_eq_Inr result_simps file_contents_def
      split: option.splits node.splits)

lemma open_file_Inr:
  "open_file p w = (Inr q, w') \<Longrightarrow> w_disk w' = w_disk w \<and> q = follow (w_disk w) p"
  by (auto simp: open_file_def fs_call_eq_Inr Let_def split: option.splits)

lemma open_read_write_Inr:
  "open_read_write p w = (Inr q, w') \<Longrightarrow> w_disk w' = w_disk w \<and> q = follow (w_disk w) p"
  by (auto simp: open_read_write_def fs_call_eq_Inr Let_def split: option.splits node.splits)

text \<open>Writing to the file a path resolves to does not change what it resolves to.\<close>

lemma follow_put:
  "d (follow d p) = Some (FileNode f) \<Longrightarrow> d' = d(follow d p := Some (FileNode g)) \<Longrightarrow>
   follow d' p = follow d p"
  by (auto simp: follow_def split: option.splits node.splits)

text \<open>A world without faults.\<close>

definition fault_free :: "world \<Rightarrow> bool" where
  "fault_free w \<longleftrightarrow> w_fault w = (\<lambda>_. None)"

lemma fs_call_fault_free: "fault_free w \<Longrightarrow> fs_call m w = m (w\<lparr>w_calls := Suc (w_calls w)\<rparr>)"
  by (simp add: fs_call_def fault_free_def)

section \<open>Frames\<close>

text \<open>What a computation can touch. \<open>disk_frame S m\<close>: whatever happens, failure included, only
  paths of \<open>S\<close> change. \<open>pure_disk m\<close>: no path changes.\<close>

named_theorems frame_intros
  \<open>introduction rules for the frame of a computation\<close>

lemma disk_eqI: "(\<And>p. w_disk w' p = w_disk w p) \<Longrightarrow> w_disk w' = w_disk w"
  by (rule ext)

definition disk_frame :: "(path \<Rightarrow> bool) \<Rightarrow> 'a io \<Rightarrow> bool" where
  "disk_frame S m \<longleftrightarrow> (\<forall>w p. \<not> S p \<longrightarrow> w_disk (snd (m w)) p = w_disk w p)"

lemma disk_frameD: "disk_frame S m \<Longrightarrow> m w = (r, w') \<Longrightarrow> \<not> S p \<Longrightarrow> w_disk w' p = w_disk w p"
  unfolding disk_frame_def by (metis snd_conv)

lemma pure_disk: "disk_frame (\<lambda>_. False) m \<Longrightarrow> m w = (r, w') \<Longrightarrow> w_disk w' = w_disk w"
  by (rule ext) (simp add: disk_frameD)

text \<open>A step that touches no file either ends the computation there or passes its value on.\<close>

lemma bindM_pure_cases:
  assumes "disk_frame (\<lambda>_. False) m" and "bindM m f w = (r, w')"
  obtains (fails) e where "r = Inl e" "w_disk w' = w_disk w" "m w = (Inl e, w')"
    | (steps) a w1 where "m w = (Inr a, w1)" "w_disk w1 = w_disk w" "f a w1 = (r, w')"
  using assms(2)
proof (cases rule: bindM_cases)
  case (fails e)
  show ?thesis by (rule that(1) [OF fails(2) pure_disk [OF assms(1) fails(1)] fails(1)])
next
  case (steps a w1)
  show ?thesis by (rule that(2) [OF steps(1) pure_disk [OF assms(1) steps(1)] steps(2)])
qed

lemma disk_frame_returnM [frame_intros]: "disk_frame S (returnM a)"
  by (simp add: disk_frame_def returnM_def)

lemma disk_frame_failM [frame_intros]: "disk_frame S (failM e)"
  by (simp add: disk_frame_def failM_def)

lemma disk_frame_liftE [frame_intros]: "disk_frame S (liftE r)"
  by (simp add: disk_frame_def liftE_def)

lemma disk_frame_bindM [frame_intros]:
  assumes "disk_frame S m" and "\<And>a. disk_frame S (f a)"
  shows "disk_frame S (bindM m f)"
  using assms unfolding disk_frame_def bindM_def
  by (auto split: prod.splits sum.splits) (metis snd_conv)+

lemma disk_frame_contextM [frame_intros]: "disk_frame S m \<Longrightarrow> disk_frame S (contextM msg m)"
  by (auto simp: disk_frame_def contextM_def split: prod.splits) (metis snd_conv)

lemma disk_frame_map_errM [frame_intros]: "disk_frame S m \<Longrightarrow> disk_frame S (map_errM f m)"
  by (auto simp: disk_frame_def map_errM_def split: prod.splits) (metis snd_conv)

lemma disk_frame_finallyM [frame_intros]:
  "disk_frame S m \<Longrightarrow> disk_frame S d \<Longrightarrow> disk_frame S (finallyM m d)"
  by (auto simp: disk_frame_def finallyM_def split: prod.splits) (metis snd_conv)

lemma disk_frame_if [frame_intros]:
  "(b \<Longrightarrow> disk_frame S m) \<Longrightarrow> (\<not> b \<Longrightarrow> disk_frame S n) \<Longrightarrow> disk_frame S (if b then m else n)"
  by simp

lemma disk_frame_mapM: "(\<And>x. disk_frame S (f x)) \<Longrightarrow> disk_frame S (mapM f xs)"
  by (induction xs) (auto intro!: frame_intros)

lemma disk_frame_foldM: "(\<And>x s. disk_frame S (f x s)) \<Longrightarrow> disk_frame S (foldM f xs s)"
  by (induction xs arbitrary: s) (auto intro!: frame_intros)

lemma disk_frame_fs_call [frame_intros]: "disk_frame S m \<Longrightarrow> disk_frame S (fs_call m)"
  by (auto simp: disk_frame_def fs_call_def split: option.splits)

lemma disk_frame_ambient [frame_intros]:
  "disk_frame S check_cancel" "disk_frame S (emit ev)" "disk_frame S (emit_all evs)"
  "disk_frame S (fill_bytes n)"
  by (auto simp: disk_frame_def check_cancel_def emit_def emit_all_def fill_bytes_def)

lemma disk_frame_reporting [frame_intros]: "disk_frame S m \<Longrightarrow> disk_frame S (reporting f m)"
proof -
  assume m: "disk_frame S m"
  have "w_disk (snd (reporting f m w)) p = w_disk w p" if "\<not> S p" for w p
  proof -
    obtain r w1 where r: "m (w\<lparr>w_events := []\<rparr>) = (r, w1)" by (cases "m (w\<lparr>w_events := []\<rparr>)")
    from disk_frameD [OF m r that] r show ?thesis by (simp add: reporting_def)
  qed
  then show ?thesis by (simp add: disk_frame_def)
qed

lemma disk_frame_fingerprint_of [frame_intros]: "disk_frame S (fingerprint_of p)"
  unfolding fingerprint_of_def
  by (intro frame_intros) (auto simp: disk_frame_def split: option.splits node.splits)

lemma path_exists_world:
  "path_exists p w = (r, w') \<Longrightarrow> (\<exists>b. r = Inr b) \<and> w_disk w' = w_disk w"
  by (auto simp: path_exists_def fs_call_def split: option.splits)

lemma disk_frame_path_exists [frame_intros]: "disk_frame S (path_exists p)"
  unfolding disk_frame_def using path_exists_world [of p] by (metis prod.collapse)

lemma disk_frame_readers [frame_intros]:
  "disk_frame S (open_file p)" "disk_frame S (open_read_write p)"
  "disk_frame S (read_exact_file p n off)" "disk_frame S (file_len p)" "disk_frame S (sync_file p)"
  "disk_frame S (symlink_metadata p)"
  unfolding open_file_def open_read_write_def read_exact_file_def file_len_def sync_file_def
    symlink_metadata_def
  by (intro frame_intros; auto simp: disk_frame_def Let_def split: option.splits node.splits)+

lemma disk_frame_writers [frame_intros]:
  assumes "S p"
  shows "disk_frame S (write_file_at p off data)" "disk_frame S (set_file_len p len)"
    "disk_frame S (create_new_file p)" "disk_frame S (create_new_dir p)"
    "disk_frame S (remove_one_file p)"
  using assms
  unfolding write_file_at_def set_file_len_def create_new_file_def create_new_dir_def
    remove_one_file_def
  by (intro frame_intros; auto simp: disk_frame_def put_node_def split: option.splits node.splits)+

lemma disk_frame_remove_tree [frame_intros]:
  "(\<And>q. below p q \<Longrightarrow> S q) \<Longrightarrow> disk_frame S (remove_tree p)"
  unfolding remove_tree_def
  by (intro frame_intros) (auto simp: disk_frame_def split: option.splits node.splits)

lemma disk_frame_rename [frame_intros]:
  "(\<And>q. below src q \<Longrightarrow> S q) \<Longrightarrow> (\<And>q. below dst q \<Longrightarrow> S q) \<Longrightarrow>
   disk_frame S (rename_noreplace src dst)"
  unfolding rename_noreplace_def
  by (intro frame_intros) (auto simp: disk_frame_def moved_disk_def)

lemma disk_frame_is_absent [frame_intros]: "disk_frame S (is_absent p)"
proof -
  have "w_disk (snd (is_absent p w)) = w_disk w" for w
    by (auto simp: is_absent_def symlink_metadata_def fs_call_def split: option.splits)
  then show ?thesis by (simp add: disk_frame_def)
qed

lemma disk_frame_on_error [frame_intros]: "disk_frame S m \<Longrightarrow> disk_frame S d \<Longrightarrow> disk_frame S (on_error d m)"
  by (auto simp: disk_frame_def on_error_def split: prod.splits sum.splits) (metis snd_conv)+

end
