(* ===== verification/SafeFs.thy ===== *)
theory SafeFs
  imports V2Index World "HOL-Library.AList"
begin

text \<open>
  The extraction tree (\<open>safe_fs.rs\<close>): a private staging directory beside the destination, entries
  created through handles of directories that were created before, files written under temporary
  names, and one rename that installs the tree. A directory handle is the path it was opened at;
  the destructors of the tree and of a pending file are explicit.
\<close>

section \<open>Names and handles\<close>

text \<open>\<open>OsStr::to_string_lossy\<close>: every maximal ill-formed part becomes U+FFFD.\<close>

definition replacement :: string where
  "replacement = [CHR 0xEF, CHR 0xBF, CHR 0xBD]"

definition second_of_three :: "char \<Rightarrow> char \<Rightarrow> bool" where
  "second_of_three a b \<longleftrightarrow>
     continuation b \<and> (code a = 224 \<longrightarrow> 160 \<le> code b) \<and> (code a = 237 \<longrightarrow> code b \<le> 159)"

definition second_of_four :: "char \<Rightarrow> char \<Rightarrow> bool" where
  "second_of_four a b \<longleftrightarrow>
     continuation b \<and> (code a = 240 \<longrightarrow> 144 \<le> code b) \<and> (code a = 244 \<longrightarrow> code b \<le> 143)"

fun utf8_lossy :: "string \<Rightarrow> string" where
  "utf8_lossy [] = []"
| "utf8_lossy (a # s) =
     (if code a < 128 then a # utf8_lossy s
      else if 194 \<le> code a \<and> code a \<le> 223 then
        (case s of [] \<Rightarrow> replacement
         | b # s1 \<Rightarrow> if continuation b then a # b # utf8_lossy s1 else replacement @ utf8_lossy s)
      else if 224 \<le> code a \<and> code a \<le> 239 then
        (case s of [] \<Rightarrow> replacement
         | b # s1 \<Rightarrow>
             if \<not> second_of_three a b then replacement @ utf8_lossy s
             else (case s1 of [] \<Rightarrow> replacement
                   | c # s2 \<Rightarrow> if continuation c then a # b # c # utf8_lossy s2 else replacement @ utf8_lossy s1))
      else if 240 \<le> code a \<and> code a \<le> 244 then
        (case s of [] \<Rightarrow> replacement
         | b # s1 \<Rightarrow>
             if \<not> second_of_four a b then replacement @ utf8_lossy s
             else (case s1 of [] \<Rightarrow> replacement
                   | c # s2 \<Rightarrow>
                       if \<not> continuation c then replacement @ utf8_lossy s1
                       else (case s2 of [] \<Rightarrow> replacement
                             | d # s3 \<Rightarrow> if continuation d then a # b # c # d # utf8_lossy s3
                                        else replacement @ utf8_lossy s2)))
      else replacement @ utf8_lossy s)"

lemma utf8_lossy_valid: "valid_utf8 s \<Longrightarrow> utf8_lossy s = s"
proof (induction s rule: valid_utf8.induct)
  case (2 a s)
  consider (one) "code a < 128" | (two) "194 \<le> code a" "code a \<le> 223" | (three) "224 \<le> code a" "code a \<le> 239"
    | (four) "240 \<le> code a" "code a \<le> 244"
    using 2(5) by (simp only: valid_utf8.simps split: if_splits)
  then show ?case
  proof cases
    case one
    with 2 show ?thesis by simp
  next
    case two
    with 2(5) obtain b t where s: "s = b # t" "continuation b" "valid_utf8 t" by (cases s) auto
    with two 2(2) show ?thesis by simp
  next
    case three
    with 2(5) obtain b c t where s: "s = b # c # t" "second_of_three a b" "continuation c" "valid_utf8 t"
      by (auto simp: second_of_three_def split: list.splits)
    with three 2(3) [OF _ _ _ s(1)] show ?thesis by (simp add: second_of_three_def)
  next
    case four
    with 2(5) obtain b c d t where s: "s = b # c # d # t" "second_of_four a b" "continuation c" "continuation d" "valid_utf8 t"
      by (auto simp: second_of_four_def split: list.splits)
    with four 2(4) [OF _ _ _ _ s(1)] show ?thesis by (simp add: second_of_four_def)
  qed
qed simp

text \<open>A name of an index is one ordinary component, and a trailing slash asks for a directory. The
  names of temporary files and of the staging directory are components already.\<close>

definition dir_entry :: "path \<Rightarrow> string \<Rightarrow> path" where
  "dir_entry dir name = dir @ [(case path_components name of [Normal n] \<Rightarrow> n | _ \<Rightarrow> name)]"

definition wants_directory :: "string \<Rightarrow> bool" where
  "wants_directory name \<longleftrightarrow> CHR ''/'' \<in> set name"

text \<open>The calls of \<open>cap_std::fs::Dir\<close>, relative to a handle.\<close>

definition dir_symlink_metadata :: "path \<Rightarrow> string \<Rightarrow> node io" where
  "dir_symlink_metadata dir name = fs_call (\<lambda>w. (case w_disk w (dir_entry dir name) of
     None \<Rightarrow> (Inl not_found, w)
   | Some n \<Rightarrow> if wants_directory name \<and> n \<noteq> DirNode then (Inl not_a_directory, w) else (Inr n, w)))"

definition dir_exists :: "path \<Rightarrow> string \<Rightarrow> bool io" where
  "dir_exists dir name w = (case dir_symlink_metadata dir name w of
     (Inl _, w') \<Rightarrow> (Inr False, w') | (Inr _, w') \<Rightarrow> (Inr True, w'))"

definition open_dir :: "path \<Rightarrow> path io" where
  "open_dir p = fs_call (\<lambda>w. (case w_disk w p of
     None \<Rightarrow> (Inl not_found, w)
   | Some DirNode \<Rightarrow> (Inr p, w)
   | Some _ \<Rightarrow> (Inl not_a_directory, w)))"

definition try_clone :: "path \<Rightarrow> path io" where
  "try_clone p = fs_call (returnM p)"

definition append_file :: "path \<Rightarrow> bytes \<Rightarrow> unit io" where
  "append_file p data = fs_call (\<lambda>w. (case w_disk w p of
     Some (FileNode f) \<Rightarrow>
       (Inr (), put_node p (Some (FileNode (f\<lparr>fd_bytes := fd_bytes f @ data, fd_modified := w_now w\<rparr>))) w)
   | None \<Rightarrow> (Inl not_found, w)
   | Some _ \<Rightarrow> (Inl is_a_directory, w)))"

text \<open>\<open>rename\<close> of a file within one directory; it replaces a file of that name.\<close>

definition dir_rename_file :: "path \<Rightarrow> string \<Rightarrow> string \<Rightarrow> unit io" where
  "dir_rename_file dir src dst = fs_call (\<lambda>w. (case w_disk w (dir @ [src]) of
     None \<Rightarrow> (Inl not_found, w)
   | Some n \<Rightarrow>
       if w_disk w (dir_entry dir dst) = Some DirNode then (Inl is_a_directory, w)
       else if wants_directory dst then (Inl not_a_directory, w)
       else (Inr (), w\<lparr>w_disk := (w_disk w)(dir @ [src] := None, dir_entry dir dst := Some n)\<rparr>)))"

section \<open>Pending files\<close>

record pending_file =
  pf_parent :: path
  pf_temp_name :: string
  pf_final_name :: string
  pf_file :: "path option"
  pf_committed :: bool

definition pending_writer :: "pending_file \<Rightarrow> path io" where
  "pending_writer p = liftE (context_opt ''Temporary file is already closed'' (pf_file p))"

definition finish_writing :: "pending_file \<Rightarrow> pending_file io" where
  "finish_writing p = (case pf_file p of
     None \<Rightarrow> returnM p
   | Some file \<Rightarrow> bindM (sync_file file) (\<lambda>_. returnM (p\<lparr>pf_file := None\<rparr>)))"

definition pending_drop :: "pending_file \<Rightarrow> unit io" where
  "pending_drop p = (if pf_committed p then returnM () else remove_one_file (pf_parent p @ [pf_temp_name p]))"

definition pending_commit :: "pending_file \<Rightarrow> unit io" where
  "pending_commit p =
     on_error (pending_drop p) (
     bindM (finish_writing p) (\<lambda>p.
     contextM ''Unable to install staged extracted file''
       (dir_rename_file (pf_parent p) (pf_temp_name p) (pf_final_name p))))"

section \<open>The staged tree\<close>

record safe_root =
  sr_directories :: "(u64 \<times> path) list"
  sr_parent :: path
  sr_staging_name :: string
  sr_target_name :: string
  sr_target_display :: path
  sr_committed :: bool

definition openat_dir :: "string \<Rightarrow> path \<Rightarrow> path io" where
  "openat_dir name current = fs_call (\<lambda>w. (case w_disk w (current @ [name]) of
     None \<Rightarrow> (Inl not_found, w)
   | Some DirNode \<Rightarrow> (Inr (current @ [name]), w)
   | Some (LinkNode _) \<Rightarrow> (Inl [IoError ''Too many levels of symbolic links (os error 40)''], w)
   | Some _ \<Rightarrow> (Inl not_a_directory, w)))"

definition open_verified_directory :: "path \<Rightarrow> path io" where
  "open_verified_directory p =
     bindM (open_file []) (\<lambda>root.
     foldM (\<lambda>name current.
       contextM ''Output parent contains a missing, non-directory, or symbolic-link component''
         (openat_dir name current)) p root)"

fun allocate_staging_name_loop :: "nat \<Rightarrow> path \<Rightarrow> string \<Rightarrow> string io" where
  "allocate_staging_name_loop 0 parent prefix = liftE (bail ''Unable to allocate an extraction staging directory'')"
| "allocate_staging_name_loop (Suc n) parent prefix =
     bindM (fill_bytes 8) (\<lambda>random.
     let candidate = ''.'' @ prefix @ ''.cipherfs-stage-'' @ hex_encode random in
     bindM (is_absent (parent @ [candidate])) (\<lambda>absent.
     if absent then returnM candidate else allocate_staging_name_loop n parent prefix))"

definition allocate_staging_name :: "path \<Rightarrow> string \<Rightarrow> string io" where
  "allocate_staging_name parent target_name = allocate_staging_name_loop 32 parent (utf8_lossy target_name)"

definition requested_staging_name :: "path \<Rightarrow> path \<Rightarrow> path \<Rightarrow> string io" where
  "requested_staging_name absolute parent requested =
     bindM (liftE (ensure (path_parent requested = path_parent absolute)
       ''Extraction staging directory must be a sibling of the destination'')) (\<lambda>_.
     bindM (liftE (ensure (requested \<noteq> absolute) ''Extraction staging directory must differ from the destination'')) (\<lambda>_.
     bindM (liftE (context_opt ''Extraction staging path must name a directory'' (path_file_name requested))) (\<lambda>requested_name.
     bindM (is_absent (parent @ [requested_name])) (\<lambda>absent.
     bindM (liftE (ensure absent ''Extraction staging directory already exists'')) (\<lambda>_.
     returnM requested_name)))))"

definition open_new_at :: "path \<Rightarrow> path option \<Rightarrow> safe_root io" where
  "open_new_at target requested_staging =
     bindM (is_absent target) (\<lambda>absent.
     bindM (liftE (ensure absent
       (''Extraction destination already exists; choose a path that does not exist: '' @ display_path target))) (\<lambda>_.
     bindM (liftE (context_opt ''Extraction destination must have a parent directory'' (path_parent target))) (\<lambda>parent_path.
     bindM (liftE (context_opt ''Extraction destination must name a directory'' (path_file_name target))) (\<lambda>target_name.
     bindM (contextM (''Unable to safely open output parent '' @ display_path parent_path)
       (open_verified_directory parent_path)) (\<lambda>parent.
     bindM (is_absent (parent @ [target_name])) (\<lambda>absent.
     bindM (liftE (ensure absent ''Extraction destination was created concurrently'')) (\<lambda>_.
     bindM (case requested_staging of
         Some requested \<Rightarrow> requested_staging_name target parent requested
       | None \<Rightarrow> allocate_staging_name parent target_name) (\<lambda>staging_name.
     bindM (contextM ''Unable to create extraction staging directory''
       (create_new_dir (parent @ [staging_name]))) (\<lambda>_.
     bindM (contextM ''Unable to open extraction staging directory'' (open_dir (parent @ [staging_name]))) (\<lambda>root.
     returnM \<lparr>sr_directories = [(1, root)], sr_parent = parent, sr_staging_name = staging_name,
       sr_target_name = target_name, sr_target_display = target, sr_committed = False\<rparr>))))))))))"

definition staging_path :: "safe_root \<Rightarrow> path" where
  "staging_path r =
     (case path_parent (sr_target_display r) of Some p \<Rightarrow> p | None \<Rightarrow> []) @ [sr_staging_name r]"

definition install_root_id :: "u64 \<Rightarrow> safe_root \<Rightarrow> safe_root io" where
  "install_root_id i r =
     bindM (liftE (context_opt ''Output root is not open'' (map_of (sr_directories r) 1))) (\<lambda>root.
     bindM (try_clone root) (\<lambda>root.
     returnM (r\<lparr>sr_directories := AList.update i root (sr_directories r)\<rparr>)))"

definition create_directory :: "u64 \<Rightarrow> u64 \<Rightarrow> string \<Rightarrow> safe_root \<Rightarrow> safe_root io" where
  "create_directory i parent_id name r =
     bindM (liftE (validate_name name)) (\<lambda>_.
     bindM (liftE (context_opt ''Parent directory has not been created'' (map_of (sr_directories r) parent_id))) (\<lambda>parent.
     bindM (contextM ''Unable to create output directory'' (create_new_dir (dir_entry parent name))) (\<lambda>_.
     bindM (dir_symlink_metadata parent name) (\<lambda>metadata.
     bindM (liftE (ensure (metadata = DirNode) ''Output directory is not a safe real directory'')) (\<lambda>_.
     bindM (contextM ''Unable to open output directory without escaping output root'' (open_dir (dir_entry parent name))) (\<lambda>child.
     returnM (r\<lparr>sr_directories := AList.update i child (sr_directories r)\<rparr>)))))))"

definition begin_file :: "u64 \<Rightarrow> string \<Rightarrow> u64 \<Rightarrow> safe_root \<Rightarrow> pending_file io" where
  "begin_file parent_id final_name entry_id r =
     bindM (liftE (validate_name final_name)) (\<lambda>_.
     bindM (liftE (context_opt ''Parent directory has not been created'' (map_of (sr_directories r) parent_id))) (\<lambda>parent.
     bindM (dir_exists parent final_name) (\<lambda>exists.
     bindM (liftE (ensure (\<not> exists) (''Duplicate output entry '' @ final_name))) (\<lambda>_.
     bindM (fill_bytes 8) (\<lambda>random.
     let temp_name = ''.cipherfs-'' @ dec_string (unat entry_id) @ ''-'' @ hex_encode random @ ''.tmp'' in
     bindM (contextM ''Unable to create temporary output file'' (create_new_file (parent @ [temp_name]))) (\<lambda>file.
     bindM (try_clone parent) (\<lambda>parent.
     returnM \<lparr>pf_parent = parent, pf_temp_name = temp_name, pf_final_name = final_name,
       pf_file = Some file, pf_committed = False\<rparr>)))))))"

definition sync_cap_directory :: "path \<Rightarrow> unit io" where
  "sync_cap_directory dir = bindM (open_file dir) sync_file"

text \<open>The table of directories is iterated in an order of its own.\<close>

definition sync_open_directories :: "(path list \<Rightarrow> path list) \<Rightarrow> (u64 \<times> path) list \<Rightarrow> unit io" where
  "sync_open_directories order directories =
     foldM (\<lambda>dir _. sync_cap_directory dir) (order (map snd directories)) ()"

definition safe_root_drop :: "safe_root \<Rightarrow> unit io" where
  "safe_root_drop r =
     (if sr_committed r then returnM () else remove_tree (sr_parent r @ [sr_staging_name r]))"

definition safe_root_commit :: "(path list \<Rightarrow> path list) \<Rightarrow> safe_root \<Rightarrow> string option io" where
  "safe_root_commit order r =
     on_error (safe_root_drop r) (
     bindM (sync_open_directories order (sr_directories r)) (\<lambda>_.
     bindM (contextM (''Unable to install '' @ display_path (sr_target_display r))
       (rename_noreplace (sr_parent r @ [sr_staging_name r]) (sr_parent r @ [sr_target_name r]))) (\<lambda>_ w.
     (case sync_cap_directory (sr_parent r) w of
        (Inr _, w') \<Rightarrow> (Inr None, w')
      | (Inl e, w') \<Rightarrow> (Inr (Some (''Unable to sync extraction parent after commit: '' @ display_chain e)), w')))))"

end
