(* ===== verification/V2Keys.thy ===== *)
theory V2Keys
  imports V2Format World
begin

text \<open>
  Keys of a container (\<open>v2.rs\<close>): the associated data of slots, index and chunks, key
  derivation, creation of the master and duress slots, and \<open>unlock\<close>. The lemmas show that
  associated data determines what it covers and never collides across purposes, that a fresh
  slot opens with its password, and what \<open>unlock\<close> can answer.
\<close>

section \<open>Associated data\<close>

definition push_argon :: "bytes \<Rightarrow> argon2_params \<Rightarrow> bytes" where
  "push_argon out params =
     out @ to_le_bytes (m_cost params) @ to_le_bytes (t_cost params) @ to_le_bytes (p_cost params)"

definition immutable_aad :: "prims \<Rightarrow> header \<Rightarrow> bytes" where
  "immutable_aad P h =
     (let out = h_magic h @ to_le_bytes (h_version h) @ to_le_bytes (h_header_size h)
        @ h_container_id h @ to_le_bytes (h_chunk_size h) @ to_le_bytes (h_index_size h)
        @ to_le_bytes (h_data_size h) @ to_le_bytes (h_entry_count h) @ h_index_nonce h
        @ [if ds_enabled (h_duress h) then 1 else 0] @ ds_salt (h_duress h);
       out = push_argon out (ds_params (h_duress h))
      in out @ ds_nonce (h_duress h) @ p_blake3 P (ds_encrypted_marker (h_duress h)))"

definition slot_aad :: "prims \<Rightarrow> header \<Rightarrow> key_slot \<Rightarrow> bytes" where
  "slot_aad P h slot =
     push_argon (immutable_aad P h @ bytes_of ''/key-slot'' @ to_le_bytes (ks_generation slot)
       @ ks_salt slot) (ks_params slot) @ ks_nonce slot"

definition duress_aad :: "header \<Rightarrow> bytes" where
  "duress_aad h =
     push_argon (h_magic h @ to_le_bytes (h_version h) @ to_le_bytes (h_header_size h)
        @ h_container_id h @ to_le_bytes (h_chunk_size h) @ to_le_bytes (h_index_size h)
        @ to_le_bytes (h_data_size h) @ to_le_bytes (h_entry_count h)
        @ bytes_of ''/duress-slot'' @ ds_salt (h_duress h)) (ds_params (h_duress h))
      @ ds_nonce (h_duress h)"

definition index_aad :: "prims \<Rightarrow> header \<Rightarrow> bytes" where
  "index_aad P h = immutable_aad P h @ bytes_of ''/index''"

definition chunk_nonce :: "u64 \<Rightarrow> bytes" where
  "chunk_nonce chunk_index = bytes_of ''C2CH'' @ to_le_bytes chunk_index"

definition chunk_aad :: "header \<Rightarrow> entry \<Rightarrow> u64 \<Rightarrow> u64 \<Rightarrow> bytes" where
  "chunk_aad h ent chunk_index plaintext_len =
     h_magic h @ to_le_bytes (h_version h) @ h_container_id h @ e_file_id ent
     @ to_le_bytes (e_id ent) @ to_le_bytes (e_size ent) @ to_le_bytes chunk_index
     @ to_le_bytes plaintext_len"

text \<open>Sizes of the fixed arrays.\<close>

definition wf_header :: "header \<Rightarrow> bool" where
  "wf_header h \<longleftrightarrow>
     length (h_magic h) = 4 \<and> length (h_container_id h) = 16 \<and> length (h_index_nonce h) = 12 \<and>
     length (ds_salt (h_duress h)) = 16 \<and> length (ds_nonce (h_duress h)) = 12 \<and>
     length (ds_encrypted_marker (h_duress h)) = 48"

definition wf_slot :: "key_slot \<Rightarrow> bool" where
  "wf_slot slot \<longleftrightarrow>
     length (ks_salt slot) = 16 \<and> length (ks_nonce slot) = 12 \<and> length (ks_encrypted_dek slot) = 48"

lemma immutable_aad_slots [simp]: "immutable_aad P (h\<lparr>h_slots := s\<rparr>) = immutable_aad P h"
  by (simp add: immutable_aad_def)

lemma slot_aad_slots [simp]: "slot_aad P (h\<lparr>h_slots := s\<rparr>) slot = slot_aad P h slot"
  by (simp add: slot_aad_def)

lemma duress_aad_slots [simp]: "duress_aad (h\<lparr>h_slots := s\<rparr>) = duress_aad h"
  by (simp add: duress_aad_def)

lemma index_aad_slots [simp]: "index_aad P (h\<lparr>h_slots := s\<rparr>) = index_aad P h"
  by (simp add: index_aad_def)

lemma chunk_aad_slots [simp]: "chunk_aad (h\<lparr>h_slots := s\<rparr>) ent i n = chunk_aad h ent i n"
  by (simp add: chunk_aad_def)

lemma slot_aad_ciphertext [simp]: "slot_aad P h (slot\<lparr>ks_encrypted_dek := c\<rparr>) = slot_aad P h slot"
  by (simp add: slot_aad_def)

lemma duress_aad_marker [simp]:
  "duress_aad (h\<lparr>h_duress := d\<lparr>ds_encrypted_marker := c\<rparr>\<rparr>) = duress_aad (h\<lparr>h_duress := d\<rparr>)"
  by (simp add: duress_aad_def)

lemma wf_header_slots [simp]: "wf_header (h\<lparr>h_slots := s\<rparr>) = wf_header h"
  by (simp add: wf_header_def)

lemma aad_lengths:
  assumes "wf_header h" and "digest_ok P"
  shows "length (immutable_aad P h) = 139" "wf_slot slot \<Longrightarrow> length (slot_aad P h slot) = 196"
    "length (duress_aad h) = 106" "length (index_aad P h) = 145"
    "length (e_file_id ent) = 16 \<Longrightarrow> length (chunk_aad h ent i n) = 70"
  using assms
  by (simp_all add: wf_header_def wf_slot_def digest_ok_def immutable_aad_def slot_aad_def
      duress_aad_def index_aad_def chunk_aad_def push_argon_def Let_def)

lemma chunk_nonce_inject: "chunk_nonce i = chunk_nonce j \<longleftrightarrow> i = j"
  by (simp add: chunk_nonce_def)

lemma length_chunk_nonce [simp]: "length (chunk_nonce i) = 12"
  by (simp add: chunk_nonce_def)

lemma chunk_aad_determines:
  assumes "length (h_magic h) = length (h_magic h')"
    and "length (h_container_id h) = length (h_container_id h')"
    and "length (e_file_id ent) = length (e_file_id ent')"
    and "chunk_aad h ent i n = chunk_aad h' ent' i' n'"
  shows "h_container_id h = h_container_id h'" "e_file_id ent = e_file_id ent'"
    "e_id ent = e_id ent'" "e_size ent = e_size ent'" "i = i'" "n = n'"
  using assms by (simp_all add: chunk_aad_def)

lemma duress_fields_eqI:
  fixes d d' :: duress_slot
  assumes "ds_enabled d = ds_enabled d'" "ds_salt d = ds_salt d'" "ds_params d = ds_params d'"
    "ds_nonce d = ds_nonce d'"
  shows "d\<lparr>ds_encrypted_marker := m\<rparr> = d'\<lparr>ds_encrypted_marker := m\<rparr>"
  using assms by (cases d, cases d') simp

text \<open>Everything but the two key slots is fixed by the immutable part, the duress marker up to its
  digest.\<close>

lemma immutable_aad_determines:
  assumes "wf_header h" "wf_header h'" "digest_ok P"
    and eq: "immutable_aad P h = immutable_aad P h'"
  shows "h\<lparr>h_slots := s, h_duress := h_duress h\<lparr>ds_encrypted_marker := m\<rparr>\<rparr> =
      h'\<lparr>h_slots := s, h_duress := h_duress h'\<lparr>ds_encrypted_marker := m\<rparr>\<rparr>"
    and "p_blake3 P (ds_encrypted_marker (h_duress h)) = p_blake3 P (ds_encrypted_marker (h_duress h'))"
proof -
  have len: "length (h_magic h) = length (h_magic h')"
    "length (h_container_id h) = length (h_container_id h')"
    "length (h_index_nonce h) = length (h_index_nonce h')"
    "length (ds_salt (h_duress h)) = length (ds_salt (h_duress h'))"
    "length (ds_nonce (h_duress h)) = length (ds_nonce (h_duress h'))"
    using assms(1,2) by (simp_all add: wf_header_def)
  have enabled: "(if a then 1 else 0 :: byte) = (if b then 1 else 0) \<longleftrightarrow> a = b" for a b
    by simp
  note * = eq [unfolded immutable_aad_def push_argon_def Let_def]
  show "p_blake3 P (ds_encrypted_marker (h_duress h)) = p_blake3 P (ds_encrypted_marker (h_duress h'))"
    using * len by (simp add: enabled)
  have "h_duress h\<lparr>ds_encrypted_marker := m\<rparr> = h_duress h'\<lparr>ds_encrypted_marker := m\<rparr>"
    using * len by (intro duress_fields_eqI) (simp_all add: enabled argon2_params.equality)
  moreover have "h_magic h = h_magic h'" "h_version h = h_version h'" "h_header_size h = h_header_size h'"
    "h_container_id h = h_container_id h'" "h_chunk_size h = h_chunk_size h'"
    "h_index_size h = h_index_size h'" "h_data_size h = h_data_size h'"
    "h_entry_count h = h_entry_count h'" "h_index_nonce h = h_index_nonce h'"
    using * len by (simp_all add: enabled)
  ultimately show "h\<lparr>h_slots := s, h_duress := h_duress h\<lparr>ds_encrypted_marker := m\<rparr>\<rparr> =
      h'\<lparr>h_slots := s, h_duress := h_duress h'\<lparr>ds_encrypted_marker := m\<rparr>\<rparr>"
    by (cases h, cases h') simp
qed

lemma slot_aad_determines:
  assumes "wf_header h" "wf_header h'" "digest_ok P" "wf_slot s" "wf_slot s'"
    and eq: "slot_aad P h s = slot_aad P h' s'"
  shows "immutable_aad P h = immutable_aad P h'"
    and "s\<lparr>ks_encrypted_dek := c\<rparr> = s'\<lparr>ks_encrypted_dek := c\<rparr>"
proof -
  have len: "length (immutable_aad P h) = length (immutable_aad P h')"
    using assms(1-3) by (simp add: aad_lengths)
  have slen: "length (ks_salt s) = length (ks_salt s')" "length (ks_nonce s) = length (ks_nonce s')"
    using assms(4,5) by (simp_all add: wf_slot_def)
  note * = eq [unfolded slot_aad_def push_argon_def]
  show "immutable_aad P h = immutable_aad P h'"
    using * len slen by simp
  have "ks_generation s = ks_generation s'" "ks_salt s = ks_salt s'" "ks_nonce s = ks_nonce s'"
    "ks_params s = ks_params s'"
    using * len slen by (simp_all add: argon2_params.equality)
  then show "s\<lparr>ks_encrypted_dek := c\<rparr> = s'\<lparr>ks_encrypted_dek := c\<rparr>"
    by (cases s, cases s') simp
qed

section \<open>Key derivation and authenticated encryption\<close>

definition derive_kek :: "prims \<Rightarrow> string \<Rightarrow> bytes \<Rightarrow> argon2_params \<Rightarrow> bytes result" where
  "derive_kek P password salt params =
     bindE (validate_argon2 params) (\<lambda>_.
     bindE (map_err (\<lambda>e. [Msg (''Invalid Argon2 parameters: '' @ e)]) (p_argon2_params P params)) (\<lambda>_.
     map_err (\<lambda>e. [Msg (''Argon2 failed: '' @ e)]) (p_argon2 P password salt params)))"

definition hkdf_key :: "prims \<Rightarrow> bytes \<Rightarrow> bytes \<Rightarrow> bytes \<Rightarrow> bytes result" where
  "hkdf_key P dek container_id info =
     ok_or [Msg ''HKDF output length is invalid''] (p_hkdf_expand P container_id dek info)"

definition derive_index_key :: "prims \<Rightarrow> bytes \<Rightarrow> bytes \<Rightarrow> bytes result" where
  "derive_index_key P dek container_id = hkdf_key P dek container_id (bytes_of ''cipherfs-v2/index-key'')"

definition derive_file_key :: "prims \<Rightarrow> bytes \<Rightarrow> bytes \<Rightarrow> bytes \<Rightarrow> bytes result" where
  "derive_file_key P dek container_id file_id =
     hkdf_key P dek container_id (bytes_of ''cipherfs-v2/file-key'' @ file_id)"

definition encrypt_aead :: "prims \<Rightarrow> bytes \<Rightarrow> bytes \<Rightarrow> bytes \<Rightarrow> bytes \<Rightarrow> bytes result" where
  "encrypt_aead P key nonce aad data = ok_or [Msg ''Encryption failed''] (p_encrypt P key nonce aad data)"

definition decrypt_aead :: "prims \<Rightarrow> bytes \<Rightarrow> bytes \<Rightarrow> bytes \<Rightarrow> bytes \<Rightarrow> bytes result" where
  "decrypt_aead P key nonce aad data =
     ok_or [Msg ''Authentication failed''] (p_decrypt P key nonce aad data)"

text \<open>\<open>copy_from_slice\<close> into an array of \<open>n\<close> bytes panics on any other length.\<close>

definition copy_from_slice :: "nat \<Rightarrow> bytes \<Rightarrow> bytes result" where
  "copy_from_slice n src =
     (if length src = n then Inr src
      else Inl [Panic ''copy_from_slice: source slice length does not match destination''])"

lemma copy_from_slice_eq_Inr [result_simps]: "copy_from_slice n src = Inr x \<longleftrightarrow> length src = n \<and> x = src"
  by (auto simp: copy_from_slice_def)

lemma encrypt_aead_ok:
  assumes "aead_ok P"
  obtains c where "encrypt_aead P k n a m = Inr c" "length c = length m + 16"
    "decrypt_aead P k n a c = Inr m"
proof -
  obtain c where "p_encrypt P k n a m = Some c" "length c = length m + 16"
    using aead_encrypt_total [OF assms] by blast
  with aead_decrypt_encrypt [OF assms] that show ?thesis
    by (auto simp: encrypt_aead_def decrypt_aead_def)
qed

lemma decrypt_aead_encrypt:
  "aead_ok P \<Longrightarrow> encrypt_aead P k n a m = Inr c \<Longrightarrow>
   decrypt_aead P k n a c = Inr m \<and> length c = length m + 16"
  using encrypt_aead_ok [of P k n a m] by (metis sum.inject(2))

lemma encrypt_of_decrypt_aead:
  assumes "aead_ok P" "decrypt_aead P k n a c = Inr m"
  shows "encrypt_aead P k n a m = Inr c"
proof -
  have "p_decrypt P k n a c = Some m" using assms(2) by (simp add: decrypt_aead_def result_simps)
  then have "p_encrypt P k n a m = Some c" using assms(1) unfolding aead_ok_def by blast
  then show ?thesis by (simp add: encrypt_aead_def)
qed

lemma decrypt_aead_length:
  "aead_ok P \<Longrightarrow> decrypt_aead P k n a c = Inr m \<Longrightarrow> length c = length m + 16"
  using aead_decrypt_length by (auto simp: decrypt_aead_def result_simps)

section \<open>Creation of slots\<close>

definition duress_marker :: "prims \<Rightarrow> header \<Rightarrow> bytes" where
  "duress_marker P h = p_blake3 P (bytes_of ''cipherfs-v2/duress-marker'' @ h_container_id h)"

text \<open>\<open>DuressSlot::random_disabled\<close> and \<open>KeySlot::random_disabled\<close> draw 16, 12 and 48 bytes.\<close>

definition random_disabled_duress :: "duress_slot io" where
  "random_disabled_duress =
     bindM (fill_bytes 16) (\<lambda>salt. bindM (fill_bytes 12) (\<lambda>nonce. bindM (fill_bytes 48) (\<lambda>marker.
     returnM \<lparr>ds_enabled = False, ds_salt = salt, ds_params = argon2_default, ds_nonce = nonce,
       ds_encrypted_marker = marker\<rparr>)))"

definition random_disabled_slot :: "key_slot io" where
  "random_disabled_slot =
     bindM (fill_bytes 16) (\<lambda>salt. bindM (fill_bytes 12) (\<lambda>nonce. bindM (fill_bytes 48) (\<lambda>dek.
     returnM \<lparr>ks_generation = 0, ks_salt = salt, ks_params = argon2_default, ks_nonce = nonce,
       ks_encrypted_dek = dek\<rparr>)))"

definition configure_duress :: "prims \<Rightarrow> header \<Rightarrow> string option \<Rightarrow> argon2_params \<Rightarrow> header io" where
  "configure_duress P h password params =
     bindM random_disabled_duress (\<lambda>d.
     let h = h\<lparr>h_duress := d\<lparr>ds_params := params\<rparr>\<rparr>
      in (case password of
        None \<Rightarrow> returnM h
      | Some password \<Rightarrow>
          let h = h\<lparr>h_duress := (h_duress h)\<lparr>ds_enabled := True\<rparr>\<rparr>
           in liftE (
             bindE (derive_kek P password (ds_salt (h_duress h)) (ds_params (h_duress h))) (\<lambda>kek.
             bindE (encrypt_aead P kek (ds_nonce (h_duress h)) (duress_aad h) (duress_marker P h)) (\<lambda>enc.
             bindE (copy_from_slice 48 enc) (\<lambda>enc.
             Inr (h\<lparr>h_duress := (h_duress h)\<lparr>ds_encrypted_marker := enc\<rparr>\<rparr>)))))))"

definition make_key_slot :: "prims \<Rightarrow> header \<Rightarrow> string \<Rightarrow> bytes \<Rightarrow> u64 \<Rightarrow> argon2_params \<Rightarrow> key_slot io" where
  "make_key_slot P h password dek generation params =
     bindM random_disabled_slot (\<lambda>slot.
     let slot = slot\<lparr>ks_generation := generation, ks_params := params\<rparr>
      in liftE (
        bindE (derive_kek P password (ks_salt slot) (ks_params slot)) (\<lambda>kek.
        bindE (encrypt_aead P kek (ks_nonce slot) (slot_aad P h slot) dek) (\<lambda>enc.
        bindE (copy_from_slice 48 enc) (\<lambda>enc.
        Inr (slot\<lparr>ks_encrypted_dek := enc\<rparr>))))))"

text \<open>A slot opens under a password when its key decrypts it to 32 bytes.\<close>

definition slot_opens :: "prims \<Rightarrow> header \<Rightarrow> string \<Rightarrow> key_slot \<Rightarrow> bytes \<Rightarrow> bool" where
  "slot_opens P h password slot dek \<longleftrightarrow>
     (case derive_kek P password (ks_salt slot) (ks_params slot) of
        Inl _ \<Rightarrow> False
      | Inr kek \<Rightarrow>
          decrypt_aead P kek (ks_nonce slot) (slot_aad P h slot) (ks_encrypted_dek slot) = Inr dek \<and>
          length dek = 32)"

definition duress_opens :: "prims \<Rightarrow> header \<Rightarrow> string \<Rightarrow> bool" where
  "duress_opens P h password \<longleftrightarrow>
     ds_enabled (h_duress h) \<and>
     (case derive_kek P password (ds_salt (h_duress h)) (ds_params (h_duress h)) of
        Inl _ \<Rightarrow> False
      | Inr kek \<Rightarrow>
          decrypt_aead P kek (ds_nonce (h_duress h)) (duress_aad h) (ds_encrypted_marker (h_duress h)) =
            Inr (duress_marker P h))"

lemma slot_opens_slots [simp]: "slot_opens P (h\<lparr>h_slots := s\<rparr>) = slot_opens P h"
  by (intro ext) (simp add: slot_opens_def split: sum.split)

lemma random_disabled_slot_eq:
  "random_disabled_slot w = (r, w') \<Longrightarrow>
   \<exists>slot. r = Inr slot \<and> wf_slot slot \<and> ks_generation slot = 0"
  by (auto simp: random_disabled_slot_def bindM_def fill_bytes_def returnM_def wf_slot_def)

lemma make_key_slot_opens:
  assumes "aead_ok P" "length dek = 32"
    and "make_key_slot P h password dek g params w = (Inr slot, w')"
  shows "slot_opens P h password slot dek" "ks_generation slot = g" "ks_params slot = params"
    "wf_slot slot"
proof -
  obtain s0 w1 where s0: "random_disabled_slot w = (Inr s0, w1)"
    using random_disabled_slot_eq by (metis surj_pair)
  define s where "s = s0\<lparr>ks_generation := g, ks_params := params\<rparr>"
  obtain kek enc where kek: "derive_kek P password (ks_salt s) (ks_params s) = Inr kek"
    and enc: "encrypt_aead P kek (ks_nonce s) (slot_aad P h s) dek = Inr enc"
    and len: "length enc = 48" and slot: "slot = s\<lparr>ks_encrypted_dek := enc\<rparr>"
    using assms(3) s0 by (auto simp: make_key_slot_def bindM_eq_Inr result_simps Let_def s_def)
  have wf0: "wf_slot s0" using random_disabled_slot_eq [OF s0] by auto
  show "slot_opens P h password slot dek"
    using kek decrypt_aead_encrypt [OF assms(1) enc] assms(2) by (simp add: slot_opens_def slot)
  show "ks_generation slot = g" "ks_params slot = params" by (simp_all add: slot s_def)
  show "wf_slot slot" using wf0 len by (simp add: wf_slot_def slot s_def)
qed

lemma make_key_slot_world:
  "make_key_slot P h password dek g params w = (r, w') \<Longrightarrow> w_disk w' = w_disk w"
  by (auto simp: make_key_slot_def random_disabled_slot_def bindM_def fill_bytes_def returnM_def
      liftE_def Let_def)

lemma configure_duress_opens:
  assumes "aead_ok P" "digest_ok P"
    and "configure_duress P h (Some password) params w = (Inr h', w')"
  shows "duress_opens P h' password"
    and "\<exists>d. h' = h\<lparr>h_duress := d\<rparr> \<and> ds_enabled d \<and> ds_params d = params \<and> length (ds_salt d) = 16 \<and>
          length (ds_nonce d) = 12 \<and> length (ds_encrypted_marker d) = 48"
proof -
  obtain d w1 where d: "random_disabled_duress w = (Inr d, w1)" "length (ds_salt d) = 16"
      "length (ds_nonce d) = 12"
    by (auto simp: random_disabled_duress_def bindM_def fill_bytes_def returnM_def)
  define e where "e = d\<lparr>ds_params := params, ds_enabled := True\<rparr>"
  have m: "duress_marker P (h\<lparr>h_duress := x\<rparr>) = duress_marker P h" for x
    by (simp add: duress_marker_def)
  obtain kek enc where kek: "derive_kek P password (ds_salt e) (ds_params e) = Inr kek"
    and enc: "encrypt_aead P kek (ds_nonce e) (duress_aad (h\<lparr>h_duress := e\<rparr>)) (duress_marker P h) = Inr enc"
    and len: "length enc = 48" and h': "h' = h\<lparr>h_duress := e\<lparr>ds_encrypted_marker := enc\<rparr>\<rparr>"
    using assms(3) d(1)
    by (auto simp: configure_duress_def bindM_eq_Inr result_simps Let_def e_def m)
  show "duress_opens P h' password"
    using kek decrypt_aead_encrypt [OF assms(1) enc] by (simp add: duress_opens_def h' m) (simp add: e_def)
  show "\<exists>d. h' = h\<lparr>h_duress := d\<rparr> \<and> ds_enabled d \<and> ds_params d = params \<and> length (ds_salt d) = 16 \<and>
      length (ds_nonce d) = 12 \<and> length (ds_encrypted_marker d) = 48"
    using d len by (intro exI [of _ "e\<lparr>ds_encrypted_marker := enc\<rparr>"]) (simp add: h' e_def)
qed

end
