(* ===== verification/V2Unlock.thy ===== *)
theory V2Unlock
  imports V2Keys
begin

text \<open>
  \<open>unlock\<close> of \<open>v2.rs\<close>: the live key slots, newest generation first, then the duress slot.
  A password unlocks exactly when one of the live slots opens under it; the duress answer needs
  an enabled duress slot and no live slot; without live slots nothing unlocks.
\<close>

datatype unlock_result = Unlocked bytes | Duress | Failed

text \<open>\<open>sort_by_key(Reverse(generation))\<close> is a stable sort.\<close>

definition unlock_candidates :: "header \<Rightarrow> key_slot list" where
  "unlock_candidates h =
     sort_key (\<lambda>slot. - uint (ks_generation slot))
       (filter (\<lambda>slot. 0 < ks_generation slot) [fst (h_slots h), snd (h_slots h)])"

fun try_slots :: "prims \<Rightarrow> header \<Rightarrow> string \<Rightarrow> key_slot list \<Rightarrow> bytes option result" where
  "try_slots P h password [] = Inr None"
| "try_slots P h password (slot # slots) =
     bindE (derive_kek P password (ks_salt slot) (ks_params slot)) (\<lambda>kek.
     (case decrypt_aead P kek (ks_nonce slot) (slot_aad P h slot) (ks_encrypted_dek slot) of
        Inr dek \<Rightarrow> if length dek = 32 then Inr (Some dek) else try_slots P h password slots
      | Inl _ \<Rightarrow> try_slots P h password slots))"

definition try_duress :: "prims \<Rightarrow> header \<Rightarrow> string \<Rightarrow> bool result" where
  "try_duress P h password =
     (if ds_enabled (h_duress h)
      then bindE (derive_kek P password (ds_salt (h_duress h)) (ds_params (h_duress h))) (\<lambda>kek.
        (case decrypt_aead P kek (ds_nonce (h_duress h)) (duress_aad h)
              (ds_encrypted_marker (h_duress h)) of
           Inr marker \<Rightarrow> Inr (marker = duress_marker P h)
         | Inl _ \<Rightarrow> Inr False))
      else Inr False)"

definition unlock :: "prims \<Rightarrow> header \<Rightarrow> string \<Rightarrow> unlock_result result" where
  "unlock P h password =
     bindE (validate_header_basic h None) (\<lambda>_.
     bindE (try_slots P h password (unlock_candidates h)) (\<lambda>found.
     (case found of
        Some dek \<Rightarrow> Inr (Unlocked dek)
      | None \<Rightarrow>
          bindE (try_duress P h password) (\<lambda>matches.
          Inr (if matches then Duress else Failed)))))"

text \<open>A live slot has a positive generation.\<close>

definition live_slots :: "header \<Rightarrow> key_slot set" where
  "live_slots h = {slot \<in> {fst (h_slots h), snd (h_slots h)}. 0 < ks_generation slot}"

lemma set_unlock_candidates [simp]: "set (unlock_candidates h) = live_slots h"
  by (auto simp: unlock_candidates_def live_slots_def)

lemma sorted_unlock_candidates:
  "sorted_wrt (\<lambda>a b. uint (ks_generation b) \<le> uint (ks_generation a)) (unlock_candidates h)"
proof -
  have "sorted (map (\<lambda>slot. - uint (ks_generation slot)) (unlock_candidates h))"
    by (simp add: unlock_candidates_def)
  then show ?thesis by (simp add: sorted_map)
qed

lemma unlock_candidates_two:
  "h_slots h = (a, b) \<Longrightarrow> unlock_candidates h =
    (if 0 < ks_generation a then
       if 0 < ks_generation b then
         if ks_generation b \<le> ks_generation a then [a, b] else [b, a]
       else [a]
     else if 0 < ks_generation b then [b] else [])"
  by (simp add: unlock_candidates_def word_le_def)

lemma try_slots_Some:
  "try_slots P h password slots = Inr (Some dek) \<Longrightarrow>
   \<exists>slot \<in> set slots. slot_opens P h password slot dek"
proof (induction slots)
  case (Cons s slots)
  then obtain kek where kek: "derive_kek P password (ks_salt s) (ks_params s) = Inr kek"
    by (auto simp: result_simps)
  have "slot_opens P h password s dek \<or> try_slots P h password slots = Inr (Some dek)"
    using Cons.prems kek by (auto simp: slot_opens_def split: sum.splits if_splits)
  with Cons.IH show ?case by auto
qed simp

lemma try_slots_None:
  "try_slots P h password slots = Inr None \<Longrightarrow> slot \<in> set slots \<Longrightarrow> \<not> slot_opens P h password slot dek"
proof (induction slots)
  case (Cons s slots)
  then obtain kek where kek: "derive_kek P password (ks_salt s) (ks_params s) = Inr kek"
    by (auto simp: result_simps)
  have "try_slots P h password slots = Inr None" and "\<not> slot_opens P h password s dek"
    using Cons.prems(1) kek by (auto simp: slot_opens_def split: sum.splits if_splits)
  with Cons show ?case by auto
qed simp

lemma try_slots_skip:
  "derive_kek P password (ks_salt s) (ks_params s) = Inr kek \<Longrightarrow>
   (\<And>d. \<not> slot_opens P h password s d) \<Longrightarrow>
   try_slots P h password (s # slots) = try_slots P h password slots"
  by (auto simp: slot_opens_def split: sum.splits)

lemma try_slots_hit:
  "slot_opens P h password s dek \<Longrightarrow> try_slots P h password (s # slots) = Inr (Some dek)"
  by (auto simp: slot_opens_def split: sum.splits)

lemma unlock_eq_Unlocked:
  "unlock P h password = Inr (Unlocked dek) \<longleftrightarrow>
    header_within_limits h \<and> try_slots P h password (unlock_candidates h) = Inr (Some dek)"
proof -
  have "unlock P h password = Inr (Unlocked dek) \<longleftrightarrow>
    validate_header_basic h None = Inr () \<and> try_slots P h password (unlock_candidates h) = Inr (Some dek)"
    by (auto simp: unlock_def result_simps split: option.splits if_splits)
  then show ?thesis by (simp add: validate_header_basic_None)
qed

lemma unlock_Unlocked_sound:
  "unlock P h password = Inr (Unlocked dek) \<Longrightarrow>
   \<exists>slot \<in> live_slots h. slot_opens P h password slot dek"
  using try_slots_Some [of P h password "unlock_candidates h" dek] by (simp add: unlock_eq_Unlocked)

text \<open>With every key derivation going through, \<open>unlock\<close> takes the newest slot that opens.\<close>

definition argon_total :: "prims \<Rightarrow> bool" where
  "argon_total P \<longleftrightarrow>
     (\<forall>password salt params. argon2_within_limits params \<longrightarrow>
        (\<exists>key. derive_kek P password salt params = Inr key))"

lemma live_slot_kek:
  assumes "argon_total P" "header_within_limits h" "slot \<in> live_slots h"
  shows "\<exists>kek. derive_kek P password (ks_salt slot) (ks_params slot) = Inr kek"
  using assms by (auto simp: argon_total_def header_within_limits_def live_slots_def)

lemma try_slots_total:
  assumes "argon_total P" "header_within_limits h" "set slots \<subseteq> live_slots h"
  shows "\<exists>x. try_slots P h password slots = Inr x"
  using assms(3)
proof (induction slots)
  case (Cons slot slots)
  obtain kek where "derive_kek P password (ks_salt slot) (ks_params slot) = Inr kek"
    using live_slot_kek [OF assms(1,2)] Cons.prems by fastforce
  with Cons show ?case by (auto split: sum.split)
qed simp

lemma try_duress_eq:
  assumes "argon_total P" "header_within_limits h"
  shows "try_duress P h password = Inr (duress_opens P h password)"
proof (cases "ds_enabled (h_duress h)")
  case True
  with assms obtain kek where
    "derive_kek P password (ds_salt (h_duress h)) (ds_params (h_duress h)) = Inr kek"
    unfolding argon_total_def header_within_limits_def by blast
  with True show ?thesis
    by (auto simp: try_duress_def duress_opens_def split: sum.split)
qed (simp add: try_duress_def duress_opens_def)

text \<open>The specification of \<open>unlock\<close>: the three answers by what opens.\<close>

lemma unlock_spec:
  assumes "argon_total P" "header_within_limits h"
  shows "unlock P h password = Inr r \<longleftrightarrow>
    (case r of
       Unlocked dek \<Rightarrow> try_slots P h password (unlock_candidates h) = Inr (Some dek)
     | Duress \<Rightarrow> (\<forall>slot \<in> live_slots h. \<forall>dek. \<not> slot_opens P h password slot dek) \<and>
         duress_opens P h password
     | Failed \<Rightarrow> (\<forall>slot \<in> live_slots h. \<forall>dek. \<not> slot_opens P h password slot dek) \<and>
         \<not> duress_opens P h password)"
proof -
  obtain x where x: "try_slots P h password (unlock_candidates h) = Inr x"
    using try_slots_total [OF assms, of "unlock_candidates h"] by auto
  have valid: "validate_header_basic h None = Inr ()"
    using assms(2) by (simp add: validate_header_basic_None)
  show ?thesis
  proof (cases x)
    case None
    with x have "\<forall>slot \<in> live_slots h. \<forall>dek. \<not> slot_opens P h password slot dek"
      using try_slots_None by fastforce
    with None x valid assms show ?thesis
      by (auto simp: unlock_def try_duress_eq split: unlock_result.split)
  next
    case (Some dek)
    with x obtain slot where "slot \<in> live_slots h" "slot_opens P h password slot dek"
      using try_slots_Some by fastforce
    with Some x valid show ?thesis
      by (auto simp: unlock_def split: unlock_result.split)
  qed
qed

lemma unlock_total:
  assumes "argon_total P" "header_within_limits h"
  shows "\<exists>r. unlock P h password = Inr r"
proof -
  obtain x where "try_slots P h password (unlock_candidates h) = Inr x"
    using try_slots_total [OF assms, of "unlock_candidates h"] by auto
  moreover have "validate_header_basic h None = Inr ()"
    using assms(2) by (simp add: validate_header_basic_None)
  ultimately show ?thesis
    using assms by (auto simp: unlock_def try_duress_eq split: option.split)
qed

lemma unlock_newest:
  assumes "argon_total P" "header_within_limits h" "slot \<in> live_slots h"
    and opens: "slot_opens P h password slot dek"
    and others: "\<And>s d. s \<in> live_slots h \<Longrightarrow> s \<noteq> slot \<Longrightarrow> \<not> slot_opens P h password s d"
  shows "unlock P h password = Inr (Unlocked dek)"
proof -
  obtain x where x: "try_slots P h password (unlock_candidates h) = Inr x"
    using try_slots_total [OF assms(1,2), of "unlock_candidates h"] by auto
  have "x \<noteq> None"
    using x opens assms(3) try_slots_None [of P h password "unlock_candidates h" slot dek] by auto
  then obtain d where d: "x = Some d" by auto
  with x obtain s where s: "s \<in> live_slots h" "slot_opens P h password s d"
    using try_slots_Some by fastforce
  with others have "s = slot" by blast
  with s opens have "d = dek" by (auto simp: slot_opens_def split: sum.splits)
  with x d assms(2) show ?thesis by (simp add: unlock_eq_Unlocked)
qed

lemma unlock_no_live_slot:
  "live_slots h = {} \<Longrightarrow> unlock P h password \<noteq> Inr (Unlocked dek)"
  using unlock_Unlocked_sound by fastforce

end
