(* ===== verification/V2Chunks.thy ===== *)
theory V2Chunks
  imports V2Keys V2Index
begin

text \<open>
  Encrypted chunks of an opened container (\<open>v2.rs\<close>): \<open>decrypt_chunk\<close> and the verification of
  all chunks under any schedule of the workers. In a container that passed validation the
  position arithmetic never fails and every chunk lies inside the file; a chunk that decrypts
  has the length its place requires and was encrypted for exactly that place.
\<close>

section \<open>State\<close>

text \<open>The container reads its file through a positional reader.\<close>

record opened_container =
  oc_read :: reader
  oc_header :: header
  oc_index :: validated_index
  oc_dek :: bytes
  oc_data_start :: u64

section \<open>Chunks\<close>

definition decrypt_chunk :: "prims \<Rightarrow> opened_container \<Rightarrow> entry \<Rightarrow> u64 \<Rightarrow> bytes result" where
  "decrypt_chunk P opened ent chunk_index =
     bindE (ensure (\<not> (e_kind ent \<noteq> File \<or> e_chunk_count ent \<le> chunk_index)) ''Invalid chunk request'') (\<lambda>_.
     bindE (context_opt ''Chunk offset overflow'' (checked_mul chunk_index CHUNK64)) (\<lambda>plain_start.
     let plain_len = min CHUNK64 (e_size ent - plain_start) in
     bindE (context_opt ''Ciphertext length overflow'' (checked_add plain_len TAG_SIZE)) (\<lambda>cipher_len.
     bindE (context_opt ''Chunk position overflow'' (checked_mul chunk_index (CHUNK64 + TAG_SIZE))) (\<lambda>relative.
     bindE (context_opt ''Chunk file position overflow''
        (Option.bind (checked_add (oc_data_start opened) (e_data_offset ent)) (\<lambda>v. checked_add v relative))) (\<lambda>position.
     bindE (oc_read opened position (unat cipher_len)) (\<lambda>encrypted.
     bindE (derive_file_key P (oc_dek opened) (h_container_id (oc_header opened)) (e_file_id ent)) (\<lambda>key.
     bindE (decrypt_aead P key (chunk_nonce chunk_index)
        (chunk_aad (oc_header opened) ent chunk_index plain_len) encrypted) (\<lambda>plaintext.
     bindE (ensure (of_nat (length plaintext) = plain_len) ''Chunk plaintext length mismatch'') (\<lambda>_.
     Inr plaintext)))))))))"

section \<open>Verification\<close>

definition file_entries :: "validated_index \<Rightarrow> entry list" where
  "file_entries index =
     sort_key e_data_offset (filter (\<lambda>e. e_kind e = File) (map snd (vi_entries index)))"

definition total_size :: "string \<Rightarrow> entry list \<Rightarrow> u64 result" where
  "total_size msg files = foldE (\<lambda>e sum. context_opt msg (checked_add sum (e_size e))) files 0"

definition verify_chunk :: "prims \<Rightarrow> opened_container \<Rightarrow> entry \<times> u64 \<Rightarrow> progress_tracker \<Rightarrow> progress_tracker io" where
  "verify_chunk P opened task progress =
     (case task of (ent, chunk_index) \<Rightarrow>
       bindM check_cancel (\<lambda>_.
       bindM (liftE (context_err (''File entry '' @ dec_string (unat (e_id ent)) @ '' chunk ''
          @ dec_string (unat chunk_index) @ '' failed'') (decrypt_chunk P opened ent chunk_index))) (\<lambda>_.
       bindM (liftE (context_opt ''Verification chunk offset overflow''
          (checked_mul chunk_index CHUNK64))) (\<lambda>plain_offset.
       let (progress', events) = advance (min CHUNK64 (e_size ent - plain_offset)) progress
        in bindM (emit_all events) (\<lambda>_. returnM progress')))))"

definition chunk_tasks :: "entry list \<Rightarrow> (entry \<times> u64) list" where
  "chunk_tasks files =
     concat (map (\<lambda>e. map (\<lambda>i. (e, of_nat i)) [0..<unat (e_chunk_count e)]) files)"

text \<open>The workers take the chunks in an order of their own: \<open>schedule\<close> arranges the tasks.\<close>

definition verify_all_with_control ::
  "prims \<Rightarrow> ((entry \<times> u64) list \<Rightarrow> (entry \<times> u64) list) \<Rightarrow> opened_container \<Rightarrow> unit io" where
  "verify_all_with_control P schedule opened =
     (let files = file_entries (oc_index opened) in
     bindM (liftE (total_size ''Total verification size overflow'' files)) (\<lambda>total.
     let (progress, events) = tracker_new Verify total in
     bindM (emit_all events) (\<lambda>_.
     bindM (foldM (verify_chunk P opened) (schedule (chunk_tasks files)) progress) (\<lambda>_.
     returnM ()))))"

section \<open>Chunk arithmetic\<close>

lemma file_entry_sizes:
  assumes "entry_ok e" "e_kind e = File"
  shows "unat (e_chunk_count e) = chunks_for (unat (e_size e))"
    and "unat (e_encrypted_size e) = unat (e_size e) + 16 * chunks_for (unat (e_size e))"
  using assms by (simp_all add: entry_ok_def encrypted_file_size_eq_Inr)

lemma chunk_region_inside:
  assumes "i < chunks_for n"
  shows "i * (CHUNK_SIZE + 16) + chunk_len n i + 16 \<le> n + 16 * chunks_for n"
proof -
  have "i * CHUNK_SIZE + chunk_len n i \<le> n"
    using assms by (simp add: chunk_len_def less_chunks_for)
  moreover have "16 * Suc i \<le> 16 * chunks_for n"
    using assms by (intro mult_le_mono2) simp
  ultimately show ?thesis by (simp add: algebra_simps)
qed

text \<open>Position of a chunk in the file.\<close>

definition chunk_position :: "opened_container \<Rightarrow> entry \<Rightarrow> nat \<Rightarrow> nat" where
  "chunk_position opened e i =
     unat (oc_data_start opened) + unat (e_data_offset e) + i * (CHUNK_SIZE + 16)"

text \<open>What \<open>open\<close> establishes of the tables it hands out.\<close>

definition opened_ok :: "opened_container \<Rightarrow> entry list \<Rightarrow> bool" where
  "opened_ok opened es \<longleftrightarrow>
     index_ok (oc_header opened) es \<and> oc_index opened = index_tables es \<and>
     unat (oc_data_start opened) = HEADER_SIZE + unat (h_index_size (oc_header opened)) \<and>
     HEADER_SIZE + unat (h_index_size (oc_header opened)) + unat (h_data_size (oc_header opened)) < 2 ^ 64"

lemma opened_ok_entry:
  "opened_ok opened es \<Longrightarrow> e \<in> set es \<Longrightarrow> entry_ok e"
  by (simp add: opened_ok_def index_ok_def)

lemma chunk_position_bound:
  assumes "opened_ok opened es" "e \<in> set es" "e_kind e = File" "i < unat (e_chunk_count e)"
  shows "chunk_position opened e i + chunk_len (unat (e_size e)) i + 16 \<le>
    HEADER_SIZE + unat (h_index_size (oc_header opened)) + unat (h_data_size (oc_header opened))"
proof -
  have "unat (e_data_offset e) + unat (e_encrypted_size e) \<le> unat (h_data_size (oc_header opened))"
    using index_ok_regions(1) assms unfolding opened_ok_def by blast
  moreover note sizes = file_entry_sizes [OF opened_ok_entry [OF assms(1,2)] assms(3)]
  moreover have "i * (CHUNK_SIZE + 16) + chunk_len (unat (e_size e)) i + 16 \<le>
      unat (e_size e) + 16 * chunks_for (unat (e_size e))"
    using assms(4) sizes by (intro chunk_region_inside) simp
  ultimately show ?thesis
    using assms(1) by (simp add: chunk_position_def opened_ok_def)
qed

text \<open>The word arithmetic of a chunk, exact wherever the chunk ends inside the address range; the
  reader and the writer of chunks compute the same places.\<close>

lemma chunk_words:
  fixes start :: u64
  assumes i: "i < chunks_for (unat (e_size e))"
    and bound: "unat start + unat (e_data_offset e) + i * (CHUNK_SIZE + 16) + chunk_len (unat (e_size e)) i + 16 < 2 ^ 64"
  obtains ps cl rel base :: u64 where
    "checked_mul (of_nat i) CHUNK64 = Some ps" "min CHUNK64 (e_size e - ps) = of_nat (chunk_len (unat (e_size e)) i)"
    "unat ps = i * CHUNK_SIZE"
    "checked_add (of_nat (chunk_len (unat (e_size e)) i)) TAG_SIZE = Some cl" "unat cl = chunk_len (unat (e_size e)) i + 16"
    "checked_mul (of_nat i) (CHUNK64 + TAG_SIZE) = Some rel" "checked_add start (e_data_offset e) = Some base"
    "checked_add base rel = Some (of_nat (unat start + unat (e_data_offset e) + i * (CHUNK_SIZE + 16)))"
    "unat (of_nat i :: u64) = i"
proof -
  let ?n = "unat (e_size e)" and ?i = "of_nat i :: u64"
  let ?len = "chunk_len ?n i" and ?pos = "unat start + unat (e_data_offset e) + i * (CHUNK_SIZE + 16)"
  have in_n: "i * CHUNK_SIZE < ?n" using i by (simp add: less_chunks_for)
  have exact: "\<exists>w :: u64. unat w = k" if "k < 18446744073709551616" for k
    using that by (intro exI [of _ "of_nat k"] unat_of_nat_small) simp
  have bound': "?pos + ?len + 16 < 18446744073709551616" using bound by simp
  have "i \<le> i * (CHUNK_SIZE + 16)" by simp
  then have "i < 18446744073709551616" using bound' by linarith
  then have ui: "unat ?i = i" by (intro unat_of_nat_small) simp
  have "i * CHUNK_SIZE < 18446744073709551616"
    using in_n unat_u64_bound [of "e_size e"] by linarith
  then obtain ps :: u64 where ps: "unat ps = i * CHUNK_SIZE" using exact by blast
  obtain cl :: u64 where cl: "unat cl = ?len + 16" using exact [of "?len + 16"] bound' by auto
  obtain rel :: u64 where rel: "unat rel = i * (CHUNK_SIZE + 16)"
    using exact [of "i * (CHUNK_SIZE + 16)"] bound' by auto
  obtain base :: u64 where base: "unat base = unat start + unat (e_data_offset e)"
    using exact [of "unat start + unat (e_data_offset e)"] bound' by auto
  obtain pos :: u64 where pos: "unat pos = ?pos" using exact [of ?pos] bound' by auto
  have ct: "unat (CHUNK64 + TAG_SIZE) = CHUNK_SIZE + 16"
    by (subst unat_add_exact) (simp_all add: CHUNK_SIZE_def)
  have ul: "unat (of_nat ?len :: u64) = ?len" using bound' by (intro unat_of_nat_small) simp
  show thesis
  proof (rule that)
    show "checked_mul ?i CHUNK64 = Some ps" by (simp only: checked_mul_eq_Some ps ui unat_consts)
    show "unat ps = i * CHUNK_SIZE" by (rule ps)
    show "min CHUNK64 (e_size e - ps) = of_nat ?len"
    proof (rule eq_of_nat)
      show "unat (min CHUNK64 (e_size e - ps)) = ?len"
        using in_n ps by (simp add: unat_min unat_sub_exact word_le_nat_alt chunk_len_def)
    qed
    show "checked_add (of_nat ?len) TAG_SIZE = Some cl" by (simp only: checked_add_eq_Some cl ul unat_consts)
    show "unat cl = ?len + 16" by (rule cl)
    show "checked_mul ?i (CHUNK64 + TAG_SIZE) = Some rel" by (simp only: checked_mul_eq_Some rel ui ct)
    show "checked_add start (e_data_offset e) = Some base" by (simp only: checked_add_eq_Some base)
    show "checked_add base rel = Some (of_nat ?pos)"
      unfolding eq_of_nat [OF pos, symmetric] by (simp only: checked_add_eq_Some pos base rel)
    show "unat ?i = i" by (rule ui)
  qed
qed

lemma decrypt_chunk_eq:
  assumes ok: "opened_ok opened es" "e \<in> set es" "e_kind e = File" and i: "i < unat (e_chunk_count e)"
  shows "decrypt_chunk P opened e (of_nat i) =
    bindE (oc_read opened (of_nat (chunk_position opened e i)) (chunk_len (unat (e_size e)) i + 16)) (\<lambda>encrypted.
    bindE (derive_file_key P (oc_dek opened) (h_container_id (oc_header opened)) (e_file_id e)) (\<lambda>key.
    bindE (decrypt_aead P key (chunk_nonce (of_nat i))
      (chunk_aad (oc_header opened) e (of_nat i) (of_nat (chunk_len (unat (e_size e)) i))) encrypted) (\<lambda>plaintext.
    bindE (ensure (of_nat (length plaintext) = (of_nat (chunk_len (unat (e_size e)) i) :: u64))
      ''Chunk plaintext length mismatch'') (\<lambda>_. Inr plaintext))))"
proof -
  note sizes = file_entry_sizes [OF opened_ok_entry [OF ok(1,2)] ok(3)]
  have bound: "chunk_position opened e i + chunk_len (unat (e_size e)) i + 16 < 2 ^ 64"
    using chunk_position_bound [OF ok i] ok(1) by (simp add: opened_ok_def)
  have i': "i < chunks_for (unat (e_size e))" using i sizes by simp
  obtain ps cl rel base :: u64 where w:
    "checked_mul (of_nat i) CHUNK64 = Some ps" "min CHUNK64 (e_size e - ps) = of_nat (chunk_len (unat (e_size e)) i)"
    "checked_add (of_nat (chunk_len (unat (e_size e)) i)) TAG_SIZE = Some cl" "unat cl = chunk_len (unat (e_size e)) i + 16"
    "checked_mul (of_nat i) (CHUNK64 + TAG_SIZE) = Some rel"
    "checked_add (oc_data_start opened) (e_data_offset e) = Some base"
    "checked_add base rel = Some (of_nat (chunk_position opened e i))" "unat (of_nat i :: u64) = i"
    using chunk_words [OF i', of "oc_data_start opened"] bound unfolding chunk_position_def by metis
  have "\<not> e_chunk_count e \<le> of_nat i" using i w(8) by (simp add: word_le_nat_alt)
  then show ?thesis using ok(3) w by (simp add: decrypt_chunk_def Let_def)
qed

section \<open>Stored chunks\<close>

text \<open>The ciphertext a chunk has in its place: under the file key, with the nonce of its index and
  bound to container, file, size, index and length.\<close>

definition encrypt_chunk :: "prims \<Rightarrow> header \<Rightarrow> bytes \<Rightarrow> entry \<Rightarrow> nat \<Rightarrow> bytes \<Rightarrow> bytes result" where
  "encrypt_chunk P h dek e i plain =
     bindE (derive_file_key P dek (h_container_id h) (e_file_id e)) (\<lambda>key.
     encrypt_aead P key (chunk_nonce (of_nat i)) (chunk_aad h e (of_nat i) (of_nat (length plain))) plain)"

definition chunk_stored :: "prims \<Rightarrow> opened_container \<Rightarrow> entry \<Rightarrow> nat \<Rightarrow> bytes \<Rightarrow> bool" where
  "chunk_stored P opened e i plain \<longleftrightarrow>
     length plain = chunk_len (unat (e_size e)) i \<and>
     (case encrypt_chunk P (oc_header opened) (oc_dek opened) e i plain of
        Inl _ \<Rightarrow> False
      | Inr ct \<Rightarrow> oc_read opened (of_nat (chunk_position opened e i)) (length plain + 16) = Inr ct)"

lemma chunk_len_of_nat_inject:
  "of_nat n = (of_nat (chunk_len m i) :: u64) \<longleftrightarrow> n = chunk_len m i" if "n < 2 ^ 64"
proof -
  have "chunk_len m i < 2 ^ LENGTH(64)"
    using chunk_len_bounds(2) [of m i] by (simp add: CHUNK_SIZE_def)
  then have "unat (of_nat (chunk_len m i) :: u64) = chunk_len m i" by (rule unat_of_nat_small)
  moreover have "unat (of_nat n :: u64) = n" using that by (intro unat_of_nat_small) simp
  ultimately show ?thesis by metis
qed

lemma decrypt_chunk_stored:
  assumes P: "aead_ok P" and ok: "opened_ok opened es" "e \<in> set es" "e_kind e = File"
    and i: "i < unat (e_chunk_count e)" and stored: "chunk_stored P opened e i plain"
  shows "decrypt_chunk P opened e (of_nat i) = Inr plain"
proof -
  from stored obtain key ct where "derive_file_key P (oc_dek opened) (h_container_id (oc_header opened)) (e_file_id e) = Inr key"
    and ct: "encrypt_aead P key (chunk_nonce (of_nat i)) (chunk_aad (oc_header opened) e (of_nat i) (of_nat (length plain))) plain = Inr ct"
    and "oc_read opened (of_nat (chunk_position opened e i)) (length plain + 16) = Inr ct"
    and len: "length plain = chunk_len (unat (e_size e)) i"
    by (auto simp: chunk_stored_def encrypt_chunk_def bindE_def split: sum.splits)
  with decrypt_aead_encrypt [OF P ct] show "decrypt_chunk P opened e (of_nat i) = Inr plain"
    by (simp add: decrypt_chunk_eq [OF ok i])
qed

text \<open>A chunk decrypts to \<open>plain\<close> exactly when its place in the file holds the encryption of
  \<open>plain\<close> for that place.\<close>

lemma decrypt_chunk_iff:
  assumes P: "aead_ok P" and ok: "opened_ok opened es" "e \<in> set es" "e_kind e = File"
    and i: "i < unat (e_chunk_count e)"
    and exact: "\<And>off n bs. oc_read opened off n = Inr bs \<Longrightarrow> length bs = n"
  shows "decrypt_chunk P opened e (of_nat i) = Inr plain \<longleftrightarrow> chunk_stored P opened e i plain"
proof
  let ?len = "chunk_len (unat (e_size e)) i"
  assume "decrypt_chunk P opened e (of_nat i) = Inr plain"
  then obtain enc key where enc: "oc_read opened (of_nat (chunk_position opened e i)) (?len + 16) = Inr enc"
    and key: "derive_file_key P (oc_dek opened) (h_container_id (oc_header opened)) (e_file_id e) = Inr key"
    and dec: "decrypt_aead P key (chunk_nonce (of_nat i))
      (chunk_aad (oc_header opened) e (of_nat i) (of_nat ?len)) enc = Inr plain"
    by (auto simp: decrypt_chunk_eq [OF ok i] result_simps)
  have len: "length plain = ?len"
    using decrypt_aead_length [OF P dec] exact [OF enc] by simp
  from enc key len encrypt_of_decrypt_aead [OF P dec] show "chunk_stored P opened e i plain"
    by (simp add: chunk_stored_def encrypt_chunk_def)
next
  assume "chunk_stored P opened e i plain"
  then show "decrypt_chunk P opened e (of_nat i) = Inr plain" by (rule decrypt_chunk_stored [OF P ok i])
qed

text \<open>A file is stored when all its chunks are.\<close>

definition file_stored :: "prims \<Rightarrow> opened_container \<Rightarrow> entry \<Rightarrow> bytes \<Rightarrow> bool" where
  "file_stored P opened e content \<longleftrightarrow>
     length content = unat (e_size e) \<and>
     (\<forall>i \<in> set [0..<unat (e_chunk_count e)].
        chunk_stored P opened e i (slice (i * CHUNK_SIZE) CHUNK_SIZE content))"

section \<open>Verification\<close>

lemma set_chunk_tasks:
  "set (chunk_tasks files) = {(e, of_nat i) | e i. e \<in> set files \<and> i < unat (e_chunk_count e)}"
  by (auto simp: chunk_tasks_def)

lemma total_size_eq_Inr:
  "total_size msg files = Inr tot \<longleftrightarrow> unat tot = sum_list (map (\<lambda>e. unat (e_size e)) files)"
proof -
  have "foldE (\<lambda>e sum. context_opt msg (checked_add sum (e_size e))) files n = Inr tot \<longleftrightarrow>
      unat tot = unat n + sum_list (map (\<lambda>e. unat (e_size e)) files)" for n
  proof (induction files arbitrary: n)
    case (Cons e files)
    have "foldE (\<lambda>e sum. context_opt msg (checked_add sum (e_size e))) (e # files) n = Inr tot \<longleftrightarrow>
        (\<exists>m :: u64. unat m = unat n + unat (e_size e) \<and>
           unat tot = unat m + sum_list (map (\<lambda>e. unat (e_size e)) files))"
      by (auto simp: result_simps checked_add_eq_Some Cons.IH)
    also have "\<dots> \<longleftrightarrow> unat tot = unat n + sum_list (map (\<lambda>e. unat (e_size e)) (e # files))"
    proof
      assume eq: "unat tot = unat n + sum_list (map (\<lambda>e. unat (e_size e)) (e # files))"
      then have "unat n + unat (e_size e) < 18446744073709551616"
        using unat_u64_bound [of tot] by (simp del: unat_u64_bound)
      then have "unat (of_nat (unat n + unat (e_size e)) :: u64) = unat n + unat (e_size e)"
        by (intro unat_of_nat_small) simp
      with eq show "\<exists>m :: u64. unat m = unat n + unat (e_size e) \<and>
           unat tot = unat m + sum_list (map (\<lambda>e. unat (e_size e)) files)"
        by (intro exI [of _ "of_nat (unat n + unat (e_size e))"]) simp
    qed auto
    finally show ?case .
  qed (auto simp: word_unat_eq_iff)
  from this [of 0] show ?thesis by (simp add: total_size_def)
qed

lemma set_file_entries:
  "set (file_entries (index_tables es)) = {e \<in> set es. e_kind e = File}"
  by (auto simp: file_entries_def index_tables_def)

lemma file_entries_index_tables:
  "file_entries (index_tables es) = sort_key e_data_offset (files_of es)"
  by (simp add: file_entries_def index_tables_def files_of_def comp_def)

lemma total_size_fits:
  assumes "opened_ok opened es"
  shows "\<exists>tot. total_size msg (file_entries (oc_index opened)) = Inr tot"
proof -
  let ?files = "sort_key e_data_offset (files_of es)"
  have eq: "file_entries (oc_index opened) = ?files"
    using assms by (simp add: opened_ok_def file_entries_index_tables)
  have "unat (e_size e) \<le> unat (e_encrypted_size e)" if "e \<in> set ?files" for e
    using that file_entry_sizes(2) [of e] opened_ok_entry [OF assms, of e] by (simp add: files_of_def)
  then have "sum_list (map (\<lambda>e. unat (e_size e)) ?files) \<le> sum_list (map (\<lambda>e. unat (e_encrypted_size e)) ?files)"
    by (intro sum_list_mono)
  also have "\<dots> = unat (h_data_size (oc_header opened))"
    using layout_end_regions(3) [of 0 ?files] assms by (simp add: opened_ok_def index_ok_def)
  finally have "sum_list (map (\<lambda>e. unat (e_size e)) ?files) < 18446744073709551616"
    using unat_u64_bound [of "h_data_size (oc_header opened)"] by linarith
  then have "sum_list (map (\<lambda>e. unat (e_size e)) ?files) < 2 ^ LENGTH(64)" by simp
  then show ?thesis
    unfolding total_size_eq_Inr eq by (intro exI [of _ "of_nat _"]) (rule unat_of_nat_small)
qed

lemma verify_chunk_Inr:
  "verify_chunk P opened (e, i) progress w = (Inr progress', w') \<Longrightarrow> \<exists>plain. decrypt_chunk P opened e i = Inr plain"
  by (auto simp: verify_chunk_def bindM_eq_Inr result_simps)

text \<open>Verification succeeds exactly when every chunk of every file decrypts, in whatever order the
  workers take them.\<close>

lemma verify_all_sound:
  assumes "set (schedule (chunk_tasks (file_entries (oc_index opened)))) =
      set (chunk_tasks (file_entries (oc_index opened)))"
    and "verify_all_with_control P schedule opened w = (Inr (), w')"
    and "e \<in> set (file_entries (oc_index opened))" "i < unat (e_chunk_count e)"
  shows "\<exists>plain. decrypt_chunk P opened e (of_nat i) = Inr plain"
proof -
  let ?ts = "chunk_tasks (file_entries (oc_index opened))"
  obtain tot where "total_size ''Total verification size overflow'' (file_entries (oc_index opened)) = Inr tot"
    using assms(2) by (auto simp: verify_all_with_control_def Let_def bindM_eq_Inr)
  moreover obtain p evs where "tracker_new Verify tot = (p, evs)" by (cases "tracker_new Verify tot")
  ultimately obtain w1 p' w2 where "foldM (verify_chunk P opened) (schedule ?ts) p w1 = (Inr p', w2)"
    using assms(2) by (auto simp: verify_all_with_control_def Let_def bindM_eq_Inr)
  moreover have "(e, of_nat i) \<in> set (schedule ?ts)"
    using assms(1,3,4) by (auto simp: set_chunk_tasks)
  ultimately show ?thesis
    using foldM_steps [of "verify_chunk P opened"] verify_chunk_Inr by metis
qed

lemma verify_all_complete:
  assumes ok: "opened_ok opened es" and sched: "set (schedule (chunk_tasks (file_entries (oc_index opened)))) =
      set (chunk_tasks (file_entries (oc_index opened)))"
    and running: "\<And>n. \<not> w_cancelled w n"
    and all: "\<And>e i. e \<in> set (file_entries (oc_index opened)) \<Longrightarrow> i < unat (e_chunk_count e) \<Longrightarrow>
      \<exists>plain. decrypt_chunk P opened e (of_nat i) = Inr plain"
  shows "\<exists>w'. verify_all_with_control P schedule opened w = (Inr (), w')"
proof -
  let ?files = "file_entries (oc_index opened)"
  let ?J = "\<lambda>w. \<forall>n. \<not> w_cancelled w n"
  obtain tot where tot: "total_size ''Total verification size overflow'' ?files = Inr tot"
    using total_size_fits [OF ok] by blast
  have step: "\<exists>t w'. verify_chunk P opened task p w = (Inr t, w') \<and> ?J w'"
    if task: "task \<in> set (schedule (chunk_tasks ?files))" and J: "?J w" for task p w
  proof -
    obtain e i where e: "task = (e, of_nat i)" "e \<in> set ?files" "i < unat (e_chunk_count e)"
      using task sched by (auto simp: set_chunk_tasks)
    obtain plain where plain: "decrypt_chunk P opened e (of_nat i) = Inr plain"
      using all e by blast
    then obtain m where "checked_mul (of_nat i) CHUNK64 = Some m"
      by (auto simp: decrypt_chunk_def result_simps)
    with plain J show ?thesis
      by (simp add: e(1) verify_chunk_def bindM_def check_cancel_def check_def is_cancelled_def emit_all_def
          returnM_def liftE_def split: prod.split)
  qed
  obtain p evs where new: "tracker_new Verify tot = (p, evs)" by (cases "tracker_new Verify tot")
  let ?w = "w\<lparr>w_events := w_events w @ evs\<rparr>"
  obtain t w' where "foldM (verify_chunk P opened) (schedule (chunk_tasks ?files)) p ?w = (Inr t, w')"
    using foldM_total [where J = ?J and f = "verify_chunk P opened" and xs = "schedule (chunk_tasks ?files)"
        and w = ?w and s = p, OF step] running by auto
  then show ?thesis
    by (simp add: verify_all_with_control_def Let_def tot new bindM_def emit_all_def returnM_def)
qed

end
