(* ===== verification/V2Container.thy ===== *)
theory V2Container
  imports V2Unlock V2Chunks
begin

text \<open>
  Reading and writing a container file (\<open>v2.rs\<close>): the fixed-size header, \<open>open\<close>,
  \<open>change_password\<close>, \<open>wipe_for_duress\<close> and \<open>verify\<close>.
\<close>

section \<open>The header on disk\<close>

definition serialize_header :: "prims \<Rightarrow> header \<Rightarrow> bytes result" where
  "serialize_header P h =
     bindE (p_header_to_vec P h) (\<lambda>bs.
       if HEADER_SIZE < length bs then bail ''v2 header exceeds fixed header size''
       else Inr (bs @ replicate (HEADER_SIZE - length bs) 0))"

definition read_header :: "prims \<Rightarrow> path \<Rightarrow> header io" where
  "read_header P file =
     bindM (contextM ''Unable to read v2 header'' (read_exact_file file HEADER_SIZE 0)) (\<lambda>bs.
     bindM (liftE (context_err ''Invalid v2 header encoding'' (p_header_from P bs))) (\<lambda>h.
     bindM (file_len file) (\<lambda>len.
     bindM (liftE (validate_header_basic h (Some len))) (\<lambda>_.
     returnM h))))"

definition write_header :: "prims \<Rightarrow> path \<Rightarrow> header \<Rightarrow> unit io" where
  "write_header P file h =
     bindM (liftE (serialize_header P h)) (\<lambda>bs.
     bindM (write_file_at file 0 bs) (\<lambda>_.
     sync_file file))"

lemma serialize_header_eq_Inr:
  "serialize_header P h = Inr out \<longleftrightarrow>
     (\<exists>bs. p_header_to_vec P h = Inr bs \<and> length bs \<le> HEADER_SIZE \<and>
        out = bs @ replicate (HEADER_SIZE - length bs) 0)"
  unfolding serialize_header_def by (cases "p_header_to_vec P h") (auto simp: not_less)

lemma length_serialize_header: "serialize_header P h = Inr out \<Longrightarrow> length out = HEADER_SIZE"
  by (auto simp: serialize_header_eq_Inr)

lemma header_from_serialized:
  "header_codec_ok P \<Longrightarrow> serialize_header P h = Inr out \<Longrightarrow> p_header_from P out = Inr h"
  by (auto simp: serialize_header_eq_Inr header_codec_ok_def)

section \<open>Opening\<close>

definition cannot_unlock :: string where
  "cannot_unlock = ''Unable to unlock container (wrong password or damage)''"

definition wipe_slot :: "key_slot \<Rightarrow> key_slot io" where
  "wipe_slot slot =
     bindM (fill_bytes 16) (\<lambda>salt. bindM (fill_bytes 12) (\<lambda>nonce. bindM (fill_bytes 48) (\<lambda>dek.
     returnM (slot\<lparr>ks_generation := 0, ks_salt := salt, ks_nonce := nonce, ks_encrypted_dek := dek\<rparr>))))"

definition wipe_for_duress :: "prims \<Rightarrow> path \<Rightarrow> header \<Rightarrow> unit io" where
  "wipe_for_duress P path h =
     bindM (wipe_slot (fst (h_slots h))) (\<lambda>s0.
     bindM (wipe_slot (snd (h_slots h))) (\<lambda>s1.
     bindM (open_read_write path) (\<lambda>file.
     write_header P file (h\<lparr>h_slots := (s0, s1)\<rparr>))))"

text \<open>The positional reader of an open file.\<close>

definition file_reader :: "path \<Rightarrow> reader io" where
  "file_reader file w = (Inr (\<lambda>off n. bindE (file_contents (w_disk w) file) (\<lambda>c. content_reader c off n)), w)"

definition open_index :: "prims \<Rightarrow> header \<Rightarrow> bytes \<Rightarrow> bytes \<Rightarrow> validated_index result" where
  "open_index P h dek encrypted_index =
     bindE (derive_index_key P dek (h_container_id h)) (\<lambda>index_key.
     bindE (context_err ''Index authentication failed''
        (decrypt_aead P index_key (h_index_nonce h) (index_aad P h) encrypted_index)) (\<lambda>serialized.
     bindE (context_err ''Invalid v2 index encoding'' (deserialize_index P serialized)) (\<lambda>index.
     validate_index h index)))"

definition open_container :: "prims \<Rightarrow> path \<Rightarrow> string \<Rightarrow> opened_container io" where
  "open_container P path password =
     bindM (open_file path) (\<lambda>file.
     bindM (read_header P file) (\<lambda>h.
     bindM (liftE (unlock P h password)) (\<lambda>answer.
     bindM (case answer of
         Unlocked dek \<Rightarrow> returnM dek
       | Duress \<Rightarrow> bindM (wipe_for_duress P path h) (\<lambda>_. liftE (bail cannot_unlock))
       | Failed \<Rightarrow> liftE (bail cannot_unlock)) (\<lambda>dek.
     bindM (read_exact_file file (unat (h_index_size h)) HEADER64) (\<lambda>encrypted_index.
     bindM (liftE (open_index P h dek encrypted_index)) (\<lambda>index.
     bindM (liftE (context_opt ''Data offset overflow'' (checked_add HEADER64 (h_index_size h)))) (\<lambda>data_start.
     bindM (file_reader file) (\<lambda>rd.
     returnM \<lparr>oc_read = rd, oc_header = h, oc_index = index, oc_dek = dek,
              oc_data_start = data_start\<rparr>))))))))"

section \<open>Changing the password\<close>

text \<open>\<open>header.slots[i] = slot\<close> for \<open>i\<close> 0 or 1.\<close>

definition set_slot :: "nat \<Rightarrow> key_slot \<Rightarrow> header \<Rightarrow> header" where
  "set_slot i slot h =
     h\<lparr>h_slots := (if i = 0 then (slot, snd (h_slots h)) else (fst (h_slots h), slot))\<rparr>"

definition get_slot :: "nat \<Rightarrow> header \<Rightarrow> key_slot" where
  "get_slot i h = (if i = 0 then fst (h_slots h) else snd (h_slots h))"

definition inactive_slot :: "header \<Rightarrow> nat" where
  "inactive_slot h =
     (if ks_generation (fst (h_slots h)) \<le> ks_generation (snd (h_slots h)) then 0 else 1)"

definition highest_generation :: "header \<Rightarrow> u64" where
  "highest_generation h = max (ks_generation (fst (h_slots h))) (ks_generation (snd (h_slots h)))"

text \<open>The new slot replaces the inactive one and is written before the previous one is disabled.\<close>

definition rotate_slots :: "prims \<Rightarrow> path \<Rightarrow> header \<Rightarrow> bytes \<Rightarrow> string \<Rightarrow> unit io" where
  "rotate_slots P file h dek new_password =
     (let inactive = inactive_slot h;
          previous = 1 - inactive;
          params = ks_params (get_slot previous h)
      in
     bindM (liftE (context_opt ''Keyslot generation overflow'' (checked_add (highest_generation h) 1))) (\<lambda>generation.
     bindM (make_key_slot P h new_password dek generation params) (\<lambda>slot.
     let h = set_slot inactive slot h
      in
     bindM check_cancel (\<lambda>_.
     bindM (emit MutationStarted) (\<lambda>_.
     bindM (write_header P file h) (\<lambda>_.
     bindM random_disabled_slot (\<lambda>disabled.
     write_header P file (set_slot previous disabled h))))))))"

definition change_password_inner :: "prims \<Rightarrow> path \<Rightarrow> string \<Rightarrow> string \<Rightarrow> unit io" where
  "change_password_inner P path old_password new_password =
     bindM check_cancel (\<lambda>_.
     bindM (open_read_write path) (\<lambda>file.
     bindM (read_header P file) (\<lambda>h.
     bindM (emit (PhaseStarted KeyDerivation)) (\<lambda>_.
     bindM (liftE (unlock P h new_password)) (\<lambda>answer.
     bindM (liftE (ensure (answer \<noteq> Duress)
        ''New master password must differ from the configured Duress password'')) (\<lambda>_.
     bindM check_cancel (\<lambda>_.
     bindM (liftE (unlock P h old_password)) (\<lambda>answer.
     bindM (case answer of
         Unlocked dek \<Rightarrow> returnM dek
       | Duress \<Rightarrow>
           bindM check_cancel (\<lambda>_.
           bindM (emit MutationStarted) (\<lambda>_.
           bindM (wipe_for_duress P path h) (\<lambda>_. liftE (bail cannot_unlock))))
       | Failed \<Rightarrow> liftE (bail cannot_unlock)) (\<lambda>dek.
     rotate_slots P file h dek new_password)))))))))"

definition change_password_with_control :: "prims \<Rightarrow> path \<Rightarrow> string \<Rightarrow> string \<Rightarrow> unit io" where
  "change_password_with_control P path old_password new_password =
     map_errM typed (change_password_inner P path old_password new_password)"

section \<open>Verifying a container\<close>

definition verify_inner ::
  "prims \<Rightarrow> ((entry \<times> u64) list \<Rightarrow> (entry \<times> u64) list) \<Rightarrow> path \<Rightarrow> string \<Rightarrow> unit io" where
  "verify_inner P schedule container password =
     bindM check_cancel (\<lambda>_.
     bindM (emit (PhaseStarted KeyDerivation)) (\<lambda>_.
     bindM (open_container P container password) (\<lambda>opened.
     bindM check_cancel (\<lambda>_.
     verify_all_with_control P schedule opened))))"

definition verify ::
  "prims \<Rightarrow> ((entry \<times> u64) list \<Rightarrow> (entry \<times> u64) list) \<Rightarrow> path \<Rightarrow> string \<Rightarrow> unit io" where
  "verify P schedule container password = map_errM typed (verify_inner P schedule container password)"

section \<open>Container files\<close>

text \<open>The file at a path starts with an encoding of the header \<open>h\<close>; \<open>body\<close> is the rest.\<close>

definition container_at :: "prims \<Rightarrow> disk \<Rightarrow> path \<Rightarrow> header \<Rightarrow> bytes \<Rightarrow> bool" where
  "container_at P d q h body \<longleftrightarrow>
     (case d q of
        Some (FileNode f) \<Rightarrow>
          HEADER_SIZE \<le> length (fd_bytes f) \<and> p_header_from P (take HEADER_SIZE (fd_bytes f)) = Inr h \<and>
          drop HEADER_SIZE (fd_bytes f) = body
      | _ \<Rightarrow> False)"

lemma container_at_file:
  "container_at P d q h body \<Longrightarrow> \<exists>f. d q = Some (FileNode f) \<and> HEADER_SIZE \<le> length (fd_bytes f) \<and>
     p_header_from P (take HEADER_SIZE (fd_bytes f)) = Inr h \<and> drop HEADER_SIZE (fd_bytes f) = body"
  by (auto simp: container_at_def split: option.splits node.splits)

lemma container_at_unique:
  "container_at P d q h body \<Longrightarrow> container_at P d q h' body' \<Longrightarrow> h' = h \<and> body' = body"
  by (auto simp: container_at_def split: option.splits node.splits)

lemma read_header_Inr:
  assumes "read_header P file w = (Inr h, w')"
  shows "w_disk w' = w_disk w"
    and "\<exists>f. w_disk w file = Some (FileNode f) \<and> HEADER_SIZE \<le> length (fd_bytes f) \<and>
      p_header_from P (take HEADER_SIZE (fd_bytes f)) = Inr h \<and> header_within_limits h \<and>
      HEADER_SIZE + unat (h_index_size h) + unat (h_data_size h) = unat (of_nat (length (fd_bytes f)) :: u64)"
proof -
  obtain bs w1 len w2 where rd: "read_exact_file file HEADER_SIZE 0 w = (Inr bs, w1)"
    and h: "p_header_from P bs = Inr h" and len: "file_len file w1 = (Inr len, w2)"
    and v: "validate_header_basic h (Some len) = Inr ()" and w': "w' = w2"
    using assms by (auto simp: read_header_def bindM_eq_Inr contextM_eq_Inr result_simps)
  obtain f where f: "w_disk w file = Some (FileNode f)" "content_reader (fd_bytes f) 0 HEADER_SIZE = Inr bs"
      "w_disk w1 = w_disk w"
    using read_exact_file_Inr [OF rd] by auto
  have "bs = take HEADER_SIZE (fd_bytes f)" "HEADER_SIZE \<le> length (fd_bytes f)"
    using f(2) by (auto simp: content_reader_def slice_def HEADER_SIZE_def split: if_splits)
  moreover have "len = of_nat (length (fd_bytes f))" "w_disk w2 = w_disk w"
    using file_len_Inr [OF len] f by auto
  ultimately show "w_disk w' = w_disk w"
    and "\<exists>f. w_disk w file = Some (FileNode f) \<and> HEADER_SIZE \<le> length (fd_bytes f) \<and>
      p_header_from P (take HEADER_SIZE (fd_bytes f)) = Inr h \<and> header_within_limits h \<and>
      HEADER_SIZE + unat (h_index_size h) + unat (h_data_size h) = unat (of_nat (length (fd_bytes f)) :: u64)"
    using f(1) h v w' by (auto simp: validate_header_basic_Some)
qed

lemma read_header_container_at:
  assumes "read_header P file w = (Inr h', w')" "container_at P (w_disk w) file h body"
  shows "h' = h \<and> header_within_limits h \<and> w_disk w' = w_disk w"
  using read_header_Inr [OF assms(1)] container_at_file [OF assms(2)] by auto

text \<open>A header write leaves either the old header or the new one, and the rest of the file as it
  was; other files are not touched.\<close>

lemma write_header_outcome:
  assumes codec: "header_codec_ok P" and at: "container_at P (w_disk w) q h body"
    and run: "write_header P q h' w = (r, w')"
  shows "w_disk w' = w_disk w \<and> r \<noteq> Inr () \<or>
    container_at P (w_disk w') q h' body \<and> (\<exists>f. w_disk w' = (w_disk w)(q := Some (FileNode f)))"
proof (cases "serialize_header P h'")
  case (Inl e)
  with run show ?thesis by (auto simp: write_header_def bindM_def liftE_def)
next
  case (Inr out)
  obtain f where f: "w_disk w q = Some (FileNode f)" "HEADER_SIZE \<le> length (fd_bytes f)"
      "drop HEADER_SIZE (fd_bytes f) = body"
    using container_at_file [OF at] by auto
  have len: "length out = HEADER_SIZE" by (rule length_serialize_header [OF Inr])
  have run': "bindM (write_file_at q 0 out) (\<lambda>_. sync_file q) w = (r, w')"
    using run Inr by (simp add: write_header_def)
  show ?thesis
  proof (cases "w_fault w (w_calls w)")
    case (Some msg)
    with run' show ?thesis
      by (auto simp: bindM_def write_file_at_def fs_call_def)
  next
    case None
    let ?g = "f\<lparr>fd_bytes := write_bytes 0 out (fd_bytes f), fd_modified := w_now w\<rparr>"
    have disk: "w_disk w' = (w_disk w)(q := Some (FileNode ?g))"
      using run' None f(1)
      by (auto simp: bindM_def write_file_at_def fs_call_def put_node_def sync_file_def returnM_def
          split: option.splits)
    have "write_bytes 0 out (fd_bytes f) = out @ body"
      using f(2,3) len by (simp add: write_bytes_def Let_def)
    then have "container_at P (w_disk w') q h' body"
      using disk len header_from_serialized [OF codec Inr] by (simp add: container_at_def)
    with disk show ?thesis by blast
  qed
qed

section \<open>Wiping\<close>

lemma wipe_slot_Inr:
  "wipe_slot slot w = (r, w') \<Longrightarrow> \<exists>s. r = Inr s \<and> ks_generation s = 0 \<and> w_disk w' = w_disk w"
  by (auto simp: wipe_slot_def bindM_def fill_bytes_def returnM_def)

lemma wipe_for_duress_outcome:
  assumes codec: "header_codec_ok P" and at: "container_at P (w_disk w) (follow (w_disk w) path) h body"
    and run: "wipe_for_duress P path h w = (r, w')"
  shows "w_disk w' = w_disk w \<and> r \<noteq> Inr () \<or>
    (\<exists>s. live_slots (h\<lparr>h_slots := s\<rparr>) = {} \<and>
      container_at P (w_disk w') (follow (w_disk w) path) (h\<lparr>h_slots := s\<rparr>) body \<and>
      follow (w_disk w') path = follow (w_disk w) path)"
proof -
  obtain s0 w0 where s0: "wipe_slot (fst (h_slots h)) w = (Inr s0, w0)" "ks_generation s0 = 0"
      "w_disk w0 = w_disk w"
    using wipe_slot_Inr by (metis surj_pair)
  obtain s1 w1 where s1: "wipe_slot (snd (h_slots h)) w0 = (Inr s1, w1)" "ks_generation s1 = 0"
      "w_disk w1 = w_disk w"
    using wipe_slot_Inr s0(3) by (metis surj_pair)
  let ?h = "h\<lparr>h_slots := (s0, s1)\<rparr>"
  have run': "bindM (open_read_write path) (\<lambda>file. write_header P file ?h) w1 = (r, w')"
    using run s0(1) s1(1) by (simp add: wipe_for_duress_def bindM_def)
  have live: "live_slots ?h = {}"
    using s0(2) s1(2) by (auto simp: live_slots_def)
  obtain r1 w2 where o: "open_read_write path w1 = (r1, w2)" by (cases "open_read_write path w1")
  have d2: "w_disk w2 = w_disk w1"
    using o by (auto intro: pure_disk frame_intros)
  show ?thesis
  proof (cases r1)
    case (Inl e)
    with run' o d2 s1(3) show ?thesis by (auto simp: bindM_def)
  next
    case (Inr q)
    then have q: "q = follow (w_disk w) path"
      using open_read_write_Inr [of path w1 q w2] o s1(3) by auto
    have "write_header P q ?h w2 = (r, w')"
      using run' o Inr by (simp add: bindM_def)
    from write_header_outcome [OF codec _ this, of h body] at d2 s1(3) q
    have "w_disk w' = w_disk w \<and> r \<noteq> Inr () \<or>
      container_at P (w_disk w') q ?h body \<and> (\<exists>f. w_disk w' = (w_disk w)(q := Some (FileNode f)))"
      by simp
    moreover obtain f where "w_disk w q = Some (FileNode f)"
      using container_at_file [OF at] q by auto
    ultimately show ?thesis
      using live q follow_put by blast
  qed
qed

section \<open>What opening establishes\<close>

lemma answer_Unlocked:
  "bindM (case answer of Unlocked dek \<Rightarrow> returnM dek | Duress \<Rightarrow> bindM m (\<lambda>_. liftE (bail x))
     | Failed \<Rightarrow> liftE (bail x)) f w = (Inr b, w') \<Longrightarrow>
   \<exists>dek. answer = Unlocked dek \<and> f dek w = (Inr b, w')"
  by (cases answer) (auto simp: bindM_eq_Inr bail_def)

lemma open_container_Inr:
  assumes "open_container P path password w = (Inr opened, w')"
  shows "\<exists>w1 w2 w3 enc.
    open_file path w = (Inr (follow (w_disk w) path), w1) \<and>
    read_header P (follow (w_disk w) path) w1 = (Inr (oc_header opened), w2) \<and>
    unlock P (oc_header opened) password = Inr (Unlocked (oc_dek opened)) \<and>
    read_exact_file (follow (w_disk w) path) (unat (h_index_size (oc_header opened))) HEADER64 w2 = (Inr enc, w3) \<and>
    open_index P (oc_header opened) (oc_dek opened) enc = Inr (oc_index opened) \<and>
    checked_add HEADER64 (h_index_size (oc_header opened)) = Some (oc_data_start opened) \<and>
    oc_read opened = (\<lambda>off n. bindE (file_contents (w_disk w3) (follow (w_disk w) path))
      (\<lambda>c. content_reader c off n)) \<and>
    w' = w3"
proof -
  obtain q w1 where q: "open_file path w = (Inr q, w1)"
    and r1: "bindM (read_header P q) (\<lambda>h.
     bindM (liftE (unlock P h password)) (\<lambda>answer.
     bindM (case answer of
         Unlocked dek \<Rightarrow> returnM dek
       | Duress \<Rightarrow> bindM (wipe_for_duress P path h) (\<lambda>_. liftE (bail cannot_unlock))
       | Failed \<Rightarrow> liftE (bail cannot_unlock)) (\<lambda>dek.
     bindM (read_exact_file q (unat (h_index_size h)) HEADER64) (\<lambda>encrypted_index.
     bindM (liftE (open_index P h dek encrypted_index)) (\<lambda>index.
     bindM (liftE (context_opt ''Data offset overflow'' (checked_add HEADER64 (h_index_size h)))) (\<lambda>data_start.
     bindM (file_reader q) (\<lambda>rd.
     returnM \<lparr>oc_read = rd, oc_header = h, oc_index = index, oc_dek = dek,
              oc_data_start = data_start\<rparr>))))))) w1 = (Inr opened, w')"
    using assms unfolding open_container_def bindM_eq_Inr [of "open_file path"] by blast
  have qe: "q = follow (w_disk w) path" using open_file_Inr [OF q] by simp
  obtain h w2 answer where h: "read_header P q w1 = (Inr h, w2)" and ans: "unlock P h password = Inr answer"
    and r2: "bindM (case answer of
         Unlocked dek \<Rightarrow> returnM dek
       | Duress \<Rightarrow> bindM (wipe_for_duress P path h) (\<lambda>_. liftE (bail cannot_unlock))
       | Failed \<Rightarrow> liftE (bail cannot_unlock)) (\<lambda>dek.
     bindM (read_exact_file q (unat (h_index_size h)) HEADER64) (\<lambda>encrypted_index.
     bindM (liftE (open_index P h dek encrypted_index)) (\<lambda>index.
     bindM (liftE (context_opt ''Data offset overflow'' (checked_add HEADER64 (h_index_size h)))) (\<lambda>data_start.
     bindM (file_reader q) (\<lambda>rd.
     returnM \<lparr>oc_read = rd, oc_header = h, oc_index = index, oc_dek = dek,
              oc_data_start = data_start\<rparr>))))) w2 = (Inr opened, w')"
    using r1 unfolding bindM_eq_Inr [of "read_header P q"] bindM_eq_Inr [of "liftE x" for x] liftE_eq
    by blast
  from answer_Unlocked [OF r2] obtain dek where dek: "answer = Unlocked dek"
    and r3: "bindM (read_exact_file q (unat (h_index_size h)) HEADER64) (\<lambda>encrypted_index.
     bindM (liftE (open_index P h dek encrypted_index)) (\<lambda>index.
     bindM (liftE (context_opt ''Data offset overflow'' (checked_add HEADER64 (h_index_size h)))) (\<lambda>data_start.
     bindM (file_reader q) (\<lambda>rd.
     returnM \<lparr>oc_read = rd, oc_header = h, oc_index = index, oc_dek = dek,
              oc_data_start = data_start\<rparr>)))) w2 = (Inr opened, w')"
    by blast
  from r3 obtain enc w3 where enc: "read_exact_file q (unat (h_index_size h)) HEADER64 w2 = (Inr enc, w3)"
    and "open_index P h dek enc = Inr (oc_index opened)"
    and "checked_add HEADER64 (h_index_size h) = Some (oc_data_start opened)"
    and "oc_read opened = (\<lambda>off n. bindE (file_contents (w_disk w3) q) (\<lambda>c. content_reader c off n))"
    and "oc_header opened = h" "oc_dek opened = dek" "w' = w3"
    by (auto simp: bindM_eq_Inr result_simps file_reader_def)
  with q qe h ans dek show ?thesis by auto
qed

lemma open_needs_live_slot:
  assumes at: "container_at P (w_disk w) (follow (w_disk w) path) h body" and dead: "live_slots h = {}"
  shows "open_container P path password w \<noteq> (Inr opened, w')"
proof
  assume "open_container P path password w = (Inr opened, w')"
  from open_container_Inr [OF this] obtain w1 w2 where
    o: "open_file path w = (Inr (follow (w_disk w) path), w1)"
    and rd: "read_header P (follow (w_disk w) path) w1 = (Inr (oc_header opened), w2)"
    and ans: "unlock P (oc_header opened) password = Inr (Unlocked (oc_dek opened))" by blast
  have "oc_header opened = h"
    using open_file_Inr [OF o] read_header_container_at [OF rd] at by auto
  with ans unlock_no_live_slot [OF dead] show False by blast
qed

text \<open>A container that opens passed every check; its file has exactly the announced length, and
  nothing on disk changed.\<close>

lemma open_container_ok:
  assumes small: "\<And>f. w_disk w (follow (w_disk w) path) = Some (FileNode f) \<Longrightarrow> length (fd_bytes f) < 2 ^ 64"
    and ok: "open_container P path password w = (Inr opened, w')"
  shows "\<exists>es f. opened_ok opened es \<and> header_within_limits (oc_header opened) \<and>
      unlock P (oc_header opened) password = Inr (Unlocked (oc_dek opened)) \<and>
      w_disk w' = w_disk w \<and> w_disk w (follow (w_disk w) path) = Some (FileNode f) \<and>
      length (fd_bytes f) = HEADER_SIZE + unat (h_index_size (oc_header opened)) + unat (h_data_size (oc_header opened)) \<and>
      oc_read opened = content_reader (fd_bytes f)"
proof -
  let ?q = "follow (w_disk w) path" and ?h = "oc_header opened"
  from open_container_Inr [OF ok] obtain w1 w2 w3 enc where
    o: "open_file path w = (Inr ?q, w1)" and rd: "read_header P ?q w1 = (Inr ?h, w2)"
    and ans: "unlock P ?h password = Inr (Unlocked (oc_dek opened))"
    and ri: "read_exact_file ?q (unat (h_index_size ?h)) HEADER64 w2 = (Inr enc, w3)"
    and idx: "open_index P ?h (oc_dek opened) enc = Inr (oc_index opened)"
    and ds: "checked_add HEADER64 (h_index_size ?h) = Some (oc_data_start opened)"
    and rdr: "oc_read opened = (\<lambda>off n. bindE (file_contents (w_disk w3) ?q) (\<lambda>c. content_reader c off n))"
    and w': "w' = w3" by blast
  have d1: "w_disk w1 = w_disk w" using open_file_Inr [OF o] by simp
  have d2: "w_disk w2 = w_disk w" using read_header_Inr(1) [OF rd] d1 by simp
  have d3: "w_disk w3 = w_disk w" using read_exact_file_Inr [OF ri] d2 by simp
  obtain f where f: "w_disk w ?q = Some (FileNode f)" and lim: "header_within_limits ?h"
    and len: "HEADER_SIZE + unat (h_index_size ?h) + unat (h_data_size ?h) = unat (of_nat (length (fd_bytes f)) :: u64)"
    using read_header_Inr(2) [OF rd] d1 by auto
  have len': "length (fd_bytes f) = HEADER_SIZE + unat (h_index_size ?h) + unat (h_data_size ?h)"
    using len unat_of_nat_small [of "length (fd_bytes f)", where 'a = 64] small [OF f] by simp
  obtain es where es: "index_ok ?h es" "oc_index opened = index_tables es"
    using idx by (auto simp: open_index_def result_simps validate_index_eq_Inr)
  have "opened_ok opened es"
    using es ds len' small [OF f] by (simp add: opened_ok_def checked_add_eq_Some)
  moreover have "oc_read opened = content_reader (fd_bytes f)"
    using rdr d3 f by (simp add: file_contents_def)
  ultimately show ?thesis
    using lim ans w' d3 f len' by blast
qed

section \<open>Crash safety of the password change\<close>

lemma get_set_slot [simp]:
  "get_slot i (set_slot i s h) = s"
  "i \<le> Suc 0 \<Longrightarrow> get_slot (Suc 0 - i) (set_slot i s h) = get_slot (Suc 0 - i) h"
  by (auto simp: get_slot_def set_slot_def)

lemma inactive_slot_le [simp]: "inactive_slot h \<le> 1"
  by (simp add: inactive_slot_def)

lemma set_slot_eq: "set_slot i s h = h\<lparr>h_slots := h_slots (set_slot i s h)\<rparr>"
  by (simp add: set_slot_def)

lemma live_slots_eq: "live_slots h = {s \<in> {get_slot 0 h, get_slot 1 h}. 0 < ks_generation s}"
  by (auto simp: live_slots_def get_slot_def)

lemma live_set_slots:
  "i \<le> 1 \<Longrightarrow> live_slots (set_slot (1 - i) t (set_slot i s h)) = {x \<in> {s, t}. 0 < ks_generation x}"
  by (cases i) (auto simp: live_slots_def set_slot_def)

lemma set_slot_limits:
  "header_within_limits h \<Longrightarrow> (0 < ks_generation s \<Longrightarrow> argon2_within_limits (ks_params s)) \<Longrightarrow>
   header_within_limits (set_slot i s h)"
  by (auto simp: header_within_limits_def set_slot_def)

lemma slot_opens_limits:
  "slot_opens P h password s dek \<Longrightarrow> argon2_within_limits (ks_params s)"
  by (auto simp: slot_opens_def derive_kek_def result_simps split: sum.splits)

text \<open>The slot with the highest generation is tried first.\<close>

lemma unlock_newest_first:
  assumes "header_within_limits h" "slot_opens P h password (get_slot i h) dek" "i \<le> 1"
    and newest: "ks_generation (get_slot (1 - i) h) < ks_generation (get_slot i h)"
  shows "unlock P h password = Inr (Unlocked dek)"
proof -
  obtain a b where ab: "h_slots h = (a, b)" by (cases "h_slots h")
  have "\<exists>rest. unlock_candidates h = get_slot i h # rest"
    using newest assms(3) unlock_candidates_two [OF ab] ab
    by (cases i) (auto simp: get_slot_def word_less_nat_alt word_le_nat_alt)
  with assms(1,2) show ?thesis
    using try_slots_hit by (auto simp: unlock_eq_Unlocked)
qed

lemma rotated_unlocks:
  assumes lim: "header_within_limits h" and g: "checked_add (highest_generation h) 1 = Some g"
    and slot: "slot_opens P h new slot dek" "ks_generation slot = g" and i: "i \<le> 1"
  shows "unlock P (set_slot i slot h) new = Inr (Unlocked dek)"
    and "ks_generation t = 0 \<Longrightarrow>
      unlock P (set_slot (1 - i) t (set_slot i slot h)) new = Inr (Unlocked dek) \<and>
      live_slots (set_slot (1 - i) t (set_slot i slot h)) = {slot}"
proof -
  have ug: "unat g = unat (highest_generation h) + 1"
    using g by (simp add: checked_add_eq_Some)
  have gpos: "0 < g" using ug by (simp add: word_less_nat_alt)
  have old: "ks_generation (get_slot j h) < g" for j
    using ug by (auto simp: highest_generation_def get_slot_def max_def word_less_nat_alt word_le_nat_alt)
  have params: "argon2_within_limits (ks_params slot)"
    using slot(1) by (rule slot_opens_limits)
  have opens: "slot_opens P (set_slot j s h') new = slot_opens P h' new" for j s h'
    by (simp add: set_slot_def)
  have lim1: "header_within_limits (set_slot i slot h)"
    using lim params by (rule set_slot_limits)
  show "unlock P (set_slot i slot h) new = Inr (Unlocked dek)"
    using lim1 slot old i by (intro unlock_newest_first [where i = i]) (simp_all add: opens)
  assume t: "ks_generation t = 0"
  let ?h2 = "set_slot (1 - i) t (set_slot i slot h)"
  have "get_slot i ?h2 = slot" "get_slot (1 - i) ?h2 = t"
    using i by (auto simp: get_slot_def set_slot_def)
  moreover have "header_within_limits ?h2"
    by (rule set_slot_limits [OF lim1]) (simp add: t)
  ultimately have "unlock P ?h2 new = Inr (Unlocked dek)"
    using slot t gpos i by (intro unlock_newest_first [where i = i]) (simp_all add: opens)
  moreover have "live_slots ?h2 = {slot}"
    using live_set_slots [OF i, of t slot h] t slot(2) gpos by auto
  ultimately show "unlock P ?h2 new = Inr (Unlocked dek) \<and> live_slots ?h2 = {slot}" by blast
qed

text \<open>Whatever happens, the file keeps the old header or has one that the new password unlocks.\<close>

definition rotation_outcome ::
  "prims \<Rightarrow> path \<Rightarrow> header \<Rightarrow> bytes \<Rightarrow> bytes \<Rightarrow> string \<Rightarrow> world \<Rightarrow> unit result \<Rightarrow> world \<Rightarrow> bool" where
  "rotation_outcome P q h body dek new w r w' \<longleftrightarrow>
     (\<exists>s. container_at P (w_disk w') q (h\<lparr>h_slots := s\<rparr>) body \<and>
        (w_disk w' = w_disk w \<and> s = h_slots h \<and> r \<noteq> Inr () \<or>
         unlock P (h\<lparr>h_slots := s\<rparr>) new = Inr (Unlocked dek)) \<and>
        (r = Inr () \<longrightarrow> (\<exists>slot. live_slots (h\<lparr>h_slots := s\<rparr>) = {slot}))) \<and>
     (\<forall>p. p \<noteq> q \<longrightarrow> w_disk w' p = w_disk w p)"

lemma rotation_unchanged:
  "container_at P (w_disk w) q h body \<Longrightarrow> w_disk w' = w_disk w \<Longrightarrow>
   rotation_outcome P q h body dek new w (Inl e) w'"
  unfolding rotation_outcome_def by (rule conjI, rule exI [of _ "h_slots h"]) simp_all

lemma rotate_slots_outcome:
  assumes aead: "aead_ok P" and codec: "header_codec_ok P"
    and at: "container_at P (w_disk w) q h body" and lim: "header_within_limits h" and dek: "length dek = 32"
    and run: "rotate_slots P q h dek new w = (r, w')"
  shows "rotation_outcome P q h body dek new w r w'"
proof -
  let ?i = "inactive_slot h" and ?params = "ks_params (get_slot (1 - inactive_slot h) h)"
  note unchanged = rotation_unchanged [OF at]
  from run [unfolded rotate_slots_def Let_def] show ?thesis
  proof (cases rule: bindM_cases)
    case (fails e)
    with unchanged show ?thesis by simp
  next
    case (steps g w1)
    then have g: "checked_add (highest_generation h) 1 = Some g" and "w1 = w"
      by (simp_all add: result_simps)
    from steps(2) [unfolded this(2)] show ?thesis
    proof (cases rule: bindM_cases)
      case (fails e)
      with unchanged make_key_slot_world show ?thesis by metis
    next
      case (steps slot w2)
      note slot = make_key_slot_opens [OF aead dek steps(1)]
      have d2: "w_disk w2 = w_disk w" by (rule make_key_slot_world [OF steps(1)])
      let ?h1 = "set_slot ?i slot h"
      note unl = rotated_unlocks [OF lim g slot(1,2) inactive_slot_le]
      from steps(2) show ?thesis
      proof (cases rule: bindM_cases)
        case (fails e)
        then have "w_disk w' = w_disk w2" by (auto simp: check_cancel_def)
        with fails unchanged d2 show ?thesis by simp
      next
        case (steps u w3)
        then have d3: "w_disk w3 = w_disk w" using d2 by (auto simp: check_cancel_def)
        obtain w4 where w4: "w_disk w4 = w_disk w"
          and run4: "bindM (write_header P q ?h1) (\<lambda>_. bindM random_disabled_slot (\<lambda>disabled.
            write_header P q (set_slot (1 - ?i) disabled ?h1))) w4 = (r, w')"
          using that [of "w3\<lparr>w_events := w_events w3 @ [MutationStarted]\<rparr>"] steps(2) d3
          unfolding bindM_emit by simp
        obtain r5 w5 where run5: "write_header P q ?h1 w4 = (r5, w5)" by (cases "write_header P q ?h1 w4")
        have "container_at P (w_disk w4) q h body" using at w4 by simp
        from write_header_outcome [OF codec this run5] consider
            "w_disk w5 = w_disk w" "r5 \<noteq> Inr ()"
          | f where "container_at P (w_disk w5) q ?h1 body" "w_disk w5 = (w_disk w)(q := Some (FileNode f))"
          using w4 by auto
        then show ?thesis
        proof cases
          case 1
          with run4 run5 have "w' = w5" "\<exists>e. r = Inl e"
            by (auto simp: bindM_def split: sum.splits)
          with 1 unchanged show ?thesis by auto
        next
          case 2
          show ?thesis
          proof (cases r5)
            case (Inl e)
            with run4 run5 have "w' = w5" "r = Inl e" by (auto simp: bindM_def)
            with 2 unl(1) set_slot_eq [of ?i slot h] show ?thesis
              unfolding rotation_outcome_def by (intro conjI [OF exI [of _ "h_slots ?h1"]]) auto
          next
            case (Inr u)
            obtain disabled w6 where dis: "random_disabled_slot w5 = (Inr disabled, w6)"
                "ks_generation disabled = 0"
              using random_disabled_slot_eq by (metis surj_pair)
            have d6: "w_disk w6 = w_disk w5"
              using dis(1) by (auto simp: random_disabled_slot_def bindM_def fill_bytes_def returnM_def)
            let ?h2 = "set_slot (1 - ?i) disabled ?h1"
            have run6: "write_header P q ?h2 w6 = (r, w')"
              using run4 run5 Inr dis by (simp add: bindM_def)
            have at6: "container_at P (w_disk w6) q ?h1 body" using 2 d6 by simp
            have h2: "?h2 = h\<lparr>h_slots := h_slots ?h2\<rparr>" by (simp add: set_slot_def)
            from write_header_outcome [OF codec at6 run6] show ?thesis
            proof (elim disjE conjE exE)
              assume "w_disk w' = w_disk w6" "r \<noteq> Inr ()"
              with 2 d6 unl(1) set_slot_eq [of ?i slot h] show ?thesis
                unfolding rotation_outcome_def by (intro conjI [OF exI [of _ "h_slots ?h1"]]) auto
            next
              fix f2
              assume "container_at P (w_disk w') q ?h2 body" "w_disk w' = (w_disk w6)(q := Some (FileNode f2))"
              with 2(2) d6 unl(2) [OF dis(2)] h2 show ?thesis
                unfolding rotation_outcome_def by (intro conjI [OF exI [of _ "h_slots ?h2"]]) auto
            qed
          qed
        qed
      qed
    qed
  qed
qed

lemma read_header_frame [frame_intros]: "disk_frame S (read_header P q)"
  unfolding read_header_def by (intro frame_intros)

lemma unlock_Unlocked_length: "unlock P h password = Inr (Unlocked dek) \<Longrightarrow> length dek = 32"
  using unlock_Unlocked_sound by (fastforce simp: slot_opens_def split: sum.splits)

lemma rotation_outcome_disk:
  "w_disk w1 = w_disk w \<Longrightarrow> rotation_outcome P q h body dek new w1 r w' = rotation_outcome P q h body dek new w r w'"
  by (simp add: rotation_outcome_def)

lemma change_password_outcome:
  assumes aead: "aead_ok P" and codec: "header_codec_ok P"
    and at: "container_at P (w_disk w) (follow (w_disk w) path) h body"
    and unl: "unlock P h old = Inr (Unlocked dek)"
    and run: "change_password_inner P path old new w = (r, w')"
  shows "rotation_outcome P (follow (w_disk w) path) h body dek new w r w'"
proof -
  let ?q = "follow (w_disk w) path"
  note unchanged = rotation_unchanged [OF at]
  have lim: "header_within_limits h" using unl by (simp add: unlock_eq_Unlocked)
  from disk_frame_ambient(1) run [unfolded change_password_inner_def] show ?thesis
  proof (cases rule: bindM_pure_cases)
    case (fails e)
    with unchanged show ?thesis by simp
  next
    case 1: (steps u w1)
    from disk_frame_readers(2) 1(3) show ?thesis
    proof (cases rule: bindM_pure_cases)
      case (fails e)
      with unchanged 1(2) show ?thesis by simp
    next
      case 2: (steps q w2)
      then have q: "q = ?q" using open_read_write_Inr [OF 2(1)] 1(2) by simp
      from read_header_frame 2(3) show ?thesis
      proof (cases rule: bindM_pure_cases)
        case (fails e)
        with unchanged 1(2) 2(2) show ?thesis by simp
      next
        case 3: (steps h' w3)
        have h': "h' = h"
          using read_header_container_at [OF 3(1), of h body] at q 1(2) 2(2) by simp
        have d3: "w_disk w3 = w_disk w" using 1(2) 2(2) 3(2) by simp
        show ?thesis
        proof (cases "unlock P h new")
          case (Inl e)
          with 3(3) h' d3 unchanged show ?thesis by (auto simp: bindM_emit failM_def)
        next
          case (Inr answer)
          let ?w4 = "w3\<lparr>w_events := w_events w3 @ [PhaseStarted KeyDerivation]\<rparr>"
          have d4: "w_disk ?w4 = w_disk w" using d3 by simp
          show ?thesis
          proof (cases "answer = Duress")
            case True
            with 3(3) h' d3 unchanged Inr show ?thesis by (auto simp: bindM_emit failM_def)
          next
            case False
            with 3(3) [unfolded h'] Inr have "bindM check_cancel (\<lambda>_. bindM (liftE (unlock P h old)) (\<lambda>answer.
              bindM (case answer of Unlocked dek \<Rightarrow> returnM dek
                | Duress \<Rightarrow> bindM check_cancel (\<lambda>_. bindM (emit MutationStarted) (\<lambda>_.
                    bindM (wipe_for_duress P path h) (\<lambda>_. liftE (bail cannot_unlock))))
                | Failed \<Rightarrow> liftE (bail cannot_unlock)) (\<lambda>dek.
              rotate_slots P q h dek new))) ?w4 = (r, w')"
              by (simp add: bindM_emit)
            with disk_frame_ambient(1) show ?thesis
            proof (cases rule: bindM_pure_cases)
              case (fails e)
              have "w_disk w' = w_disk w" using fails(2) d4 by (rule trans)
              then show ?thesis unfolding fails(1) by (rule unchanged)
            next
              case 5: (steps u w5)
              have run5: "rotate_slots P ?q h dek new w5 = (r, w')"
                using 5(3) by (simp add: unl q)
              have d5: "w_disk w5 = w_disk w" using 5(2) d4 by (rule trans)
              have "container_at P (w_disk w5) ?q h body" unfolding d5 by (rule at)
              from rotate_slots_outcome [OF aead codec this lim unlock_Unlocked_length [OF unl] run5]
              show ?thesis unfolding rotation_outcome_disk [OF d5] .
            qed
          qed
        qed
      qed
    qed
  qed
qed

section \<open>The duress answer\<close>

definition header_encoder_ok :: "prims \<Rightarrow> bool" where
  "header_encoder_ok P \<longleftrightarrow>
     (\<forall>h. wf_header h \<and> wf_slot (fst (h_slots h)) \<and> wf_slot (snd (h_slots h)) \<longrightarrow>
        (\<exists>out. serialize_header P h = Inr out))"

lemma wipe_slot_wf: "wipe_slot slot w = (Inr s, w') \<Longrightarrow> wf_slot s"
  by (auto simp: wipe_slot_def bindM_def fill_bytes_def returnM_def wf_slot_def)

lemma fill_bytes_fault_free: "fill_bytes n w = (r, w') \<Longrightarrow> fault_free w' = fault_free w"
  by (auto simp: fill_bytes_def fault_free_def)

lemma wipe_slot_fault_free: "wipe_slot slot w = (r, w') \<Longrightarrow> fault_free w' = fault_free w"
  by (auto simp: wipe_slot_def bindM_def returnM_def fill_bytes_def fault_free_def)

lemma write_header_fault_free:
  assumes "fault_free w" "serialize_header P h' = Inr out" "container_at P (w_disk w) q h body"
  shows "\<exists>w'. write_header P q h' w = (Inr (), w')"
  using container_at_file [OF assms(3)] assms(1,2)
  by (auto simp: write_header_def bindM_def write_file_at_def sync_file_def fs_call_def fault_free_def
      put_node_def returnM_def)

lemma wipe_for_duress_fault_free:
  assumes ff: "fault_free w" and enc: "header_encoder_ok P" and wf: "wf_header h"
    and at: "container_at P (w_disk w) (follow (w_disk w) path) h body"
  shows "\<exists>w'. wipe_for_duress P path h w = (Inr (), w')"
proof -
  obtain s0 w0 where s0: "wipe_slot (fst (h_slots h)) w = (Inr s0, w0)" "w_disk w0 = w_disk w"
    using wipe_slot_Inr by (metis surj_pair)
  obtain s1 w1 where s1: "wipe_slot (snd (h_slots h)) w0 = (Inr s1, w1)" "w_disk w1 = w_disk w"
    using wipe_slot_Inr s0(2) by (metis surj_pair)
  have ff1: "fault_free w1"
    using ff wipe_slot_fault_free [OF s0(1)] wipe_slot_fault_free [OF s1(1)] by simp
  obtain out where out: "serialize_header P (h\<lparr>h_slots := (s0, s1)\<rparr>) = Inr out"
    using enc wf wipe_slot_wf [OF s0(1)] wipe_slot_wf [OF s1(1)] unfolding header_encoder_ok_def
    by (metis (no_types, lifting) fst_conv header.select_convs(10) header.surjective header.update_convs(10) snd_conv wf_header_slots)
  let ?q = "follow (w_disk w) path" and ?w2 = "w1\<lparr>w_calls := Suc (w_calls w1)\<rparr>"
  obtain f where "w_disk w ?q = Some (FileNode f)" using container_at_file [OF at] by blast
  then have "open_read_write path w1 = (Inr ?q, ?w2)"
    using ff1 s1(2) by (simp add: open_read_write_def fs_call_fault_free Let_def)
  moreover obtain w3 where "write_header P ?q (h\<lparr>h_slots := (s0, s1)\<rparr>) ?w2 = (Inr (), w3)"
    using write_header_fault_free [of ?w2 P _ out ?q h body] out at ff1 s1(2) by (auto simp: fault_free_def)
  ultimately show ?thesis
    using s0(1) s1(1) by (simp add: wipe_for_duress_def bindM_def)
qed

lemma read_header_fault_free:
  assumes ff: "fault_free w" and at: "container_at P (w_disk w) q h body" and lim: "header_within_limits h"
    and len: "HEADER_SIZE + unat (h_index_size h) + unat (h_data_size h) = HEADER_SIZE + length body"
    and small: "HEADER_SIZE + length body < 2 ^ 64"
  shows "\<exists>w'. read_header P q w = (Inr h, w') \<and> w_disk w' = w_disk w \<and> fault_free w'"
proof -
  obtain f where f: "w_disk w q = Some (FileNode f)" "HEADER_SIZE \<le> length (fd_bytes f)"
      "p_header_from P (take HEADER_SIZE (fd_bytes f)) = Inr h" "drop HEADER_SIZE (fd_bytes f) = body"
    using container_at_file [OF at] by blast
  have flen: "length (fd_bytes f) = HEADER_SIZE + length body" using f(2,4) by auto
  let ?len = "of_nat (length (fd_bytes f)) :: u64"
  have "unat ?len = HEADER_SIZE + length body"
    unfolding flen using small by (intro unat_of_nat_small) simp
  then have "validate_header_basic h (Some ?len) = Inr ()"
    using lim len by (simp add: validate_header_basic_Some)
  moreover have "content_reader (fd_bytes f) 0 HEADER_SIZE = Inr (take HEADER_SIZE (fd_bytes f))"
    using f(2) by (simp add: content_reader_def slice_def HEADER_SIZE_def)
  ultimately show ?thesis
    using ff f(1,3)
    by (simp add: read_header_def bindM_def contextM_def read_exact_file_def file_len_def
        fs_call_def fault_free_def file_contents_def liftE_def returnM_def)
qed

text \<open>The duress password destroys the key slots and answers exactly like a wrong password; after
  it no password opens the container.\<close>

lemma open_duress_or_failed:
  assumes ff: "fault_free w" and enc: "header_encoder_ok P" and wf: "wf_header h"
    and at: "container_at P (w_disk w) (follow (w_disk w) path) h body" and lim: "header_within_limits h"
    and len: "unat (h_index_size h) + unat (h_data_size h) = length body"
    and small: "HEADER_SIZE + length body < 2 ^ 64"
    and ans: "unlock P h password = Inr answer" "answer = Duress \<or> answer = Failed"
  shows "fst (open_container P path password w) = Inl [Msg cannot_unlock]"
proof -
  let ?q = "follow (w_disk w) path" and ?w1 = "w\<lparr>w_calls := Suc (w_calls w)\<rparr>"
  obtain f where "w_disk w ?q = Some (FileNode f)" using container_at_file [OF at] by blast
  then have o: "open_file path w = (Inr ?q, ?w1)"
    using ff by (simp add: open_file_def fs_call_fault_free Let_def)
  obtain w2 where rd: "read_header P ?q ?w1 = (Inr h, w2)" "w_disk w2 = w_disk w" "fault_free w2"
    using read_header_fault_free [of ?w1 P ?q h body] ff at lim len small by (auto simp: fault_free_def)
  from ans(2) show ?thesis
  proof
    assume a: "answer = Duress"
    obtain w3 where "wipe_for_duress P path h w2 = (Inr (), w3)"
      using wipe_for_duress_fault_free [OF rd(3) enc wf, of path body] at rd(2) by auto
    with a o rd(1) ans(1) show ?thesis
      by (simp add: open_container_def bindM_def liftE_def bail_def failM_def)
  next
    assume "answer = Failed"
    with o rd(1) ans(1) show ?thesis
      by (simp add: open_container_def bindM_def liftE_def bail_def failM_def)
  qed
qed

lemma open_duress_outcome:
  assumes codec: "header_codec_ok P" and at: "container_at P (w_disk w) (follow (w_disk w) path) h body"
    and dur: "unlock P h password = Inr Duress"
    and run: "open_container P path password w = (r, w')"
  shows "r \<noteq> Inr opened"
    and "w_disk w' = w_disk w \<or>
      (\<forall>w2 any_password any_opened w3. w_disk w2 = w_disk w' \<longrightarrow>
        open_container P path any_password w2 \<noteq> (Inr any_opened, w3))"
proof -
  let ?q = "follow (w_disk w) path"
  have "(\<forall>opened. r \<noteq> Inr opened) \<and> (w_disk w' = w_disk w \<or>
      (\<exists>s. live_slots (h\<lparr>h_slots := s\<rparr>) = {} \<and>
        container_at P (w_disk w') ?q (h\<lparr>h_slots := s\<rparr>) body \<and> follow (w_disk w') path = ?q))"
  proof -
    from disk_frame_readers(1) run [unfolded open_container_def] show ?thesis
    proof (cases rule: bindM_pure_cases)
      case (fails e)
      then show ?thesis by simp
    next
      case 1: (steps q w1)
      have q: "q = ?q" using open_file_Inr [OF 1(1)] by simp
      from read_header_frame 1(3) show ?thesis
      proof (cases rule: bindM_pure_cases)
        case (fails e)
        with 1(2) show ?thesis by simp
      next
        case 2: (steps h' w2)
        have h': "h' = h" using read_header_container_at [OF 2(1), of h body] at q 1(2) by simp
        have d2: "w_disk w2 = w_disk w" using 1(2) 2(2) by simp
        obtain rw w3 where wipe: "wipe_for_duress P path h w2 = (rw, w3)" by (cases "wipe_for_duress P path h w2")
        have "w' = w3 \<and> (\<forall>opened. r \<noteq> Inr opened)"
          using 2(3) h' dur wipe by (auto simp: bindM_def liftE_def bail_def split: sum.splits)
        moreover have "container_at P (w_disk w2) (follow (w_disk w2) path) h body" using at d2 by simp
        ultimately show ?thesis
          using wipe_for_duress_outcome [OF codec _ wipe, of body] d2 by auto
      qed
    qed
  qed
  then show "r \<noteq> Inr opened"
    and "w_disk w' = w_disk w \<or>
      (\<forall>w2 any_password any_opened w3. w_disk w2 = w_disk w' \<longrightarrow>
        open_container P path any_password w2 \<noteq> (Inr any_opened, w3))"
    using open_needs_live_slot by metis+
qed

end
