(* ===== verification/Extract.thy ===== *)
theory Extract
  imports SafeFs V2Container "HOL-Library.Product_Lexorder"
begin

text \<open>
  Extraction (\<open>extract.rs\<close>): the container is opened, every directory is created and every file
  decrypted in batches into the staged tree, parents first, then the files get their names and
  the tree its place. An error at any point drops the pending files and then the tree.
\<close>

record extract_options =
  xo_threads :: nat
  xo_staging_path :: "path option"

definition extract_options_default :: "nat option \<Rightarrow> extract_options" where
  "extract_options_default parallelism = \<lparr>xo_threads = default_threads parallelism, xo_staging_path = None\<rparr>"

record extract_request =
  xq_container :: path
  xq_output :: path
  xq_password :: string
  xq_options :: extract_options

section \<open>One file\<close>

definition decrypt_batch_item :: "prims \<Rightarrow> opened_container \<Rightarrow> entry \<Rightarrow> nat \<Rightarrow> bytes io" where
  "decrypt_batch_item P opened e i =
     bindM check_cancel (\<lambda>_.
     liftE (context_err (''Entry '' @ dec_string (unat (e_id e)) @ '' chunk '' @ dec_string i @ '' failed authentication'')
       (decrypt_chunk P opened e (of_nat i))))"

definition write_plaintext :: "u64 option \<Rightarrow> pending_file \<Rightarrow> bytes \<Rightarrow> progress_tracker \<Rightarrow> progress_tracker io" where
  "write_plaintext inject pending plaintext progress =
     bindM (liftE (ensure (\<not> (case inject of None \<Rightarrow> False
         | Some limit \<Rightarrow> limit < saturating_add (tr_completed progress) (of_nat (length plaintext))))
       ''Injected extraction write failure'')) (\<lambda>_.
     bindM (pending_writer pending) (\<lambda>file.
     bindM (append_file file plaintext) (\<lambda>_.
     let (progress', events) = advance (of_nat (length plaintext)) progress
      in bindM (emit_all events) (\<lambda>_. returnM progress'))))"

text \<open>\<open>threads\<close> is what rayon answers for the size of the pool; the chunks of a batch are decrypted
  in parallel and written in order.\<close>

function extract_batches ::
  "prims \<Rightarrow> opened_container \<Rightarrow> nat \<Rightarrow> u64 option \<Rightarrow> entry \<Rightarrow> pending_file \<Rightarrow> nat list \<Rightarrow> progress_tracker \<Rightarrow> progress_tracker io" where
  "extract_batches P opened threads inject e pending chunks progress =
     (if chunks = [] then returnM progress
      else
        bindM check_cancel (\<lambda>_.
        bindM (mapM (decrypt_batch_item P opened e) (take (ordered_batch_size threads) chunks)) (\<lambda>plaintexts.
        bindM (foldM (write_plaintext inject pending) plaintexts progress) (\<lambda>progress.
        extract_batches P opened threads inject e pending (drop (ordered_batch_size threads) chunks) progress))))"
  by pat_completeness auto
termination
  by (relation "measure (\<lambda>(_, _, _, _, _, _, chunks, _). length chunks)") (auto simp: ordered_batch_size_def)

declare extract_batches.simps [simp del]

section \<open>The tree\<close>

definition drop_all :: "pending_file list \<Rightarrow> unit io" where
  "drop_all ps w = (Inr (), fold (\<lambda>p w. snd (pending_drop p w)) ps w)"

definition extract_file ::
  "prims \<Rightarrow> opened_container \<Rightarrow> nat \<Rightarrow> u64 option \<Rightarrow> safe_root \<Rightarrow> entry \<Rightarrow> progress_tracker \<Rightarrow> (pending_file \<times> progress_tracker) io" where
  "extract_file P opened threads inject root e progress =
     bindM (begin_file (e_parent_id e) (e_name e) (e_id e) root) (\<lambda>pending.
     on_error (pending_drop pending) (
     bindM (extract_batches P opened threads inject e pending [0..<unat (e_chunk_count e)] progress) (\<lambda>progress.
     bindM (finish_writing pending) (\<lambda>pending.
     returnM (pending, progress)))))"

definition extract_entry ::
  "prims \<Rightarrow> opened_container \<Rightarrow> nat \<Rightarrow> u64 option \<Rightarrow> entry \<Rightarrow> safe_root \<times> pending_file list \<times> progress_tracker \<Rightarrow>
     (safe_root \<times> pending_file list \<times> progress_tracker) io" where
  "extract_entry P opened threads inject e = (\<lambda>(root, pending_files, progress).
     on_error (drop_all pending_files) (
     bindM check_cancel (\<lambda>_.
     if e_id e = 1 then returnM (root, pending_files, progress)
     else (case e_kind e of
       Directory \<Rightarrow>
         bindM (create_directory (e_id e) (e_parent_id e) (e_name e) root) (\<lambda>root.
         returnM (root, pending_files, progress))
     | File \<Rightarrow>
         bindM (extract_file P opened threads inject root e progress) (\<lambda>(pending, progress).
         returnM (root, pending_files @ [pending], progress))))))"

text \<open>The remaining files of the vector are dropped when one fails.\<close>

fun commit_pending :: "pending_file list \<Rightarrow> unit io" where
  "commit_pending [] = returnM ()"
| "commit_pending (p # ps) = bindM (on_error (drop_all ps) (pending_commit p)) (\<lambda>_. commit_pending ps)"

definition extraction_order :: "validated_index \<Rightarrow> entry list" where
  "extraction_order index = sort_key (\<lambda>e. (e_depth e, e_id e)) (map snd (vi_entries index))"

definition fill_tree ::
  "prims \<Rightarrow> nat \<Rightarrow> opened_container \<Rightarrow> u64 option \<Rightarrow> progress_tracker \<Rightarrow> safe_root \<Rightarrow> safe_root io" where
  "fill_tree P threads opened inject progress root =
     bindM (emit (TemporaryArtifact ExtractionTree (staging_path root))) (\<lambda>_.
     bindM (install_root_id 1 root) (\<lambda>root.
     bindM (foldM (extract_entry P opened threads inject) (extraction_order (oc_index opened)) (root, [], progress))
       (\<lambda>(root, pending_files, progress).
     bindM (on_error (drop_all pending_files) check_cancel) (\<lambda>_.
     bindM (commit_pending pending_files) (\<lambda>_.
     bindM check_cancel (\<lambda>_.
     bindM (emit (PhaseStarted Commit)) (\<lambda>_.
     bindM (emit CommitStarted) (\<lambda>_.
     returnM root))))))))"

text \<open>The commit takes the tree over, and drops it itself when it fails.\<close>

definition extract_tree ::
  "prims \<Rightarrow> nat \<Rightarrow> (path list \<Rightarrow> path list) \<Rightarrow> opened_container \<Rightarrow> u64 option \<Rightarrow> progress_tracker \<Rightarrow> safe_root \<Rightarrow> unit io" where
  "extract_tree P threads order opened inject progress root =
     bindM (on_error (safe_root_drop root) (fill_tree P threads opened inject progress root)) (\<lambda>root.
     bindM (safe_root_commit order root) (\<lambda>warning.
     bindM (case warning of Some message \<Rightarrow> emit (Warning message) | None \<Rightarrow> returnM ()) (\<lambda>_.
     emit Committed)))"

definition extract_v2_inner ::
  "prims \<Rightarrow> nat \<Rightarrow> (path list \<Rightarrow> path list) \<Rightarrow> path \<Rightarrow> path \<Rightarrow> string \<Rightarrow> u64 option \<Rightarrow> path option \<Rightarrow> unit io" where
  "extract_v2_inner P threads order container_path output_dir password inject requested_staging_path =
     bindM check_cancel (\<lambda>_.
     bindM (emit (PhaseStarted KeyDerivation)) (\<lambda>_.
     bindM (open_container P container_path password) (\<lambda>opened.
     bindM check_cancel (\<lambda>_.
     bindM (liftE (total_size ''Total extraction size overflow''
       (filter (\<lambda>e. e_kind e = File) (map snd (vi_entries (oc_index opened)))))) (\<lambda>total.
     let (progress, events) = tracker_new Extract total in
     bindM (emit_all events) (\<lambda>_.
     bindM (open_new_at output_dir requested_staging_path) (\<lambda>root.
     extract_tree P threads order opened inject progress root)))))))"

definition extract_execute ::
  "prims \<Rightarrow> (nat \<Rightarrow> nat result) \<Rightarrow> (path list \<Rightarrow> path list) \<Rightarrow> extract_request \<Rightarrow> unit io" where
  "extract_execute P pool order request =
     map_errM typed (
     bindM (liftE (context_err ''Unable to create worker thread pool'' (pool (xo_threads (xq_options request))))) (\<lambda>threads.
     extract_v2_inner P threads order (xq_container request) (xq_output request) (xq_password request) None
       (xo_staging_path (xq_options request))))"

end
