(* ===== verification/FormatDetect.thy ===== *)
theory FormatDetect
  imports V2Container
begin

text \<open>
  \<open>format.rs\<close> and \<open>layout.rs\<close>: a container is recognised by the magic bytes of its encoded
  header; the legacy v1 format is recognised and refused. The decoder of the legacy header is
  the parameter \<open>L\<close>.
\<close>

record v1_argon2_params =
  v1_m_cost :: u32
  v1_t_cost :: u32
  v1_p_cost :: u32

definition v1_argon2_default :: v1_argon2_params where
  "v1_argon2_default = \<lparr>v1_m_cost = 65536, v1_t_cost = 3, v1_p_cost = 4\<rparr>"

record v1_header =
  v1_magic :: bytes
  v1_salt :: bytes
  v1_argon2_params :: v1_argon2_params
  v1_master_nonce :: bytes
  v1_dek_nonce :: bytes
  v1_index_nonce :: bytes
  v1_duress_hash :: bytes
  v1_encrypted_dek :: bytes
  v1_index_size :: u64
  v1_max_index_size :: u64

definition V1_MAGIC_BYTES :: bytes where "V1_MAGIC_BYTES = [0x43, 0x46, 0x53, 0x01]"

definition V1_HEADER_SIZE :: nat where "V1_HEADER_SIZE = 512"

datatype container_format = V1 | V2

definition V1_MIGRATION_MESSAGE :: string where
  "V1_MIGRATION_MESSAGE = ''CipherFS v1 is not supported by v3.0.0. Use v2.2.0-beta.1 or earlier to extract a trusted v1 container, then pack the extracted directory as v2. See README.md#legacy-v1-migration''"

definition probe_v2 :: "prims \<Rightarrow> path \<Rightarrow> u64 \<Rightarrow> bool io" where
  "probe_v2 P file len =
     (if HEADER64 \<le> len
      then bindM (contextM ''Unable to read container header'' (read_exact_file file HEADER_SIZE 0)) (\<lambda>encoded.
        returnM (case p_header_from P encoded of Inr h \<Rightarrow> h_magic h = MAGIC | Inl _ \<Rightarrow> False))
      else returnM False)"

definition probe_v1 :: "(bytes \<Rightarrow> v1_header result) \<Rightarrow> path \<Rightarrow> u64 \<Rightarrow> bool io" where
  "probe_v1 L file len =
     (if of_nat V1_HEADER_SIZE \<le> len
      then bindM (contextM ''Unable to read legacy container header''
          (read_exact_file file V1_HEADER_SIZE 0)) (\<lambda>encoded.
        returnM (case L encoded of Inr h \<Rightarrow> v1_magic h = V1_MAGIC_BYTES | Inl _ \<Rightarrow> False))
      else returnM False)"

definition detect :: "prims \<Rightarrow> (bytes \<Rightarrow> v1_header result) \<Rightarrow> path \<Rightarrow> container_format io" where
  "detect P L path =
     bindM (open_file path) (\<lambda>file.
     bindM (file_len file) (\<lambda>len.
     bindM (probe_v2 P file len) (\<lambda>found.
     if found then returnM V2
     else bindM (probe_v1 L file len) (\<lambda>found.
       if found then returnM V1
       else liftE (bail ''Not a supported CipherFS container'')))))"

definition require_v2 :: "prims \<Rightarrow> (bytes \<Rightarrow> v1_header result) \<Rightarrow> path \<Rightarrow> unit io" where
  "require_v2 P L path =
     bindM (detect P L path) (\<lambda>fmt.
     (case fmt of V2 \<Rightarrow> returnM () | V1 \<Rightarrow> liftE (bail V1_MIGRATION_MESSAGE)))"

lemma probe_frame [frame_intros]: "disk_frame S (probe_v2 P q len)" "disk_frame S (probe_v1 L q len)"
  unfolding probe_v2_def probe_v1_def by (intro frame_intros)+

lemma detect_frame [frame_intros]: "disk_frame S (detect P L path)"
  unfolding detect_def by (intro frame_intros)

lemma require_v2_frame [frame_intros]: "disk_frame S (require_v2 P L path)"
  unfolding require_v2_def
  by (intro frame_intros) (auto intro!: frame_intros split: container_format.splits)

text \<open>Only a file whose header decodes with the v2 magic passes.\<close>

lemma require_v2_magic:
  assumes "require_v2 P L path w = (Inr u, w')"
  shows "\<exists>f h. w_disk w (follow (w_disk w) path) = Some (FileNode f) \<and>
    p_header_from P (take HEADER_SIZE (fd_bytes f)) = Inr h \<and> h_magic h = MAGIC"
proof -
  obtain fmt w1 where "detect P L path w = (Inr fmt, w1)"
      "(case fmt of V2 \<Rightarrow> returnM () | V1 \<Rightarrow> liftE (bail V1_MIGRATION_MESSAGE)) w1 = (Inr u, w')"
    using assms unfolding require_v2_def bindM_eq_Inr by blast
  then have "detect P L path w = (Inr V2, w1)" by (cases fmt) (simp_all add: bail_def)
  then obtain q w2 len w3 w4 where q: "open_file path w = (Inr q, w2)"
    and len: "file_len q w2 = (Inr len, w3)" and "probe_v2 P q len w3 = (Inr True, w4)"
    by (auto simp: detect_def bindM_eq_Inr bail_def split: if_splits)
  then obtain encoded w5 h where rd: "read_exact_file q HEADER_SIZE 0 w3 = (Inr encoded, w5)"
    and h: "p_header_from P encoded = Inr h" "h_magic h = MAGIC"
    by (auto simp: probe_v2_def bindM_eq_Inr contextM_eq_Inr case_result_iff split: if_splits)
  have d: "w_disk w3 = w_disk w" and qe: "q = follow (w_disk w) path"
    using open_file_Inr [OF q] file_len_Inr [OF len] by auto
  obtain f where f: "w_disk w3 q = Some (FileNode f)" "content_reader (fd_bytes f) 0 HEADER_SIZE = Inr encoded"
    using read_exact_file_Inr [OF rd] by blast
  have "encoded = take HEADER_SIZE (fd_bytes f)"
    using f(2) by (auto simp: content_reader_def slice_def HEADER_SIZE_def split: if_splits)
  with f(1) h d qe show ?thesis by auto
qed

end
