(* ===== verification/ReadOnlyFs.thy ===== *)
theory ReadOnlyFs
  imports FormatDetect "HOL-Library.AList"
begin

text \<open>
  \<open>readonly_fs.rs\<close>: the read-only view the mounts use, with its cache of decrypted chunks.
  The interface between the range read and the chunks is the locale \<open>chunk_source\<close>; loading
  through the cache and decrypting directly both provide it. The cache is also a shared
  structure: its two critical sections, probing and storing, are the steps of a relation that
  interleaves any number of readers.
\<close>

section \<open>Nodes and errors\<close>

datatype node_kind = NodeFile | NodeDirectory

record fs_node =
  n_id :: u64
  n_parent_id :: u64
  n_name :: string
  n_kind :: node_kind
  n_size :: u64

datatype fs_error_kind = NotFound | NotDirectory | IsDirectory | IntegrityFailure

record fs_error =
  fe_kind :: fs_error_kind
  fe_source :: "error option"

type_synonym 'a fs_result = "fs_error + 'a"

definition fs_semantic :: "fs_error_kind \<Rightarrow> fs_error" where
  "fs_semantic kind = \<lparr>fe_kind = kind, fe_source = None\<rparr>"

definition fs_integrity :: "error \<Rightarrow> fs_error" where
  "fs_integrity e = \<lparr>fe_kind = IntegrityFailure, fe_source = Some e\<rparr>"

definition fs_error_display :: "fs_error \<Rightarrow> string" where
  "fs_error_display e =
     (case fe_source e of
        Some source \<Rightarrow> display_chain source
      | None \<Rightarrow> (case fe_kind e of
          NotFound \<Rightarrow> ''Node not found''
        | NotDirectory \<Rightarrow> ''Node is not a directory''
        | IsDirectory \<Rightarrow> ''Node is a directory''
        | IntegrityFailure \<Rightarrow> ''Encrypted data failed validation''))"

definition node_of_entry :: "entry \<Rightarrow> fs_node" where
  "node_of_entry e =
     \<lparr>n_id = e_id e, n_parent_id = e_parent_id e, n_name = e_name e,
      n_kind = (if e_kind e = File then NodeFile else NodeDirectory), n_size = e_size e\<rparr>"

section \<open>Lookups in the index\<close>

definition fs_metadata :: "validated_index \<Rightarrow> u64 \<Rightarrow> entry fs_result" where
  "fs_metadata index i = ok_or (fs_semantic NotFound) (map_of (vi_entries index) i)"

definition fs_lookup :: "validated_index \<Rightarrow> u64 \<Rightarrow> string \<Rightarrow> entry fs_result" where
  "fs_lookup index parent name =
     ok_or (fs_semantic NotFound)
       (Option.bind (vi_children index parent) (\<lambda>children.
         List.find (\<lambda>e. e_name e = name) (List.map_filter (map_of (vi_entries index)) children)))"

definition fs_read_dir_entries :: "validated_index \<Rightarrow> u64 \<Rightarrow> entry list fs_result" where
  "fs_read_dir_entries index i =
     bindE (fs_metadata index i) (\<lambda>entry.
       if e_kind entry \<noteq> Directory then Inl (fs_semantic NotDirectory)
       else Inr (List.map_filter (map_of (vi_entries index))
         (case vi_children index i of None \<Rightarrow> [] | Some ids \<Rightarrow> ids)))"

text \<open>Strings compare by their bytes; \<open>String::cmp\<close> then the id.\<close>

fun string_le :: "string \<Rightarrow> string \<Rightarrow> bool" where
  "string_le [] t = True"
| "string_le (c # cs) [] = False"
| "string_le (c # cs) (d # ds) = (code c < code d \<or> c = d \<and> string_le cs ds)"

definition node_le :: "fs_node \<Rightarrow> fs_node \<Rightarrow> bool" where
  "node_le a b \<longleftrightarrow>
     (if n_name a = n_name b then n_id a \<le> n_id b else string_le (n_name a) (n_name b))"

fun insert_node :: "fs_node \<Rightarrow> fs_node list \<Rightarrow> fs_node list" where
  "insert_node x [] = [x]"
| "insert_node x (y # ys) = (if node_le x y then x # y # ys else y # insert_node x ys)"

definition sort_nodes :: "fs_node list \<Rightarrow> fs_node list" where
  "sort_nodes ns = foldr insert_node ns []"

definition fs_read_dir :: "validated_index \<Rightarrow> u64 \<Rightarrow> fs_node list fs_result" where
  "fs_read_dir index i = bindE (fs_read_dir_entries index i) (\<lambda>es. Inr (sort_nodes (map node_of_entry es)))"

section \<open>The chunk cache\<close>

type_synonym cache_key = "bytes \<times> u64"

record cache =
  c_max_bytes :: nat
  c_bytes :: nat
  c_values :: "(cache_key \<times> bytes) list"
  c_order :: "cache_key list"

definition cache_new :: "nat \<Rightarrow> cache" where
  "cache_new max_bytes = \<lparr>c_max_bytes = max_bytes, c_bytes = 0, c_values = [], c_order = []\<rparr>"

text \<open>First critical section: a hit moves the key to the young end.\<close>

definition cache_probe :: "cache_key \<Rightarrow> cache \<Rightarrow> bytes option \<times> cache" where
  "cache_probe key c =
     (case map_of (c_values c) key of
        Some v \<Rightarrow> (Some v, c\<lparr>c_order := remove1 key (c_order c) @ [key]\<rparr>)
      | None \<Rightarrow> (None, c))"

text \<open>Second critical section: evict from the old end until the value fits, then insert.\<close>

definition cache_drop :: "cache_key \<Rightarrow> cache_key list \<Rightarrow> cache \<Rightarrow> cache" where
  "cache_drop oldest rest c =
     (case map_of (c_values c) oldest of
        Some old \<Rightarrow> c\<lparr>c_order := rest, c_values := AList.delete oldest (c_values c),
          c_bytes := c_bytes c - length old\<rparr>
      | None \<Rightarrow> c\<lparr>c_order := rest\<rparr>)"

lemma cache_drop_order [simp]: "c_order (cache_drop oldest rest c) = rest"
  by (simp add: cache_drop_def split: option.split)

function cache_evict :: "nat \<Rightarrow> cache \<Rightarrow> cache" where
  "cache_evict len c =
     (if c_max_bytes c < c_bytes c + len
      then (case c_order c of
          [] \<Rightarrow> c
        | oldest # rest \<Rightarrow> cache_evict len (cache_drop oldest rest c))
      else c)"
  by pat_completeness auto
termination
  by (relation "measure (\<lambda>(len, c). length (c_order c))") auto

declare cache_evict.simps [simp del]

definition cache_store :: "cache_key \<Rightarrow> bytes \<Rightarrow> cache \<Rightarrow> cache" where
  "cache_store key v c =
     (if c_max_bytes c = 0 \<or> c_max_bytes c < length v then c
      else
        let c = cache_evict (length v) c
         in c\<lparr>c_bytes := c_bytes c + length v, c_order := c_order c @ [key],
              c_values := AList.update key v (c_values c)\<rparr>)"

definition load_chunk :: "prims \<Rightarrow> opened_container \<Rightarrow> cache \<Rightarrow> entry \<Rightarrow> u64 \<Rightarrow> bytes fs_result \<times> cache" where
  "load_chunk P opened c ent chunk_index =
     (let key = (e_file_id ent, chunk_index) in
      (case cache_probe key c of
         (Some v, c) \<Rightarrow> (Inr v, c)
       | (None, c) \<Rightarrow>
           (case context_err (''entry '' @ dec_string (unat (e_id ent)) @ '' chunk ''
                @ dec_string (unat chunk_index) @ '' failed'') (decrypt_chunk P opened ent chunk_index) of
              Inl e \<Rightarrow> (Inl (fs_integrity e), c)
            | Inr v \<Rightarrow> (Inr v, cache_store key v c))))"

section \<open>Range reads\<close>

type_synonym 's chunk_loader = "'s \<Rightarrow> entry \<Rightarrow> u64 \<Rightarrow> bytes fs_result \<times> 's"

fun read_loop :: "'s chunk_loader \<Rightarrow> entry \<Rightarrow> u64 \<Rightarrow> u64 \<Rightarrow> u64 list \<Rightarrow> bytes \<Rightarrow> 's \<Rightarrow> bytes fs_result \<times> 's" where
  "read_loop load ent offset read_len [] output s = (Inr output, s)"
| "read_loop load ent offset read_len (chunk_index # rest) output s =
     (case load s ent chunk_index of
        (Inl e, s) \<Rightarrow> (Inl e, s)
      | (Inr chunk, s) \<Rightarrow>
          let chunk_start = chunk_index * CHUNK64;
              skip = unat (saturating_sub offset chunk_start)
           in if length chunk < skip
              then (Inl (fs_integrity [Msg ''Chunk range is outside decrypted data'']), s)
              else
                let remaining = unat (saturating_sub read_len (of_nat (length output)));
                    len = min (length chunk - skip) remaining
                 in read_loop load ent offset read_len rest (output @ slice skip len chunk) s)"

definition read_entry :: "'s chunk_loader \<Rightarrow> entry \<Rightarrow> u64 \<Rightarrow> u32 \<Rightarrow> 's \<Rightarrow> bytes fs_result \<times> 's" where
  "read_entry load ent offset sz s =
     (if e_kind ent \<noteq> File then (Inl (fs_semantic IsDirectory), s)
      else if e_size ent \<le> offset then (Inr [], s)
      else
        let read_len = min (ucast sz) (e_size ent - offset)
         in (case Option.bind (checked_add offset read_len) (\<lambda>v. checked_sub v 1) of
               None \<Rightarrow> (Inl (fs_integrity [Msg ''Read range overflow'']), s)
             | Some last_byte \<Rightarrow>
                 let start_chunk = offset div CHUNK64;
                     end_chunk = last_byte div CHUNK64
                  in (case read_loop load ent offset read_len
                        (map of_nat [unat start_chunk..<Suc (unat end_chunk)]) [] s of
                        (Inl e, s) \<Rightarrow> (Inl e, s)
                      | (Inr output, s) \<Rightarrow>
                          if of_nat (length output) \<noteq> read_len
                          then (Inl (fs_integrity [Msg ''Read returned an incomplete plaintext range'']), s)
                          else (Inr output, s))))"

definition fs_read :: "prims \<Rightarrow> opened_container \<Rightarrow> u64 \<Rightarrow> u64 \<Rightarrow> u32 \<Rightarrow> cache \<Rightarrow> bytes fs_result \<times> cache" where
  "fs_read P opened i offset sz c =
     (case fs_metadata (oc_index opened) i of
        Inl e \<Rightarrow> (Inl e, c)
      | Inr ent \<Rightarrow> read_entry (load_chunk P opened) ent offset sz c)"

section \<open>Opening\<close>

definition read_only_v2_new :: "prims \<Rightarrow> path \<Rightarrow> string \<Rightarrow> u64 \<Rightarrow> (opened_container \<times> cache) io" where
  "read_only_v2_new P path password cache_mib =
     (if 1024 < cache_mib then liftE (bail ''Chunk cache cannot exceed 1024 MiB'')
      else
        bindM (liftE (context_opt ''Cache size overflow'' (checked_mul cache_mib (1024 * 1024)))) (\<lambda>max_bytes.
        bindM (open_container P path password) (\<lambda>opened.
        returnM (opened, cache_new (unat max_bytes)))))"

definition read_only_fs_open ::
  "prims \<Rightarrow> (bytes \<Rightarrow> v1_header result) \<Rightarrow> path \<Rightarrow> string \<Rightarrow> u64 \<Rightarrow> (opened_container \<times> cache) io" where
  "read_only_fs_open P L path password cache_mib =
     bindM (require_v2 P L path) (\<lambda>_. read_only_v2_new P path password cache_mib)"

definition fs_container_id :: "opened_container \<Rightarrow> bytes" where
  "fs_container_id opened = h_container_id (oc_header opened)"

section \<open>The interface of a chunk source\<close>

text \<open>Loading a chunk of a file of the index gives the chunk of its content and keeps the
  invariant of the state.\<close>

locale chunk_source =
  fixes load :: "'s chunk_loader" and inv :: "'s \<Rightarrow> bool" and files :: "entry set"
    and content :: "entry \<Rightarrow> bytes"
  assumes load_chunk: "inv s \<Longrightarrow> e \<in> files \<Longrightarrow> i < chunks_for (unat (e_size e)) \<Longrightarrow>
      fst (load s e (of_nat i)) = Inr (slice (i * CHUNK_SIZE) CHUNK_SIZE (content e)) \<and>
      inv (snd (load s e (of_nat i)))"
    and content_size: "inv s \<Longrightarrow> e \<in> files \<Longrightarrow> length (content e) = unat (e_size e) \<and> e_kind e = File"
begin

lemma read_loop_range:
  assumes "inv s" and e: "e \<in> files" and off: "unat offset < unat (e_size e)"
    and L: "0 < unat read_len" "unat offset + unat read_len \<le> unat (e_size e)"
    and hi: "hi = Suc ((unat offset + unat read_len - 1) div CHUNK_SIZE)"
    and k: "unat offset div CHUNK_SIZE \<le> k" "k \<le> hi"
    and out: "acc = slice (unat offset) (min (unat read_len) (k * CHUNK_SIZE - unat offset)) (content e)"
  shows "fst (read_loop load e offset read_len (map of_nat [k..<hi]) acc s) =
      Inr (slice (unat offset) (unat read_len) (content e)) \<and>
    inv (snd (read_loop load e offset read_len (map of_nat [k..<hi]) acc s))"
  using assms(1) k out
proof (induction "hi - k" arbitrary: k acc s)
  case 0
  have "unat offset + unat read_len - 1 < hi * CHUNK_SIZE"
    unfolding hi using dividend_less_div_times [of CHUNK_SIZE "unat offset + unat read_len - 1"]
    by (simp only: mult_Suc CHUNK_SIZE_pos)
  then have "unat offset + unat read_len \<le> hi * CHUNK_SIZE" using L(1) by linarith
  with 0 show ?case by simp
next
  case (Suc n)
  let ?o = "unat offset" and ?l = "unat read_len" and ?N = "unat (e_size e)" and ?C = CHUNK_SIZE
  from Suc(2,5) have klt: "k < hi" by simp
  then have "k \<le> (?o + ?l - 1) div ?C" using hi by simp
  then have "k * ?C \<le> (?o + ?l - 1) div ?C * ?C" by (rule mult_le_mono1)
  also have "\<dots> \<le> ?o + ?l - 1" by simp
  finally have kC: "k * ?C < ?o + ?l" using L(1) by linarith
  then have kN: "k < chunks_for ?N" using L(2) by (simp add: less_chunks_for)
  have oC: "?o < Suc k * ?C"
  proof -
    have "?o < Suc (?o div ?C) * ?C" using dividend_less_div_times [of ?C ?o] by simp
    also have "\<dots> \<le> Suc k * ?C" using Suc.prems(2) by (intro mult_le_mono1) simp
    finally show ?thesis .
  qed
  have len: "length (content e) = ?N" using content_size [OF Suc.prems(1) e] by simp
  obtain s' where ld: "load s e (of_nat k) = (Inr (slice (k * ?C) ?C (content e)), s')" and inv': "inv s'"
    using load_chunk [OF Suc.prems(1) e kN] by (metis prod.collapse)
  have small: "k * ?C < 18446744073709551616"
    using kC L(2) unat_u64_bound [of "e_size e"] by linarith
  then have uk: "unat (of_nat k :: u64) = k"
    by (intro unat_of_nat_small) (auto simp: CHUNK_SIZE_def)
  have start: "unat (of_nat k * CHUNK64 :: u64) = k * ?C"
    using small by (subst unat_mul_exact) (simp_all add: uk)
  have out_len: "length acc = min ?l (k * ?C - ?o)"
    using Suc.prems(4) len L(2) by auto
  have out_small: "unat (of_nat (length acc) :: u64) = length acc"
    using out_len unat_u64_bound [of read_len] by (intro unat_of_nat_small) (simp del: unat_u64_bound)
  define skip where "skip = unat (saturating_sub offset (of_nat k * CHUNK64))"
  define rem where "rem = unat (saturating_sub read_len (of_nat (length acc)))"
  let ?chunk = "slice (k * ?C) ?C (content e)"
  define tk where "tk = min (length ?chunk - skip) rem"
  have skip: "skip = ?o - k * ?C" by (simp add: skip_def unat_saturating_sub start)
  have rem: "rem = ?l - min ?l (k * ?C - ?o)"
    unfolding rem_def unat_saturating_sub out_small by (simp add: out_len)
  have clen: "length ?chunk = min ?C (?N - k * ?C)" by (simp add: len)
  have skip_le: "skip \<le> length ?chunk"
    using skip clen off oC by auto
  have "acc @ slice skip tk ?chunk =
      slice ?o (min ?l (Suc k * ?C - ?o)) (content e)"
  proof -
    have part: "slice skip tk ?chunk = slice (k * ?C + skip) tk (content e)"
    proof (rule slice_slice)
      have "tk \<le> length ?chunk - skip" by (simp add: tk_def)
      moreover have "length ?chunk \<le> ?C" unfolding clen by simp
      ultimately show "skip + tk \<le> ?C" using skip_le by linarith
    qed
    show ?thesis
    proof (cases "k * ?C \<le> ?o")
      case True
      then have "acc = []" "k * ?C + skip = ?o" using out_len skip by auto
      moreover have "tk = min ?l (Suc k * ?C - ?o)"
        using True L(2) oC by (auto simp: tk_def rem len skip)
      ultimately show ?thesis unfolding part by simp
    next
      case False
      then have m: "min ?l (k * ?C - ?o) = k * ?C - ?o" and "skip = 0" using kC skip by auto
      moreover have "k * ?C - ?o + tk = min ?l (Suc k * ?C - ?o)"
        using False L(2) kC by (auto simp: tk_def rem len m skip)
      moreover have "slice ?o (k * ?C - ?o) (content e) @ slice (k * ?C) tk (content e) =
          slice ?o (k * ?C - ?o + tk) (content e)"
        using False by (simp only: slice_split not_le le_add_diff_inverse less_imp_le)
      ultimately show ?thesis
        unfolding part Suc.prems(4) by simp
    qed
  qed
  from Suc(1) [of "Suc k", OF _ inv' _ _ this] Suc(2) Suc.prems(2) klt
  have "fst (read_loop load e offset read_len (map of_nat [Suc k..<hi]) (acc @ slice skip tk ?chunk) s') =
      Inr (slice ?o ?l (content e)) \<and>
      inv (snd (read_loop load e offset read_len (map of_nat [Suc k..<hi]) (acc @ slice skip tk ?chunk) s'))"
    by simp
  moreover have "read_loop load e offset read_len (map of_nat [k..<hi]) acc s =
      read_loop load e offset read_len (map of_nat [Suc k..<hi]) (acc @ slice skip tk ?chunk) s'"
  proof -
    have "\<not> length ?chunk < skip" using skip_le by (simp only: not_less)
    then show ?thesis
      unfolding tk_def skip_def rem_def
      by (simp only: upt_conv_Cons [OF klt] list.map read_loop.simps ld prod.case sum.case Let_def if_False)
  qed
  ultimately show ?case by simp
qed

lemma read_loop_nothing:
  assumes "inv s" "e \<in> files" "unat offset < unat (e_size e)" "k = unat offset div CHUNK_SIZE"
  shows "fst (read_loop load e offset 0 [of_nat k] [] s) = Inr [] \<and>
    inv (snd (read_loop load e offset 0 [of_nat k] [] s))"
proof -
  have kC: "k * CHUNK_SIZE \<le> unat offset" "unat offset < k * CHUNK_SIZE + CHUNK_SIZE"
    using assms(4) dividend_less_div_times [of CHUNK_SIZE "unat offset"] by simp_all
  then have kN: "k < chunks_for (unat (e_size e))"
    using assms(3) by (simp add: less_chunks_for)
  obtain s' where ld: "load s e (of_nat k) = (Inr (slice (k * CHUNK_SIZE) CHUNK_SIZE (content e)), s')" "inv s'"
    using load_chunk [OF assms(1,2) kN] by (metis prod.collapse)
  have small: "k * CHUNK_SIZE < 18446744073709551616"
    using kC(1) unat_u64_bound [of offset] by linarith
  then have uk: "unat (of_nat k :: u64) = k"
    by (intro unat_of_nat_small) (auto simp: CHUNK_SIZE_def)
  have start: "unat (of_nat k * CHUNK64 :: u64) = k * CHUNK_SIZE"
    using small by (subst unat_mul_exact) (simp_all add: uk)
  then have skip: "unat (saturating_sub offset (of_nat k * CHUNK64)) = unat offset - k * CHUNK_SIZE"
    by (simp add: unat_saturating_sub)
  have "length (content e) = unat (e_size e)" using content_size assms(1,2) by blast
  then have "\<not> length (slice (k * CHUNK_SIZE) CHUNK_SIZE (content e)) < unat offset - k * CHUNK_SIZE"
    using kC assms(3) by auto
  with ld show ?thesis
    by (simp add: Let_def skip start unat_saturating_sub slice_def)
qed

text \<open>A range read gives the bytes of the content in the range, cut at the end of the file. The
  one excluded request is the empty read at the start of a nonempty file.\<close>

lemma read_entry_range:
  assumes s: "inv s" and e: "e \<in> files"
    and request: "sz \<noteq> 0 \<or> offset \<noteq> 0 \<or> e_size e = 0"
  shows "fst (read_entry load e offset sz s) = Inr (slice (unat offset) (unat sz) (content e)) \<and>
    inv (snd (read_entry load e offset sz s))"
proof (cases "e_size e \<le> offset")
  case True
  with content_size [OF s e] s show ?thesis
    by (simp add: read_entry_def slice_def word_le_nat_alt)
next
  case False
  have kind: "e_kind e = File" and len: "length (content e) = unat (e_size e)"
    using content_size [OF s e] by simp_all
  from False have off: "unat offset < unat (e_size e)" by (simp add: word_le_nat_alt)
  define read_len where "read_len = min (ucast sz) (e_size e - offset)"
  have L: "unat read_len = min (unat sz) (unat (e_size e) - unat offset)"
    unfolding read_len_def unat_min using off
    by (simp add: unat_sub_exact word_le_nat_alt)
  define stop where "stop = offset + read_len"
  have stop: "checked_add offset read_len = Some stop" "unat stop = unat offset + unat read_len"
  proof -
    have "unat offset + unat read_len \<le> unat (e_size e)"
      using L off by simp
    then have "unat offset + unat read_len < 2 ^ LENGTH(64)"
      using unsigned_less [of "e_size e"] by (rule le_less_trans)
    then show "checked_add offset read_len = Some stop" "unat stop = unat offset + unat read_len"
      by (simp_all add: stop_def checked_add_def unat_add_exact)
  qed
  have "stop \<noteq> 0"
    using stop(2) request L off False by (auto simp: word_unat_eq_iff)
  then have "1 \<le> stop" by (simp add: word_le_nat_alt Suc_le_eq unat_gt_0)
  define last_byte where "last_byte = stop - 1"
  have last: "checked_sub stop 1 = Some last_byte" "unat last_byte = unat offset + unat read_len - 1"
    using \<open>1 \<le> stop\<close> stop(2) by (simp_all add: checked_sub_def last_byte_def unat_sub_exact)
  have divs: "unat (offset div CHUNK64) = unat offset div CHUNK_SIZE"
    "unat (last_byte div CHUNK64) = (unat offset + unat read_len - 1) div CHUNK_SIZE"
    by (simp_all add: unat_div last(2))
  let ?run = "read_loop load e offset read_len
    (map of_nat [unat (offset div CHUNK64)..<Suc (unat (last_byte div CHUNK64))]) [] s"
  have run: "fst ?run = Inr (slice (unat offset) (unat read_len) (content e)) \<and> inv (snd ?run)"
  proof (cases "read_len = 0")
    case True
    have "unat (last_byte div CHUNK64) \<le> unat (offset div CHUNK64)"
      unfolding divs using True by (simp add: div_le_mono)
    then consider "[unat (offset div CHUNK64)..<Suc (unat (last_byte div CHUNK64))] = []"
      | "[unat (offset div CHUNK64)..<Suc (unat (last_byte div CHUNK64))] = [unat offset div CHUNK_SIZE]"
      unfolding divs by (cases "unat (last_byte div CHUNK64) = unat (offset div CHUNK64)") (auto simp: divs)
    then show ?thesis
      using True s read_loop_nothing [OF s e off refl] by cases (simp_all add: slice_def)
  next
    case False
    then have pos: "0 < unat read_len" by (simp add: unat_gt_0)
    then have "unat offset \<le> unat offset + unat read_len - 1" by linarith
    then have "unat offset div CHUNK_SIZE \<le> (unat offset + unat read_len - 1) div CHUNK_SIZE"
      by (rule div_le_mono)
    then have le: "unat offset div CHUNK_SIZE \<le> Suc ((unat offset + unat read_len - 1) div CHUNK_SIZE)"
      by (rule le_SucI)
    have "[] = slice (unat offset)
        (min (unat read_len) (unat offset div CHUNK_SIZE * CHUNK_SIZE - unat offset)) (content e)"
      by (simp add: slice_def)
    with pos le show ?thesis
      unfolding divs using L off by (intro read_loop_range [OF s e off _ _ refl]) simp_all
  qed
  have "slice (unat offset) (unat read_len) (content e) = slice (unat offset) (unat sz) (content e)"
    unfolding L by (simp add: slice_def min_def len)
  moreover have "length (slice (unat offset) (unat read_len) (content e)) = unat read_len"
    using L len by simp
  ultimately show ?thesis
    using run kind False
    by (cases ?run) (auto simp: read_entry_def Let_def stop(1) last(1) simp flip: read_len_def split: sum.splits)
qed

end

section \<open>The cached loader provides the interface\<close>

definition content_stored :: "prims \<Rightarrow> opened_container \<Rightarrow> entry list \<Rightarrow> (entry \<Rightarrow> bytes) \<Rightarrow> bool" where
  "content_stored P opened es content \<longleftrightarrow>
     aead_ok P \<and> opened_ok opened es \<and> (\<forall>e \<in> set (files_of es). file_stored P opened e (content e))"

definition cached_ok :: "entry list \<Rightarrow> (entry \<Rightarrow> bytes) \<Rightarrow> cache \<Rightarrow> bool" where
  "cached_ok es content c \<longleftrightarrow>
     (\<forall>(key, v) \<in> set (c_values c). \<forall>e \<in> set (files_of es).
        e_file_id e = fst key \<and> unat (snd key) < unat (e_chunk_count e) \<longrightarrow>
        v = slice (unat (snd key) * CHUNK_SIZE) CHUNK_SIZE (content e))"

lemma cached_okD:
  "cached_ok es content c \<Longrightarrow> ((fid, i), v) \<in> set (c_values c) \<Longrightarrow> e \<in> set (files_of es) \<Longrightarrow>
   e_file_id e = fid \<Longrightarrow> unat i < unat (e_chunk_count e) \<Longrightarrow>
   v = slice (unat i * CHUNK_SIZE) CHUNK_SIZE (content e)"
  unfolding cached_ok_def by fastforce

lemma cache_probe_values [simp]: "c_values (snd (cache_probe key c)) = c_values c"
  by (simp add: cache_probe_def split: option.split)

lemma cache_drop_values: "set (c_values (cache_drop oldest rest c)) \<subseteq> set (c_values c)"
  by (auto simp: cache_drop_def AList.delete_eq split: option.split)

lemma cache_evict_values: "set (c_values (cache_evict len c)) \<subseteq> set (c_values c)"
proof (induction len c rule: cache_evict.induct)
  case (1 len c)
  show ?case
  proof (cases "c_max_bytes c < c_bytes c + len \<and> c_order c \<noteq> []")
    case True
    then obtain oldest rest where o: "c_order c = oldest # rest" by (cases "c_order c") auto
    have "cache_evict len c = cache_evict len (cache_drop oldest rest c)"
      using True o by (simp add: cache_evict.simps [of len c])
    with subset_trans [OF 1 [OF conjunct1 [OF True] o] cache_drop_values] show ?thesis by simp
  qed (auto simp: cache_evict.simps [of len c])
qed

lemma cached_ok_subset:
  "cached_ok es content c \<Longrightarrow> set (c_values c') \<subseteq> set (c_values c) \<Longrightarrow> cached_ok es content c'"
  unfolding cached_ok_def by blast

lemma set_update_subset: "set (AList.update k v al) \<subseteq> insert (k, v) (set al)"
  by (induction al) auto

lemma cached_ok_order [simp]: "cached_ok es content (c\<lparr>c_order := o'\<rparr>) = cached_ok es content c"
  by (simp add: cached_ok_def)

lemma cached_ok_store:
  assumes c: "cached_ok es content c" and dist: "distinct (map e_file_id (files_of es))"
    and e: "e \<in> set (files_of es)" and v: "v = slice (unat i * CHUNK_SIZE) CHUNK_SIZE (content e)"
  shows "cached_ok es content (cache_store (e_file_id e, i) v c)"
proof -
  let ?vs = "c_values (cache_evict (length v) c)" and ?key = "(e_file_id e, i)"
  have ev: "cached_ok es content (cache_evict (length v) c)"
    using c cache_evict_values by (rule cached_ok_subset)
  have same: "f = e" if "f \<in> set (files_of es)" "e_file_id f = e_file_id e" for f
    using dist e that by (auto simp: distinct_map inj_on_def)
  have "cached_ok es content (c'\<lparr>c_values := AList.update ?key v ?vs\<rparr>)" for c' :: cache
    unfolding cached_ok_def
  proof (clarify, goal_cases)
    case (1 fid j x f)
    then have "((fid, j), x) = (?key, v) \<or> ((fid, j), x) \<in> set ?vs"
      using set_update_subset [of ?key v ?vs] by auto
    with 1 show ?case
      using same v cached_okD [OF ev] by auto
  qed
  with c show ?thesis by (simp add: cache_store_def Let_def cached_ok_def)
qed

lemma load_chunk_content:
  assumes st: "content_stored P opened es content" and c: "cached_ok es content c"
    and e: "e \<in> set (files_of es)" and i: "i < chunks_for (unat (e_size e))"
  shows "fst (load_chunk P opened c e (of_nat i)) = Inr (slice (i * CHUNK_SIZE) CHUNK_SIZE (content e)) \<and>
    cached_ok es content (snd (load_chunk P opened c e (of_nat i)))"
proof -
  let ?v = "slice (i * CHUNK_SIZE) CHUNK_SIZE (content e)" and ?key = "(e_file_id e, of_nat i :: u64)"
  have P: "aead_ok P" and ok: "opened_ok opened es" and fs: "file_stored P opened e (content e)"
    using st e by (auto simp: content_stored_def)
  have ke: "e \<in> set es" "e_kind e = File" using e by (auto simp: files_of_def)
  have i': "i < unat (e_chunk_count e)"
    using i file_entry_sizes(1) [OF opened_ok_entry [OF ok ke(1)] ke(2)] by simp
  then have ui: "unat (of_nat i :: u64) = i"
    using unat_u64_bound [of "e_chunk_count e"] by (intro unat_of_nat_small) (simp del: unat_u64_bound)
  have dist: "distinct (map e_file_id (files_of es))" using ok by (simp add: opened_ok_def index_ok_def)
  show ?thesis
  proof (cases "map_of (c_values c) ?key")
    case None
    have "chunk_stored P opened e i ?v" using fs i' by (simp add: file_stored_def)
    then have "decrypt_chunk P opened e (of_nat i) = Inr ?v"
      by (rule decrypt_chunk_stored [OF P ok ke i'])
    moreover have "cached_ok es content (cache_store ?key ?v c)"
      by (rule cached_ok_store [OF c dist e]) (simp add: ui)
    ultimately show ?thesis using None by (simp add: load_chunk_def cache_probe_def Let_def)
  next
    case (Some v)
    then have "v = ?v"
      using cached_okD [OF c map_of_SomeD [OF Some] e refl] i' ui by simp
    with Some c show ?thesis
      by (simp add: load_chunk_def cache_probe_def Let_def)
  qed
qed

interpretation cached: chunk_source "load_chunk P opened"
  "\<lambda>c. content_stored P opened es content \<and> cached_ok es content c" "set (files_of es)" content
  for P opened es content
proof unfold_locales
  fix c e i
  assume "content_stored P opened es content \<and> cached_ok es content c" "e \<in> set (files_of es)"
    "i < chunks_for (unat (e_size e))"
  then show "fst (load_chunk P opened c e (of_nat i)) = Inr (slice (i * CHUNK_SIZE) CHUNK_SIZE (content e)) \<and>
      content_stored P opened es content \<and> cached_ok es content (snd (load_chunk P opened c e (of_nat i)))"
    using load_chunk_content [of P opened es content c e i] by blast
next
  fix c :: cache and e
  assume "content_stored P opened es content \<and> cached_ok es content c" "e \<in> set (files_of es)"
  then show "length (content e) = unat (e_size e) \<and> e_kind e = File"
    by (auto simp: content_stored_def file_stored_def files_of_def)
qed

text \<open>Reading through the mount, whatever the cache holds.\<close>

lemma fs_read_content:
  assumes st: "content_stored P opened es content" and c: "cached_ok es content c"
    and e: "e \<in> set (files_of es)" and request: "sz \<noteq> 0 \<or> offset \<noteq> 0 \<or> e_size e = 0"
  shows "fst (fs_read P opened (e_id e) offset sz c) = Inr (slice (unat offset) (unat sz) (content e)) \<and>
    cached_ok es content (snd (fs_read P opened (e_id e) offset sz c))"
proof -
  have "distinct (map e_id es)" "oc_index opened = index_tables es" "e \<in> set es"
    using st e by (auto simp: content_stored_def opened_ok_def index_ok_def files_of_def)
  then have "fs_metadata (oc_index opened) (e_id e) = Inr e"
    by (simp add: fs_metadata_def index_tables_def ok_or_eq_Inr map_of_entries)
  then show ?thesis
    using cached.read_entry_range [of P opened es content c e sz offset] st c e request
    by (simp add: fs_read_def)
qed

section \<open>The cache as a shared structure\<close>

text \<open>Bytes held by the cached values.\<close>

definition cache_held :: "cache \<Rightarrow> nat" where
  "cache_held c = sum_list (map (\<lambda>kv. length (snd kv)) (c_values c))"

text \<open>Readers run concurrently: a hit probes, and a miss stores its chunk some time later, in any
  interleaving with the others.\<close>

inductive cache_step :: "cache \<Rightarrow> cache \<Rightarrow> bool" where
  probe: "cache_step c (snd (cache_probe key c))"
| store: "cache_step c (cache_store key v c)"

inductive_cases cache_step_cases: "cache_step c c'"

inductive cache_reachable :: "nat \<Rightarrow> cache \<Rightarrow> bool" for max_bytes where
  start: "cache_reachable max_bytes (cache_new max_bytes)"
| step: "cache_reachable max_bytes c \<Longrightarrow> cache_step c c' \<Longrightarrow> cache_reachable max_bytes c'"

text \<open>What every interleaving keeps: no key twice, every cached key is queued for eviction, the
  counter is never below what is held, and what is held never exceeds the limit.\<close>

definition cache_inv :: "cache \<Rightarrow> bool" where
  "cache_inv c \<longleftrightarrow>
     distinct (map fst (c_values c)) \<and> fst ` set (c_values c) \<subseteq> set (c_order c) \<and>
     cache_held c \<le> c_bytes c \<and> cache_held c \<le> c_max_bytes c"

lemma held_delete:
  "distinct (map fst al) \<Longrightarrow> map_of al k = Some v \<Longrightarrow>
   sum_list (map (\<lambda>kv. length (snd kv)) (AList.delete k al)) + length v =
   sum_list (map (\<lambda>kv. length (snd kv)) al)"
proof (induction al)
  case (Cons kv al)
  show ?case
  proof (cases "fst kv = k")
    case True
    with Cons.prems have "AList.delete k al = al"
      by (auto simp: AList.delete_eq intro!: filter_True) (metis fst_conv image_eqI)
    with True Cons.prems show ?thesis by (cases kv) (auto simp: AList.delete_eq)
  next
    case False
    with Cons show ?thesis by (cases kv) (auto simp: AList.delete_eq)
  qed
qed simp

lemma held_update:
  "sum_list (map (\<lambda>kv. length (snd kv)) (AList.update k v al)) \<le>
   sum_list (map (\<lambda>kv. length (snd kv)) al) + length v"
  by (induction al) auto

lemma cache_inv_new: "cache_inv (cache_new max_bytes)"
  by (simp add: cache_inv_def cache_new_def cache_held_def)

lemma cache_inv_probe: "cache_inv c \<Longrightarrow> cache_inv (snd (cache_probe key c))"
proof -
  assume c: "cache_inv c"
  have "set (c_order c) \<subseteq> insert key (set (remove1 key (c_order c)))"
    using in_set_remove1 by (auto, fastforce)
  then have "set (c_order c) \<subseteq> set (remove1 key (c_order c) @ [key])" by simp
  with c show ?thesis
    by (auto simp: cache_inv_def cache_probe_def cache_held_def split: option.split)
qed

lemma cache_drop_inv:
  assumes "cache_inv c" "c_order c = oldest # rest"
  shows "cache_inv (cache_drop oldest rest c)" "c_max_bytes (cache_drop oldest rest c) = c_max_bytes c"
proof -
  have dist: "distinct (map fst (c_values c))" using assms(1) by (simp add: cache_inv_def)
  show "cache_inv (cache_drop oldest rest c)"
  proof (cases "map_of (c_values c) oldest")
    case None
    then have "oldest \<notin> fst ` set (c_values c)" by (simp add: map_of_eq_None_iff)
    with None assms show ?thesis by (auto simp: cache_drop_def cache_inv_def cache_held_def)
  next
    case (Some old)
    have "cache_held (cache_drop oldest rest c) + length old = cache_held c"
      using held_delete [OF dist Some] Some by (simp add: cache_held_def cache_drop_def)
    moreover have "fst ` set (AList.delete oldest (c_values c)) \<subseteq> set rest"
      using assms by (auto simp: cache_inv_def AList.delete_eq)
    ultimately show ?thesis
      using Some assms dist by (auto simp: cache_inv_def cache_drop_def distinct_delete)
  qed
  show "c_max_bytes (cache_drop oldest rest c) = c_max_bytes c"
    by (simp add: cache_drop_def split: option.split)
qed

lemma cache_evict_inv:
  assumes "cache_inv c"
  shows "cache_inv (cache_evict len c) \<and> c_max_bytes (cache_evict len c) = c_max_bytes c \<and>
    (c_bytes (cache_evict len c) + len \<le> c_max_bytes c \<or> c_values (cache_evict len c) = [])"
  using assms
proof (induction len c rule: cache_evict.induct)
  case (1 len c)
  show ?case
  proof (cases "c_max_bytes c < c_bytes c + len")
    case False
    with 1(2) show ?thesis by (simp add: cache_evict.simps [of len c])
  next
    case over: True
    show ?thesis
    proof (cases "c_order c")
      case Nil
      with 1(2) over show ?thesis by (auto simp: cache_evict.simps [of len c] cache_inv_def)
    next
      case (Cons oldest rest)
      have "cache_evict len c = cache_evict len (cache_drop oldest rest c)"
        using over Cons by (simp add: cache_evict.simps [of len c])
      with 1(1) [OF over Cons] cache_drop_inv [OF 1(2) Cons] show ?thesis by simp
    qed
  qed
qed

lemma cache_inv_store: "cache_inv c \<Longrightarrow> cache_inv (cache_store key v c)"
proof -
  assume c: "cache_inv c"
  let ?c = "cache_evict (length v) c"
  have ev: "cache_inv ?c" "c_max_bytes ?c = c_max_bytes c"
    "c_bytes ?c + length v \<le> c_max_bytes c \<or> c_values ?c = []"
    using cache_evict_inv [OF c] by simp_all
  show ?thesis
  proof (cases "c_max_bytes c = 0 \<or> c_max_bytes c < length v")
    case True
    with c show ?thesis by (simp add: cache_store_def)
  next
    case False
    let ?c' = "?c\<lparr>c_bytes := c_bytes ?c + length v, c_order := c_order ?c @ [key],
      c_values := AList.update key v (c_values ?c)\<rparr>"
    have held: "cache_held ?c' \<le> cache_held ?c + length v"
      using held_update [of key v "c_values ?c"] by (simp add: cache_held_def)
    have "cache_held ?c' \<le> c_max_bytes c"
      using ev(3)
    proof
      assume "c_bytes ?c + length v \<le> c_max_bytes c"
      with held ev(1) show ?thesis by (simp add: cache_inv_def)
    next
      assume "c_values ?c = []"
      with held False show ?thesis by (simp add: cache_held_def)
    qed
    moreover have "fst ` set (AList.update key v (c_values ?c)) \<subseteq> insert key (fst ` set (c_values ?c))"
      using set_update_subset by force
    ultimately have "cache_inv ?c'"
      using ev(1,2) held by (auto simp: cache_inv_def distinct_update)
    with False show ?thesis by (simp add: cache_store_def Let_def)
  qed
qed

lemma cache_reachable_inv: "cache_reachable max_bytes c \<Longrightarrow> cache_inv c \<and> c_max_bytes c = max_bytes"
proof (induction rule: cache_reachable.induct)
  case start
  then show ?case using cache_inv_new by (simp add: cache_new_def)
next
  case (step c c')
  have "c_max_bytes (cache_store key v c) = c_max_bytes c" for key v
    using cache_evict_inv [of c "length v"] step.IH by (simp add: cache_store_def Let_def)
  moreover have "c_max_bytes (snd (cache_probe key c)) = c_max_bytes c" for key
    by (simp add: cache_probe_def split: option.split)
  ultimately show ?case
    using step cache_inv_probe cache_inv_store by (auto elim!: cache_step_cases)
qed

text \<open>Two readers that miss the same chunk both store it; the second insertion is counted but the
  map keeps one value, and the counter never comes back.\<close>

definition racing_stores :: "cache \<Rightarrow> cache" where
  "racing_stores c =
     (let a = ([1], 0); b = ([2], 0); d = ([3], 0); v = replicate 6 0
      in cache_store d v (cache_store b v (cache_store a v (cache_store a v c))))"

lemma cache_counter_drift:
  "cache_held (racing_stores (cache_new 12)) = 6 \<and> c_bytes (racing_stores (cache_new 12)) = 12"
  by code_simp

section \<open>The empty read\<close>

text \<open>The request the range theorem excludes: nothing from the start of a nonempty file. The last
  byte of the range does not exist and the subtraction fails.\<close>

lemma read_entry_empty_at_start:
  "e_kind e = File \<Longrightarrow> e_size e \<noteq> 0 \<Longrightarrow>
   fst (read_entry load e 0 0 s) = Inl (fs_integrity [Msg ''Read range overflow''])"
  by (simp add: read_entry_def Let_def checked_add_def checked_sub_def)

section \<open>Directories\<close>

lemma map_filter_children:
  assumes "distinct (map e_id es)"
  shows "List.map_filter (map_of (map (\<lambda>e. (e_id e, e)) es)) (map e_id (filter Q es)) = filter Q es"
proof -
  have "List.map_filter (map_of (map (\<lambda>e. (e_id e, e)) es)) (map e_id xs) = xs" if "set xs \<subseteq> set es" for xs
    using that
  proof (induction xs)
    case (Cons x xs)
    then have "map_of (map (\<lambda>e. (e_id e, e)) es) (e_id x) = Some x"
      using assms by (simp add: map_of_entries)
    with Cons show ?case by (simp add: List.map_filter_simps)
  qed (simp add: List.map_filter_simps)
  then show ?thesis by (simp add: subset_iff)
qed

definition children_of :: "entry list \<Rightarrow> u64 \<Rightarrow> entry list" where
  "children_of es i = filter (\<lambda>e. e_id e \<noteq> 1 \<and> e_parent_id e = i) es"

lemma children_table:
  assumes "distinct (map e_id es)"
  shows "List.map_filter (map_of (vi_entries (index_tables es)))
      (case vi_children (index_tables es) i of None \<Rightarrow> [] | Some ids \<Rightarrow> ids) = children_of es i"
proof -
  have "(case vi_children (index_tables es) i of None \<Rightarrow> [] | Some ids \<Rightarrow> ids) = map e_id (children_of es i)"
    by (simp add: index_tables_def Let_def children_of_def)
  then show ?thesis
    using map_filter_children [OF assms] by (simp add: index_tables_def children_of_def)
qed

lemma find_unique:
  "List.find Q xs = Some x \<Longrightarrow> x \<in> set xs \<and> Q x"
  by (auto simp: find_Some_iff)

text \<open>A lookup finds the one child with the name.\<close>

lemma fs_lookup_iff:
  assumes ok: "index_ok h es"
  shows "fs_lookup (index_tables es) p name = Inr e \<longleftrightarrow>
    e \<in> set es \<and> e_id e \<noteq> 1 \<and> e_parent_id e = p \<and> e_name e = name"
proof -
  have dist: "distinct (map e_id es)"
    and names: "distinct (map (\<lambda>e. (e_parent_id e, e_name e)) (filter (\<lambda>e. e_id e \<noteq> 1) es))"
    using ok by (simp_all add: index_ok_def)
  have "fs_lookup (index_tables es) p name = Inr e \<longleftrightarrow>
      List.find (\<lambda>e. e_name e = name) (children_of es p) = Some e"
    using children_table [OF dist, of p]
    by (cases "vi_children (index_tables es) p") (auto simp: fs_lookup_def ok_or_eq_Inr List.map_filter_simps)
  also have "\<dots> \<longleftrightarrow> e \<in> set (children_of es p) \<and> e_name e = name"
  proof
    assume e: "e \<in> set (children_of es p) \<and> e_name e = name"
    then obtain x where x: "List.find (\<lambda>e. e_name e = name) (children_of es p) = Some x"
      by (cases "List.find (\<lambda>e. e_name e = name) (children_of es p)") (auto simp: find_None_iff)
    from find_unique [OF x] e names have "x = e"
      by (auto simp: children_of_def distinct_map inj_on_def)
    with x show "List.find (\<lambda>e. e_name e = name) (children_of es p) = Some e" by simp
  qed (rule find_unique)
  finally show ?thesis by (auto simp: children_of_def)
qed

lemma string_le_total: "string_le s t \<or> string_le t s"
  by (induction s t rule: string_le.induct) (auto simp: not_less_iff_gr_or_eq code_inject)

lemma string_le_trans: "string_le s t \<Longrightarrow> string_le t u \<Longrightarrow> string_le s u"
proof (induction s t arbitrary: u rule: string_le.induct)
  case (3 c cs d ds)
  then show ?case by (cases u) auto
qed auto

lemma string_le_antisym: "string_le s t \<Longrightarrow> string_le t s \<Longrightarrow> s = t"
proof (induction s t rule: string_le.induct)
  case (1 t)
  then show ?case by (cases t) auto
qed auto

lemma node_le_total: "node_le a b \<or> node_le b a"
  using string_le_total by (auto simp: node_le_def)

lemma node_le_trans: "node_le a b \<Longrightarrow> node_le b c \<Longrightarrow> node_le a c"
  using string_le_trans string_le_antisym by (fastforce simp: node_le_def split: if_splits)

lemma set_insert_node [simp]: "set (insert_node x ns) = insert x (set ns)"
  by (induction ns) auto

lemma sorted_insert_node: "sorted_wrt node_le ns \<Longrightarrow> sorted_wrt node_le (insert_node x ns)"
proof (induction ns)
  case (Cons y ns)
  show ?case
  proof (cases "node_le x y")
    case True
    then have "\<forall>z \<in> set ns. node_le x z" using Cons.prems node_le_trans by auto
    with True Cons.prems show ?thesis by simp
  next
    case False
    then have "node_le y x" using node_le_total by blast
    with False Cons show ?thesis by simp
  qed
qed simp

lemma sort_nodes_spec: "sorted_wrt node_le (sort_nodes ns) \<and> set (sort_nodes ns) = set ns"
  by (induction ns) (auto simp: sort_nodes_def sorted_insert_node)

text \<open>A listing has exactly the children, sorted by name.\<close>

lemma fs_read_dir_spec:
  assumes ok: "index_ok h es" and d: "d \<in> set es" "e_kind d = Directory"
  shows "\<exists>ns. fs_read_dir (index_tables es) (e_id d) = Inr ns \<and> sorted_wrt node_le ns \<and>
    set ns = node_of_entry ` {e \<in> set es. e_id e \<noteq> 1 \<and> e_parent_id e = e_id d}"
proof -
  have dist: "distinct (map e_id es)" using ok by (simp add: index_ok_def)
  then have "fs_metadata (index_tables es) (e_id d) = Inr d"
    using d(1) by (simp add: fs_metadata_def ok_or_eq_Inr index_tables_def map_of_entries)
  then have "fs_read_dir_entries (index_tables es) (e_id d) = Inr (children_of es (e_id d))"
    using d(2) children_table [OF dist] by (simp add: fs_read_dir_entries_def)
  then show ?thesis
    using sort_nodes_spec [of "map node_of_entry (children_of es (e_id d))"]
    by (auto simp: fs_read_dir_def children_of_def)
qed

end
