(* ===== verification/Scan.thy ===== *)
theory Scan
  imports V2Index V2Keys
begin

text \<open>
  The first phase of packing (\<open>scan_source\<close> of \<open>pack.rs\<close>): the walk over the source directory
  that assigns ids, checks names, links and limits, lays out the encrypted data and takes a
  fingerprint of every file. The walk itself (\<open>walkdir\<close>, files of a directory in name order,
  links not followed) is a parameter. The lemmas show that whatever the scan accepts, the reader
  of the format accepts too.
\<close>

section \<open>State\<close>

record source_snapshot =
  sn_path :: path
  sn_fingerprint :: file_fingerprint

record scan_state =
  sc_entries :: "entry list"
  sc_path_ids :: "path \<Rightarrow> u64 option"
  sc_file_ids :: "bytes set"
  sc_sources :: "(u64 \<times> source_snapshot) list"
  sc_next_id :: u64
  sc_total :: u64
  sc_offset :: u64

type_synonym walker = "disk \<Rightarrow> path \<Rightarrow> path result list"

definition directory_entry :: "u64 \<Rightarrow> u64 \<Rightarrow> string \<Rightarrow> u32 \<Rightarrow> entry" where
  "directory_entry ident parent_id name depth =
     \<lparr>e_id = ident, e_parent_id = parent_id, e_name = name, e_depth = depth, e_kind = Directory,
      e_file_id = replicate 16 0, e_size = 0, e_data_offset = 0, e_encrypted_size = 0, e_chunk_count = 0\<rparr>"

definition scan_state_new :: scan_state where
  "scan_state_new =
     \<lparr>sc_entries = [directory_entry 1 1 [] 0], sc_path_ids = [[] \<mapsto> 1], sc_file_ids = {}, sc_sources = [],
      sc_next_id = 2, sc_total = 0, sc_offset = 0\<rparr>"

section \<open>One item of the walk\<close>

text \<open>The loop that draws a file id until it is neither zero nor taken; the first argument bounds
  the draws, and the bound is a marker of its own, not an error of the program.\<close>

definition out_of_draws :: error where
  "out_of_draws = [Panic ''file id draws exhausted'']"

fun draw_file_id :: "nat \<Rightarrow> bytes set \<Rightarrow> bytes io" where
  "draw_file_id 0 taken = failM out_of_draws"
| "draw_file_id (Suc fuel) taken =
     bindM (fill_bytes 16) (\<lambda>file_id.
     if file_id \<noteq> replicate 16 0 \<and> file_id \<notin> taken then returnM file_id else draw_file_id fuel taken)"

definition scan_file :: "nat \<Rightarrow> path \<Rightarrow> u64 \<Rightarrow> u64 \<Rightarrow> string \<Rightarrow> u32 \<Rightarrow> scan_state \<Rightarrow> scan_state io" where
  "scan_file fuel path ident parent_id name depth s =
     bindM (open_file path) (\<lambda>source_file.
     bindM (file_len source_file) (\<lambda>size.
     bindM (draw_file_id fuel (sc_file_ids s)) (\<lambda>file_id.
     bindM (liftE (encrypted_file_size size)) (\<lambda>(chunk_count, encrypted_size).
     bindM (fingerprint_of source_file) (\<lambda>fingerprint.
     bindM (liftE (context_opt ''Total source size overflow'' (checked_add (sc_total s) size))) (\<lambda>total_plaintext.
     bindM (liftE (context_opt ''Encrypted data size overflow'' (checked_add (sc_offset s) encrypted_size))) (\<lambda>data_offset.
     returnM (s\<lparr>sc_file_ids := insert file_id (sc_file_ids s),
       sc_entries := sc_entries s @
         [\<lparr>e_id = ident, e_parent_id = parent_id, e_name = name, e_depth = depth, e_kind = File,
           e_file_id = file_id, e_size = size, e_data_offset = sc_offset s,
           e_encrypted_size = encrypted_size, e_chunk_count = chunk_count\<rparr>],
       sc_sources := sc_sources s @ [(ident, \<lparr>sn_path = path, sn_fingerprint = fingerprint\<rparr>)],
       sc_total := total_plaintext, sc_offset := data_offset\<rparr>))))))))"

definition scan_node :: "nat \<Rightarrow> path \<Rightarrow> path \<Rightarrow> u64 \<Rightarrow> u64 \<Rightarrow> string \<Rightarrow> u32 \<Rightarrow> node \<Rightarrow> scan_state \<Rightarrow> scan_state io" where
  "scan_node fuel path relative ident parent_id name depth metadata s =
     (case metadata of
        LinkNode _ \<Rightarrow> liftE (bail (''Refusing to pack a link or Windows reparse point: '' @ display_path path))
      | DirNode \<Rightarrow>
          returnM (s\<lparr>sc_entries := sc_entries s @ [directory_entry ident parent_id name depth],
            sc_path_ids := (sc_path_ids s)(relative \<mapsto> ident)\<rparr>)
      | FileNode _ \<Rightarrow> scan_file fuel path ident parent_id name depth s
      | SpecialNode \<Rightarrow> liftE (bail (''Unsupported special file in source: '' @ display_path path)))"

definition scan_item :: "nat \<Rightarrow> path \<Rightarrow> path result \<Rightarrow> scan_state \<Rightarrow> scan_state io" where
  "scan_item fuel source_dir item s =
     bindM check_cancel (\<lambda>_.
     bindM (liftE item) (\<lambda>path.
     if path = source_dir then returnM s
     else
       bindM (liftE (ok_or [Foreign ''prefix not found''] (strip_prefix source_dir path))) (\<lambda>relative.
       bindM (liftE (context_opt ''Directory traversal did not visit parent first''
         (sc_path_ids s (case path_parent relative of None \<Rightarrow> [] | Some parent \<Rightarrow> parent)))) (\<lambda>parent_id.
       bindM (liftE (context_opt ''CipherFS v2 requires UTF-8 filenames''
         (Option.bind (path_file_name relative) to_str))) (\<lambda>name.
       bindM (liftE (validate_name name)) (\<lambda>_.
       let depth = of_nat (length relative) :: u32 in
       bindM (liftE (ensure (\<not> MAX_DEPTH < depth) ''Source directory is too deeply nested'')) (\<lambda>_.
       bindM (liftE (ensure (\<not> MAX_ENTRIES \<le> length (sc_entries s)) ''Source exceeds the maximum entry count'')) (\<lambda>_.
       bindM (symlink_metadata path) (\<lambda>metadata.
       let ident = sc_next_id s in
       bindM (liftE (context_opt ''Entry id overflow'' (checked_add ident 1))) (\<lambda>next_id.
       scan_node fuel path relative ident parent_id name depth metadata (s\<lparr>sc_next_id := next_id\<rparr>)))))))))))"

definition scan_source ::
  "walker \<Rightarrow> nat \<Rightarrow> path \<Rightarrow> (entry list \<times> (u64 \<times> source_snapshot) list \<times> u64 \<times> u64) io" where
  "scan_source walk fuel source_dir w =
     bindM (foldM (scan_item fuel source_dir) (walk (w_disk w) source_dir) scan_state_new) (\<lambda>s.
     returnM (sc_entries s, sc_sources s, sc_total s, sc_offset s)) w"

section \<open>The invariant of the scan\<close>

text \<open>\<open>rs\<close> are the relative paths of the items taken so far, in order.\<close>

definition entry_at :: "(path \<Rightarrow> u64 option) \<Rightarrow> path \<Rightarrow> entry \<Rightarrow> bool" where
  "entry_at path_ids r e \<longleftrightarrow>
     r \<noteq> [] \<and> path_ids (butlast r) = Some (e_parent_id e) \<and> e_name e = last r \<and> unat (e_depth e) = length r"

definition path_ids_ok :: "path list \<Rightarrow> entry list \<Rightarrow> (path \<Rightarrow> u64 option) \<Rightarrow> bool" where
  "path_ids_ok rs es ids \<longleftrightarrow>
     ids [] = Some 1 \<and> inj_on ids (dom ids) \<and> dom ids \<subseteq> insert [] (set rs) \<and>
     length es = Suc (length rs) \<and>
     (\<forall>k < length rs. e_kind (es ! Suc k) = Directory \<longrightarrow> ids (rs ! k) = Some (e_id (es ! Suc k))) \<and>
     (\<forall>r i. ids r = Some i \<longrightarrow> (\<exists>e \<in> set es. e_id e = i \<and> e_kind e = Directory \<and> unat (e_depth e) = length r))"

definition scan_inv :: "path list \<Rightarrow> scan_state \<Rightarrow> bool" where
  "scan_inv rs s \<longleftrightarrow>
     (\<exists>es. sc_entries s = directory_entry 1 1 [] 0 # es \<and>
        map e_id es = map of_nat [2..<length es + 2] \<and> unat (sc_next_id s) = length es + 2 \<and>
        length es < MAX_ENTRIES \<and> (\<forall>e \<in> set es. entry_ok e) \<and>
        list_all2 (entry_at (sc_path_ids s)) rs es \<and> path_ids_ok rs (sc_entries s) (sc_path_ids s) \<and>
        distinct (map e_file_id (files_of es)) \<and> sc_file_ids s = set (map e_file_id (files_of es)) \<and>
        layout_end 0 (files_of es) = Some (unat (sc_offset s)) \<and>
        unat (sc_total s) = sum_list (map (\<lambda>e. unat (e_size e)) (files_of es)) \<and>
        map fst (sc_sources s) = map e_id (files_of es))"

lemma scan_inv_new: "scan_inv [] scan_state_new"
  by (auto simp: scan_inv_def scan_state_new_def path_ids_ok_def directory_entry_def files_of_def
      MAX_ENTRIES_def inj_on_def split: if_splits)

lemma layout_end_snoc:
  "layout_end n es = Some m \<Longrightarrow>
   layout_end n (es @ [e]) = (if unat (e_data_offset e) = m then Some (m + unat (e_encrypted_size e)) else None)"
  by (induction es arbitrary: n) (auto split: if_splits)

lemma entry_at_mono: "entry_at ids r e \<Longrightarrow> ids \<subseteq>\<^sub>m ids' \<Longrightarrow> entry_at ids' r e"
  by (auto simp: entry_at_def map_le_def dom_def)

lemma root_entry_ok: "entry_ok (directory_entry 1 1 [] 0)"
  by (simp add: entry_ok_def directory_entry_def MAX_DEPTH_def)

text \<open>One accepted item appends one entry.\<close>

definition appended :: "path \<Rightarrow> entry \<Rightarrow> scan_state \<Rightarrow> scan_state \<Rightarrow> bool" where
  "appended r e s t \<longleftrightarrow>
     entry_ok e \<and> e_id e = sc_next_id s \<and> length (sc_entries s) < MAX_ENTRIES \<and>
     entry_at (sc_path_ids s) r e \<and>
     sc_entries t = sc_entries s @ [e] \<and> unat (sc_next_id t) = unat (sc_next_id s) + 1 \<and>
     unat (sc_offset t) = unat (sc_offset s) + unat (e_encrypted_size e) \<and>
     unat (sc_total t) = unat (sc_total s) + unat (e_size e) \<and>
     (case e_kind e of
        Directory \<Rightarrow> sc_path_ids t = (sc_path_ids s)(r \<mapsto> e_id e) \<and> sc_file_ids t = sc_file_ids s \<and>
          sc_sources t = sc_sources s
      | File \<Rightarrow> sc_path_ids t = sc_path_ids s \<and> sc_file_ids t = insert (e_file_id e) (sc_file_ids s) \<and>
          e_file_id e \<notin> sc_file_ids s \<and> e_data_offset e = sc_offset s \<and>
          map fst (sc_sources t) = map fst (sc_sources s) @ [e_id e])"

lemma path_ids_ok_insert:
  assumes ok: "path_ids_ok rs es ids" and r: "r \<notin> set rs" "r \<noteq> []"
    and e: "e_kind e = Directory" "unat (e_depth e) = length r" and fresh: "e_id e \<notin> e_id ` set es"
  shows "path_ids_ok (rs @ [r]) (es @ [e]) (ids(r \<mapsto> e_id e))"
proof -
  have new: "ids r = None" using ok r unfolding path_ids_ok_def by blast
  have out: "ids q \<noteq> Some (e_id e)" for q
  proof
    assume "ids q = Some (e_id e)"
    then obtain x where "x \<in> set es" "e_id x = e_id e" using ok unfolding path_ids_ok_def by blast
    with fresh show False by (metis imageI)
  qed
  have "inj_on (ids(r \<mapsto> e_id e)) (dom (ids(r \<mapsto> e_id e)))"
  proof (rule inj_onI)
    fix a b
    assume a: "a \<in> dom (ids(r \<mapsto> e_id e))" and b: "b \<in> dom (ids(r \<mapsto> e_id e))"
      and eq: "(ids(r \<mapsto> e_id e)) a = (ids(r \<mapsto> e_id e)) b"
    have inj: "inj_on ids (dom ids)" using ok by (simp add: path_ids_ok_def)
    show "a = b"
    proof (cases "a = r \<or> b = r")
      case True
      with eq out [of a] out [of b] show ?thesis by (auto split: if_splits)
    next
      case False
      with a b eq have "a \<in> dom ids" "b \<in> dom ids" "ids a = ids b" by auto
      with inj show ?thesis by (simp add: inj_on_def)
    qed
  qed
  moreover have "\<exists>x \<in> set (es @ [e]). e_id x = i \<and> e_kind x = Directory \<and> unat (e_depth x) = length q"
    if "(ids(r \<mapsto> e_id e)) q = Some i" for q i
  proof (cases "q = r")
    case True
    with that e show ?thesis by auto
  next
    case False
    with that have "ids q = Some i" by simp
    with ok show ?thesis unfolding path_ids_ok_def by fastforce
  qed
  moreover have "dom (ids(r \<mapsto> e_id e)) \<subseteq> insert [] (set (rs @ [r]))"
    using ok unfolding path_ids_ok_def by auto
  moreover have "(ids(r \<mapsto> e_id e)) ((rs @ [r]) ! k) = Some (e_id ((es @ [e]) ! Suc k))"
    if k: "k < length (rs @ [r])" and d: "e_kind ((es @ [e]) ! Suc k) = Directory" for k
  proof (cases "k < length rs")
    case True
    have len: "length es = Suc (length rs)" using ok by (simp add: path_ids_ok_def)
    have "rs ! k \<noteq> r" using True r(1) nth_mem by blast
    moreover have "ids (rs ! k) = Some (e_id (es ! Suc k))"
      using ok True d len unfolding path_ids_ok_def by (simp add: nth_append)
    ultimately show ?thesis using True len by (simp add: nth_append)
  next
    case False
    with k have "k = length rs" by simp
    with ok show ?thesis unfolding path_ids_ok_def by (simp add: nth_append)
  qed
  ultimately show ?thesis
    using ok r unfolding path_ids_ok_def by simp
qed

lemma path_ids_ok_extend:
  assumes ok: "path_ids_ok rs es ids" and e: "e_kind e \<noteq> Directory"
  shows "path_ids_ok (rs @ [r]) (es @ [e]) ids"
proof -
  have len: "length es = Suc (length rs)" using ok by (simp add: path_ids_ok_def)
  have "ids ((rs @ [r]) ! k) = Some (e_id ((es @ [e]) ! Suc k))"
    if k: "k < length (rs @ [r])" and d: "e_kind ((es @ [e]) ! Suc k) = Directory" for k
  proof -
    have "k < length rs" using k d len e by (cases "k = length rs") (auto simp: nth_append)
    with ok d len show ?thesis unfolding path_ids_ok_def by (simp add: nth_append)
  qed
  moreover have "\<exists>x \<in> set (es @ [e]). e_id x = i \<and> e_kind x = Directory \<and> unat (e_depth x) = length q"
    if "ids q = Some i" for q i
    using ok that unfolding path_ids_ok_def by fastforce
  ultimately show ?thesis using ok unfolding path_ids_ok_def by (simp, blast)
qed

lemma scan_inv_appended:
  assumes inv: "scan_inv rs s" and r: "r \<notin> set rs" and app: "appended r e s t"
  shows "scan_inv (rs @ [r]) t"
proof -
  obtain es where es: "sc_entries s = directory_entry 1 1 [] 0 # es" "map e_id es = map of_nat [2..<length es + 2]"
      "unat (sc_next_id s) = length es + 2" "\<forall>e \<in> set es. entry_ok e"
      "list_all2 (entry_at (sc_path_ids s)) rs es" "path_ids_ok rs (sc_entries s) (sc_path_ids s)"
      "distinct (map e_file_id (files_of es))" "sc_file_ids s = set (map e_file_id (files_of es))"
      "layout_end 0 (files_of es) = Some (unat (sc_offset s))"
      "unat (sc_total s) = sum_list (map (\<lambda>e. unat (e_size e)) (files_of es))"
      "map fst (sc_sources s) = map e_id (files_of es)"
    using inv unfolding scan_inv_def by blast
  have ident: "e_id e = of_nat (length es + 2)"
    using app es(3) eq_of_nat [of "sc_next_id s" "length es + 2"] by (simp add: appended_def)
  have small: "length es + 2 < 2 ^ 64"
    using app es(1) by (simp add: appended_def MAX_ENTRIES_def)
  have "e_id x \<noteq> e_id e" if "x \<in> set (sc_entries s)" for x
  proof -
    have "e_id x \<in> set (map of_nat [1..<length es + 2])"
    proof (cases "x \<in> set es")
      case True
      then have "e_id x \<in> set (map e_id es)" by simp
      then have "e_id x \<in> set (map of_nat [2..<length es + 2])" by (simp only: es(2))
      then show ?thesis by auto
    next
      case False
      with that es(1) have "x = directory_entry 1 1 [] 0" by simp
      moreover have "(1::nat) \<in> set [1..<length es + 2]" by (simp only: set_upt atLeastLessThan_iff) linarith
      then have "(of_nat 1 :: u64) \<in> set (map of_nat [1..<length es + 2])" unfolding set_map by (rule imageI)
      ultimately show ?thesis by (simp add: directory_entry_def)
    qed
    then obtain k where k: "k < length es + 2" "e_id x = of_nat k"
      unfolding set_map set_upt by (metis imageE atLeastLessThan_iff)
    have "unat (of_nat k :: u64) = k" "unat (of_nat (length es + 2) :: u64) = length es + 2"
      using small k(1) by (intro unat_of_nat_small; simp)+
    then have "unat (e_id x) < unat (e_id e)" using k by (simp only: ident)
    then show ?thesis by auto
  qed
  then have fresh: "e_id e \<notin> e_id ` set (sc_entries s)" by (metis imageE)
  have ids: "map e_id (es @ [e]) = map of_nat [2..<length (es @ [e]) + 2]"
    using es(2) ident by simp
  have at: "entry_at (sc_path_ids s) r e" using app by (simp add: appended_def)
  have old: "path_ids_ok rs (directory_entry 1 1 [] 0 # es) (sc_path_ids s)" using es(1,6) by simp
  have depth: "unat (e_depth e) = length r" "r \<noteq> []" using at by (simp_all add: entry_at_def)
  show ?thesis
  proof (cases "e_kind e")
    case Directory
    have t: "sc_path_ids t = (sc_path_ids s)(r \<mapsto> e_id e)" "sc_file_ids t = sc_file_ids s" "sc_sources t = sc_sources s"
      using app Directory by (simp_all add: appended_def)
    have "sc_path_ids s r = None"
      using old r depth(2) unfolding path_ids_ok_def by blast
    then have "sc_path_ids s \<subseteq>\<^sub>m sc_path_ids t" using t by (auto simp: map_le_def)
    then have "list_all2 (entry_at (sc_path_ids t)) (rs @ [r]) (es @ [e])"
      using es(5) at by (auto intro!: list_all2_appendI elim: list_all2_mono entry_at_mono)
    moreover have "path_ids_ok (rs @ [r]) (sc_entries t) (sc_path_ids t)"
      using path_ids_ok_insert [OF es(6) r depth(2) Directory depth(1) fresh] app t by (simp add: appended_def)
    moreover have "e_encrypted_size e = 0" "e_size e = 0"
      using app Directory by (simp_all add: appended_def entry_ok_def)
    ultimately show ?thesis
      unfolding scan_inv_def using es ids app t Directory
      by (intro exI [of _ "es @ [e]"]) (simp add: appended_def files_of_def)
  next
    case File
    have t: "sc_path_ids t = sc_path_ids s" "sc_file_ids t = insert (e_file_id e) (sc_file_ids s)"
        "e_file_id e \<notin> sc_file_ids s" "e_data_offset e = sc_offset s"
        "map fst (sc_sources t) = map fst (sc_sources s) @ [e_id e]"
      using app File by (simp_all add: appended_def)
    have "list_all2 (entry_at (sc_path_ids t)) (rs @ [r]) (es @ [e])"
      using es(5) at t(1) by (auto intro!: list_all2_appendI)
    moreover have "path_ids_ok (rs @ [r]) (sc_entries t) (sc_path_ids t)"
      using path_ids_ok_extend [OF es(6), of e] File app t by (simp add: appended_def)
    moreover have "files_of (es @ [e]) = files_of es @ [e]" using File by (simp add: files_of_def)
    moreover have "layout_end 0 (files_of es @ [e]) = Some (unat (sc_offset t))"
      using layout_end_snoc [OF es(9), of e] t(4) app by (simp add: appended_def)
    ultimately show ?thesis
      unfolding scan_inv_def using es ids app t
      by (intro exI [of _ "es @ [e]"]) (simp add: appended_def)
  qed
qed

section \<open>Every item keeps the invariant\<close>

lemma draw_file_id_Inr:
  "draw_file_id fuel taken w = (Inr x, w') \<Longrightarrow> length x = 16 \<and> x \<noteq> replicate 16 0 \<and> x \<notin> taken"
proof (induction fuel arbitrary: w)
  case (Suc fuel)
  obtain y w1 where y: "fill_bytes 16 w = (Inr y, w1)" "length y = 16" by (auto simp: fill_bytes_def)
  with Suc show ?case by (auto simp: bindM_run [of "fill_bytes 16", OF y(1)] split: if_splits)
qed simp

lemma disk_frame_draw_file_id [frame_intros]: "disk_frame S (draw_file_id fuel taken)"
  by (induction fuel) (auto intro!: frame_intros)

lemma fingerprint_of_Inr:
  "fingerprint_of p w = (Inr fp, w') \<Longrightarrow> w_disk w p = Some (FileNode f) \<Longrightarrow>
   fp = fingerprint_from_file f \<and> w_disk w' = w_disk w"
  by (auto simp: fingerprint_of_def fs_call_eq_Inr)

lemma scan_file_Inr:
  assumes run: "scan_file fuel path ident parent_id name depth s w = (Inr t, w')"
    and f: "w_disk w path = Some (FileNode f)"
  shows "\<exists>e. e_id e = ident \<and> e_parent_id e = parent_id \<and> e_name e = name \<and> e_depth e = depth \<and> e_kind e = File \<and>
     e_size e = of_nat (length (fd_bytes f)) \<and>
     e_file_id e \<notin> sc_file_ids s \<and> e_file_id e \<noteq> replicate 16 0 \<and> length (e_file_id e) = 16 \<and>
     e_data_offset e = sc_offset s \<and>
     encrypted_file_size (e_size e) = Inr (e_chunk_count e, e_encrypted_size e) \<and>
     checked_add (sc_total s) (e_size e) = Some (sc_total t) \<and>
     checked_add (sc_offset s) (e_encrypted_size e) = Some (sc_offset t) \<and>
     sc_entries t = sc_entries s @ [e] \<and> sc_file_ids t = insert (e_file_id e) (sc_file_ids s) \<and>
     sc_sources t = sc_sources s @ [(ident, \<lparr>sn_path = path, sn_fingerprint = fingerprint_from_file f\<rparr>)] \<and>
     sc_path_ids t = sc_path_ids s \<and> sc_next_id t = sc_next_id s"
proof -
  obtain q w1 size w2 file_id w3 chunks enc fp w4 tot off where
    o: "open_file path w = (Inr q, w1)" and l: "file_len q w1 = (Inr size, w2)"
    and d: "draw_file_id fuel (sc_file_ids s) w2 = (Inr file_id, w3)"
    and enc: "encrypted_file_size size = Inr (chunks, enc)" and fp: "fingerprint_of q w3 = (Inr fp, w4)"
    and tot: "checked_add (sc_total s) size = Some tot" and off: "checked_add (sc_offset s) enc = Some off"
    and t: "t = s\<lparr>sc_file_ids := insert file_id (sc_file_ids s),
       sc_entries := sc_entries s @
         [\<lparr>e_id = ident, e_parent_id = parent_id, e_name = name, e_depth = depth, e_kind = File,
           e_file_id = file_id, e_size = size, e_data_offset = sc_offset s,
           e_encrypted_size = enc, e_chunk_count = chunks\<rparr>],
       sc_sources := sc_sources s @ [(ident, \<lparr>sn_path = path, sn_fingerprint = fp\<rparr>)],
       sc_total := tot, sc_offset := off\<rparr>"
    using run by (simp add: scan_file_def bindM_eq_Inr result_simps split_beta) (metis prod.collapse)
  have q: "q = path" "w_disk w1 = w_disk w" using open_file_Inr [OF o] f by (auto simp: follow_def)
  have size: "size = of_nat (length (fd_bytes f))" "w_disk w2 = w_disk w" using file_len_Inr [OF l] q f by auto
  have w3: "w_disk w3 = w_disk w"
    using pure_disk [OF disk_frame_draw_file_id d] size(2) by simp
  have fp': "fp = fingerprint_from_file f" using fingerprint_of_Inr [OF fp] f q(1) w3 by simp
  let ?e = "\<lparr>e_id = ident, e_parent_id = parent_id, e_name = name, e_depth = depth, e_kind = File,
      e_file_id = file_id, e_size = size, e_data_offset = sc_offset s, e_encrypted_size = enc, e_chunk_count = chunks\<rparr>"
  show ?thesis
    by (rule exI [of _ ?e]) (use draw_file_id_Inr [OF d] size(1) enc tot off t fp' in simp)
qed

lemma scan_item_Inr:
  assumes run: "scan_item fuel source item s w = (Inr t, w')" and new: "item \<noteq> Inr source"
  obtains r pid w1 meta w2 nxt where "item = Inr (source @ r)" "sc_path_ids s (butlast r) = Some pid" "r \<noteq> []"
    "valid_utf8 (last r)" "validate_name (last r) = Inr ()" "of_nat (length r) \<le> MAX_DEPTH"
    "length (sc_entries s) < MAX_ENTRIES" "w_disk w1 = w_disk w"
    "symlink_metadata (source @ r) w1 = (Inr meta, w2)" "checked_add (sc_next_id s) 1 = Some nxt"
    "scan_node fuel (source @ r) r (sc_next_id s) pid (last r) (of_nat (length r)) meta
       (s\<lparr>sc_next_id := nxt\<rparr>) w2 = (Inr t, w')"
proof -
  have name: "Option.bind (path_file_name r) to_str = Some n \<longleftrightarrow> r \<noteq> [] \<and> valid_utf8 (last r) \<and> n = last r" for r n
    by (auto simp: path_file_name_def to_str_def)
  have parent: "r \<noteq> [] \<Longrightarrow> (case path_parent r of None \<Rightarrow> [] | Some parent \<Rightarrow> parent) = butlast r" for r
    by (simp add: path_parent_def)
  from run new obtain path r pid w1 meta w2 nxt where *: "item = Inr path"
    "strip_prefix source path = Some r"
    "sc_path_ids s (case path_parent r of None \<Rightarrow> [] | Some parent \<Rightarrow> parent) = Some pid"
    "r \<noteq> []" "valid_utf8 (last r)" "validate_name (last r) = Inr ()" "\<not> MAX_DEPTH < of_nat (length r)"
    "\<not> MAX_ENTRIES \<le> length (sc_entries s)" "check_cancel w = (Inr (), w1)"
    "symlink_metadata path w1 = (Inr meta, w2)"
    "checked_add (sc_next_id s) 1 = Some nxt"
    "scan_node fuel path r (sc_next_id s) pid (last r) (of_nat (length r)) meta (s\<lparr>sc_next_id := nxt\<rparr>) w2 = (Inr t, w')"
    by (simp add: scan_item_def bindM_eq_Inr result_simps Let_def name split: if_splits) blast+
  have path: "path = source @ r" using *(2) by (auto simp: strip_prefix_def starts_with_iff split: if_splits)
  have w1: "w_disk w1 = w_disk w" using *(9) by (auto simp: check_cancel_def)
  show thesis
    by (rule that [of r pid w1 meta w2 nxt])
      (use * path w1 parent [OF *(4)] in \<open>simp_all add: not_less not_le\<close>)
qed

lemma symlink_metadata_Inr:
  "symlink_metadata p w = (Inr n, w') \<Longrightarrow> w_disk w p = Some n \<and> w_disk w' = w_disk w"
  by (auto simp: symlink_metadata_def fs_call_eq_Inr split: option.splits)

lemma symlink_metadata_world: "symlink_metadata p w = (r, w') \<Longrightarrow> w_disk w' = w_disk w"
  by (auto simp: symlink_metadata_def fs_call_def split: option.splits)

lemma disk_frame_scan_item [frame_intros]: "disk_frame S (scan_item fuel source item s)"
proof -
  have "disk_frame S (scan_node fuel path relative ident parent_id name depth metadata t)"
    for path relative ident parent_id name depth metadata t
    by (cases metadata) (auto simp: scan_node_def scan_file_def split_beta intro!: frame_intros)
  then show ?thesis unfolding scan_item_def Let_def by (intro frame_intros)
qed

text \<open>What an entry says of the node it was made from.\<close>

definition entry_node :: "disk \<Rightarrow> path \<Rightarrow> (u64 \<times> source_snapshot) list \<Rightarrow> path \<Rightarrow> entry \<Rightarrow> bool" where
  "entry_node D source sources r e \<longleftrightarrow>
     (case e_kind e of
        Directory \<Rightarrow> D (source @ r) = Some DirNode
      | File \<Rightarrow> length (e_file_id e) = 16 \<and>
          (\<exists>f. D (source @ r) = Some (FileNode f) \<and> e_size e = of_nat (length (fd_bytes f)) \<and>
            (e_id e, \<lparr>sn_path = source @ r, sn_fingerprint = fingerprint_from_file f\<rparr>) \<in> set sources))"

lemma unat_add_1: "checked_add a 1 = Some b \<Longrightarrow> unat b = unat a + 1" for a :: u64
  by (simp add: checked_add_eq_Some)

lemma scan_item_appended:
  assumes inv: "scan_inv rs s" and run: "scan_item fuel source item s w = (Inr t, w')"
    and new: "item \<noteq> Inr source"
  shows "\<exists>r e. item = Inr (source @ r) \<and> appended r e s t \<and> entry_node (w_disk w) source (sc_sources t) r e \<and>
    set (sc_sources s) \<subseteq> set (sc_sources t)"
proof -
  from run new obtain r pid w1 meta w2 nxt where item: "item = Inr (source @ r)"
    and pid: "sc_path_ids s (butlast r) = Some pid" and r: "r \<noteq> []" and "valid_utf8 (last r)"
    and name: "validate_name (last r) = Inr ()" and depth: "of_nat (length r) \<le> MAX_DEPTH"
    and count: "length (sc_entries s) < MAX_ENTRIES" and w1: "w_disk w1 = w_disk w"
    and meta: "symlink_metadata (source @ r) w1 = (Inr meta, w2)"
    and nxt: "checked_add (sc_next_id s) 1 = Some nxt"
    and node: "scan_node fuel (source @ r) r (sc_next_id s) pid (last r) (of_nat (length r)) meta
       (s\<lparr>sc_next_id := nxt\<rparr>) w2 = (Inr t, w')"
    by (rule scan_item_Inr)
  have md: "w_disk w1 (source @ r) = Some meta" "w_disk w2 = w_disk w1"
    using symlink_metadata_Inr [OF meta] by simp_all
  obtain es where es: "sc_entries s = directory_entry 1 1 [] 0 # es" "\<forall>e \<in> set es. entry_ok e"
      "unat (sc_next_id s) = length es + 2" "path_ids_ok rs (sc_entries s) (sc_path_ids s)"
    using inv unfolding scan_inv_def by blast
  have len: "unat (of_nat (length r) :: u32) = length r"
  proof -
    obtain p where p: "p \<in> set (sc_entries s)" "unat (e_depth p) = length (butlast r)"
      using es(4) pid unfolding path_ids_ok_def by blast
    then have "entry_ok p" using es(1,2) root_entry_ok by auto
    then have "unat (e_depth p) \<le> 1024" by (simp add: entry_ok_def MAX_DEPTH_def word_le_nat_alt)
    with p r have "length r \<le> 1025" by simp
    then show ?thesis by (intro unat_of_nat_small) simp
  qed
  have next1: "unat nxt = unat (sc_next_id s) + 1" by (rule unat_add_1 [OF nxt])
  have idn: "sc_next_id s \<noteq> 0" "sc_next_id s \<noteq> 1"
    using es(3) by (auto simp: unsigned_eq_0_iff)
  have at: "entry_at (sc_path_ids s) r e" if "e_parent_id e = pid" "e_name e = last r" "e_depth e = of_nat (length r)" for e
    using that pid r len by (simp add: entry_at_def)
  show ?thesis
  proof (cases meta)
    case DirNode
    let ?e = "directory_entry (sc_next_id s) pid (last r) (of_nat (length r))"
    have t: "t = s\<lparr>sc_next_id := nxt, sc_entries := sc_entries s @ [?e],
        sc_path_ids := (sc_path_ids s)(r \<mapsto> sc_next_id s)\<rparr>"
      using node DirNode by (simp add: scan_node_def)
    have "appended r ?e s t"
      using t idn name depth count at [of ?e] next1
      by (simp add: appended_def directory_entry_def entry_ok_def)
    moreover have "entry_node (w_disk w) source (sc_sources t) r ?e"
      using md(1) w1 DirNode by (simp add: entry_node_def directory_entry_def)
    ultimately show ?thesis using item t by auto
  next
    case (FileNode f)
    have "w_disk w2 (source @ r) = Some (FileNode f)" using md FileNode by simp
    moreover define s1 where "s1 = s\<lparr>sc_next_id := nxt\<rparr>"
    moreover have "scan_file fuel (source @ r) (sc_next_id s) pid (last r) (of_nat (length r)) s1 w2 = (Inr t, w')"
      using node FileNode by (simp add: scan_node_def s1_def)
    ultimately obtain e where
      e: "e_id e = sc_next_id s" "e_parent_id e = pid" "e_name e = last r" "e_depth e = of_nat (length r)"
        "e_kind e = File" "e_size e = of_nat (length (fd_bytes f))" "e_file_id e \<notin> sc_file_ids s1"
        "e_file_id e \<noteq> replicate 16 0" "length (e_file_id e) = 16" "e_data_offset e = sc_offset s1"
        "encrypted_file_size (e_size e) = Inr (e_chunk_count e, e_encrypted_size e)"
        "checked_add (sc_total s1) (e_size e) = Some (sc_total t)"
        "checked_add (sc_offset s1) (e_encrypted_size e) = Some (sc_offset t)"
        "sc_entries t = sc_entries s1 @ [e]" "sc_file_ids t = insert (e_file_id e) (sc_file_ids s1)"
        "sc_sources t = sc_sources s1 @ [(sc_next_id s, \<lparr>sn_path = source @ r, sn_fingerprint = fingerprint_from_file f\<rparr>)]"
        "sc_path_ids t = sc_path_ids s1" "sc_next_id t = sc_next_id s1"
      using scan_file_Inr by blast
    note e = e [unfolded s1_def, simplified]
    have "appended r e s t"
      using e idn name depth count at [of e] next1
      by (simp add: appended_def entry_ok_def checked_add_eq_Some)
    moreover have "entry_node (w_disk w) source (sc_sources t) r e"
      using md(1) w1 FileNode e by (simp add: entry_node_def)
    ultimately show ?thesis using item e(16) by auto
  qed (use node in \<open>auto simp: scan_node_def\<close>)
qed

section \<open>What a scan accepts\<close>

lemma entry_node_mono: "entry_node D source xs r e \<Longrightarrow> set xs \<subseteq> set ys \<Longrightarrow> entry_node D source ys r e"
  by (auto simp: entry_node_def split: entry_kind.splits)

lemma scan_items_Inr:
  assumes "foldM (scan_item fuel source) items s w = (Inr t, w')" and "scan_inv rs s"
    and "list_all2 (entry_node (w_disk w) source (sc_sources s)) rs (tl (sc_entries s))"
    and "distinct (map (\<lambda>r. Inr (source @ r)) rs @ filter (\<lambda>i. i \<noteq> Inr source) items)"
  shows "\<exists>rs'. map (\<lambda>r. Inr (source @ r)) rs' = map (\<lambda>r. Inr (source @ r)) rs @ filter (\<lambda>i. i \<noteq> Inr source) items \<and>
    scan_inv rs' t \<and> list_all2 (entry_node (w_disk w) source (sc_sources t)) rs' (tl (sc_entries t))"
  using assms
proof (induction items arbitrary: s w rs)
  case Nil
  then show ?case by (intro exI [of _ rs]) simp
next
  case (Cons item items)
  from Cons.prems(1) obtain s1 w1 where step: "scan_item fuel source item s w = (Inr s1, w1)"
    and rest: "foldM (scan_item fuel source) items s1 w1 = (Inr t, w')" by (auto simp: bindM_eq_Inr)
  have w1: "w_disk w1 = w_disk w" using step by (rule pure_disk [OF disk_frame_scan_item])
  show ?case
  proof (cases "item = Inr source")
    case True
    then have "s1 = s" using step by (auto simp: scan_item_def bindM_eq_Inr)
    with Cons.IH [OF rest, of rs] Cons.prems w1 True show ?thesis by simp
  next
    case False
    obtain r e where r: "item = Inr (source @ r)" and app: "appended r e s s1"
      and node: "entry_node (w_disk w) source (sc_sources s1) r e"
      and mono: "set (sc_sources s) \<subseteq> set (sc_sources s1)"
      using scan_item_appended [OF Cons.prems(2) step False] by blast
    have fresh: "r \<notin> set rs" using Cons.prems(4) False r by auto
    have inv: "scan_inv (rs @ [r]) s1" by (rule scan_inv_appended [OF Cons.prems(2) fresh app])
    have ent: "sc_entries s1 = sc_entries s @ [e]" using app by (simp add: appended_def)
    have "sc_entries s \<noteq> []" using Cons.prems(2) by (auto simp: scan_inv_def)
    then have "tl (sc_entries s1) = tl (sc_entries s) @ [e]" using ent by simp
    moreover have "list_all2 (entry_node (w_disk w) source (sc_sources s1)) rs (tl (sc_entries s))"
      using Cons.prems(3) by (rule list_all2_mono) (rule entry_node_mono [OF _ mono])
    ultimately have "list_all2 (entry_node (w_disk w1) source (sc_sources s1)) (rs @ [r]) (tl (sc_entries s1))"
      using node w1 by (simp add: list_all2_appendI)
    with Cons.IH [OF rest inv] Cons.prems(4) False r w1 show ?thesis by simp
  qed
qed

text \<open>The layout of the scan is sorted already, so the reader's sort by offset keeps it.\<close>

lemma layout_end_sorted: "layout_end n es = Some m \<Longrightarrow> sorted (map e_data_offset es)"
proof (induction es arbitrary: n)
  case (Cons e es)
  then have "layout_end (n + unat (e_encrypted_size e)) es = Some m" "unat (e_data_offset e) = n"
    by (auto split: if_splits)
  moreover from layout_end_regions(1) [OF this(1)] this(2)
  have "\<forall>x \<in> set es. e_data_offset e \<le> e_data_offset x" by (auto simp: word_le_nat_alt)
  ultimately show ?case using Cons.IH by simp
qed simp

lemma scan_inv_index_ok:
  assumes inv: "scan_inv rs s" and rs: "distinct rs"
    and h: "unat (h_entry_count h) = length (sc_entries s)" "h_data_size h = sc_offset s"
  shows "index_ok h (sc_entries s)"
proof -
  let ?root = "directory_entry 1 1 [] 0"
  obtain es where es: "sc_entries s = ?root # es" "map e_id es = map of_nat [2..<length es + 2]"
      "length es < MAX_ENTRIES" "\<forall>e \<in> set es. entry_ok e"
      "list_all2 (entry_at (sc_path_ids s)) rs es" "path_ids_ok rs (sc_entries s) (sc_path_ids s)"
      "distinct (map e_file_id (files_of es))" "layout_end 0 (files_of es) = Some (unat (sc_offset s))"
    using inv unfolding scan_inv_def by blast
  have files: "files_of (sc_entries s) = files_of es" by (simp add: es(1) files_of_def directory_entry_def)
  have ids: "map e_id (sc_entries s) = map of_nat [1..<length es + 2]"
    using es(2) by (simp add: es(1) directory_entry_def upt_conv_Cons numeral_2_eq_2 del: upt_Suc)
  have dist: "distinct (map (of_nat :: nat \<Rightarrow> u64) [1..<length es + 2])"
  proof -
    have small: "k < 2 ^ LENGTH(64)" if "k < length es + 2" for k
      using that es(3) by (simp add: MAX_ENTRIES_def)
    have "inj_on (of_nat :: nat \<Rightarrow> u64) (set [1..<length es + 2])"
    proof (rule inj_onI)
      fix a b
      assume "a \<in> set [1..<length es + 2]" "b \<in> set [1..<length es + 2]" "(of_nat a :: u64) = of_nat b"
      then have "unat (of_nat a :: u64) = unat (of_nat b :: u64)" "a < length es + 2" "b < length es + 2" by auto
      then show "a = b" using unat_of_nat_small [OF small] by metis
    qed
    then show ?thesis by (simp add: distinct_map del: upt_Suc)
  qed
  have not_root: "e_id e \<noteq> 1" if "e \<in> set es" for e
  proof -
    have "distinct (map e_id (sc_entries s))" using ids dist by simp
    then show ?thesis using that by (auto simp: es(1) directory_entry_def)
  qed
  have parent: "\<exists>p \<in> set (sc_entries s). e_id p = e_parent_id e \<and> e_kind p = Directory \<and> unat (e_depth e) = unat (e_depth p) + 1"
    if e: "e \<in> set es" for e
  proof -
    obtain i where "i < length es" "e = es ! i" using e by (auto simp: in_set_conv_nth)
    with list_all2_nthD2 [OF es(5)] obtain r where r: "entry_at (sc_path_ids s) r e" by blast
    then obtain p where "p \<in> set (sc_entries s)" "e_id p = e_parent_id e" "e_kind p = Directory"
        "unat (e_depth p) = length (butlast r)"
      using es(6) unfolding path_ids_ok_def entry_at_def by blast
    with r show ?thesis by (auto simp: entry_at_def intro!: bexI [of _ p])
  qed
  have sib: "distinct (map (\<lambda>e. (e_parent_id e, e_name e)) es)"
  proof -
    have inj: "inj_on (sc_path_ids s) (dom (sc_path_ids s))" using es(6) by (simp add: path_ids_ok_def)
    have "r = r'" if "entry_at (sc_path_ids s) r e" "entry_at (sc_path_ids s) r' e'"
        "(e_parent_id e, e_name e) = (e_parent_id e', e_name e')" for r r' e e'
    proof -
      have "sc_path_ids s (butlast r) = sc_path_ids s (butlast r')" "last r = last r'" "r \<noteq> []" "r' \<noteq> []"
        using that by (auto simp: entry_at_def)
      moreover have "butlast r \<in> dom (sc_path_ids s)" "butlast r' \<in> dom (sc_path_ids s)"
        using that by (auto simp: entry_at_def)
      ultimately have "butlast r = butlast r'" using inj by (meson inj_onD)
      with \<open>last r = last r'\<close> \<open>r \<noteq> []\<close> \<open>r' \<noteq> []\<close> show ?thesis by (metis append_butlast_last_id)
    qed
    note same = this
    show ?thesis
      unfolding distinct_conv_nth
    proof (intro allI impI)
      fix i j
      assume i: "i < length (map (\<lambda>e. (e_parent_id e, e_name e)) es)" and j: "j < length (map (\<lambda>e. (e_parent_id e, e_name e)) es)"
        and "i \<noteq> j"
      have at: "entry_at (sc_path_ids s) (rs ! i) (es ! i)" "entry_at (sc_path_ids s) (rs ! j) (es ! j)"
        using es(5) i j by (simp_all add: list_all2_nthD2)
      have "rs ! i \<noteq> rs ! j"
        using rs \<open>i \<noteq> j\<close> i j list_all2_lengthD [OF es(5)] by (simp add: nth_eq_iff_index_eq)
      with same [OF at] i j show "map (\<lambda>e. (e_parent_id e, e_name e)) es ! i \<noteq> map (\<lambda>e. (e_parent_id e, e_name e)) es ! j"
        by auto
    qed
  qed
  have filt: "filter (\<lambda>e. e_id e \<noteq> 1) (sc_entries s) = es"
    using not_root by (simp add: es(1) directory_entry_def filter_id_conv)
  have sorted: "sort_key e_data_offset (files_of es) = files_of es"
    using layout_end_sorted [OF es(8)] by (rule sort_key_id_if_sorted)
  show ?thesis
    unfolding index_ok_def files
    using h es ids dist parent sib filt sorted root_entry_ok not_root
    by (auto simp: directory_entry_def)
qed

text \<open>A scan that ends well has taken every item of the walk; its entries form an index the reader
  accepts, one entry for each item, with the node and the fingerprint it was made from.\<close>

definition walk_items :: "walker \<Rightarrow> disk \<Rightarrow> path \<Rightarrow> path result list" where
  "walk_items walk D source = filter (\<lambda>i. i \<noteq> Inr source) (walk D source)"

lemma scan_source_Inr:
  assumes "scan_source walk fuel source w = (Inr (es, sources, tot, off), w')"
    and "distinct (walk_items walk (w_disk w) source)"
  shows "\<exists>rs es'. map (\<lambda>r. Inr (source @ r)) rs = walk_items walk (w_disk w) source \<and>
      es = directory_entry 1 1 [] 0 # es' \<and> list_all2 (entry_node (w_disk w) source sources) rs es' \<and>
      (\<exists>ids. path_ids_ok rs es ids \<and> list_all2 (entry_at ids) rs es') \<and>
      map fst sources = map e_id (files_of es) \<and> length es \<le> MAX_ENTRIES \<and>
      unat tot = sum_list (map (\<lambda>e. unat (e_size e)) (files_of es)) \<and>
      (\<forall>h. unat (h_entry_count h) = length es \<longrightarrow> h_data_size h = off \<longrightarrow> index_ok h es)"
proof -
  obtain s where run: "foldM (scan_item fuel source) (walk (w_disk w) source) scan_state_new w = (Inr s, w')"
    and out: "es = sc_entries s" "sources = sc_sources s" "tot = sc_total s" "off = sc_offset s"
    using assms(1) by (auto simp: scan_source_def bindM_eq_Inr)
  obtain rs where rs: "map (\<lambda>r. Inr (source @ r)) rs = walk_items walk (w_disk w) source" and inv: "scan_inv rs s"
    and nodes: "list_all2 (entry_node (w_disk w) source (sc_sources s)) rs (tl (sc_entries s))"
    using scan_items_Inr [OF run scan_inv_new] assms(2)
    by (auto simp: walk_items_def scan_state_new_def)
  have "distinct rs"
    using assms(2) unfolding rs [symmetric] by (simp add: distinct_map)
  then have ok: "index_ok h es" if "unat (h_entry_count h) = length es" "h_data_size h = off" for h
    using scan_inv_index_ok [OF inv _ that [unfolded out]] out by simp
  obtain es' where es': "sc_entries s = directory_entry 1 1 [] 0 # es'" "length es' < MAX_ENTRIES"
      "unat (sc_total s) = sum_list (map (\<lambda>e. unat (e_size e)) (files_of es'))"
      "map fst (sc_sources s) = map e_id (files_of es')"
      "list_all2 (entry_at (sc_path_ids s)) rs es'" "path_ids_ok rs (sc_entries s) (sc_path_ids s)"
    using inv unfolding scan_inv_def by blast
  have "files_of es = files_of es'" by (simp add: out es' files_of_def directory_entry_def)
  moreover have "\<exists>ids. path_ids_ok rs es ids \<and> list_all2 (entry_at ids) rs es'"
    using es'(5,6) out(1) by auto
  ultimately show ?thesis
    using rs nodes es'(1-4) ok out by (intro exI [of _ rs] exI [of _ es']) simp
qed

lemma disk_frame_scan_source [frame_intros]: "disk_frame S (scan_source walk fuel source)"
proof -
  have "disk_frame S (bindM (foldM (scan_item fuel source) items scan_state_new) (\<lambda>s.
      returnM (sc_entries s, sc_sources s, sc_total s, sc_offset s)))" for items
    by (intro frame_intros disk_frame_foldM)
  then show ?thesis unfolding disk_frame_def scan_source_def by simp
qed

text \<open>The draw of a file id ends as soon as the generator offers a fresh block, and takes it.\<close>

lemma draw_file_id_returns:
  assumes "\<And>i. i < k \<Longrightarrow> map (\<lambda>j. w_random w (w_drawn w + 16 * i + j)) [0..<16] \<in> insert (replicate 16 0) taken"
    and "map (\<lambda>j. w_random w (w_drawn w + 16 * k + j)) [0..<16] \<notin> insert (replicate 16 0) taken" and "k < fuel"
  shows "draw_file_id fuel taken w =
    (Inr (map (\<lambda>j. w_random w (w_drawn w + 16 * k + j)) [0..<16]), w\<lparr>w_drawn := w_drawn w + 16 * Suc k\<rparr>)"
  using assms
proof (induction k arbitrary: w fuel)
  case 0
  then obtain f where "fuel = Suc f" by (cases fuel) auto
  with 0 show ?case by (simp add: bindM_def fill_bytes_def)
next
  case (Suc k)
  then obtain f where f: "fuel = Suc f" by (cases fuel) auto
  let ?w = "w\<lparr>w_drawn := w_drawn w + 16\<rparr>"
  have "draw_file_id f taken ?w =
    (Inr (map (\<lambda>j. w_random ?w (w_drawn ?w + 16 * k + j)) [0..<16]), ?w\<lparr>w_drawn := w_drawn ?w + 16 * Suc k\<rparr>)"
  proof (rule Suc.IH)
    fix i
    assume "i < k"
    with Suc.prems(1) [of "Suc i"] show "map (\<lambda>j. w_random ?w (w_drawn ?w + 16 * i + j)) [0..<16] \<in> insert (replicate 16 0) taken"
      by (simp add: add.assoc)
  qed (use Suc.prems(2,3) f in \<open>simp_all add: add.assoc\<close>)
  with Suc.prems(1) [of 0] f show ?case by (auto simp: bindM_def fill_bytes_def add.assoc)
qed

end
