(* ===== verification/ExtractProofs.thy ===== *)
theory ExtractProofs
  imports Extract ReadOnlyFs Scan
begin

text \<open>
  What a successful extraction leaves: below the destination the tree of the index, every file
  with its content, and nothing else changed. The invariant of the loop gives the disk below the
  staging directory in closed form; a failing extraction is confined to the staging directory.
\<close>

section \<open>Paths of an index\<close>

fun entry_path :: "(u64 \<times> entry) list \<Rightarrow> nat \<Rightarrow> u64 \<Rightarrow> path" where
  "entry_path entries 0 i = []"
| "entry_path entries (Suc n) i =
     (case map_of entries i of None \<Rightarrow> [] | Some e \<Rightarrow> entry_path entries n (e_parent_id e) @ [e_name e])"

definition rel_path :: "entry list \<Rightarrow> entry \<Rightarrow> path" where
  "rel_path es e = entry_path (vi_entries (index_tables es)) (unat (e_depth e)) (e_id e)"

lemma index_ok_root:
  assumes "index_ok h es" "e \<in> set es"
  shows "e_id e = 1 \<longleftrightarrow> unat (e_depth e) = 0" "e_id e = 1 \<Longrightarrow> e_kind e = Directory"
proof -
  have deep: "unat (e_depth e) \<noteq> 0" if "e_id e \<noteq> 1" using index_ok_parent [OF assms that] by (metis add_is_0 one_neq_zero)
  have e: "entry_ok e" using assms by (simp add: index_ok_def)
  then show "e_id e = 1 \<longleftrightarrow> unat (e_depth e) = 0" using deep by (cases "e_id e = 1") (simp_all add: entry_ok_def)
  show "e_id e = 1 \<Longrightarrow> e_kind e = Directory" using e by (simp add: entry_ok_def)
qed

lemma index_ok_inj: "index_ok h es \<Longrightarrow> e \<in> set es \<Longrightarrow> p \<in> set es \<Longrightarrow> e_id e = e_id p \<Longrightarrow> e = p"
  unfolding index_ok_def by (metis distinct_map inj_onD)

lemma rel_path_root: "index_ok h es \<Longrightarrow> e \<in> set es \<Longrightarrow> e_id e = 1 \<Longrightarrow> rel_path es e = []"
  using index_ok_root(1) by (simp add: rel_path_def)

lemma rel_path_child:
  assumes ok: "index_ok h es" and e: "e \<in> set es" "e_id e \<noteq> 1" and p: "p \<in> set es" "e_id p = e_parent_id e"
  shows "rel_path es e = rel_path es p @ [e_name e]"
proof -
  from index_ok_parent [OF ok e] obtain p' where "p' \<in> set es" "e_id p' = e_parent_id e"
      "unat (e_depth e) = unat (e_depth p') + 1" by blast
  moreover from this p have "p' = p" by (intro index_ok_inj [OF ok]) simp_all
  ultimately have d: "unat (e_depth e) = Suc (unat (e_depth p))" by simp
  have "map_of (map (\<lambda>e. (e_id e, e)) es) (e_id e) = Some e"
    using ok e(1) by (auto simp: index_ok_def map_of_eq_Some_iff comp_def)
  with d p(2) show ?thesis by (simp add: rel_path_def index_tables_def)
qed

lemma length_rel_path:
  assumes ok: "index_ok h es" and e: "e \<in> set es"
  shows "length (rel_path es e) = unat (e_depth e)"
  using e
proof (induction "unat (e_depth e)" arbitrary: e)
  case 0
  then show ?case by (simp add: rel_path_def)
next
  case (Suc n)
  have n1: "e_id e \<noteq> 1" using index_ok_root(1) [OF ok Suc(3)] Suc(2) by simp
  from index_ok_parent [OF ok Suc(3) n1] obtain p where p: "p \<in> set es" "e_id p = e_parent_id e"
      "unat (e_depth e) = unat (e_depth p) + 1" by blast
  with Suc show ?case by (simp add: rel_path_child [OF ok Suc(3) n1 p(1,2)])
qed

lemma rel_path_inj:
  assumes ok: "index_ok h es" and "e \<in> set es" "e' \<in> set es" "rel_path es e = rel_path es e'"
  shows "e = e'"
  using assms(2-4)
proof (induction "unat (e_depth e)" arbitrary: e e')
  case 0
  then have "unat (e_depth e') = 0" using length_rel_path [OF ok] by (metis)
  then have "e_id e = 1" "e_id e' = 1" using 0 index_ok_root(1) [OF ok] by simp_all
  then show ?case by (intro index_ok_inj [OF ok 0(2,3)]) simp
next
  case (Suc n)
  have d: "unat (e_depth e') = Suc n" using Suc length_rel_path [OF ok] by metis
  have n1: "e_id e \<noteq> 1" "e_id e' \<noteq> 1" using index_ok_root(1) [OF ok] Suc(2,3,4) d by simp_all
  from index_ok_parent [OF ok Suc(3) n1(1)] obtain p where p: "p \<in> set es" "e_id p = e_parent_id e"
      "unat (e_depth e) = unat (e_depth p) + 1" by blast
  from index_ok_parent [OF ok Suc(4) n1(2)] obtain p' where p': "p' \<in> set es" "e_id p' = e_parent_id e'" by blast
  have eq: "rel_path es p = rel_path es p'" "e_name e = e_name e'"
    using Suc(5) by (simp_all add: rel_path_child [OF ok Suc(3) n1(1) p(1,2)] rel_path_child [OF ok Suc(4) n1(2) p'])
  have "p = p'" using Suc(1) [OF _ p(1) p'(1) eq(1)] Suc(2) p(3) by simp
  then have same: "(e_parent_id e, e_name e) = (e_parent_id e', e_name e')" using p(2) p'(2) eq(2) by simp
  have "distinct (map (\<lambda>e. (e_parent_id e, e_name e)) (filter (\<lambda>e. e_id e \<noteq> 1) es))"
    using ok by (simp add: index_ok_def)
  then have "inj_on (\<lambda>e. (e_parent_id e, e_name e)) {e \<in> set es. e_id e \<noteq> 1}" by (simp add: distinct_map)
  then show ?case using same Suc(3,4) n1 by (auto dest: inj_onD)
qed

text \<open>The paths of a scanned index are those of the items it was made from.\<close>

lemma rel_path_entry_at:
  assumes ok: "index_ok h es" and es: "es = root # es'" "e_id root = 1"
    and ids: "path_ids_ok rs es ids" "list_all2 (entry_at ids) rs es'" and k: "k < length rs"
  shows "rel_path es (es' ! k) = rs ! k"
  using k
proof (induction "length (rs ! k)" arbitrary: k rule: less_induct)
  case less
  let ?e = "es' ! k" and ?r = "rs ! k"
  have len: "length es' = length rs" using ids(2) by (simp add: list_all2_lengthD)
  have e: "?e \<in> set es" using less(2) len es(1) by simp
  have at: "?r \<noteq> []" "ids (butlast ?r) = Some (e_parent_id ?e)" "e_name ?e = last ?r" "unat (e_depth ?e) = length ?r"
    using list_all2_nthD [OF ids(2) less(2)] by (simp_all add: entry_at_def)
  have n1: "e_id ?e \<noteq> 1" using index_ok_root(1) [OF ok e] at(1,4) by simp
  obtain p where p: "p \<in> set es" "e_id p = e_parent_id ?e" "rel_path es p = butlast ?r"
  proof (cases "butlast ?r = []")
    case True
    with at(2) ids(1) have "e_id root = e_parent_id ?e" by (simp add: path_ids_ok_def es(2))
    then show thesis using that [of root] rel_path_root [OF ok _ es(2)] True es(1) by simp
  next
    case False
    from ids(1) at(2) obtain x where x: "x \<in> set es" "e_id x = e_parent_id ?e" "e_kind x = Directory"
        "unat (e_depth x) = length (butlast ?r)" unfolding path_ids_ok_def by blast
    have "length (butlast ?r) \<noteq> 0" using False by (simp only: length_0_conv not_False_eq_True)
    then have "e_id x \<noteq> 1" using index_ok_root(1) [OF ok x(1)] x(4) by (simp only:) simp
    with x(1) es obtain m where m: "m < length rs" "x = es' ! m" by (auto simp: in_set_conv_nth len)
    have "ids (rs ! m) = Some (e_id x)" using ids(1) m x(3) unfolding path_ids_ok_def es(1) by simp
    moreover have "inj_on ids (dom ids)" using ids(1) by (simp add: path_ids_ok_def)
    ultimately have "rs ! m = butlast ?r"
      using at(2) x(2) inj_onD [of ids "dom ids" "rs ! m" "butlast ?r"] by (simp add: domI)
    moreover have "rel_path es x = rs ! m" unfolding m(2)
      using less(1) [of m] m(1) \<open>rs ! m = butlast ?r\<close> at(1) by simp
    ultimately show thesis using that x(1,2) by simp
  qed
  show ?case using rel_path_child [OF ok e n1 p(1,2)] p(3) at(1,3) by simp
qed

section \<open>File system calls\<close>

lemma open_dir_Inr: "open_dir p w = (Inr q, w') \<Longrightarrow> q = p \<and> w_disk w' = w_disk w \<and> w_disk w p = Some DirNode"
  by (auto simp: open_dir_def fs_call_eq_Inr split: option.splits node.splits)

lemma create_new_dir_Inr:
  "create_new_dir p w = (Inr u, w') \<Longrightarrow> w_disk w p = None \<and> w_disk w' = (w_disk w)(p := Some DirNode)"
  by (auto simp: create_new_dir_def fs_call_eq_Inr put_node_def split: option.splits if_splits)

lemma create_new_file_fresh:
  "create_new_file p w = (Inr q, w') \<Longrightarrow> q = p \<and> w_disk w p = None \<and>
   (\<exists>f. w_disk w' = (w_disk w)(p := Some (FileNode f)) \<and> fd_bytes f = [])"
  by (auto simp: create_new_file_def fs_call_eq_Inr put_node_def split: option.splits if_splits)

lemma append_file_Inr:
  "append_file p data w = (Inr u, w') \<Longrightarrow>
   \<exists>f f'. w_disk w p = Some (FileNode f) \<and> w_disk w' = (w_disk w)(p := Some (FileNode f')) \<and> fd_bytes f' = fd_bytes f @ data"
  by (auto simp: append_file_def fs_call_eq_Inr put_node_def split: option.splits node.splits)

lemma dir_rename_file_Inr:
  "dir_rename_file dir src dst w = (Inr u, w') \<Longrightarrow>
   \<exists>n. w_disk w (dir @ [src]) = Some n \<and> w_disk w' = (w_disk w)(dir @ [src] := None, dir_entry dir dst := Some n)"
  by (auto simp: dir_rename_file_def fs_call_eq_Inr split: option.splits if_splits)

lemma dir_frames [frame_intros]:
  "disk_frame S (dir_symlink_metadata dir name)" "disk_frame S (open_dir p)" "disk_frame S (try_clone p)"
  "disk_frame S (openat_dir name p)" "disk_frame S (sync_cap_directory p)"
  unfolding dir_symlink_metadata_def open_dir_def try_clone_def openat_dir_def sync_cap_directory_def
  by (intro frame_intros; auto simp: disk_frame_def split: option.splits node.splits)+

lemma dir_exists_frame [frame_intros]: "disk_frame S (dir_exists dir name)"
proof -
  have fr: "disk_frame (\<lambda>_. False) (dir_symlink_metadata dir name)" by (intro frame_intros)
  have "w_disk (snd (dir_exists dir name w)) = w_disk w" for w
  proof -
    obtain r w1 where r: "dir_symlink_metadata dir name w = (r, w1)" by (cases "dir_symlink_metadata dir name w")
    have "w_disk w1 = w_disk w" by (rule pure_disk [OF fr r])
    with r show ?thesis by (cases r) (simp_all add: dir_exists_def)
  qed
  then show ?thesis by (simp add: disk_frame_def)
qed

text \<open>A name without a slash is itself.\<close>

lemma dir_entry_plain: "CHR ''/'' \<notin> set name \<Longrightarrow> dir_entry dir name = dir @ [name]"
  by (auto simp: dir_entry_def path_components_def split_slash_no_slash inner_components_def component_of_def
      starts_with_def split: if_splits list.splits component.splits)


section \<open>One step\<close>

definition temp_prefix :: string where
  "temp_prefix = ''.cipherfs-''"

definition plain_name :: "string \<Rightarrow> bool" where
  "plain_name name \<longleftrightarrow> CHR ''/'' \<notin> set name \<and> \<not> starts_with temp_prefix name"

definition temp_path :: "pending_file \<Rightarrow> path" where
  "temp_path p = pf_parent p @ [pf_temp_name p]"

lemma create_directory_Inr:
  assumes run: "create_directory i pid name r w = (Inr r', w')" and plain: "plain_name name"
  shows "\<exists>p. map_of (sr_directories r) pid = Some p \<and> w_disk w (p @ [name]) = None \<and>
    w_disk w' = (w_disk w)(p @ [name] := Some DirNode) \<and>
    r' = r\<lparr>sr_directories := AList.update i (p @ [name]) (sr_directories r)\<rparr>"
proof -
  have dn: "dir_entry p name = p @ [name]" for p using plain by (simp add: plain_name_def dir_entry_plain)
  from run obtain p w1 w2 m child where p: "map_of (sr_directories r) pid = Some p"
    and mk: "create_new_dir (p @ [name]) w = (Inr (), w1)" and md: "dir_symlink_metadata p name w1 = (Inr m, w2)"
    and op: "open_dir (p @ [name]) w2 = (Inr child, w')"
    and r': "r' = r\<lparr>sr_directories := AList.update i child (sr_directories r)\<rparr>"
    by (auto simp: create_directory_def bindM_eq_Inr contextM_eq_Inr result_simps dn)
  have "w_disk w2 = w_disk w1" by (rule pure_disk [OF dir_frames(1) md])
  with create_new_dir_Inr [OF mk] open_dir_Inr [OF op] p r' show ?thesis by auto
qed

lemma begin_file_Inr:
  assumes run: "begin_file pid name i r w = (Inr pending, w')"
  shows "\<exists>p f. map_of (sr_directories r) pid = Some p \<and> pf_parent pending = p \<and> pf_final_name pending = name \<and>
    pf_file pending = Some (temp_path pending) \<and> \<not> pf_committed pending \<and> starts_with temp_prefix (pf_temp_name pending) \<and>
    w_disk w (temp_path pending) = None \<and> w_disk w' = (w_disk w)(temp_path pending := Some (FileNode f)) \<and> fd_bytes f = []"
proof -
  from run obtain p b w1 rnd w2 q w3 p' where p: "map_of (sr_directories r) pid = Some p"
    and ex: "dir_exists p name w = (Inr b, w1)" and rnd: "fill_bytes 8 w1 = (Inr rnd, w2)"
    and mk: "create_new_file (p @ [''.cipherfs-'' @ dec_string (unat i) @ ''-'' @ hex_encode rnd @ ''.tmp'']) w2 = (Inr q, w3)"
    and cl: "try_clone p w3 = (Inr p', w')"
    and pe: "pending = \<lparr>pf_parent = p', pf_temp_name = ''.cipherfs-'' @ dec_string (unat i) @ ''-'' @ hex_encode rnd @ ''.tmp'',
       pf_final_name = name, pf_file = Some q, pf_committed = False\<rparr>"
    by (simp add: begin_file_def bindM_eq_Inr contextM_eq_Inr result_simps Let_def) blast
  have "w_disk w1 = w_disk w" by (rule pure_disk [OF dir_exists_frame ex])
  moreover have "w_disk w2 = w_disk w1" using rnd by (auto simp: fill_bytes_def)
  moreover have "p' = p" "w_disk w' = w_disk w3" using cl by (auto simp: try_clone_def fs_call_eq_Inr returnM_def)
  moreover have "starts_with temp_prefix (''.cipherfs-'' @ x)" for x by (simp add: temp_prefix_def starts_with_def)
  ultimately show ?thesis using create_new_file_fresh [OF mk] p unfolding pe by (auto simp: temp_path_def)
qed

lemma write_plaintext_Inr:
  assumes run: "write_plaintext inject pending bs progress w = (Inr progress', w')" and q: "pf_file pending = Some q"
  shows "\<exists>f f'. w_disk w q = Some (FileNode f) \<and> w_disk w' = (w_disk w)(q := Some (FileNode f')) \<and> fd_bytes f' = fd_bytes f @ bs"
proof -
  from run q obtain w1 evs where a: "append_file q bs w = (Inr (), w1)" and e: "emit_all evs w1 = (Inr (), w')"
    by (auto simp: write_plaintext_def bindM_eq_Inr result_simps pending_writer_def Let_def split_beta)
  have "w_disk w' = w_disk w1" using e by (auto simp: emit_all_def)
  with append_file_Inr [OF a] show ?thesis by auto
qed

lemma write_plaintexts_Inr:
  assumes "foldM (write_plaintext inject pending) ps progress w = (Inr progress', w')" and "pf_file pending = Some q"
    and "w_disk w q = Some (FileNode f)"
  shows "\<exists>f'. w_disk w' = (w_disk w)(q := Some (FileNode f')) \<and> fd_bytes f' = fd_bytes f @ concat ps"
  using assms
proof (induction ps arbitrary: progress w f)
  case Nil
  then show ?case by (auto intro!: exI [of _ f] simp: fun_upd_idem)
next
  case (Cons x ps)
  from Cons.prems(1) obtain pr w1 where x: "write_plaintext inject pending x progress w = (Inr pr, w1)"
    and rest: "foldM (write_plaintext inject pending) ps pr w1 = (Inr progress', w')" by (auto simp: bindM_eq_Inr)
  from write_plaintext_Inr [OF x Cons.prems(2)] Cons.prems(3) obtain f1 where
    f1: "w_disk w1 = (w_disk w)(q := Some (FileNode f1))" "fd_bytes f1 = fd_bytes f @ x" by auto
  then have "w_disk w1 q = Some (FileNode f1)" by simp
  from Cons.IH [OF rest Cons.prems(2) this] obtain f' where
    "w_disk w' = (w_disk w1)(q := Some (FileNode f'))" "fd_bytes f' = fd_bytes f1 @ concat ps" by blast
  with f1 show ?case by (intro exI [of _ f']) (simp only: fun_upd_upd concat.simps append_assoc simp_thms)
qed

lemma decrypt_batch_frame: "disk_frame S (decrypt_batch_item P opened e i)"
  unfolding decrypt_batch_item_def by (intro frame_intros)

lemma decrypt_batch_Inr:
  "mapM (decrypt_batch_item P opened e) is w = (Inr ps, w') \<Longrightarrow>
   list_all2 (\<lambda>i p. decrypt_chunk P opened e (of_nat i) = Inr p) is ps"
  by (induction "is" arbitrary: w ps) (auto simp: bindM_eq_Inr result_simps decrypt_batch_item_def)

lemma extract_batches_Inr:
  assumes "extract_batches P opened threads inject e pending chunks progress w = (Inr progress', w')"
    and "pf_file pending = Some q" and "w_disk w q = Some (FileNode f)"
  shows "\<exists>ps f'. list_all2 (\<lambda>i p. decrypt_chunk P opened e (of_nat i) = Inr p) chunks ps \<and>
    w_disk w' = (w_disk w)(q := Some (FileNode f')) \<and> fd_bytes f' = fd_bytes f @ concat ps"
  using assms
proof (induction P opened threads inject e pending chunks progress arbitrary: w f rule: extract_batches.induct)
  case (1 P opened threads inject e pending chunks progress)
  show ?case
  proof (cases "chunks = []")
    case True
    with "1.prems" have "w_disk w' = (w_disk w)(q := Some (FileNode f))"
      by (simp add: extract_batches.simps [of _ _ _ _ _ _ "[]"] fun_upd_idem)
    with True show ?thesis by (intro exI [of _ "[]"] exI [of _ f]) simp
  next
    case False
    let ?b = "take (ordered_batch_size threads) chunks" and ?r = "drop (ordered_batch_size threads) chunks"
    from "1.prems"(1) False obtain w1 ps w2 pr w3 where c: "check_cancel w = (Inr (), w1)"
      and d: "mapM (decrypt_batch_item P opened e) ?b w1 = (Inr ps, w2)"
      and wr: "foldM (write_plaintext inject pending) ps progress w2 = (Inr pr, w3)"
      and rest: "extract_batches P opened threads inject e pending ?r pr w3 = (Inr progress', w')"
      by (auto simp: extract_batches.simps [of _ _ _ _ _ _ chunks] bindM_eq_Inr)
    have "w_disk w1 = w_disk w" using c by (auto simp: check_cancel_def)
    moreover have "w_disk w2 = w_disk w1" by (rule pure_disk [OF disk_frame_mapM [OF decrypt_batch_frame] d])
    ultimately have w2: "w_disk w2 = w_disk w" by simp
    from write_plaintexts_Inr [OF wr "1.prems"(2)] "1.prems"(3) w2 obtain f1 where
      f1: "w_disk w3 = (w_disk w)(q := Some (FileNode f1))" "fd_bytes f1 = fd_bytes f @ concat ps" by auto
    then have "w_disk w3 q = Some (FileNode f1)" by simp
    from "1.IH" [OF False rest "1.prems"(2) this] obtain ps' f' where
      ps': "list_all2 (\<lambda>i p. decrypt_chunk P opened e (of_nat i) = Inr p) ?r ps'"
        "w_disk w' = (w_disk w3)(q := Some (FileNode f'))" "fd_bytes f' = fd_bytes f1 @ concat ps'" by blast
    have "list_all2 (\<lambda>i p. decrypt_chunk P opened e (of_nat i) = Inr p) (?b @ ?r) (ps @ ps')"
      by (rule list_all2_appendI [OF decrypt_batch_Inr [OF d] ps'(1)])
    with ps'(2,3) f1 show ?thesis
      by (intro exI [of _ "ps @ ps'"] exI [of _ f'])
         (simp only: append_take_drop_id fun_upd_upd concat_append append_assoc simp_thms)
  qed
qed


lemma concat_slices: "concat (map (\<lambda>i. slice (i * k) k c) [0..<m]) = take (m * k) c"
proof (induction m)
  case (Suc m)
  have "take (m * k + k) c = take (m * k) c @ take k (drop (m * k) c)" by (rule take_add)
  with Suc show ?case by (simp add: slice_def add.commute)
qed simp

lemma extract_file_Inr:
  assumes st: "content_stored P opened es content" and e: "e \<in> set (files_of es)"
    and run: "extract_file P opened threads inject r e progress w = (Inr (pending, progress'), w')"
  shows "\<exists>p f. map_of (sr_directories r) (e_parent_id e) = Some p \<and> pf_parent pending = p \<and> pf_final_name pending = e_name e \<and>
    pf_file pending = None \<and> \<not> pf_committed pending \<and> starts_with temp_prefix (pf_temp_name pending) \<and>
    w_disk w (temp_path pending) = None \<and> w_disk w' = (w_disk w)(temp_path pending := Some (FileNode f)) \<and> fd_bytes f = content e"
proof -
  from run obtain p0 w1 pr w2 where b: "begin_file (e_parent_id e) (e_name e) (e_id e) r w = (Inr p0, w1)"
    and x: "extract_batches P opened threads inject e p0 [0..<unat (e_chunk_count e)] progress w1 = (Inr pr, w2)"
    and fin: "finish_writing p0 w2 = (Inr pending, w')"
    by (auto simp: extract_file_def bindM_eq_Inr on_error_eq_Inr)
  from begin_file_Inr [OF b] obtain p f0 where p: "map_of (sr_directories r) (e_parent_id e) = Some p" "pf_parent p0 = p"
      "pf_final_name p0 = e_name e" "pf_file p0 = Some (temp_path p0)" "\<not> pf_committed p0" "starts_with temp_prefix (pf_temp_name p0)"
      "w_disk w (temp_path p0) = None" "w_disk w1 = (w_disk w)(temp_path p0 := Some (FileNode f0))" "fd_bytes f0 = []" by blast
  from extract_batches_Inr [OF x p(4), of f0] p(8,9) obtain ps f where
    ps: "list_all2 (\<lambda>i p. decrypt_chunk P opened e (of_nat i) = Inr p) [0..<unat (e_chunk_count e)] ps"
    and f: "w_disk w2 = (w_disk w)(temp_path p0 := Some (FileNode f))" "fd_bytes f = concat ps" by auto
  have P: "aead_ok P" and ok: "opened_ok opened es" and fs: "file_stored P opened e (content e)"
    using st e by (auto simp: content_stored_def)
  have ke: "e \<in> set es" "e_kind e = File" using e by (auto simp: files_of_def)
  have "ps = map (\<lambda>i. slice (i * CHUNK_SIZE) CHUNK_SIZE (content e)) [0..<unat (e_chunk_count e)]"
  proof (rule nth_equalityI)
    show len: "length ps = length (map (\<lambda>i. slice (i * CHUNK_SIZE) CHUNK_SIZE (content e)) [0..<unat (e_chunk_count e)])"
      using list_all2_lengthD [OF ps] by simp
    fix i
    assume "i < length ps"
    with len have i: "i < unat (e_chunk_count e)" by simp
    have "chunk_stored P opened e i (slice (i * CHUNK_SIZE) CHUNK_SIZE (content e))"
      using fs i by (simp add: file_stored_def)
    from decrypt_chunk_stored [OF P ok ke i this] list_all2_nthD [OF ps, of i] i
    show "ps ! i = map (\<lambda>i. slice (i * CHUNK_SIZE) CHUNK_SIZE (content e)) [0..<unat (e_chunk_count e)] ! i" by simp
  qed
  then have "concat ps = take (unat (e_chunk_count e) * CHUNK_SIZE) (content e)" by (simp add: concat_slices)
  also have "\<dots> = content e"
  proof (rule take_all)
    have "length (content e) = unat (e_size e)" using fs by (simp add: file_stored_def)
    moreover have "unat (e_chunk_count e) = chunks_for (unat (e_size e))"
      using file_entry_sizes(1) [OF opened_ok_entry [OF ok ke(1)] ke(2)] .
    ultimately show "length (content e) \<le> unat (e_chunk_count e) * CHUNK_SIZE" by (simp add: chunks_for_upper)
  qed
  finally have c: "fd_bytes f = content e" using f(2) by simp
  from fin p(4) have "pending = p0\<lparr>pf_file := None\<rparr>" "w_disk w' = w_disk w2"
    by (auto simp: finish_writing_def bindM_eq_Inr sync_file_def fs_call_eq_Inr returnM_def)
  with p f(1) c show ?thesis by (auto simp: temp_path_def)
qed


section \<open>The staged tree\<close>

definition pending_ok :: "entry list \<Rightarrow> path \<Rightarrow> (entry \<Rightarrow> bytes) \<Rightarrow> disk \<Rightarrow> entry \<Rightarrow> pending_file \<Rightarrow> bool" where
  "pending_ok es stage content d e p \<longleftrightarrow>
     pf_parent p = stage @ butlast (rel_path es e) \<and> pf_final_name p = e_name e \<and> pf_file p = None \<and> \<not> pf_committed p \<and>
     starts_with temp_prefix (pf_temp_name p) \<and> (\<exists>f. d (temp_path p) = Some (FileNode f) \<and> fd_bytes f = content e)"

definition dirs_ok :: "entry list \<Rightarrow> path \<Rightarrow> entry list \<Rightarrow> (u64 \<Rightarrow> path option) \<Rightarrow> disk \<Rightarrow> bool" where
  "dirs_ok es stage seen dirs d \<longleftrightarrow>
     dirs 1 = Some stage \<and>
     (\<forall>e \<in> set seen. e_kind e = Directory \<longrightarrow> dirs (e_id e) = Some (stage @ rel_path es e)) \<and>
     (\<forall>i p. dirs i = Some p \<longrightarrow> d p = Some DirNode \<and>
        (i = 1 \<and> p = stage \<or> (\<exists>e \<in> set seen. e_kind e = Directory \<and> e_id e = i \<and> p = stage @ rel_path es e)))"

definition tree_inv ::
  "entry list \<Rightarrow> disk \<Rightarrow> path \<Rightarrow> (entry \<Rightarrow> bytes) \<Rightarrow> entry list \<Rightarrow> (u64 \<Rightarrow> path option) \<Rightarrow> pending_file list \<Rightarrow> disk \<Rightarrow> bool" where
  "tree_inv es D stage content seen dirs pend d \<longleftrightarrow>
     set seen \<subseteq> set es \<and> dirs_ok es stage seen dirs d \<and>
     list_all2 (pending_ok es stage content d) (files_of seen) pend \<and> distinct (map temp_path pend) \<and>
     (\<forall>q. below stage q \<longrightarrow> d q \<noteq> None \<longrightarrow> q \<in> ran dirs \<union> temp_path ` set pend) \<and>
     (\<forall>q. \<not> below stage q \<longrightarrow> d q = D q)"

lemma below_append [simp]: "below p (p @ q)" "below p p"
  using starts_with_append [of p "[]"] by (simp_all add: below_def)

lemma dirs_ok_parent:
  assumes ok: "index_ok h es" and dirs: "dirs_ok es stage seen dirs d" "set seen \<subseteq> set es"
    and e: "e \<in> set es" "e_id e \<noteq> 1" and p: "dirs (e_parent_id e) = Some p"
  shows "p = stage @ butlast (rel_path es e)" "p @ [e_name e] = stage @ rel_path es e"
proof -
  from index_ok_parent [OF ok e] obtain x where x: "x \<in> set es" "e_id x = e_parent_id e" by blast
  have rel: "rel_path es e = rel_path es x @ [e_name e]" by (rule rel_path_child [OF ok e x])
  from dirs(1) p consider "e_parent_id e = 1" "p = stage" | y where "y \<in> set seen" "e_id y = e_parent_id e" "p = stage @ rel_path es y"
    unfolding dirs_ok_def by blast
  then have "p = stage @ rel_path es x"
  proof cases
    case 1
    with rel_path_root [OF ok x(1)] x(2) show ?thesis by simp
  next
    case 2
    moreover have "y = x" using 2 dirs(2) x by (intro index_ok_inj [OF ok]) auto
    ultimately show ?thesis by simp
  qed
  with rel show "p = stage @ butlast (rel_path es e)" "p @ [e_name e] = stage @ rel_path es e" by simp_all
qed

lemma pending_ok_other:
  "pending_ok es stage content d e p \<Longrightarrow> d (temp_path p) = d' (temp_path p) \<Longrightarrow> pending_ok es stage content d' e p"
  by (simp add: pending_ok_def)

lemma tree_inv_mkdir:
  assumes ok: "index_ok h es" and inv: "tree_inv es D stage content seen dirs pend d"
    and e: "e \<in> set es" "e \<notin> set seen" "e_id e \<noteq> 1" "e_kind e = Directory"
    and p: "dirs (e_parent_id e) = Some p" and fresh: "d (p @ [e_name e]) = None"
  shows "tree_inv es D stage content (seen @ [e]) (dirs(e_id e \<mapsto> p @ [e_name e])) pend (d(p @ [e_name e] := Some DirNode))"
proof -
  let ?q = "p @ [e_name e]" and ?d = "d(p @ [e_name e] := Some DirNode)"
  have sub: "set seen \<subseteq> set es" and dirs: "dirs_ok es stage seen dirs d" and pend: "list_all2 (pending_ok es stage content d) (files_of seen) pend"
    using inv by (simp_all add: tree_inv_def)
  have q: "?q = stage @ rel_path es e" by (rule dirs_ok_parent(2) [OF ok dirs sub e(1,3) p])
  have new: "dirs (e_id e) = None"
  proof (rule ccontr)
    assume "dirs (e_id e) \<noteq> None"
    with dirs e(3) obtain x where "x \<in> set seen" "e_id x = e_id e" unfolding dirs_ok_def by blast
    moreover from this have "x = e" using sub e(1) by (intro index_ok_inj [OF ok]) auto
    ultimately show False using e(2) by simp
  qed
  have "dirs_ok es stage (seen @ [e]) (dirs(e_id e \<mapsto> ?q)) ?d"
    unfolding dirs_ok_def
  proof (intro conjI ballI impI allI)
    show "(dirs(e_id e \<mapsto> ?q)) 1 = Some stage" using dirs e(3) by (simp add: dirs_ok_def)
  next
    fix x
    assume "x \<in> set (seen @ [e])" "e_kind x = Directory"
    then show "(dirs(e_id e \<mapsto> ?q)) (e_id x) = Some (stage @ rel_path es x)"
      using dirs new q unfolding dirs_ok_def by (cases "x = e") auto
  next
    fix i p'
    assume i: "(dirs(e_id e \<mapsto> ?q)) i = Some p'"
    show "?d p' = Some DirNode" using i dirs by (auto simp: dirs_ok_def split: if_splits)
    show "i = 1 \<and> p' = stage \<or> (\<exists>x \<in> set (seen @ [e]). e_kind x = Directory \<and> e_id x = i \<and> p' = stage @ rel_path es x)"
    proof (cases "i = e_id e")
      case True
      with i q e(4) show ?thesis by simp
    next
      case False
      with i dirs show ?thesis unfolding dirs_ok_def by fastforce
    qed
  qed
  moreover have "list_all2 (pending_ok es stage content ?d) (files_of (seen @ [e])) pend"
  proof -
    have "list_all2 (pending_ok es stage content ?d) (files_of seen) pend"
      by (rule list_all2_mono [OF pend], rule pending_ok_other, assumption) (use fresh in \<open>auto simp: pending_ok_def\<close>)
    with e(4) show ?thesis by (simp add: files_of_def)
  qed
  moreover have "ran (dirs(e_id e \<mapsto> ?q)) = insert ?q (ran dirs)" using new by (rule ran_map_upd)
  ultimately show ?thesis
    using inv e(1) q unfolding tree_inv_def by auto
qed

lemma tree_inv_file:
  assumes ok: "index_ok h es" and inv: "tree_inv es D stage content seen dirs pend d"
    and e: "e \<in> set es" "e_id e \<noteq> 1" "e_kind e = File"
    and p: "dirs (e_parent_id e) = Some (pf_parent t)"
    and t: "pf_final_name t = e_name e" "pf_file t = None" "\<not> pf_committed t" "starts_with temp_prefix (pf_temp_name t)"
    and fresh: "d (temp_path t) = None" and f: "fd_bytes f = content e"
  shows "tree_inv es D stage content (seen @ [e]) dirs (pend @ [t]) (d(temp_path t := Some (FileNode f)))"
proof -
  let ?d = "d(temp_path t := Some (FileNode f))"
  have sub: "set seen \<subseteq> set es" and dirs: "dirs_ok es stage seen dirs d" and pend: "list_all2 (pending_ok es stage content d) (files_of seen) pend"
    using inv by (simp_all add: tree_inv_def)
  have par: "pf_parent t = stage @ butlast (rel_path es e)" by (rule dirs_ok_parent(1) [OF ok dirs sub e(1,2) p])
  have olds: "temp_path x \<noteq> temp_path t" if "x \<in> set pend" for x
  proof -
    from that pend obtain y where "pending_ok es stage content d y x"
      by (metis in_set_conv_nth list_all2_conv_all_nth)
    with fresh show ?thesis by (auto simp: pending_ok_def)
  qed
  have "dirs_ok es stage (seen @ [e]) dirs ?d"
    using dirs fresh e(3) unfolding dirs_ok_def by (auto 0 3 split: if_splits)
  moreover have "list_all2 (pending_ok es stage content ?d) (files_of seen) pend"
    by (rule list_all2_mono [OF pend], rule pending_ok_other, assumption) (use fresh in \<open>auto simp: pending_ok_def\<close>)
  moreover have "pending_ok es stage content ?d e t" using par t f by (simp add: pending_ok_def)
  moreover have "files_of (seen @ [e]) = files_of seen @ [e]" using e(3) by (simp add: files_of_def)
  moreover have "below stage (temp_path t)" by (simp add: temp_path_def par)
  moreover have "distinct (map temp_path (pend @ [t]))"
    using inv olds unfolding tree_inv_def by (simp add: image_iff) metis
  ultimately show ?thesis
    using inv e(1) unfolding tree_inv_def by (auto intro: list_all2_appendI)
qed

lemma extract_entry_inv:
  assumes st: "content_stored P opened es content" and plain: "\<forall>e \<in> set es. e_id e \<noteq> 1 \<longrightarrow> plain_name (e_name e)"
    and inv: "tree_inv es D stage content seen (map_of (sr_directories r)) pend (w_disk w)"
    and e: "e \<in> set es" "e \<notin> set seen"
    and run: "extract_entry P opened threads inject e (r, pend, pr) w = (Inr (r', pend', pr'), w')"
  shows "tree_inv es D stage content (seen @ [e]) (map_of (sr_directories r')) pend' (w_disk w')"
    "\<exists>dirs. r' = r\<lparr>sr_directories := dirs\<rparr>"
proof -
  have ok: "index_ok (oc_header opened) es" using st by (simp add: content_stored_def opened_ok_def)
  obtain w1 where c: "check_cancel w = (Inr (), w1)"
    and rest: "(if e_id e = 1 then returnM (r, pend, pr)
     else (case e_kind e of
       Directory \<Rightarrow> bindM (create_directory (e_id e) (e_parent_id e) (e_name e) r) (\<lambda>root. returnM (root, pend, pr))
     | File \<Rightarrow> bindM (extract_file P opened threads inject r e pr) (\<lambda>(pending, progress). returnM (r, pend @ [pending], progress)))) w1
      = (Inr (r', pend', pr'), w')"
    using run by (auto simp: extract_entry_def on_error_eq_Inr bindM_eq_Inr)
  have d1: "w_disk w1 = w_disk w" using c by (auto simp: check_cancel_def)
  have "tree_inv es D stage content (seen @ [e]) (map_of (sr_directories r')) pend' (w_disk w') \<and>
    (\<exists>dirs. r' = r\<lparr>sr_directories := dirs\<rparr>)"
  proof (cases "e_id e = 1")
    case True
    have "e_kind e = Directory" "rel_path es e = []" using index_ok_root(2) [OF ok e(1) True] rel_path_root [OF ok e(1) True] by simp_all
    with inv True e(1) have "tree_inv es D stage content (seen @ [e]) (map_of (sr_directories r)) pend (w_disk w)"
      unfolding tree_inv_def dirs_ok_def files_of_def by fastforce
    with rest True d1 show ?thesis by (auto intro!: exI [of _ "sr_directories r"])
  next
    case False
    show ?thesis
    proof (cases "e_kind e")
      case Directory
      with rest False have mk: "create_directory (e_id e) (e_parent_id e) (e_name e) r w1 = (Inr r', w')" and p: "pend' = pend"
        by (auto simp: bindM_eq_Inr)
      from create_directory_Inr [OF mk] plain e(1) False d1 obtain p where
        p': "map_of (sr_directories r) (e_parent_id e) = Some p" "w_disk w (p @ [e_name e]) = None"
          "w_disk w' = (w_disk w)(p @ [e_name e] := Some DirNode)"
          "r' = r\<lparr>sr_directories := AList.update (e_id e) (p @ [e_name e]) (sr_directories r)\<rparr>" by auto
      from tree_inv_mkdir [OF ok inv e False Directory p'(1,2)] p'(3,4) p show ?thesis
        by (auto simp: update_conv')
    next
      case File
      with rest False obtain t where x: "extract_file P opened threads inject r e pr w1 = (Inr (t, pr'), w')"
        and p: "pend' = pend @ [t]" "r' = r" by (auto simp: bindM_eq_Inr)
      have ef: "e \<in> set (files_of es)" using e(1) File by (simp add: files_of_def)
      from extract_file_Inr [OF st ef x] d1 obtain f where
        f: "map_of (sr_directories r) (e_parent_id e) = Some (pf_parent t)" "pf_final_name t = e_name e" "pf_file t = None"
          "\<not> pf_committed t" "starts_with temp_prefix (pf_temp_name t)" "w_disk w (temp_path t) = None"
          "w_disk w' = (w_disk w)(temp_path t := Some (FileNode f))" "fd_bytes f = content e" by auto
      from tree_inv_file [OF ok inv e(1) False File f(1-6) f(8)] f(7) p show ?thesis
        by (auto intro!: exI [of _ "sr_directories r"])
    qed
  qed
  then show "tree_inv es D stage content (seen @ [e]) (map_of (sr_directories r')) pend' (w_disk w')"
    "\<exists>dirs. r' = r\<lparr>sr_directories := dirs\<rparr>" by blast+
qed


section \<open>Every file gets its name\<close>

lemma pending_commit_Inr:
  assumes "pending_commit p w = (Inr u, w')" "pf_file p = None"
  shows "\<exists>n. w_disk w (temp_path p) = Some n \<and>
    w_disk w' = (w_disk w)(temp_path p := None, dir_entry (pf_parent p) (pf_final_name p) := Some n)"
proof -
  from assms have "dir_rename_file (pf_parent p) (pf_temp_name p) (pf_final_name p) w = (Inr u, w')"
    by (auto simp: pending_commit_def on_error_eq_Inr bindM_eq_Inr contextM_eq_Inr finish_writing_def)
  from dir_rename_file_Inr [OF this] show ?thesis by (simp add: temp_path_def)
qed

text \<open>Names in the tree never look like temporary ones.\<close>

definition finals_ok :: "entry list \<Rightarrow> entry list \<Rightarrow> bool" where
  "finals_ok es fs \<longleftrightarrow> distinct (map (rel_path es) fs) \<and>
     (\<forall>e \<in> set fs. rel_path es e \<noteq> [] \<and> last (rel_path es e) = e_name e \<and> plain_name (e_name e))"

lemma temp_path_neq_final:
  assumes "finals_ok es fs" "e \<in> set fs" "starts_with temp_prefix (pf_temp_name p)"
  shows "temp_path p \<noteq> stage @ rel_path es e"
proof
  assume eq: "temp_path p = stage @ rel_path es e"
  have "rel_path es e \<noteq> []" "last (rel_path es e) = e_name e" "\<not> starts_with temp_prefix (e_name e)"
    using assms(1,2) by (auto simp: finals_ok_def plain_name_def)
  moreover have "last (temp_path p) = last (stage @ rel_path es e)" by (simp only: eq)
  ultimately show False using assms(3) by (simp add: temp_path_def)
qed

lemma commit_pending_Inr:
  assumes "commit_pending ps w = (Inr u, w')" and "list_all2 (pending_ok es stage content (w_disk w)) fs ps"
    and "distinct (map temp_path ps)" and "finals_ok es fs"
  shows "(\<forall>e \<in> set fs. \<exists>f. w_disk w' (stage @ rel_path es e) = Some (FileNode f) \<and> fd_bytes f = content e) \<and>
    (\<forall>q. q \<notin> (\<lambda>e. stage @ rel_path es e) ` set fs \<longrightarrow>
       w_disk w' q = (if q \<in> temp_path ` set ps then None else w_disk w q))"
  using assms
proof (induction ps arbitrary: w fs)
  case (Cons p ps)
  from Cons.prems(2) obtain e fs' where fs: "fs = e # fs'" and p: "pending_ok es stage content (w_disk w) e p"
    and ps: "list_all2 (pending_ok es stage content (w_disk w)) fs' ps" by (auto simp: list_all2_Cons2)
  from Cons.prems(1) obtain w1 where c: "pending_commit p w = (Inr (), w1)" and rest: "commit_pending ps w1 = (Inr u, w')"
    by (auto simp: bindM_eq_Inr on_error_eq_Inr)
  have e: "rel_path es e \<noteq> []" "last (rel_path es e) = e_name e" "plain_name (e_name e)" "finals_ok es fs'"
    using Cons.prems(4) fs by (auto simp: finals_ok_def)
  have "dir_entry (pf_parent p) (pf_final_name p) = stage @ rel_path es e"
    using p e(1-3) by (auto simp: pending_ok_def plain_name_def dir_entry_plain) (metis append_butlast_last_id)
  with pending_commit_Inr [OF c] p obtain f where
    w1: "w_disk w1 = (w_disk w)(temp_path p := None, stage @ rel_path es e := Some (FileNode f))" "fd_bytes f = content e"
    by (auto simp: pending_ok_def)
  have others: "w_disk w1 (temp_path x) = w_disk w (temp_path x)" if x: "x \<in> set ps" for x
  proof -
    from x ps obtain y where "pending_ok es stage content (w_disk w) y x" by (metis in_set_conv_nth list_all2_conv_all_nth)
    then have "temp_path x \<noteq> stage @ rel_path es e"
      using temp_path_neq_final [OF Cons.prems(4), of e x] fs by (simp add: pending_ok_def)
    moreover have "temp_path x \<noteq> temp_path p" using Cons.prems(3) x by (simp, metis imageI)
    ultimately show ?thesis using w1 by simp
  qed
  have "list_all2 (pending_ok es stage content (w_disk w1)) fs' ps"
    unfolding list_all2_conv_all_nth
  proof (intro conjI allI impI)
    show len: "length fs' = length ps" using ps by (rule list_all2_lengthD)
    fix i
    assume "i < length fs'"
    with len others have "w_disk w (temp_path (ps ! i)) = w_disk w1 (temp_path (ps ! i))" by simp
    with list_all2_nthD [OF ps \<open>i < length fs'\<close>]
    show "pending_ok es stage content (w_disk w1) (fs' ! i) (ps ! i)" by (simp add: pending_ok_def)
  qed
  from Cons.IH [OF rest this _ e(4)] Cons.prems(3) have
    IH: "\<forall>e \<in> set fs'. \<exists>f. w_disk w' (stage @ rel_path es e) = Some (FileNode f) \<and> fd_bytes f = content e"
      "\<And>q. q \<notin> (\<lambda>e. stage @ rel_path es e) ` set fs' \<Longrightarrow> w_disk w' q = (if q \<in> temp_path ` set ps then None else w_disk w1 q)"
    by auto
  have new: "stage @ rel_path es e \<notin> (\<lambda>e. stage @ rel_path es e) ` set fs'"
    using Cons.prems(4) by (auto simp: fs finals_ok_def)
  have "stage @ rel_path es e \<notin> temp_path ` set ps"
  proof
    assume "stage @ rel_path es e \<in> temp_path ` set ps"
    then obtain x where x: "x \<in> set ps" "temp_path x = stage @ rel_path es e" by auto
    from x(1) ps obtain y where "pending_ok es stage content (w_disk w) y x" by (metis in_set_conv_nth list_all2_conv_all_nth)
    then have "temp_path x \<noteq> stage @ rel_path es e"
      by (intro temp_path_neq_final [OF Cons.prems(4)]) (simp_all add: fs pending_ok_def)
    with x(2) show False by simp
  qed
  with IH(2) [OF new] w1 have "w_disk w' (stage @ rel_path es e) = Some (FileNode f)" by simp
  moreover have "w_disk w' q = (if q \<in> temp_path ` set (p # ps) then None else w_disk w q)"
    if "q \<notin> (\<lambda>e. stage @ rel_path es e) ` set fs" for q
    using IH(2) [of q] that w1(1) by (auto simp: fs)
  ultimately show ?case using IH(1) w1(2) by (auto simp: fs)
qed simp

section \<open>The frame of the destination\<close>

lemma open_verified_directory_loop:
  "foldM (\<lambda>name current. contextM msg (openat_dir name current)) p root w = (Inr q, w') \<Longrightarrow>
   q = root @ p \<and> w_disk w' = w_disk w \<and> (\<forall>k. 0 < k \<and> k \<le> length p \<longrightarrow> w_disk w (root @ take k p) = Some DirNode)"
proof (induction p arbitrary: root w)
  case (Cons name p)
  from Cons.prems obtain c w1 where c: "openat_dir name root w = (Inr c, w1)"
    and rest: "foldM (\<lambda>name current. contextM msg (openat_dir name current)) p c w1 = (Inr q, w')"
    by (auto simp: bindM_eq_Inr contextM_eq_Inr)
  have c': "c = root @ [name]" "w_disk w1 = w_disk w" "w_disk w (root @ [name]) = Some DirNode"
    using c by (auto simp: openat_dir_def fs_call_eq_Inr split: option.splits node.splits)
  from Cons.IH [OF rest] c' have "q = root @ name # p" "w_disk w' = w_disk w"
    and k: "\<And>k. 0 < k \<Longrightarrow> k \<le> length p \<Longrightarrow> w_disk w (root @ name # take k p) = Some DirNode" by auto
  moreover have "w_disk w (root @ take k (name # p)) = Some DirNode" if "0 < k" "k \<le> length (name # p)" for k
    using that k c'(3) by (cases k) (auto, metis Suc_leI append_Nil2 gr_zeroI take0)
  ultimately show ?case by simp
qed (simp)

text \<open>The directory the tree is built in was reached without following a link.\<close>

lemma open_verified_directory_Inr:
  assumes "open_verified_directory p w = (Inr q, w')" and root: "w_disk w [] = Some DirNode"
  shows "q = p \<and> w_disk w' = w_disk w \<and> (\<forall>k \<le> length p. w_disk w (take k p) = Some DirNode)"
proof -
  from assms(1) obtain r w1 where r: "open_file [] w = (Inr r, w1)"
    and rest: "foldM (\<lambda>name current. contextM ''Output parent contains a missing, non-directory, or symbolic-link component''
         (openat_dir name current)) p r w1 = (Inr q, w')"
    by (auto simp: open_verified_directory_def bindM_eq_Inr)
  have "r = []" "w_disk w1 = w_disk w" using open_file_Inr [OF r] root by (simp_all add: follow_def)
  with open_verified_directory_loop [OF rest] root show ?thesis by (metis append_Nil gr_zeroI take0)
qed


definition disk_ok :: "disk \<Rightarrow> bool" where
  "disk_ok D \<longleftrightarrow> D [] = Some DirNode \<and> (\<forall>p x. D (p @ [x]) \<noteq> None \<longrightarrow> D p = Some DirNode)"

lemma disk_ok_below: "disk_ok D \<Longrightarrow> D p = None \<Longrightarrow> below p q \<Longrightarrow> D q = None"
proof -
  assume D: "disk_ok D" and p: "D p = None" and "below p q"
  then obtain r where "q = p @ r" by (auto simp: below_def starts_with_iff)
  moreover have "D (p @ r) = None"
  proof (induction r rule: rev_induct)
    case (snoc x r)
    with D have "\<not> D ((p @ r) @ [x]) \<noteq> None" unfolding disk_ok_def by (metis option.distinct(1))
    then show ?case by simp
  qed (simp add: p)
  ultimately show "D q = None" by simp
qed

lemma allocate_loop_frame [frame_intros]: "disk_frame S (allocate_staging_name_loop n parent prefix)"
  by (induction n) (auto simp: Let_def intro!: frame_intros)

lemma staging_name_frame [frame_intros]:
  "disk_frame S (allocate_staging_name parent name)" "disk_frame S (requested_staging_name absolute parent requested)"
  unfolding allocate_staging_name_def requested_staging_name_def by (intro frame_intros)+

lemma open_new_at_Inr:
  assumes run: "open_new_at target requested w = (Inr r, w')" and root: "w_disk w [] = Some DirNode"
  shows "\<exists>s. target \<noteq> [] \<and> w_disk w (butlast target @ [s]) = None \<and>
    (\<forall>k < length target. w_disk w (take k target) = Some DirNode) \<and>
    w_disk w' = (w_disk w)(butlast target @ [s] := Some DirNode) \<and>
    r = \<lparr>sr_directories = [(1, butlast target @ [s])], sr_parent = butlast target, sr_staging_name = s,
      sr_target_name = last target, sr_target_display = target, sr_committed = False\<rparr>"
proof -
  let ?name = "\<lambda>parent. case requested of Some requested \<Rightarrow> requested_staging_name target parent requested
       | None \<Rightarrow> allocate_staging_name parent (last target)"
  from run obtain b1 w1 pr w2 b2 w3 s w4 w5 d where a1: "is_absent target w = (Inr b1, w1)" and t: "target \<noteq> []"
    and o: "open_verified_directory (butlast target) w1 = (Inr pr, w2)" and a2: "is_absent (pr @ [last target]) w2 = (Inr b2, w3)"
    and s: "?name pr w3 = (Inr s, w4)" and mk: "create_new_dir (pr @ [s]) w4 = (Inr (), w5)"
    and od: "open_dir (pr @ [s]) w5 = (Inr d, w')"
    and r: "r = \<lparr>sr_directories = [(1, d)], sr_parent = pr, sr_staging_name = s,
      sr_target_name = last target, sr_target_display = target, sr_committed = False\<rparr>"
    by (auto simp: open_new_at_def bindM_eq_Inr contextM_eq_Inr result_simps path_parent_def path_file_name_def split: if_splits)
  have w1: "w_disk w1 = w_disk w" by (rule pure_disk [OF disk_frame_is_absent a1])
  with open_verified_directory_Inr [OF o] root have p: "pr = butlast target" "w_disk w2 = w_disk w"
      "\<forall>k \<le> length (butlast target). w_disk w (take k (butlast target)) = Some DirNode" by simp_all
  have "w_disk w3 = w_disk w2" by (rule pure_disk [OF disk_frame_is_absent a2])
  moreover have "disk_frame (\<lambda>_. False) (?name pr)" by (cases requested) (simp_all add: staging_name_frame)
  from pure_disk [OF this s] have "w_disk w4 = w_disk w3" .
  moreover have "\<forall>k < length target. w_disk w (take k target) = Some DirNode"
    using p(3) by (auto simp: take_butlast)
  ultimately show ?thesis
    using create_new_dir_Inr [OF mk] open_dir_Inr [OF od] t r p(1,2) by (intro exI [of _ s]) simp
qed

section \<open>The result\<close>

definition staged_tree :: "entry list \<Rightarrow> disk \<Rightarrow> path \<Rightarrow> (entry \<Rightarrow> bytes) \<Rightarrow> disk \<Rightarrow> bool" where
  "staged_tree es D stage content d \<longleftrightarrow>
     (\<forall>e \<in> set es. case e_kind e of
        Directory \<Rightarrow> d (stage @ rel_path es e) = Some DirNode
      | File \<Rightarrow> (\<exists>f. d (stage @ rel_path es e) = Some (FileNode f) \<and> fd_bytes f = content e)) \<and>
     (\<forall>q. below stage q \<longrightarrow> d q \<noteq> None \<longrightarrow> q \<in> (\<lambda>e. stage @ rel_path es e) ` set es) \<and>
     (\<forall>q. \<not> below stage q \<longrightarrow> d q = D q)"

lemma files_finals_ok:
  assumes ok: "index_ok h es" and plain: "\<forall>e \<in> set es. e_id e \<noteq> 1 \<longrightarrow> plain_name (e_name e)"
    and order: "set order = set es" "distinct order"
  shows "finals_ok es (files_of order)"
proof -
  have "inj_on (rel_path es) (set (files_of order))"
    by (rule inj_onI, rule rel_path_inj [OF ok]) (use order(1) in \<open>auto simp: files_of_def\<close>)
  then have "distinct (map (rel_path es) (files_of order))"
    using order(2) by (simp add: distinct_map files_of_def)
  moreover have "rel_path es e \<noteq> [] \<and> last (rel_path es e) = e_name e \<and> plain_name (e_name e)"
    if "e \<in> set (files_of order)" for e
  proof -
    have e: "e \<in> set es" "e_kind e = File" using that order(1) by (auto simp: files_of_def)
    then have n1: "e_id e \<noteq> 1" using index_ok_root(2) [OF ok e(1)] by auto
    from index_ok_parent [OF ok e(1) n1] obtain p where "p \<in> set es" "e_id p = e_parent_id e" by blast
    with rel_path_child [OF ok e(1) n1] plain e(1) n1 show ?thesis by simp
  qed
  ultimately show ?thesis by (simp add: finals_ok_def)
qed

lemma commit_staged_tree:
  assumes ok: "index_ok h es" and plain: "\<forall>e \<in> set es. e_id e \<noteq> 1 \<longrightarrow> plain_name (e_name e)"
    and inv: "tree_inv es D stage content order dirs pend (w_disk w)" and order: "set order = set es" "distinct order"
    and run: "commit_pending pend w = (Inr u, w')"
  shows "staged_tree es D stage content (w_disk w')"
proof -
  let ?at = "\<lambda>e. stage @ rel_path es e"
  have dirs: "dirs_ok es stage order dirs (w_disk w)"
    and pend: "list_all2 (pending_ok es stage content (w_disk w)) (files_of order) pend" "distinct (map temp_path pend)"
    and all: "\<forall>q. below stage q \<longrightarrow> w_disk w q \<noteq> None \<longrightarrow> q \<in> ran dirs \<union> temp_path ` set pend"
    and frame: "\<forall>q. \<not> below stage q \<longrightarrow> w_disk w q = D q"
    using inv by (simp_all add: tree_inv_def)
  from commit_pending_Inr [OF run pend files_finals_ok [OF ok plain order]]
  have files: "\<forall>e \<in> set (files_of order). \<exists>f. w_disk w' (?at e) = Some (FileNode f) \<and> fd_bytes f = content e"
    and rest: "\<And>q. q \<notin> ?at ` set (files_of order) \<Longrightarrow> w_disk w' q = (if q \<in> temp_path ` set pend then None else w_disk w q)"
    by blast+
  have temp: "below stage (temp_path p) \<and> w_disk w (temp_path p) \<noteq> Some DirNode" if p: "p \<in> set pend" for p
  proof -
    from p pend(1) obtain y where "pending_ok es stage content (w_disk w) y p" by (metis in_set_conv_nth list_all2_conv_all_nth)
    then show ?thesis by (auto simp: pending_ok_def temp_path_def)
  qed
  have "case e_kind e of Directory \<Rightarrow> w_disk w' (?at e) = Some DirNode
      | File \<Rightarrow> (\<exists>f. w_disk w' (?at e) = Some (FileNode f) \<and> fd_bytes f = content e)" if e: "e \<in> set es" for e
  proof (cases "e_kind e")
    case File
    with files e order(1) show ?thesis by (simp add: files_of_def)
  next
    case Directory
    have d: "w_disk w (?at e) = Some DirNode"
      using dirs e order(1) Directory unfolding dirs_ok_def by blast
    have "?at e \<notin> ?at ` set (files_of order)"
      using rel_path_inj [OF ok e] Directory order(1) by (auto simp: files_of_def)
    moreover have "?at e \<notin> temp_path ` set pend" using temp d by force
    ultimately show ?thesis using rest d Directory by simp
  qed
  moreover have "q \<in> ?at ` set es" if q: "below stage q" "w_disk w' q \<noteq> None" for q
  proof (cases "q \<in> ?at ` set (files_of order)")
    case True
    then show ?thesis using order(1) by (auto simp: files_of_def)
  next
    case False
    with q rest have "q \<notin> temp_path ` set pend" "w_disk w q \<noteq> None" by (auto split: if_splits)
    with all q(1) obtain i where "dirs i = Some q" by (auto simp: ran_def)
    with dirs consider "q = stage" | e where "e \<in> set order" "q = ?at e" unfolding dirs_ok_def by blast
    then show ?thesis
    proof cases
      case 1
      from ok obtain x where "x \<in> set es" "e_id x = 1" by (auto simp: index_ok_def)
      with 1 rel_path_root [OF ok] show ?thesis by force
    next
      case 2
      with order(1) show ?thesis by auto
    qed
  qed
  moreover have "w_disk w' q = D q" if q: "\<not> below stage q" for q
  proof -
    have "q \<notin> ?at ` set (files_of order)" "q \<notin> temp_path ` set pend" using q temp by auto
    with rest frame q show ?thesis by simp
  qed
  ultimately show ?thesis by (simp add: staged_tree_def)
qed


lemma foldM_prefix:
  assumes "foldM f xs s w = (Inr t, w')" and "J done0 s w" and "distinct (done0 @ xs)"
    and "\<And>done0 x s w s' w'. x \<in> set xs \<Longrightarrow> x \<notin> set done0 \<Longrightarrow> J done0 s w \<Longrightarrow> f x s w = (Inr s', w') \<Longrightarrow> J (done0 @ [x]) s' w'"
  shows "J (done0 @ xs) t w'"
  using assms
proof (induction xs arbitrary: done0 s w)
  case (Cons x xs)
  from Cons.prems(1) obtain s1 w1 where x: "f x s w = (Inr s1, w1)" and rest: "foldM f xs s1 w1 = (Inr t, w')"
    by (auto simp: bindM_eq_Inr)
  have J: "J (done0 @ [x]) s1 w1" by (rule Cons.prems(4) [OF _ _ Cons.prems(2) x]) (use Cons.prems(3) in auto)
  have "J ((done0 @ [x]) @ xs) t w'"
    by (rule Cons.IH [OF rest J]) (use Cons.prems(3,4) in auto)
  then show ?case by simp
qed simp

lemma extraction_order_tables: "extraction_order (index_tables es) = sort_key (\<lambda>e. (e_depth e, e_id e)) es"
  by (simp add: extraction_order_def index_tables_def comp_def)

lemma tree_inv_start:
  assumes D: "disk_ok D" and fresh: "D stage = None" and dirs: "dirs = Map.empty(1 \<mapsto> stage)"
  shows "tree_inv es D stage content [] dirs [] (D(stage := Some DirNode))"
  using disk_ok_below [OF D fresh] unfolding tree_inv_def dirs_ok_def dirs
  by (auto simp: files_of_def split: if_splits)

lemma fill_tree_Inr:
  assumes st: "content_stored P opened es content" and plain: "\<forall>e \<in> set es. e_id e \<noteq> 1 \<longrightarrow> plain_name (e_name e)"
    and run: "fill_tree P threads opened inject progress r w = (Inr r', w')"
    and r: "sr_directories r = [(1, stage)]" and D: "disk_ok D" "D stage = None" "w_disk w = D(stage := Some DirNode)"
  shows "staged_tree es D stage content (w_disk w')" "\<exists>dirs. r' = r\<lparr>sr_directories := dirs\<rparr>"
proof -
  have ok: "index_ok (oc_header opened) es" and tables: "oc_index opened = index_tables es"
    using st by (simp_all add: content_stored_def opened_ok_def)
  let ?order = "extraction_order (oc_index opened)"
  have order: "set ?order = set es" "distinct ?order"
    using ok by (simp_all add: tables extraction_order_tables index_ok_def distinct_map)
  obtain w0 r1 w1 pend pr w2 w3 w4 w5 where w0: "w0 = w\<lparr>w_events := w_events w @ [TemporaryArtifact ExtractionTree (staging_path r)]\<rparr>"
    and ins: "install_root_id 1 r w0 = (Inr r1, w1)"
    and loop: "foldM (extract_entry P opened threads inject) ?order (r1, [], progress) w1 = (Inr (r', pend, pr), w2)"
    and c: "check_cancel w2 = (Inr (), w3)" and cm: "commit_pending pend w3 = (Inr (), w4)"
    and c2: "check_cancel w4 = (Inr (), w5)" and w': "w_disk w' = w_disk w5"
    using run by (auto simp: fill_tree_def bindM_emit bindM_eq_Inr on_error_eq_Inr)
  have r1: "map_of (sr_directories r1) = Map.empty(1 \<mapsto> stage)" "\<exists>dirs. r1 = r\<lparr>sr_directories := dirs\<rparr>" "w_disk w1 = w_disk w"
    using ins r by (auto simp: install_root_id_def bindM_eq_Inr result_simps try_clone_def fs_call_eq_Inr returnM_def w0
        intro: exI [of _ "AList.update 1 stage (sr_directories r)"])
  let ?J = "\<lambda>seen s w. tree_inv es D stage content seen (map_of (sr_directories (fst s))) (fst (snd s)) (w_disk w) \<and>
    (\<exists>dirs. fst s = r\<lparr>sr_directories := dirs\<rparr>)"
  have "?J ([] @ ?order) (r', pend, pr) w2"
  proof (rule foldM_prefix [where J = ?J, OF loop])
    show "?J [] (r1, [], progress) w1"
      using tree_inv_start [OF D(1,2) r1(1)] r1(2,3) D(3) by simp
    show "distinct ([] @ ?order)" using order by simp
    fix seen x s v s' v'
    assume x: "x \<in> set ?order" "x \<notin> set seen" and J: "?J seen s v"
      and step: "extract_entry P opened threads inject x s v = (Inr s', v')"
    obtain a b c where s: "s = (a, b, c)" by (cases s)
    obtain a' b' c' where s': "s' = (a', b', c')" by (cases s')
    from extract_entry_inv [OF st plain _ _ x(2) step [unfolded s s'], of D stage] J x(1) order(1)
    show "?J (seen @ [x]) s' v'" unfolding s s' by auto
  qed
  then have inv: "tree_inv es D stage content ?order (map_of (sr_directories r')) pend (w_disk w2)"
    and r': "\<exists>dirs. r' = r\<lparr>sr_directories := dirs\<rparr>" by simp_all
  have "w_disk w3 = w_disk w2" using c by (auto simp: check_cancel_def)
  with inv have inv: "tree_inv es D stage content ?order (map_of (sr_directories r')) pend (w_disk w3)" by simp
  have "w_disk w' = w_disk w4" using c2 w' by (auto simp: check_cancel_def)
  with commit_staged_tree [OF ok plain inv order cm] show "staged_tree es D stage content (w_disk w')" by simp
  show "\<exists>dirs. r' = r\<lparr>sr_directories := dirs\<rparr>" by (rule r')
qed

lemma safe_root_commit_Inr:
  assumes "safe_root_commit order r w = (Inr x, w')"
  shows "w_disk w (sr_parent r @ [sr_target_name r]) = None \<and>
    w_disk w' = moved_disk (sr_parent r @ [sr_staging_name r]) (sr_parent r @ [sr_target_name r]) (w_disk w)"
proof -
  from assms obtain u w1 u' w2 where s: "sync_open_directories order (sr_directories r) w = (Inr u, w1)"
    and mv: "rename_noreplace (sr_parent r @ [sr_staging_name r]) (sr_parent r @ [sr_target_name r]) w1 = (Inr u', w2)"
    and rest: "(case sync_cap_directory (sr_parent r) w2 of
        (Inr _, w') \<Rightarrow> (Inr None, w')
      | (Inl e, w') \<Rightarrow> (Inr (Some (''Unable to sync extraction parent after commit: '' @ display_chain e)), w')) = (Inr x :: string option result, w')"
    unfolding safe_root_commit_def on_error_eq_Inr bindM_eq_Inr contextM_eq_Inr by blast
  from rest have last: "w' = snd (sync_cap_directory (sr_parent r) w2)"
    by (cases "sync_cap_directory (sr_parent r) w2"; cases "fst (sync_cap_directory (sr_parent r) w2)") auto
  have "disk_frame (\<lambda>_. False) (sync_open_directories order (sr_directories r))"
    unfolding sync_open_directories_def by (intro disk_frame_foldM dir_frames)
  from pure_disk [OF this s] have "w_disk w1 = w_disk w" .
  moreover have "w_disk w2 = moved_disk (sr_parent r @ [sr_staging_name r]) (sr_parent r @ [sr_target_name r]) (w_disk w1) \<and>
      w_disk w1 (sr_parent r @ [sr_target_name r]) = None"
    using mv by (auto simp: rename_noreplace_def fs_call_eq_Inr split: if_splits)
  moreover have "w_disk w' = w_disk w2"
  proof -
    obtain r3 w3 where sy: "sync_cap_directory (sr_parent r) w2 = (r3, w3)" by (cases "sync_cap_directory (sr_parent r) w2")
    have "w_disk w3 = w_disk w2" by (rule pure_disk [OF dir_frames(5) sy])
    with last sy show ?thesis by simp
  qed
  ultimately show ?thesis by simp
qed

text \<open>What a user finds: the tree of the index below the destination, and nothing else changed.\<close>

definition extracted :: "entry list \<Rightarrow> (entry \<Rightarrow> bytes) \<Rightarrow> path \<Rightarrow> disk \<Rightarrow> disk \<Rightarrow> bool" where
  "extracted es content out D D' \<longleftrightarrow>
     D out = None \<and> (\<forall>k < length out. D (take k out) = Some DirNode) \<and>
     (\<forall>e \<in> set es. case e_kind e of
        Directory \<Rightarrow> D' (out @ rel_path es e) = Some DirNode
      | File \<Rightarrow> (\<exists>f. D' (out @ rel_path es e) = Some (FileNode f) \<and> fd_bytes f = content e)) \<and>
     (\<forall>q. D' (out @ q) \<noteq> None \<longrightarrow> q \<in> rel_path es ` set es) \<and>
     (\<forall>q. \<not> below out q \<longrightarrow> D' q = D q)"

lemma extracted_moved:
  assumes tree: "staged_tree es D stage content d" and D: "disk_ok D" "D stage = None"
    and out: "d out = None" "out \<noteq> []" "length stage = length out" "d stage \<noteq> None"
    and anc: "\<forall>k < length out. D (take k out) = Some DirNode"
  shows "extracted es content out D (moved_disk stage out d)"
proof -
  have at: "moved_disk stage out d (out @ q) = d (stage @ q)" for q by (simp add: moved_disk_def)
  have apart: "\<not> below stage out"
  proof
    assume "below stage out"
    with out(3) have "out = stage" by (auto simp: below_def starts_with_iff)
    with out(1,4) show False by simp
  qed
  have rest: "d q = D q" if "\<not> below stage q" for q using tree that by (simp add: staged_tree_def)
  have "D out = None" using rest [OF apart] out(1) by simp
  moreover have "q \<in> rel_path es ` set es" if "d (stage @ q) \<noteq> None" for q
    using tree that unfolding staged_tree_def by (auto dest!: spec [of _ "stage @ q"])
  moreover have "moved_disk stage out d q = D q" if "\<not> below out q" for q
    using that rest disk_ok_below [OF D, of q] by (simp add: moved_disk_def)
  ultimately show ?thesis
    using tree anc unfolding extracted_def staged_tree_def at by simp
qed

lemma extract_tree_Inr:
  assumes st: "content_stored P opened es content" and plain: "\<forall>e \<in> set es. e_id e \<noteq> 1 \<longrightarrow> plain_name (e_name e)"
    and new: "open_new_at out requested w = (Inr r, w1)" and D: "disk_ok (w_disk w)"
    and run: "extract_tree P threads order opened inject progress r w1 = (Inr (), w')"
  shows "extracted es content out (w_disk w) (w_disk w')"
proof -
  have ok: "index_ok (oc_header opened) es" using st by (simp add: content_stored_def opened_ok_def)
  have "w_disk w [] = Some DirNode" using D by (simp add: disk_ok_def)
  from open_new_at_Inr [OF new this] obtain s where s: "out \<noteq> []" "w_disk w (butlast out @ [s]) = None"
      "\<forall>k < length out. w_disk w (take k out) = Some DirNode" "w_disk w1 = (w_disk w)(butlast out @ [s] := Some DirNode)"
    and r: "sr_directories r = [(1, butlast out @ [s])]" "sr_parent r = butlast out" "sr_staging_name r = s" "sr_target_name r = last out"
    by auto
  obtain r' w2 x w3 where f: "fill_tree P threads opened inject progress r w1 = (Inr r', w2)"
    and cm: "safe_root_commit order r' w2 = (Inr x, w3)" and w': "w_disk w' = w_disk w3"
    using run by (auto simp: extract_tree_def bindM_eq_Inr on_error_eq_Inr emit_def returnM_def split: option.splits)
  note tree = fill_tree_Inr [OF st plain f r(1) D s(2,4)]
  from tree(2) r have r': "sr_parent r' = butlast out" "sr_staging_name r' = s" "sr_target_name r' = last out" by auto
  from safe_root_commit_Inr [OF cm] r' s(1) have mv: "w_disk w2 out = None"
    "w_disk w' = moved_disk (butlast out @ [s]) out (w_disk w2)" using w' by simp_all
  from ok obtain root where root: "root \<in> set es" "e_id root = 1" by (auto simp: index_ok_def)
  have "w_disk w2 (butlast out @ [s]) \<noteq> None"
    using tree(1) root index_ok_root(2) [OF ok root] rel_path_root [OF ok root] unfolding staged_tree_def by fastforce
  moreover have "length (butlast out @ [s]) = length out" using s(1) by (cases out) auto
  ultimately show ?thesis unfolding mv(2) by (intro extracted_moved [OF tree(1) D s(2) mv(1) s(1) _ _ s(3)])
qed

text \<open>Opening does not depend on the world beyond the container.\<close>

lemma open_container_deterministic:
  assumes a: "open_container P path password w = (Inr o1, w1)" and b: "open_container P path password v = (Inr o2, v1)"
    and d: "w_disk w = w_disk v"
  shows "o1 = o2"
proof -
  let ?q = "follow (w_disk v) path"
  from open_container_Inr [OF a] obtain a1 a2 enc where a': "open_file path w = (Inr ?q, a1)" "read_header P ?q a1 = (Inr (oc_header o1), a2)"
      "unlock P (oc_header o1) password = Inr (Unlocked (oc_dek o1))"
      "read_exact_file ?q (unat (h_index_size (oc_header o1))) HEADER64 a2 = (Inr enc, w1)"
      "open_index P (oc_header o1) (oc_dek o1) enc = Inr (oc_index o1)"
      "checked_add HEADER64 (h_index_size (oc_header o1)) = Some (oc_data_start o1)"
      "oc_read o1 = (\<lambda>off n. bindE (file_contents (w_disk w1) ?q) (\<lambda>c. content_reader c off n))" unfolding d by auto
  from open_container_Inr [OF b] obtain b1 b2 enc' where b': "open_file path v = (Inr ?q, b1)" "read_header P ?q b1 = (Inr (oc_header o2), b2)"
      "unlock P (oc_header o2) password = Inr (Unlocked (oc_dek o2))"
      "read_exact_file ?q (unat (h_index_size (oc_header o2))) HEADER64 b2 = (Inr enc', v1)"
      "open_index P (oc_header o2) (oc_dek o2) enc' = Inr (oc_index o2)"
      "checked_add HEADER64 (h_index_size (oc_header o2)) = Some (oc_data_start o2)"
      "oc_read o2 = (\<lambda>off n. bindE (file_contents (w_disk v1) ?q) (\<lambda>c. content_reader c off n))" by auto
  have da: "w_disk a1 = w_disk v" "w_disk a2 = w_disk v" "w_disk w1 = w_disk v"
    using open_file_Inr [OF a'(1)] read_header_Inr(1) [OF a'(2)] read_exact_file_Inr [OF a'(4)] d by simp_all
  have db: "w_disk b1 = w_disk v" "w_disk b2 = w_disk v" "w_disk v1 = w_disk v"
    using open_file_Inr [OF b'(1)] read_header_Inr(1) [OF b'(2)] read_exact_file_Inr [OF b'(4)] by simp_all
  have h: "oc_header o1 = oc_header o2" using read_header_Inr(2) [OF a'(2)] read_header_Inr(2) [OF b'(2)] da db by auto
  moreover have "oc_dek o1 = oc_dek o2" using a'(3) b'(3) h by simp
  moreover have "enc = enc'" using read_exact_file_Inr [OF a'(4)] read_exact_file_Inr [OF b'(4)] da db h by auto
  ultimately show ?thesis using a'(5-7) b'(5-7) da db by (intro opened_container.equality) simp_all
qed

lemma extract_v2_inner_Inr:
  assumes op: "open_container P container password v = (Inr opened, v')" "w_disk v = w_disk w"
    and st: "content_stored P opened es content" and plain: "\<forall>e \<in> set es. e_id e \<noteq> 1 \<longrightarrow> plain_name (e_name e)"
    and D: "disk_ok (w_disk w)"
    and run: "extract_v2_inner P threads order container out password inject requested w = (Inr (), w')"
  shows "extracted es content out (w_disk w) (w_disk w')"
proof -
  from run obtain w1 o1 w2 w3 tot r w5 where c: "check_cancel w = (Inr (), w1)"
    and o: "open_container P container password (w1\<lparr>w_events := w_events w1 @ [PhaseStarted KeyDerivation]\<rparr>) = (Inr o1, w2)"
    and c2: "check_cancel w2 = (Inr (), w3)"
    and new: "open_new_at out requested (w3\<lparr>w_events := w_events w3 @ snd (tracker_new Extract tot)\<rparr>) = (Inr r, w5)"
    and ex: "extract_tree P threads order o1 inject (fst (tracker_new Extract tot)) r w5 = (Inr (), w')"
    by (auto simp: extract_v2_inner_def bindM_emit bindM_eq_Inr liftE_def Let_def split_beta emit_all_def)
  have d1: "w_disk w1 = w_disk w" using c by (auto simp: check_cancel_def)
  have o1: "o1 = opened" by (rule open_container_deterministic [OF o op(1)]) (simp add: d1 op(2))
  have "w_disk w2 = w_disk w1"
  proof -
    from open_container_Inr [OF o] obtain a1 a2 enc where
      "open_file container (w1\<lparr>w_events := w_events w1 @ [PhaseStarted KeyDerivation]\<rparr>) = (Inr (follow (w_disk w1) container), a1)"
      "read_header P (follow (w_disk w1) container) a1 = (Inr (oc_header o1), a2)"
      "read_exact_file (follow (w_disk w1) container) (unat (h_index_size (oc_header o1))) HEADER64 a2 = (Inr enc, w2)" by auto
    from open_file_Inr [OF this(1)] read_header_Inr(1) [OF this(2)] read_exact_file_Inr [OF this(3)] show ?thesis by simp
  qed
  then have "w_disk w3 = w_disk w" using c2 d1 by (auto simp: check_cancel_def)
  with extract_tree_Inr [OF st plain new _ ex [unfolded o1]] D show ?thesis by simp
qed

end
