(* ===== verification/Pack.thy ===== *)
theory Pack
  imports Scan V2Container
begin

text \<open>
  Packing a directory into a container (\<open>pack.rs\<close>): the checks and keys of \<open>pack_inner\<close>, the
  encryption of every source into its place of a private temporary file, the self-verification
  and the rename that publishes the result. The workers of the thread pool take sources and
  chunks one at a time, in any order the schedule gives; the order they finish in is theirs.
\<close>

section \<open>Requests\<close>

text \<open>\<open>None\<close> outside of the tests.\<close>

datatype pack_fault = NoFault | OutputAfterTemp | SourceChangedAfterScan

record pack_options =
  po_argon2_m_cost :: u32
  po_argon2_t_cost :: u32
  po_argon2_p_cost :: u32
  po_max_index_size :: u64
  po_threads :: nat
  po_temporary_path :: "path option"

definition pack_options_default :: "nat option \<Rightarrow> pack_options" where
  "pack_options_default parallelism =
     \<lparr>po_argon2_m_cost = 65536, po_argon2_t_cost = 3, po_argon2_p_cost = 4,
      po_max_index_size = MAX_INDEX_SIZE, po_threads = default_threads parallelism,
      po_temporary_path = None\<rparr>"

record pack_request =
  pq_source :: path
  pq_output :: path
  pq_password :: string
  pq_duress_password :: "string option"
  pq_options :: pack_options

record schedules =
  sd_sources :: "(u64 \<times> source_snapshot) list \<Rightarrow> (u64 \<times> source_snapshot) list"
  sd_chunks :: "u64 list \<Rightarrow> u64 list"
  sd_verify :: "(entry \<times> u64) list \<Rightarrow> (entry \<times> u64) list"

text \<open>A schedule takes everything it is given.\<close>

definition schedules_ok :: "schedules \<Rightarrow> bool" where
  "schedules_ok sd \<longleftrightarrow> (\<forall>xs. set (sd_sources sd xs) = set xs) \<and> (\<forall>xs. set (sd_chunks sd xs) = set xs) \<and>
     (\<forall>xs. set (sd_verify sd xs) = set xs)"

section \<open>Names beside the output\<close>

text \<open>\<open>TempOutput\<close>: the guard removes the temporary file on every exit but the last one.\<close>

definition with_temp_output :: "path \<Rightarrow> unit io \<Rightarrow> unit io" where
  "with_temp_output temp body w =
     (case body w of
        (Inr u, w') \<Rightarrow> (Inr u, w')
      | (Inl e, w') \<Rightarrow> (Inl e, snd (remove_one_file temp w')))"

definition output_parent :: "path \<Rightarrow> path" where
  "output_parent output = (case path_parent output of Some parent \<Rightarrow> parent | None \<Rightarrow> [])"

fun temporary_path_loop :: "nat \<Rightarrow> path \<Rightarrow> string \<Rightarrow> path io" where
  "temporary_path_loop 0 parent name = liftE (bail ''Unable to allocate a temporary output name'')"
| "temporary_path_loop (Suc n) parent name =
     bindM (fill_bytes 8) (\<lambda>random.
     let candidate = parent @ [''.'' @ name @ ''.'' @ hex_encode random @ ''.tmp''] in
     bindM (path_exists candidate) (\<lambda>exists.
     if \<not> exists then returnM candidate else temporary_path_loop n parent name))"

definition temporary_path :: "path \<Rightarrow> path io" where
  "temporary_path output =
     temporary_path_loop 32 (output_parent output)
       (case Option.bind (path_file_name output) to_str of Some name \<Rightarrow> name | None \<Rightarrow> ''vault.cfs'')"

definition validate_requested_temporary_path :: "path \<Rightarrow> path \<Rightarrow> path io" where
  "validate_requested_temporary_path output requested =
     bindM (liftE (ensure (path_parent requested = path_parent output)
       ''Temporary container must be a sibling of the final output'')) (\<lambda>_.
     bindM (liftE (ensure (requested \<noteq> output) ''Temporary container must differ from the final output'')) (\<lambda>_.
     bindM (liftE (ensure (path_file_name requested \<noteq> None) ''Temporary container must name a file'')) (\<lambda>_.
     bindM (is_absent requested) (\<lambda>absent.
     bindM (liftE (ensure absent ''Temporary container already exists'')) (\<lambda>_.
     returnM requested)))))"

section \<open>Sources\<close>

definition ensure_unchanged :: "source_snapshot \<Rightarrow> path \<Rightarrow> unit io" where
  "ensure_unchanged snapshot file =
     bindM (fingerprint_of file) (\<lambda>fingerprint.
     liftE (ensure (fingerprint = sn_fingerprint snapshot)
       (''Source file changed while packing: '' @ display_path (sn_path snapshot))))"

definition encrypt_source_chunk ::
  "prims \<Rightarrow> path \<Rightarrow> u64 \<Rightarrow> source_snapshot \<Rightarrow> path \<Rightarrow> entry \<Rightarrow> header \<Rightarrow> bytes \<Rightarrow> u64 \<Rightarrow> progress_tracker \<Rightarrow> progress_tracker io" where
  "encrypt_source_chunk P output data_start snapshot file entry h key chunk_index progress =
     bindM check_cancel (\<lambda>_.
     bindM (liftE (context_opt ''Source chunk offset overflow'' (checked_mul chunk_index CHUNK64))) (\<lambda>plain_offset.
     let expected = min CHUNK64 (e_size entry - plain_offset) in
     bindM (contextM (''Unable to read '' @ display_path (sn_path snapshot) @ '' chunk '' @ dec_string (unat chunk_index))
       (read_exact_file file (unat expected) plain_offset)) (\<lambda>buffer.
     bindM (liftE (encrypt_aead P key (chunk_nonce chunk_index) (chunk_aad h entry chunk_index expected) buffer)) (\<lambda>encrypted.
     bindM (liftE (context_opt ''Encrypted chunk offset overflow'' (checked_mul chunk_index (CHUNK64 + TAG_SIZE)))) (\<lambda>relative.
     bindM (liftE (context_opt ''Encrypted chunk position overflow''
       (Option.bind (checked_add data_start (e_data_offset entry)) (\<lambda>value. checked_add value relative)))) (\<lambda>destination.
     bindM (write_file_at output destination encrypted) (\<lambda>_.
     let (progress', events) = advance expected progress
      in bindM (emit_all events) (\<lambda>_. returnM progress'))))))))"

definition encrypt_source_file ::
  "prims \<Rightarrow> schedules \<Rightarrow> path \<Rightarrow> u64 \<Rightarrow> source_snapshot \<Rightarrow> entry \<Rightarrow> header \<Rightarrow> bytes \<Rightarrow> progress_tracker \<Rightarrow> progress_tracker io" where
  "encrypt_source_file P sd output data_start snapshot entry h dek progress =
     bindM (contextM (''Unable to open '' @ display_path (sn_path snapshot)) (open_file (sn_path snapshot))) (\<lambda>file.
     bindM (ensure_unchanged snapshot file) (\<lambda>_.
     bindM (liftE (derive_file_key P dek (h_container_id h) (e_file_id entry))) (\<lambda>key.
     bindM (foldM (encrypt_source_chunk P output data_start snapshot file entry h key)
       (sd_chunks sd (map of_nat [0..<unat (e_chunk_count entry)])) progress) (\<lambda>progress.
     bindM (ensure_unchanged snapshot file) (\<lambda>_.
     returnM progress)))))"

definition encrypt_source ::
  "prims \<Rightarrow> schedules \<Rightarrow> path \<Rightarrow> u64 \<Rightarrow> entry list \<Rightarrow> header \<Rightarrow> bytes \<Rightarrow> u64 \<times> source_snapshot \<Rightarrow> progress_tracker \<Rightarrow> progress_tracker io" where
  "encrypt_source P sd output data_start entries h dek source progress =
     bindM check_cancel (\<lambda>_.
     bindM (liftE (context_opt ''Internal source entry mismatch''
       (map_of (rev (map (\<lambda>e. (e_id e, e)) entries)) (fst source)))) (\<lambda>entry.
     encrypt_source_file P sd output data_start (snd source) entry h dek progress))"

section \<open>Packing\<close>

text \<open>What the checks, the scan and the key generation hand to the writing part.\<close>

record pack_plan =
  pl_entries :: "entry list"
  pl_sources :: "(u64 \<times> source_snapshot) list"
  pl_total :: u64
  pl_header :: header
  pl_dek :: bytes
  pl_index :: bytes

definition fresh_header :: "bytes \<Rightarrow> bytes \<Rightarrow> u64 \<Rightarrow> u64 \<Rightarrow> nat \<Rightarrow> key_slot \<times> key_slot \<Rightarrow> duress_slot \<Rightarrow> header" where
  "fresh_header container_id index_nonce index_size data_size entry_count slots duress =
     \<lparr>h_magic = MAGIC, h_version = VERSION, h_header_size = of_nat HEADER_SIZE, h_container_id = container_id,
      h_chunk_size = of_nat CHUNK_SIZE, h_index_size = index_size, h_data_size = data_size,
      h_entry_count = of_nat entry_count, h_index_nonce = index_nonce, h_slots = slots, h_duress = duress\<rparr>"

definition pack_keys ::
  "prims \<Rightarrow> string \<Rightarrow> string option \<Rightarrow> argon2_params \<Rightarrow> entry list \<Rightarrow> bytes \<Rightarrow> u64 \<Rightarrow> u64 \<Rightarrow> (header \<times> bytes \<times> bytes) io" where
  "pack_keys P password duress_password params entries serialized_index index_size data_size =
     bindM (fill_bytes 16) (\<lambda>container_id.
     bindM (fill_bytes 12) (\<lambda>index_nonce.
     bindM (fill_bytes 32) (\<lambda>dek.
     bindM random_disabled_slot (\<lambda>slot0.
     bindM random_disabled_slot (\<lambda>slot1.
     bindM random_disabled_duress (\<lambda>duress.
     let h = fresh_header container_id index_nonce index_size data_size (length entries) (slot0, slot1) duress in
     bindM (emit (PhaseStarted KeyDerivation)) (\<lambda>_.
     bindM (configure_duress P h duress_password params) (\<lambda>h.
     bindM check_cancel (\<lambda>_.
     bindM (make_key_slot P h password dek 1 params) (\<lambda>slot.
     let h = set_slot 0 slot h in
     bindM check_cancel (\<lambda>_.
     bindM (liftE (derive_index_key P dek (h_container_id h))) (\<lambda>index_key.
     bindM (liftE (encrypt_aead P index_key (h_index_nonce h) (index_aad P h) serialized_index)) (\<lambda>encrypted_index.
     bindM (liftE (ensure (of_nat (length encrypted_index) = h_index_size h) ''Internal index size mismatch'')) (\<lambda>_.
     returnM (h, dek, encrypted_index)))))))))))))))"

definition pack_prepare ::
  "prims \<Rightarrow> walker \<Rightarrow> nat \<Rightarrow> path \<Rightarrow> string \<Rightarrow> string option \<Rightarrow> argon2_params \<Rightarrow> u64 \<Rightarrow> pack_plan io" where
  "pack_prepare P walk fuel source_dir password duress_password params max_index_size =
     bindM check_cancel (\<lambda>_.
     bindM (contextM (''Unable to inspect '' @ display_path source_dir) (symlink_metadata source_dir)) (\<lambda>source_meta.
     bindM (liftE (ensure (source_meta = DirNode) ''Pack source must be a real directory, not a link or reparse point'')) (\<lambda>_.
     bindM (liftE (ensure (duress_password \<noteq> Some password) ''Duress password must differ from the master password'')) (\<lambda>_.
     bindM (liftE (validate_argon2 params)) (\<lambda>_.
     bindM check_cancel (\<lambda>_.
     bindM (emit (PhaseStarted Scan)) (\<lambda>_.
     bindM (emit (Progress \<lparr>pr_phase = Scan, pr_completed = 0, pr_total = 0\<rparr>)) (\<lambda>_.
     bindM (scan_source walk fuel source_dir) (\<lambda>(entries, sources, total_plaintext, data_size).
     bindM (emit (ScanCompleted (length entries - 1) total_plaintext)) (\<lambda>_.
     bindM (liftE (p_index_to_vec P entries)) (\<lambda>serialized_index.
     bindM (liftE (context_opt ''Index size overflow'' (checked_add (of_nat (length serialized_index)) TAG_SIZE))) (\<lambda>index_size.
     bindM (liftE (ensure (\<not> min max_index_size MAX_INDEX_SIZE < index_size)
       (''Encrypted index is '' @ dec_string (unat index_size) @ '' bytes, exceeding the configured/local limit of ''
         @ dec_string (unat (min max_index_size MAX_INDEX_SIZE)) @ '' bytes''))) (\<lambda>_.
     bindM (pack_keys P password duress_password params entries serialized_index index_size data_size) (\<lambda>(h, dek, encrypted_index).
     returnM \<lparr>pl_entries = entries, pl_sources = sources, pl_total = total_plaintext, pl_header = h,
       pl_dek = dek, pl_index = encrypted_index\<rparr>))))))))))))))"

text \<open>The fixed part of the file, then every source.\<close>

definition pack_write :: "prims \<Rightarrow> schedules \<Rightarrow> pack_fault \<Rightarrow> pack_plan \<Rightarrow> path \<Rightarrow> unit io" where
  "pack_write P sd fault plan temp =
     bindM (liftE (context_opt ''Container data offset overflow'' (checked_add HEADER64 (h_index_size (pl_header plan))))) (\<lambda>data_start.
     bindM (liftE (context_opt ''Container size overflow'' (checked_add data_start (h_data_size (pl_header plan))))) (\<lambda>container_size.
     bindM (set_file_len temp container_size) (\<lambda>_.
     bindM (liftE (serialize_header P (pl_header plan))) (\<lambda>bs.
     bindM (write_file_at temp 0 bs) (\<lambda>_.
     bindM (write_file_at temp HEADER64 (pl_index plan)) (\<lambda>_.
     bindM (case fault of
         NoFault \<Rightarrow> returnM ()
       | OutputAfterTemp \<Rightarrow> liftE (bail ''Injected container output failure'')
       | SourceChangedAfterScan \<Rightarrow>
           bindM (liftE (context_opt ''Injected source-change test requires a source file''
             (case pl_sources plan of [] \<Rightarrow> None | source # _ \<Rightarrow> Some source))) (\<lambda>source.
           bindM (open_read_write (sn_path (snd source))) (\<lambda>file.
           bindM (file_len file) (\<lambda>len. write_file_at file len (bytes_of ''changed''))))) (\<lambda>_.
     let (progress, events) = tracker_new Encrypt (pl_total plan) in
     bindM (emit_all events) (\<lambda>_.
     bindM (foldM (encrypt_source P sd temp data_start (pl_entries plan) (pl_header plan) (pl_dek plan))
       (sd_sources sd (pl_sources plan)) progress) (\<lambda>_.
     sync_file temp)))))))))"

definition pack_self_verify :: "prims \<Rightarrow> schedules \<Rightarrow> pack_plan \<Rightarrow> path \<Rightarrow> string \<Rightarrow> unit io" where
  "pack_self_verify P sd plan temp password =
     bindM check_cancel (\<lambda>_.
     bindM (emit (PhaseStarted KeyDerivation)) (\<lambda>_.
     bindM (contextM ''Self-verification could not reopen v2 container'' (open_container P temp password)) (\<lambda>opened.
     bindM check_cancel (\<lambda>_.
     bindM (emit (PhaseStarted SelfVerify)) (\<lambda>_.
     bindM (emit (Progress \<lparr>pr_phase = SelfVerify, pr_completed = 0, pr_total = pl_total plan\<rparr>)) (\<lambda>_.
     bindM (contextM ''Self-verification of packed container failed''
       (reporting self_verify_event (verify_all_with_control P (sd_verify sd) opened))) (\<lambda>_.
     check_cancel)))))))"

text \<open>On Unix \<open>sync_parent\<close> opens and syncs the directory; its failure is only reported.\<close>

definition sync_parent :: "path \<Rightarrow> unit io" where
  "sync_parent parent = bindM (open_file parent) sync_file"

definition pack_commit :: "path \<Rightarrow> path \<Rightarrow> unit io" where
  "pack_commit temp output =
     bindM check_cancel (\<lambda>_.
     bindM (emit (PhaseStarted Commit)) (\<lambda>_.
     bindM (emit CommitStarted) (\<lambda>_.
     bindM (contextM (''Unable to install '' @ display_path output) (rename_noreplace temp output)) (\<lambda>_.
     bindM (\<lambda>w. (case sync_parent (output_parent output) w of
         (Inr _, w') \<Rightarrow> (Inr (), w')
       | (Inl e, w') \<Rightarrow> emit (Warning (''Unable to sync output parent after commit: '' @ display_chain e)) w')) (\<lambda>_.
     emit Committed)))))"

definition pack_output :: "prims \<Rightarrow> schedules \<Rightarrow> pack_fault \<Rightarrow> pack_plan \<Rightarrow> path \<Rightarrow> path \<Rightarrow> string \<Rightarrow> unit io" where
  "pack_output P sd fault plan temp output password =
     with_temp_output temp (
     bindM (contextM ''Unable to create temporary container'' (create_new_file temp)) (\<lambda>_.
     bindM (emit (TemporaryArtifact PackContainer temp)) (\<lambda>_.
     bindM (pack_write P sd fault plan temp) (\<lambda>_.
     bindM (pack_self_verify P sd plan temp password) (\<lambda>_.
     pack_commit temp output)))))"

definition pack_inner ::
  "prims \<Rightarrow> walker \<Rightarrow> nat \<Rightarrow> schedules \<Rightarrow> path \<Rightarrow> path \<Rightarrow> string \<Rightarrow> string option \<Rightarrow> argon2_params \<Rightarrow> u64 \<Rightarrow>
     pack_fault \<Rightarrow> path option \<Rightarrow> unit io" where
  "pack_inner P walk fuel sd source_dir output_file password duress_password params max_index_size fault requested =
     bindM (pack_prepare P walk fuel source_dir password duress_password params max_index_size) (\<lambda>plan.
     bindM (case requested of
         Some path \<Rightarrow> validate_requested_temporary_path output_file path
       | None \<Rightarrow> temporary_path output_file) (\<lambda>temp.
     pack_output P sd fault plan temp output_file password))"

text \<open>\<open>pool\<close> is the answer of rayon to the request for a thread pool.\<close>

definition pack_with_control_and_temp ::
  "prims \<Rightarrow> walker \<Rightarrow> nat \<Rightarrow> schedules \<Rightarrow> (nat \<Rightarrow> unit result) \<Rightarrow> path \<Rightarrow> path \<Rightarrow> string \<Rightarrow> string option \<Rightarrow>
     argon2_params \<Rightarrow> u64 \<Rightarrow> nat \<Rightarrow> path option \<Rightarrow> unit io" where
  "pack_with_control_and_temp P walk fuel sd pool source_dir output_file password duress_password params
     max_index_size threads requested =
     bindM (liftE (context_err ''Unable to create worker thread pool'' (pool threads))) (\<lambda>_.
     pack_inner P walk fuel sd source_dir output_file password duress_password params max_index_size
       NoFault requested)"

definition pack_execute ::
  "prims \<Rightarrow> walker \<Rightarrow> nat \<Rightarrow> schedules \<Rightarrow> (nat \<Rightarrow> unit result) \<Rightarrow> pack_request \<Rightarrow> unit io" where
  "pack_execute P walk fuel sd pool request =
     (let options = pq_options request in
     map_errM typed (pack_with_control_and_temp P walk fuel sd pool (pq_source request) (pq_output request)
       (pq_password request) (pq_duress_password request)
       \<lparr>m_cost = po_argon2_m_cost options, t_cost = po_argon2_t_cost options, p_cost = po_argon2_p_cost options\<rparr>
       (po_max_index_size options) (po_threads options) (po_temporary_path options)))"

end
