(* ===== verification/PackProofs.thy ===== *)
theory PackProofs
  imports Pack ReadOnlyFs
begin

text \<open>
  What packing guarantees. A pack that succeeds has published, in one rename onto a name that was
  free, a container that opens with the password and holds exactly the scanned files; one that
  fails has changed nothing but its private temporary file.
\<close>

section \<open>One chunk\<close>

lemma slice_chunk:
  "length xs = n \<Longrightarrow> slice (i * CHUNK_SIZE) (chunk_len n i) xs = slice (i * CHUNK_SIZE) CHUNK_SIZE xs"
  by (auto simp: slice_def chunk_len_def min_def)

definition chunk_at :: "u64 \<Rightarrow> entry \<Rightarrow> nat \<Rightarrow> nat" where
  "chunk_at start e i = unat start + unat (e_data_offset e) + i * (CHUNK_SIZE + 16)"

lemma encrypt_source_chunk_Inr:
  assumes run: "encrypt_source_chunk P T start snapshot q e h key (of_nat i) progress w = (Inr progress', w')"
    and i: "i < chunks_for (unat (e_size e))"
    and bound: "chunk_at start e i + chunk_len (unat (e_size e)) i + 16 < 2 ^ 64"
    and f: "w_disk w q = Some (FileNode f)" "length (fd_bytes f) = unat (e_size e)"
    and g: "w_disk w T = Some (FileNode g)"
  shows "\<exists>ct g'. encrypt_aead P key (chunk_nonce (of_nat i))
        (chunk_aad h e (of_nat i) (of_nat (length (slice (i * CHUNK_SIZE) CHUNK_SIZE (fd_bytes f)))))
        (slice (i * CHUNK_SIZE) CHUNK_SIZE (fd_bytes f)) = Inr ct \<and>
      length (slice (i * CHUNK_SIZE) CHUNK_SIZE (fd_bytes f)) = chunk_len (unat (e_size e)) i \<and>
      w_disk w' = (w_disk w)(T := Some (FileNode g')) \<and>
      fd_bytes g' = write_bytes (chunk_at start e i) ct (fd_bytes g)"
proof -
  let ?n = "unat (e_size e)" and ?plain = "slice (i * CHUNK_SIZE) CHUNK_SIZE (fd_bytes f)"
  obtain ps cl rel base :: u64 where c:
    "checked_mul (of_nat i) CHUNK64 = Some ps" "min CHUNK64 (e_size e - ps) = of_nat (chunk_len ?n i)"
    "unat ps = i * CHUNK_SIZE" "checked_mul (of_nat i) (CHUNK64 + TAG_SIZE) = Some rel"
    "checked_add start (e_data_offset e) = Some base" "checked_add base rel = Some (of_nat (chunk_at start e i))"
    using chunk_words [OF i, of start] bound unfolding chunk_at_def by metis
  have len: "unat (of_nat (chunk_len ?n i) :: u64) = chunk_len ?n i"
    using bound by (intro unat_of_nat_small) simp
  have pos: "unat (of_nat (chunk_at start e i) :: u64) = chunk_at start e i"
    using bound by (intro unat_of_nat_small) simp
  from run obtain w1 buffer w2 ct w3 where
    w1: "check_cancel w = (Inr (), w1)"
    and rd: "read_exact_file q (chunk_len ?n i) ps w1 = (Inr buffer, w2)"
    and ct: "encrypt_aead P key (chunk_nonce (of_nat i)) (chunk_aad h e (of_nat i) (of_nat (chunk_len ?n i))) buffer = Inr ct"
    and wr: "write_file_at T (of_nat (chunk_at start e i)) ct w2 = (Inr (), w3)" and w': "w_disk w' = w_disk w3"
    by (auto simp: encrypt_source_chunk_def bindM_eq_Inr contextM_eq_Inr result_simps c(1,2,4,5,6) len Let_def
        emit_all_def split: prod.splits)
  have d1: "w_disk w1 = w_disk w" using w1 by (auto simp: check_cancel_def)
  have d2: "w_disk w2 = w_disk w" and rdf: "content_reader (fd_bytes f) ps (chunk_len ?n i) = Inr buffer"
    using read_exact_file_Inr [OF rd] d1 f(1) by auto
  have buffer: "buffer = ?plain"
    using content_reader_Inr [OF rdf] slice_chunk [OF f(2), of i] c(3) by simp
  have "length buffer = chunk_len ?n i" using content_reader_Inr [OF rdf] by (rule conjunct2)
  then have blen: "length ?plain = chunk_len ?n i" by (simp only: buffer)
  obtain g' where "w_disk w3 = (w_disk w)(T := Some (FileNode g'))" "fd_bytes g' = write_bytes (chunk_at start e i) ct (fd_bytes g)"
    using wr g d2 by (auto simp: write_file_at_def fs_call_eq_Inr put_node_def pos)
  with ct buffer blen w' show ?thesis by auto
qed

section \<open>Places\<close>

text \<open>The setting of the writing part: an index that fits its header, and a container of \<open>N\<close> bytes.\<close>

definition pack_ctx :: "prims \<Rightarrow> header \<Rightarrow> entry list \<Rightarrow> u64 \<Rightarrow> nat \<Rightarrow> bool" where
  "pack_ctx P h es start N \<longleftrightarrow>
     aead_ok P \<and> index_ok h es \<and> unat start + unat (h_data_size h) = N \<and> N < 2 ^ 64"

lemma files_ofD: "e \<in> set (files_of es) \<Longrightarrow> e \<in> set es \<and> e_kind e = File"
  by (simp add: files_of_def)

lemma pack_ctx_entry:
  assumes "pack_ctx P h es start N" "e \<in> set (files_of es)"
  shows "unat (e_chunk_count e) = chunks_for (unat (e_size e))"
    "unat (e_encrypted_size e) = unat (e_size e) + 16 * chunks_for (unat (e_size e))"
    "unat (e_data_offset e) + unat (e_encrypted_size e) \<le> unat (h_data_size h)"
proof -
  have e: "e \<in> set es" "e_kind e = File" using assms(2) files_ofD by auto
  have ok: "index_ok h es" using assms(1) by (simp add: pack_ctx_def)
  then have "entry_ok e" using e(1) by (simp add: index_ok_def)
  from file_entry_sizes [OF this e(2)] index_ok_regions(1) [OF ok e]
  show "unat (e_chunk_count e) = chunks_for (unat (e_size e))"
    "unat (e_encrypted_size e) = unat (e_size e) + 16 * chunks_for (unat (e_size e))"
    "unat (e_data_offset e) + unat (e_encrypted_size e) \<le> unat (h_data_size h)" by simp_all
qed

lemma chunk_place:
  assumes ctx: "pack_ctx P h es start N" and e: "e \<in> set (files_of es)" and i: "i < unat (e_chunk_count e)"
  shows "unat start \<le> chunk_at start e i" "chunk_at start e i + chunk_len (unat (e_size e)) i + 16 \<le> N"
proof -
  note s = pack_ctx_entry [OF ctx e]
  have "i * (CHUNK_SIZE + 16) + chunk_len (unat (e_size e)) i + 16 \<le> unat (e_encrypted_size e)"
    using chunk_region_inside [of i "unat (e_size e)"] i s by simp
  with s(3) ctx show "unat start \<le> chunk_at start e i" "chunk_at start e i + chunk_len (unat (e_size e)) i + 16 \<le> N"
    by (simp_all add: chunk_at_def pack_ctx_def)
qed

lemma chunk_disjoint:
  assumes ctx: "pack_ctx P h es start N"
    and e: "e \<in> set (files_of es)" "i < unat (e_chunk_count e)"
    and e': "e' \<in> set (files_of es)" "i' < unat (e_chunk_count e')" and ne: "(e, i) \<noteq> (e', i')"
  shows "chunk_at start e i + (chunk_len (unat (e_size e)) i + 16) \<le> chunk_at start e' i' \<or>
    chunk_at start e' i' + (chunk_len (unat (e_size e')) i' + 16) \<le> chunk_at start e i"
proof (cases "e = e'")
  case True
  have step: "a * (CHUNK_SIZE + 16) + (chunk_len n a + 16) \<le> b * (CHUNK_SIZE + 16)" if "a < b" for a b n
  proof -
    have "Suc a * (CHUNK_SIZE + 16) \<le> b * (CHUNK_SIZE + 16)" using that by (intro mult_le_mono1) simp
    with chunk_len_bounds(2) [of n a] show ?thesis by simp
  qed
  from ne True have "i < i' \<or> i' < i" by auto
  then show ?thesis using step True by (auto simp: chunk_at_def)
next
  case False
  note s = pack_ctx_entry [OF ctx e(1)] and s' = pack_ctx_entry [OF ctx e'(1)]
  have r: "i * (CHUNK_SIZE + 16) + chunk_len (unat (e_size e)) i + 16 \<le> unat (e_encrypted_size e)"
    "i' * (CHUNK_SIZE + 16) + chunk_len (unat (e_size e')) i' + 16 \<le> unat (e_encrypted_size e')"
    using chunk_region_inside [of i "unat (e_size e)"] chunk_region_inside [of i' "unat (e_size e')"] e(2) e'(2) s s'
    by simp_all
  have "unat (e_data_offset e) + unat (e_encrypted_size e) \<le> unat (e_data_offset e') \<or>
      unat (e_data_offset e') + unat (e_encrypted_size e') \<le> unat (e_data_offset e)"
    using index_ok_regions(2) [of h es e e'] ctx files_ofD [OF e(1)] files_ofD [OF e'(1)] False
    unfolding pack_ctx_def by blast
  then show ?thesis using r by (auto simp: chunk_at_def)
qed

section \<open>The file as the workers fill it\<close>

definition chunk_in ::
  "prims \<Rightarrow> header \<Rightarrow> bytes \<Rightarrow> u64 \<Rightarrow> (entry \<Rightarrow> bytes) \<Rightarrow> bytes \<Rightarrow> entry \<times> nat \<Rightarrow> bool" where
  "chunk_in P h dek start content bs task \<longleftrightarrow>
     (case task of (e, i) \<Rightarrow>
       (\<exists>ct. encrypt_chunk P h dek e i (slice (i * CHUNK_SIZE) CHUNK_SIZE (content e)) = Inr ct \<and>
          length (slice (i * CHUNK_SIZE) CHUNK_SIZE (content e)) = chunk_len (unat (e_size e)) i \<and>
          length ct = chunk_len (unat (e_size e)) i + 16 \<and> slice (chunk_at start e i) (length ct) bs = ct))"

definition file_task :: "entry list \<Rightarrow> entry \<times> nat \<Rightarrow> bool" where
  "file_task es task \<longleftrightarrow> fst task \<in> set (files_of es) \<and> snd task < unat (e_chunk_count (fst task))"

definition filled ::
  "prims \<Rightarrow> header \<Rightarrow> bytes \<Rightarrow> entry list \<Rightarrow> u64 \<Rightarrow> nat \<Rightarrow> (entry \<Rightarrow> bytes) \<Rightarrow> disk \<Rightarrow> path \<Rightarrow> bytes \<Rightarrow>
     (entry \<times> nat) set \<Rightarrow> world \<Rightarrow> bool" where
  "filled P h dek es start N content D T prefix tasks w \<longleftrightarrow>
     (\<exists>g. w_disk w = D(T := Some (FileNode g)) \<and> length (fd_bytes g) = N \<and>
        take (unat start) (fd_bytes g) = prefix \<and>
        (\<forall>task \<in> tasks. file_task es task \<and> chunk_in P h dek start content (fd_bytes g) task))"

lemma filled_write:
  assumes ctx: "pack_ctx P h es start N" and fill: "filled P h dek es start N content D T prefix tasks w"
    and task: "e \<in> set (files_of es)" "i < unat (e_chunk_count e)"
    and ct: "encrypt_chunk P h dek e i (slice (i * CHUNK_SIZE) CHUNK_SIZE (content e)) = Inr ct"
      "length (slice (i * CHUNK_SIZE) CHUNK_SIZE (content e)) = chunk_len (unat (e_size e)) i"
    and g: "w_disk w T = Some (FileNode g)" and w': "w_disk w' = (w_disk w)(T := Some (FileNode g'))"
    and g': "fd_bytes g' = write_bytes (chunk_at start e i) ct (fd_bytes g)"
  shows "filled P h dek es start N content D T prefix (insert (e, i) tasks) w'"
proof -
  have old: "w_disk w = D(T := Some (FileNode g))" "length (fd_bytes g) = N" "take (unat start) (fd_bytes g) = prefix"
      "\<And>task. task \<in> tasks \<Longrightarrow> file_task es task \<and> chunk_in P h dek start content (fd_bytes g) task"
    using fill g unfolding filled_def by auto
  have ctl: "length ct = chunk_len (unat (e_size e)) i + 16"
    using ct decrypt_aead_encrypt [of P] ctx
    by (auto simp: encrypt_chunk_def result_simps pack_ctx_def)
  note pl = chunk_place [OF ctx task]
  have len: "length (fd_bytes g') = N" using g' old(2) ctl pl(2) by simp
  have other: "slice o1 n (fd_bytes g') = slice o1 n (fd_bytes g)"
    if "o1 + n \<le> chunk_at start e i \<or> chunk_at start e i + length ct \<le> o1" "o1 + n \<le> N" for o1 n
    using slice_write_other [of o1 n "chunk_at start e i" ct "fd_bytes g"] that old(2) g' by simp
  have "take (unat start) (fd_bytes g') = prefix"
    using other [of 0 "unat start"] pl old(3) by (simp add: slice_def)
  moreover have "chunk_in P h dek start content (fd_bytes g') (e, i)"
    using ct ctl slice_write_same [of "chunk_at start e i" ct "fd_bytes g"] g' by (simp add: chunk_in_def)
  moreover have "chunk_in P h dek start content (fd_bytes g') (e', i')" if t': "(e', i') \<in> tasks" "(e', i') \<noteq> (e, i)" for e' i'
  proof -
    have t: "e' \<in> set (files_of es)" "i' < unat (e_chunk_count e')" using old(4) [OF t'(1)] by (auto simp: file_task_def)
    obtain ct' where c': "encrypt_chunk P h dek e' i' (slice (i' * CHUNK_SIZE) CHUNK_SIZE (content e')) = Inr ct'"
        "length (slice (i' * CHUNK_SIZE) CHUNK_SIZE (content e')) = chunk_len (unat (e_size e')) i'"
        "length ct' = chunk_len (unat (e_size e')) i' + 16" "slice (chunk_at start e' i') (length ct') (fd_bytes g) = ct'"
      using old(4) [OF t'(1)] by (auto simp: chunk_in_def)
    have "slice (chunk_at start e' i') (length ct') (fd_bytes g') = ct'"
      using other [of "chunk_at start e' i'" "length ct'"] chunk_disjoint [OF ctx t task t'(2)] c'(3,4) ctl
        chunk_place(2) [OF ctx t] by auto
    with c' show ?thesis by (simp add: chunk_in_def)
  qed
  ultimately show ?thesis
    unfolding filled_def using w' old(1,4) len task
    by (intro exI [of _ g']) (auto simp: file_task_def)
qed

lemma filled_same_disk:
  "filled P h dek es start N content D T prefix tasks w \<Longrightarrow> w_disk w' = w_disk w \<Longrightarrow>
   filled P h dek es start N content D T prefix tasks w'"
  by (simp add: filled_def)

text \<open>A source as the scan left it: another path than the output, with the content the index
  describes.\<close>

definition source_ready ::
  "entry list \<Rightarrow> (entry \<Rightarrow> bytes) \<Rightarrow> disk \<Rightarrow> path \<Rightarrow> u64 \<times> source_snapshot \<Rightarrow> bool" where
  "source_ready es content D T source \<longleftrightarrow>
     (\<exists>e \<in> set (files_of es). e_id e = fst source \<and> sn_path (snd source) \<noteq> T \<and> length (content e) = unat (e_size e) \<and>
        (\<exists>f. D (sn_path (snd source)) = Some (FileNode f) \<and> fd_bytes f = content e))"

definition tasks_of :: "entry list \<Rightarrow> (u64 \<times> source_snapshot) set \<Rightarrow> (entry \<times> nat) set" where
  "tasks_of es sources =
     {(e, i). e \<in> set (files_of es) \<and> e_id e \<in> fst ` sources \<and> i < unat (e_chunk_count e)}"

lemma encrypt_source_file_filled:
  assumes ctx: "pack_ctx P h es start N" and sd: "schedules_ok sd"
    and run: "encrypt_source_file P sd T start snapshot e h dek progress w = (Inr progress', w')"
    and fill: "filled P h dek es start N content D T prefix tasks w"
    and e: "e \<in> set (files_of es)" and src: "sn_path snapshot \<noteq> T" "D (sn_path snapshot) = Some (FileNode f)"
      "fd_bytes f = content e" "length (content e) = unat (e_size e)"
  shows "filled P h dek es start N content D T prefix (tasks \<union> {(e, i) | i. i < unat (e_chunk_count e)}) w'"
proof -
  let ?chunks = "sd_chunks sd (map of_nat [0..<unat (e_chunk_count e)]) :: u64 list"
  obtain q w1 w2 key p w3 where o: "open_file (sn_path snapshot) w = (Inr q, w1)"
    and u1: "ensure_unchanged snapshot q w1 = (Inr (), w2)"
    and key: "derive_file_key P dek (h_container_id h) (e_file_id e) = Inr key"
    and loop: "foldM (encrypt_source_chunk P T start snapshot q e h key) ?chunks progress w2 = (Inr p, w3)"
    and u2: "ensure_unchanged snapshot q w3 = (Inr (), w')"
    using run by (auto simp: encrypt_source_file_def bindM_eq_Inr contextM_eq_Inr)
  have pure: "w_disk b = w_disk a" if "ensure_unchanged snapshot q a = (r, b)" for a b r
  proof -
    have "disk_frame (\<lambda>_. False) (ensure_unchanged snapshot q)"
      unfolding ensure_unchanged_def by (intro frame_intros)
    from pure_disk [OF this, of a r b] that show ?thesis by simp
  qed
  have at: "w_disk v (sn_path snapshot) = Some (FileNode f)" if "filled P h dek es start N content D T prefix ts v" for ts v
    using that src(1,2) by (auto simp: filled_def)
  have q: "q = sn_path snapshot" "w_disk w1 = w_disk w"
    using open_file_Inr [OF o] at [OF fill] by (auto simp: follow_def)
  note n = pack_ctx_entry(1) [OF ctx e]
  let ?J = "\<lambda>(A :: u64 set) v. filled P h dek es start N content D T prefix (tasks \<union> {(e, unat c) | c. c \<in> A}) v"
  have members: "c \<in> set ?chunks \<longleftrightarrow> (\<exists>i < unat (e_chunk_count e). c = of_nat i)" for c
    using sd by (auto simp: schedules_ok_def)
  have ui: "unat (of_nat i :: u64) = i" if "i < unat (e_chunk_count e)" for i
    using that unat_u64_bound [of "e_chunk_count e"] by (intro unat_of_nat_small) (simp del: unat_u64_bound)
  have "?J ({} \<union> set ?chunks) w3"
  proof (rule foldM_collect [OF loop, where J = ?J])
    show "?J {} w2" using filled_same_disk [OF fill] pure [OF u1] q(2) by simp
  next
    fix c A pr v pr' v'
    assume c: "c \<in> set ?chunks" and J: "?J A v"
      and step: "encrypt_source_chunk P T start snapshot q e h key c pr v = (Inr pr', v')"
    obtain i where i: "c = of_nat i" "i < unat (e_chunk_count e)" using c members by auto
    obtain g where g: "w_disk v T = Some (FileNode g)" using J by (auto simp: filled_def)
    have bound: "chunk_at start e i + chunk_len (unat (e_size e)) i + 16 < 2 ^ 64"
      using chunk_place(2) [OF ctx e i(2)] ctx by (simp add: pack_ctx_def)
    have flen: "length (fd_bytes f) = unat (e_size e)" and i': "i < chunks_for (unat (e_size e))"
      using src(3,4) i(2) n by simp_all
    from encrypt_source_chunk_Inr [OF step [unfolded i(1)] i' bound _ flen g] at [OF J] q(1)
    obtain ct g' where ct: "encrypt_aead P key (chunk_nonce (of_nat i))
        (chunk_aad h e (of_nat i) (of_nat (length (slice (i * CHUNK_SIZE) CHUNK_SIZE (content e)))))
        (slice (i * CHUNK_SIZE) CHUNK_SIZE (content e)) = Inr ct"
      "length (slice (i * CHUNK_SIZE) CHUNK_SIZE (content e)) = chunk_len (unat (e_size e)) i"
      "w_disk v' = (w_disk v)(T := Some (FileNode g'))"
      "fd_bytes g' = write_bytes (chunk_at start e i) ct (fd_bytes g)"
      using src(3) by auto
    have "encrypt_chunk P h dek e i (slice (i * CHUNK_SIZE) CHUNK_SIZE (content e)) = Inr ct"
      using ct(1) key by (simp add: encrypt_chunk_def)
    from filled_write [OF ctx J e i(2) this ct(2) g ct(3,4)]
    have "filled P h dek es start N content D T prefix (insert (e, i) (tasks \<union> {(e, unat c) | c. c \<in> A})) v'" .
    moreover have "insert (e, i) (tasks \<union> {(e, unat c) | c. c \<in> A}) = tasks \<union> {(e, unat d) | d. d \<in> insert c A}"
    proof -
      have "{(e, unat d) | d. d \<in> insert c A} = insert (e, unat c) {(e, unat c) | c. c \<in> A}" by auto
      then show ?thesis using ui [OF i(2)] i(1) by simp
    qed
    ultimately show "?J (insert c A) v'" by simp
  qed
  moreover have "{(e, unat c) | c. c \<in> {} \<union> set ?chunks} = {(e, i) | i. i < unat (e_chunk_count e)}"
    using members ui by (auto; metis)
  ultimately show ?thesis using filled_same_disk pure [OF u2] by simp
qed

lemma encrypt_sources_filled:
  assumes ctx: "pack_ctx P h es start N" and sd: "schedules_ok sd"
    and run: "foldM (encrypt_source P sd T start es h dek) (sd_sources sd sources) progress w = (Inr progress', w')"
    and fill: "filled P h dek es start N content D T prefix {} w"
    and ready: "\<And>source. source \<in> set sources \<Longrightarrow> source_ready es content D T source"
  shows "filled P h dek es start N content D T prefix (tasks_of es (set sources)) w'"
proof -
  let ?J = "\<lambda>A v. filled P h dek es start N content D T prefix (tasks_of es A) v"
  have dist: "distinct (map e_id es)" using ctx by (simp add: pack_ctx_def index_ok_def)
  have "?J ({} \<union> set (sd_sources sd sources)) w'"
  proof (rule foldM_collect [OF run, where J = ?J])
    show "?J {} w" using fill by (simp add: tasks_of_def)
  next
    fix source A pr v pr' v'
    assume mem: "source \<in> set (sd_sources sd sources)" and J: "?J A v"
      and step: "encrypt_source P sd T start es h dek source pr v = (Inr pr', v')"
    obtain e f where e: "e \<in> set (files_of es)" "e_id e = fst source" "sn_path (snd source) \<noteq> T"
        "length (content e) = unat (e_size e)" "D (sn_path (snd source)) = Some (FileNode f)" "fd_bytes f = content e"
      using ready mem sd unfolding schedules_ok_def source_ready_def by blast
    have "map_of (rev (map (\<lambda>e. (e_id e, e)) es)) (fst source) = Some e"
    proof -
      have "distinct (map e_id (rev es))" using dist by (simp flip: rev_map)
      from map_of_entries [OF this] files_ofD [OF e(1)] e(2) show ?thesis by (simp add: rev_map)
    qed
    with step obtain v1 where "check_cancel v = (Inr (), v1)"
      and one: "encrypt_source_file P sd T start (snd source) e h dek pr v1 = (Inr pr', v')"
      by (auto simp: encrypt_source_def bindM_eq_Inr)
    then have "w_disk v1 = w_disk v" by (auto simp: check_cancel_def)
    from encrypt_source_file_filled [OF ctx sd one filled_same_disk [OF J this] e(1,3,5,6,4)]
    have "filled P h dek es start N content D T prefix (tasks_of es A \<union> {(e, i) | i. i < unat (e_chunk_count e)}) v'" .
    moreover have "tasks_of es A \<union> {(e, i) | i. i < unat (e_chunk_count e)} = tasks_of es (insert source A)"
    proof -
      have "x = e" if "x \<in> set (files_of es)" "e_id x = fst source" for x
      proof -
        have "inj_on e_id (set es)" using dist by (simp add: distinct_map)
        from inj_onD [OF this, of x e] that e(2) files_ofD [OF that(1)] files_ofD [OF e(1)] show ?thesis by simp
      qed
      with e(1,2) have iff: "x = e \<longleftrightarrow> x \<in> set (files_of es) \<and> e_id x = fst source" for x by metis
      show ?thesis
      proof (rule set_eqI)
        fix task :: "entry \<times> nat"
        obtain x i where t: "task = (x, i)" by (cases task)
        show "task \<in> tasks_of es A \<union> {(e, i) | i. i < unat (e_chunk_count e)} \<longleftrightarrow> task \<in> tasks_of es (insert source A)"
        proof (cases "x = e")
          case True
          with e(1,2) t show ?thesis by (simp add: tasks_of_def) blast
        next
          case False
          with iff [of x] t show ?thesis by (auto simp: tasks_of_def)
        qed
      qed
    qed
    ultimately show "?J (insert source A) v'" by simp
  qed
  then show ?thesis using sd by (simp add: schedules_ok_def)
qed

section \<open>Keys\<close>

lemma configure_duress_shape:
  assumes "configure_duress P h password params w = (Inr h', w')"
  shows "\<exists>d. h' = h\<lparr>h_duress := d\<rparr>" "w_disk w' = w_disk w"
proof -
  obtain d w1 where d: "random_disabled_duress w = (Inr d, w1)" "w_disk w1 = w_disk w"
    by (auto simp: random_disabled_duress_def bindM_def fill_bytes_def returnM_def)
  from assms show "\<exists>d. h' = h\<lparr>h_duress := d\<rparr>" "w_disk w' = w_disk w"
    using d by (auto simp: configure_duress_def bindM_eq_Inr result_simps Let_def split: option.splits)
qed

lemma random_disabled_slot_world: "random_disabled_slot w = (r, w') \<Longrightarrow> w_disk w' = w_disk w"
  by (auto simp: random_disabled_slot_def bindM_def fill_bytes_def returnM_def)

lemma random_disabled_duress_world: "random_disabled_duress w = (r, w') \<Longrightarrow> w_disk w' = w_disk w"
  by (auto simp: random_disabled_duress_def bindM_def fill_bytes_def returnM_def)

text \<open>The new header opens with the password to the new key, through its only live slot, and the
  index is encrypted under a key derived from it.\<close>

lemma pack_keys_Inr:
  assumes P: "aead_ok P"
    and run: "pack_keys P password duress params es ser isz dsz w = (Inr (h, dek, enc), w')"
  shows "w_disk w' = w_disk w" "h_index_size h = isz" "h_data_size h = dsz" "h_entry_count h = of_nat (length es)"
    "length enc = length ser + 16" "length (h_container_id h) = 16"
    "header_within_limits h \<Longrightarrow> unlock P h password = Inr (Unlocked dek)"
    "\<exists>key. derive_index_key P dek (h_container_id h) = Inr key \<and>
       decrypt_aead P key (h_index_nonce h) (index_aad P h) enc = Inr ser"
    "of_nat (length enc) = isz" "length dek = 32"
proof -
  obtain cid w1 nonce w2 dek' w3 s0 w4 s1 w5 d w6 h1 w7 w8 slot w9 key where
    r1: "fill_bytes 16 w = (Inr cid, w1)" and r2: "fill_bytes 12 w1 = (Inr nonce, w2)"
    and r3: "fill_bytes 32 w2 = (Inr dek', w3)" and r4: "random_disabled_slot w3 = (Inr s0, w4)"
    and r5: "random_disabled_slot w4 = (Inr s1, w5)" and r6: "random_disabled_duress w5 = (Inr d, w6)"
    and r7: "configure_duress P (fresh_header cid nonce isz dsz (length es) (s0, s1) d) duress params
      (w6\<lparr>w_events := w_events w6 @ [PhaseStarted KeyDerivation]\<rparr>) = (Inr h1, w7)"
    and r8: "check_cancel w7 = (Inr (), w8)"
    and r9: "make_key_slot P h1 password dek' 1 params w8 = (Inr slot, w9)"
    and r10: "check_cancel w9 = (Inr (), w')"
    and key: "derive_index_key P dek' (h_container_id (set_slot 0 slot h1)) = Inr key"
    and enc: "encrypt_aead P key (h_index_nonce (set_slot 0 slot h1)) (index_aad P (set_slot 0 slot h1)) ser = Inr enc"
    and size: "of_nat (length enc) = h_index_size (set_slot 0 slot h1)"
    and out: "h = set_slot 0 slot h1" "dek = dek'"
    using run by (auto simp: pack_keys_def bindM_eq_Inr result_simps Let_def bindM_emit)
  obtain d' where h1: "h1 = (fresh_header cid nonce isz dsz (length es) (s0, s1) d)\<lparr>h_duress := d'\<rparr>"
    using configure_duress_shape(1) [OF r7] by blast
  have len: "length cid = 16" "length dek = 32" using r1 r3 out by (auto simp: fill_bytes_def)
  have sl: "slot_opens P h1 password slot dek" "ks_generation slot = 1"
    using make_key_slot_opens [OF P _ r9] len(2) out(2) by simp_all
  show "w_disk w' = w_disk w"
    using r1 r2 r3 random_disabled_slot_world [OF r4] random_disabled_slot_world [OF r5]
      random_disabled_duress_world [OF r6] configure_duress_shape(2) [OF r7] r8 make_key_slot_world [OF r9] r10
    by (auto simp: fill_bytes_def check_cancel_def)
  show "h_index_size h = isz" "h_data_size h = dsz" "h_entry_count h = of_nat (length es)" "length (h_container_id h) = 16"
    "of_nat (length enc) = isz" "length dek = 32"
    using len size by (simp_all add: out h1 set_slot_def fresh_header_def)
  show "length enc = length ser + 16"
    "\<exists>key. derive_index_key P dek (h_container_id h) = Inr key \<and>
       decrypt_aead P key (h_index_nonce h) (index_aad P h) enc = Inr ser"
    using decrypt_aead_encrypt [OF P enc] key out by simp_all
  have same: "slot_opens P h = slot_opens P h1"
    unfolding out(1) by (subst set_slot_eq) (simp only: slot_opens_slots)
  have "get_slot (1 - 0) h = s1" "get_slot 0 h = slot"
    by (simp_all add: out h1 set_slot_def fresh_header_def get_slot_def)
  moreover from this sl(1) have "slot_opens P h password (get_slot 0 h) dek" by (simp add: same)
  moreover have "ks_generation s1 = 0" using random_disabled_slot_eq [OF r5] by auto
  ultimately show "header_within_limits h \<Longrightarrow> unlock P h password = Inr (Unlocked dek)"
    using unlock_newest_first [of h P password 0 dek] sl(2) by simp
qed

section \<open>The written file\<close>

lemma write_bytes_front: "length xs \<le> length f \<Longrightarrow> write_bytes 0 xs f = xs @ drop (length xs) f"
  by (simp add: write_bytes_def)

lemma write_bytes_after:
  "off = length xs \<Longrightarrow> off + length ys \<le> length (xs @ f) \<Longrightarrow>
   write_bytes off ys (xs @ f) = xs @ ys @ drop (length ys) f"
  by (simp add: write_bytes_def)

lemma pack_write_Inr:
  assumes P: "aead_ok P" and sd: "schedules_ok sd"
    and run: "pack_write P sd NoFault plan T w = (Inr (), w')"
    and T: "w_disk w T = Some (FileNode g0)" and ok: "index_ok (pl_header plan) (pl_entries plan)"
    and index: "length (pl_index plan) = unat (h_index_size (pl_header plan))"
    and ready: "\<And>source. source \<in> set (pl_sources plan) \<Longrightarrow> source_ready (pl_entries plan) content (w_disk w) T source"
  shows "\<exists>start N hb. checked_add HEADER64 (h_index_size (pl_header plan)) = Some start \<and>
    pack_ctx P (pl_header plan) (pl_entries plan) start N \<and> serialize_header P (pl_header plan) = Inr hb \<and>
    filled P (pl_header plan) (pl_dek plan) (pl_entries plan) start N content (w_disk w) T (hb @ pl_index plan)
      (tasks_of (pl_entries plan) (set (pl_sources plan))) w'"
proof -
  let ?h = "pl_header plan" and ?es = "pl_entries plan"
  obtain pr evs where new: "tracker_new Encrypt (pl_total plan) = (pr, evs)"
    by (cases "tracker_new Encrypt (pl_total plan)")
  obtain start size w1 hb w2 w3 p w4 where
    start: "checked_add HEADER64 (h_index_size ?h) = Some start" and size: "checked_add start (h_data_size ?h) = Some size"
    and len: "set_file_len T size w = (Inr (), w1)" and hb: "serialize_header P ?h = Inr hb"
    and wr1: "write_file_at T 0 hb w1 = (Inr (), w2)" and wr2: "write_file_at T HEADER64 (pl_index plan) w2 = (Inr (), w3)"
    and loop: "foldM (encrypt_source P sd T start ?es ?h (pl_dek plan)) (sd_sources sd (pl_sources plan)) pr
        (w3\<lparr>w_events := w_events w3 @ evs\<rparr>) = (Inr p, w4)"
    and sync: "sync_file T w4 = (Inr (), w')"
    using run by (auto simp: pack_write_def bindM_eq_Inr result_simps emit_all_def Let_def new)
  let ?N = "unat size"
  have us: "unat start = HEADER_SIZE + unat (h_index_size ?h)" and un: "?N = unat start + unat (h_data_size ?h)"
    using start size by (simp_all add: checked_add_eq_Some)
  have hl: "length hb = HEADER_SIZE" by (rule length_serialize_header [OF hb])
  obtain g1 where g1: "w_disk w1 = (w_disk w)(T := Some (FileNode g1))" "length (fd_bytes g1) = ?N"
    using len T by (auto simp: set_file_len_def fs_call_eq_Inr put_node_def)
  then obtain g2 where g2: "w_disk w2 = (w_disk w)(T := Some (FileNode g2))" "fd_bytes g2 = write_bytes 0 hb (fd_bytes g1)"
    using wr1 by (auto simp: write_file_at_def fs_call_eq_Inr put_node_def)
  then obtain g3 where g3: "w_disk w3 = (w_disk w)(T := Some (FileNode g3))"
      "fd_bytes g3 = write_bytes HEADER_SIZE (pl_index plan) (fd_bytes g2)"
    using wr2 by (auto simp: write_file_at_def fs_call_eq_Inr put_node_def)
  have b2: "fd_bytes g2 = hb @ drop HEADER_SIZE (fd_bytes g1)"
    using g2(2) g1(2) hl us un by (simp add: write_bytes_front)
  have b3: "fd_bytes g3 = hb @ pl_index plan @ drop (length (pl_index plan)) (drop HEADER_SIZE (fd_bytes g1))"
    unfolding g3(2) b2 using hl g1(2) us un index by (intro write_bytes_after) simp_all
  have "?N < 2 ^ 64" by simp
  then have ctx: "pack_ctx P ?h ?es start ?N" using P ok un [symmetric] unfolding pack_ctx_def by blast
  have "filled P ?h (pl_dek plan) ?es start ?N content (w_disk w) T (hb @ pl_index plan) {} w3"
    unfolding filled_def using g3(1) b3 g1(2) hl us un index
    by (intro exI [of _ g3]) simp
  then have "filled P ?h (pl_dek plan) ?es start ?N content (w_disk w) T (hb @ pl_index plan) {}
      (w3\<lparr>w_events := w_events w3 @ evs\<rparr>)"
    by (rule filled_same_disk) simp
  from encrypt_sources_filled [OF ctx sd loop this ready]
  have "filled P ?h (pl_dek plan) ?es start ?N content (w_disk w) T (hb @ pl_index plan)
      (tasks_of ?es (set (pl_sources plan))) w4" .
  moreover have "w_disk w' = w_disk w4" using sync by (auto simp: sync_file_def fs_call_eq_Inr)
  ultimately show ?thesis using filled_same_disk start ctx hb by blast
qed

section \<open>Opening it\<close>

lemma open_container_succeeds:
  assumes ff: "fault_free w" and f: "w_disk w q = Some (FileNode f)"
    and hdr: "p_header_from P (take HEADER_SIZE (fd_bytes f)) = Inr h" and lim: "header_within_limits h"
    and len: "length (fd_bytes f) = HEADER_SIZE + unat (h_index_size h) + unat (h_data_size h)"
    and small: "length (fd_bytes f) < 2 ^ 64"
    and unl: "unlock P h password = Inr (Unlocked dek)"
    and idx: "open_index P h dek (slice HEADER_SIZE (unat (h_index_size h)) (fd_bytes f)) = Inr index"
    and start: "checked_add HEADER64 (h_index_size h) = Some start"
  shows "\<exists>w'. open_container P q password w =
      (Inr \<lparr>oc_read = content_reader (fd_bytes f), oc_header = h, oc_index = index, oc_dek = dek, oc_data_start = start\<rparr>, w') \<and>
    w_disk w' = w_disk w"
proof -
  let ?w1 = "w\<lparr>w_calls := Suc (w_calls w)\<rparr>" and ?body = "drop HEADER_SIZE (fd_bytes f)"
  have fo: "follow (w_disk w) q = q" using f by (simp add: follow_def)
  have o: "open_file q w = (Inr q, ?w1)"
    using f fo by (simp add: open_file_def fs_call_fault_free [OF ff] Let_def)
  have at: "container_at P (w_disk ?w1) q h ?body" using f hdr len by (simp add: container_at_def)
  have ff1: "fault_free ?w1" using ff by (simp add: fault_free_def)
  obtain w2 where w2: "read_header P q ?w1 = (Inr h, w2)" "w_disk w2 = w_disk w" "fault_free w2"
    using read_header_fault_free [OF ff1 at lim] len small by auto
  have iszpos: "unat (h_index_size h) \<noteq> 0" using lim by (auto simp: header_within_limits_def)
  have rd: "read_exact_file q (unat (h_index_size h)) HEADER64 w2 =
      (Inr (slice HEADER_SIZE (unat (h_index_size h)) (fd_bytes f)), w2\<lparr>w_calls := Suc (w_calls w2)\<rparr>)"
    using f w2(2) len iszpos
    by (simp add: read_exact_file_def fs_call_fault_free [OF w2(3)] file_contents_def content_reader_def)
  let ?w3 = "w2\<lparr>w_calls := Suc (w_calls w2)\<rparr>"
  have fr: "file_reader q ?w3 = (Inr (content_reader (fd_bytes f)), ?w3)"
    using f w2(2) by (auto simp: file_reader_def file_contents_def)
  have "open_container P q password w =
      (Inr \<lparr>oc_read = content_reader (fd_bytes f), oc_header = h, oc_index = index, oc_dek = dek, oc_data_start = start\<rparr>, ?w3)"
    unfolding open_container_def bindM_run [of "open_file q", OF o] bindM_run [of "read_header P q", OF w2(1)]
      unl bindM_liftE_Inr unlock_result.case bindM_returnM bindM_run [of "read_exact_file q _ _", OF rd] idx start
      context_opt_simps bindM_run [of "file_reader q", OF fr] by simp
  then show ?thesis using w2(2) by simp
qed

section \<open>The round trip\<close>

text \<open>An encoded index is a vector in memory.\<close>

definition index_vec_bounded :: "prims \<Rightarrow> bool" where
  "index_vec_bounded P \<longleftrightarrow> (\<forall>es bs. p_index_to_vec P es = Inr bs \<longrightarrow> length bs < 2 ^ 63)"

lemma pack_prepare_Inr:
  assumes run: "pack_prepare P walk fuel source password duress params max_index w = (Inr plan, w')"
  obtains w1 dsz w2 ser isz w3 where
    "w_disk w source = Some DirNode" "duress \<noteq> Some password" "argon2_within_limits params"
    "scan_source walk fuel source w1 = (Inr (pl_entries plan, pl_sources plan, pl_total plan, dsz), w2)" "w_disk w1 = w_disk w"
    "p_index_to_vec P (pl_entries plan) = Inr ser" "checked_add (of_nat (length ser)) TAG_SIZE = Some isz"
    "isz \<le> MAX_INDEX_SIZE"
    "pack_keys P password duress params (pl_entries plan) ser isz dsz w3 = (Inr (pl_header plan, pl_dek plan, pl_index plan), w')"
    "w_disk w3 = w_disk w"
proof -
  obtain w1 meta w2 w3 w4 es srcs tot dsz w5 ser isz h dek idx where
    c1: "check_cancel w = (Inr (), w1)" and meta: "symlink_metadata source w1 = (Inr meta, w2)"
    and m: "meta = DirNode" "duress \<noteq> Some password" "argon2_within_limits params"
    and c2: "check_cancel w2 = (Inr (), w3)"
    and w4: "w4 = w3\<lparr>w_events := w_events w3 @ [PhaseStarted Scan] @ [Progress \<lparr>pr_phase = Scan, pr_completed = 0, pr_total = 0\<rparr>]\<rparr>"
    and scan: "scan_source walk fuel source w4 = (Inr (es, srcs, tot, dsz), w5)"
    and ser: "p_index_to_vec P es = Inr ser" "checked_add (of_nat (length ser)) TAG_SIZE = Some isz"
    and lim: "\<not> min max_index MAX_INDEX_SIZE < isz"
    and keys: "pack_keys P password duress params es ser isz dsz
      (w5\<lparr>w_events := w_events w5 @ [ScanCompleted (length es - 1) tot]\<rparr>) = (Inr (h, dek, idx), w')"
    and plan: "plan = \<lparr>pl_entries = es, pl_sources = srcs, pl_total = tot, pl_header = h, pl_dek = dek, pl_index = idx\<rparr>"
    using run
    by (simp add: pack_prepare_def bindM_eq_Inr contextM_eq_Inr result_simps bindM_emit split_beta) (metis prod.collapse)
  have d: "w_disk w1 = w_disk w" "w_disk w2 = w_disk w" "w_disk w3 = w_disk w" "w_disk w source = Some meta"
    using c1 c2 symlink_metadata_Inr [OF meta] by (auto simp: check_cancel_def)
  have "w_disk w5 = w_disk w" using pure_disk [OF disk_frame_scan_source scan] d(3) w4 by simp
  then show thesis
    using that [of w4 dsz w5 ser isz "w5\<lparr>w_events := w_events w5 @ [ScanCompleted (length es - 1) tot]\<rparr>"] m d w4 scan ser keys plan lim
    by (simp add: not_less)
qed

lemma verify_all_frame [frame_intros]: "disk_frame S (verify_all_with_control P schedule opened)"
proof -
  have "disk_frame S (verify_chunk P opened task progress)" for task progress
    by (cases task) (simp add: verify_chunk_def split_beta Let_def; intro frame_intros)
  then show ?thesis
    unfolding verify_all_with_control_def Let_def split_beta by (intro frame_intros disk_frame_foldM)
qed

text \<open>What a file of the packed directory contained when packing started.\<close>

definition source_content :: "disk \<Rightarrow> (u64 \<times> source_snapshot) list \<Rightarrow> entry \<Rightarrow> bytes" where
  "source_content D sources e =
     (case map_of sources (e_id e) of
        None \<Rightarrow> []
      | Some snapshot \<Rightarrow> (case D (sn_path snapshot) of Some (FileNode f) \<Rightarrow> fd_bytes f | _ \<Rightarrow> []))"

lemma entry_node_content:
  assumes "entry_node D source sources r e" "e_kind e = File" "distinct (map fst sources)"
  shows "\<exists>f. D (source @ r) = Some (FileNode f) \<and> source_content D sources e = fd_bytes f \<and>
    e_size e = of_nat (length (fd_bytes f)) \<and>
    (e_id e, \<lparr>sn_path = source @ r, sn_fingerprint = fingerprint_from_file f\<rparr>) \<in> set sources"
proof -
  from assms(1,2) obtain f where f: "D (source @ r) = Some (FileNode f)" "e_size e = of_nat (length (fd_bytes f))"
      "(e_id e, \<lparr>sn_path = source @ r, sn_fingerprint = fingerprint_from_file f\<rparr>) \<in> set sources"
    by (auto simp: entry_node_def)
  with map_of_is_SomeI [OF assms(3) f(3)] show ?thesis by (simp add: source_content_def)
qed

text \<open>Every source of a scan is the file of exactly one entry.\<close>

lemma scan_sources:
  assumes nodes: "list_all2 (entry_node D source sources) rs es'" and dist: "distinct (map e_id es')"
    and files: "map fst sources = map e_id (files_of es')"
  shows "distinct (map fst sources)"
    and "(i, snap) \<in> set sources \<Longrightarrow> \<exists>e f. e \<in> set (files_of es') \<and> e_id e = i \<and> D (sn_path snap) = Some (FileNode f) \<and>
      source_content D sources e = fd_bytes f \<and> e_size e = of_nat (length (fd_bytes f))"
proof -
  show d: "distinct (map fst sources)"
    using dist unfolding files files_of_def by (induction es') auto
  assume s: "(i, snap) \<in> set sources"
  then have "i \<in> set (map fst sources)" by force
  then obtain e where e: "e \<in> set (files_of es')" "e_id e = i" unfolding files by auto
  obtain k where "k < length es'" "e = es' ! k" using files_ofD [OF e(1)] by (auto simp: in_set_conv_nth)
  with list_all2_nthD2 [OF nodes] obtain r where "entry_node D source sources r e" by blast
  from entry_node_content [OF this _ d] files_ofD [OF e(1)] obtain f where
    f: "D (source @ r) = Some (FileNode f)" "source_content D sources e = fd_bytes f" "e_size e = of_nat (length (fd_bytes f))"
      "(e_id e, \<lparr>sn_path = source @ r, sn_fingerprint = fingerprint_from_file f\<rparr>) \<in> set sources" by auto
  have "snap = \<lparr>sn_path = source @ r, sn_fingerprint = fingerprint_from_file f\<rparr>"
    using map_of_is_SomeI [OF d s] map_of_is_SomeI [OF d f(4)] e(2) by simp
  with e f show "\<exists>e f. e \<in> set (files_of es') \<and> e_id e = i \<and> D (sn_path snap) = Some (FileNode f) \<and>
      source_content D sources e = fd_bytes f \<and> e_size e = of_nat (length (fd_bytes f))" by auto
qed

text \<open>A filled file with all its tasks done is a container that stores its files.\<close>

lemma filled_stored:
  assumes ctx: "pack_ctx P h es start N" and g: "length bs = N"
    and start: "unat start = HEADER_SIZE + unat (h_index_size h)"
    and all: "\<And>e i. e \<in> set (files_of es) \<Longrightarrow> i < unat (e_chunk_count e) \<Longrightarrow> chunk_in P h dek start content bs (e, i)"
    and size: "\<And>e. e \<in> set (files_of es) \<Longrightarrow> length (content e) = unat (e_size e)"
  shows "content_stored P \<lparr>oc_read = content_reader bs, oc_header = h, oc_index = index_tables es, oc_dek = dek, oc_data_start = start\<rparr> es content"
proof -
  let ?o = "\<lparr>oc_read = content_reader bs, oc_header = h, oc_index = index_tables es, oc_dek = dek, oc_data_start = start\<rparr>"
  have "opened_ok ?o es"
    using ctx start by (simp add: opened_ok_def pack_ctx_def)
  moreover have "file_stored P ?o e (content e)" if e: "e \<in> set (files_of es)" for e
  proof -
    have "chunk_stored P ?o e i (slice (i * CHUNK_SIZE) CHUNK_SIZE (content e))" if i: "i < unat (e_chunk_count e)" for i
    proof -
      obtain ct where ct: "encrypt_chunk P h dek e i (slice (i * CHUNK_SIZE) CHUNK_SIZE (content e)) = Inr ct"
          "length (slice (i * CHUNK_SIZE) CHUNK_SIZE (content e)) = chunk_len (unat (e_size e)) i"
          "length ct = chunk_len (unat (e_size e)) i + 16" "slice (chunk_at start e i) (length ct) bs = ct"
        using all [OF e i] by (auto simp: chunk_in_def)
      have pos: "chunk_position ?o e i = chunk_at start e i" by (simp add: chunk_position_def chunk_at_def)
      note pl = chunk_place(2) [OF ctx e i]
      have "unat (of_nat (chunk_at start e i) :: u64) = chunk_at start e i"
        using pl ctx by (intro unat_of_nat_small) (simp add: pack_ctx_def)
      then have "content_reader bs (of_nat (chunk_at start e i)) (chunk_len (unat (e_size e)) i + 16) = Inr ct"
        using pl g ct(3,4) by (simp add: content_reader_def)
      then show ?thesis using ct(1,2) by (simp add: chunk_stored_def pos)
    qed
    then show ?thesis using size [OF e] by (simp add: file_stored_def)
  qed
  ultimately show ?thesis using ctx by (simp add: content_stored_def pack_ctx_def)
qed

lemma pack_commit_Inr:
  assumes "pack_commit temp output w = (Inr (), w')"
  shows "w_disk w output = None \<and> w_disk w' = moved_disk temp output (w_disk w)"
proof -
  obtain w1 w2 where c: "check_cancel w = (Inr (), w1)"
    and mv: "rename_noreplace temp output (w1\<lparr>w_events := w_events w1 @ [PhaseStarted Commit] @ [CommitStarted]\<rparr>) = (Inr (), w2)"
    and rest: "bindM (\<lambda>w. (case sync_parent (output_parent output) w of
         (Inr _, w') \<Rightarrow> (Inr (), w')
       | (Inl e, w') \<Rightarrow> emit (Warning (''Unable to sync output parent after commit: '' @ display_chain e)) w'))
       (\<lambda>_. emit Committed) w2 = (Inr (), w')"
    using assms by (auto simp: pack_commit_def bindM_eq_Inr [of check_cancel] bindM_eq_Inr [of "contextM _ _"]
        contextM_eq_Inr bindM_emit)
  have d1: "w_disk w1 = w_disk w" using c by (auto simp: check_cancel_def)
  have d2: "w_disk w output = None" "w_disk w2 = moved_disk temp output (w_disk w)"
    using mv d1 by (auto simp: rename_noreplace_def fs_call_eq_Inr split: if_splits)
  obtain r w3 where s: "sync_parent (output_parent output) w2 = (r, w3)" by (cases "sync_parent (output_parent output) w2")
  have "disk_frame (\<lambda>_. False) (sync_parent (output_parent output))" unfolding sync_parent_def by (intro frame_intros)
  from pure_disk [OF this s] have "w_disk w' = w_disk w2"
    using rest s by (cases r) (auto simp: bindM_def emit_def)
  with d2 show ?thesis by simp
qed

lemma pack_self_verify_Inr:
  assumes run: "pack_self_verify P sd plan temp password w = (Inr (), w')"
    and codec: "header_codec_ok P" and hb: "serialize_header P h = Inr hb"
    and g: "w_disk w temp = Some (FileNode g)" "take HEADER_SIZE (fd_bytes g) = hb" "length (fd_bytes g) < 2 ^ 64"
    and len: "HEADER_SIZE \<le> length (fd_bytes g)"
  shows "w_disk w' = w_disk w \<and> header_within_limits h"
proof -
  obtain w1 opened w2 w3 w4 where c: "check_cancel w = (Inr (), w1)"
    and op: "open_container P temp password (w1\<lparr>w_events := w_events w1 @ [PhaseStarted KeyDerivation]\<rparr>) = (Inr opened, w2)"
    and c2: "check_cancel w2 = (Inr (), w3)"
    and v: "reporting self_verify_event (verify_all_with_control P (sd_verify sd) opened)
      (w3\<lparr>w_events := w_events w3 @ [PhaseStarted SelfVerify] @ [Progress \<lparr>pr_phase = SelfVerify, pr_completed = 0, pr_total = pl_total plan\<rparr>]\<rparr>)
      = (Inr (), w4)"
    and c3: "check_cancel w4 = (Inr (), w')"
    using run by (auto simp: pack_self_verify_def bindM_eq_Inr contextM_eq_Inr bindM_emit)
  let ?w1 = "w1\<lparr>w_events := w_events w1 @ [PhaseStarted KeyDerivation]\<rparr>"
  have d1: "w_disk ?w1 = w_disk w" using c by (auto simp: check_cancel_def)
  have fo: "follow (w_disk ?w1) temp = temp" using g(1) d1 by (simp add: follow_def)
  have small: "\<And>f. w_disk ?w1 (follow (w_disk ?w1) temp) = Some (FileNode f) \<Longrightarrow> length (fd_bytes f) < 2 ^ 64"
    using g d1 fo by simp
  from open_container_ok [OF small op] have d2: "w_disk w2 = w_disk ?w1" and lim: "header_within_limits (oc_header opened)"
    by blast+
  obtain v1 v2 where o: "open_file temp ?w1 = (Inr temp, v1)" and rh: "read_header P temp v1 = (Inr (oc_header opened), v2)"
    using open_container_Inr [OF op] unfolding fo by blast
  have "container_at P (w_disk v1) temp h (drop HEADER_SIZE (fd_bytes g))"
    using open_file_Inr [OF o] d1 g len header_from_serialized [OF codec hb] by (simp add: container_at_def)
  from read_header_container_at [OF rh this] have "oc_header opened = h" by simp
  moreover have "w_disk w4 = w_disk w3" using pure_disk [OF disk_frame_reporting [OF verify_all_frame] v] by simp
  ultimately show ?thesis using lim d1 d2 c2 c3 by (auto simp: check_cancel_def)
qed

lemma create_new_file_Inr:
  "create_new_file p w = (Inr q, w') \<Longrightarrow> q = p \<and> w_disk w p = None \<and>
   (\<exists>f. w_disk w' = (w_disk w)(p := Some (FileNode f)))"
  by (auto simp: create_new_file_def fs_call_eq_Inr put_node_def split: option.splits if_splits)

text \<open>The setting of a pack: the primitives behave as documented, the walk visits no path twice, and
  files have a length of 64 bits.\<close>

definition pack_assumptions :: "prims \<Rightarrow> schedules \<Rightarrow> walker \<Rightarrow> path \<Rightarrow> world \<Rightarrow> bool" where
  "pack_assumptions P sd walk source w \<longleftrightarrow>
     aead_ok P \<and> header_codec_ok P \<and> index_codec_ok P \<and> index_vec_bounded P \<and> schedules_ok sd \<and>
     distinct (walk_items walk (w_disk w) source) \<and>
     (\<forall>p f. w_disk w p = Some (FileNode f) \<longrightarrow> length (fd_bytes f) < 2 ^ 64)"

text \<open>What is published: one entry for every item of the walk, and a container at the output that
  opens with the password and stores the content every file had.\<close>

definition packed_tree :: "walker \<Rightarrow> disk \<Rightarrow> path \<Rightarrow> entry list \<Rightarrow> (entry \<Rightarrow> bytes) \<Rightarrow> bool" where
  "packed_tree walk D source es content \<longleftrightarrow>
     (\<exists>rs es'. map (\<lambda>r. Inr (source @ r)) rs = walk_items walk D source \<and> es = directory_entry 1 1 [] 0 # es' \<and>
        (\<exists>ids. path_ids_ok rs es ids \<and> list_all2 (entry_at ids) rs es') \<and>
        list_all2 (\<lambda>r e. case e_kind e of Directory \<Rightarrow> D (source @ r) = Some DirNode
          | File \<Rightarrow> (\<exists>f. D (source @ r) = Some (FileNode f) \<and> content e = fd_bytes f)) rs es')"

definition published ::
  "prims \<Rightarrow> walker \<Rightarrow> path \<Rightarrow> path \<Rightarrow> string \<Rightarrow> disk \<Rightarrow> disk \<Rightarrow> entry list \<Rightarrow> (entry \<Rightarrow> bytes) \<Rightarrow> bool" where
  "published P walk source output password D D' es content \<longleftrightarrow>
     packed_tree walk D source es content \<and> D output = None \<and>
     (\<forall>w. fault_free w \<and> w_disk w = D' \<longrightarrow> (\<exists>opened w'. open_container P output password w = (Inr opened, w') \<and>
        content_stored P opened es content \<and> oc_index opened = index_tables es))"

lemma pack_output_Inr:
  assumes run: "pack_output P sd NoFault plan temp output password w = (Inr (), w')"
  obtains w1 g0 w2 w3 where "w_disk w temp = None" "w_disk w1 = (w_disk w)(temp := Some (FileNode g0))"
    "pack_write P sd NoFault plan temp w1 = (Inr (), w2)" "pack_self_verify P sd plan temp password w2 = (Inr (), w3)"
    "pack_commit temp output w3 = (Inr (), w')"
proof -
  from run obtain q w0 w2 w3 where c: "create_new_file temp w = (Inr q, w0)"
    and rest: "pack_write P sd NoFault plan temp (w0\<lparr>w_events := w_events w0 @ [TemporaryArtifact PackContainer temp]\<rparr>) = (Inr (), w2)"
      "pack_self_verify P sd plan temp password w2 = (Inr (), w3)" "pack_commit temp output w3 = (Inr (), w')"
    by (auto simp: pack_output_def with_temp_output_def bindM_eq_Inr contextM_eq_Inr bindM_emit
        split: prod.splits sum.splits)
  from create_new_file_Inr [OF c] rest show thesis
    using that [of "w0\<lparr>w_events := w_events w0 @ [TemporaryArtifact PackContainer temp]\<rparr>"] by auto
qed

lemma temporary_name_world:
  assumes "(case requested of Some path \<Rightarrow> validate_requested_temporary_path output path
      | None \<Rightarrow> temporary_path output) w = (r, w')"
  shows "w_disk w' = w_disk w"
proof -
  have loop: "disk_frame (\<lambda>_. False) (temporary_path_loop n parent name)" for n parent name
    by (induction n) (auto simp: Let_def intro!: frame_intros)
  have "disk_frame (\<lambda>_. False) (case requested of Some path \<Rightarrow> validate_requested_temporary_path output path
      | None \<Rightarrow> temporary_path output)"
    using loop
    by (cases requested) (auto simp: temporary_path_def validate_requested_temporary_path_def intro!: frame_intros)
  from pure_disk [OF this assms] show ?thesis .
qed

text \<open>What the checks, the scan and the keys leave in a plan.\<close>

definition plan_ok :: "prims \<Rightarrow> walker \<Rightarrow> disk \<Rightarrow> path \<Rightarrow> string \<Rightarrow> pack_plan \<Rightarrow> (entry \<Rightarrow> bytes) \<Rightarrow> bool" where
  "plan_ok P walk D source password plan content \<longleftrightarrow>
     packed_tree walk D source (pl_entries plan) content \<and> index_ok (pl_header plan) (pl_entries plan) \<and>
     fst ` set (pl_sources plan) = e_id ` set (files_of (pl_entries plan)) \<and>
     (\<forall>e \<in> set (files_of (pl_entries plan)). length (content e) = unat (e_size e)) \<and>
     (\<forall>src \<in> set (pl_sources plan). \<exists>e \<in> set (files_of (pl_entries plan)). e_id e = fst src \<and>
        (\<exists>f. D (sn_path (snd src)) = Some (FileNode f) \<and> fd_bytes f = content e)) \<and>
     length (pl_index plan) = unat (h_index_size (pl_header plan)) \<and>
     open_index P (pl_header plan) (pl_dek plan) (pl_index plan) = Inr (index_tables (pl_entries plan)) \<and>
     (header_within_limits (pl_header plan) \<longrightarrow> unlock P (pl_header plan) password = Inr (Unlocked (pl_dek plan)))"

lemma pack_keys_plan:
  assumes P: "aead_ok P" "index_codec_ok P" "index_vec_bounded P" and ser: "p_index_to_vec P es = Inr ser"
    and keys: "pack_keys P password duress params es ser isz dsz w = (Inr (h, dek, enc), w')"
    and ok: "index_ok h es" and len: "length es \<le> MAX_ENTRIES"
  shows "length enc = unat (h_index_size h)" "open_index P h dek enc = Inr (index_tables es)"
proof -
  note k = pack_keys_Inr [OF P(1) keys]
  have "length enc < 2 ^ 64" using P(3) ser k(5) by (fastforce simp: index_vec_bounded_def)
  then have "unat (of_nat (length enc) :: u64) = length enc" by (intro unat_of_nat_small) simp
  then show "length enc = unat (h_index_size h)" using k(2,9) by simp
  obtain key where "derive_index_key P dek (h_container_id h) = Inr key"
      "decrypt_aead P key (h_index_nonce h) (index_aad P h) enc = Inr ser" using k(8) by blast
  then show "open_index P h dek enc = Inr (index_tables es)"
    using deserialize_index_encoded [OF P(2) ser len] ok by (simp add: open_index_def validate_index_eq_Inr)
qed

lemma packed_treeI:
  assumes "map (\<lambda>r. Inr (source @ r)) rs = walk_items walk D source" "es = directory_entry 1 1 [] 0 # es'"
    and "path_ids_ok rs es ids" "list_all2 (entry_at ids) rs es'"
    and nodes: "list_all2 (entry_node D source sources) rs es'" and dist: "distinct (map fst sources)"
  shows "packed_tree walk D source es (source_content D sources)"
proof -
  have "list_all2 (\<lambda>r e. case e_kind e of Directory \<Rightarrow> D (source @ r) = Some DirNode
      | File \<Rightarrow> (\<exists>f. D (source @ r) = Some (FileNode f) \<and> source_content D sources e = fd_bytes f)) rs es'"
  proof (rule list_all2_mono [OF nodes])
    fix r e
    assume n: "entry_node D source sources r e"
    show "case e_kind e of Directory \<Rightarrow> D (source @ r) = Some DirNode
      | File \<Rightarrow> (\<exists>f. D (source @ r) = Some (FileNode f) \<and> source_content D sources e = fd_bytes f)"
    proof (cases "e_kind e")
      case File
      with entry_node_content [OF n File dist] show ?thesis by auto
    next
      case Directory
      with n show ?thesis by (simp add: entry_node_def)
    qed
  qed
  with assms(1-4) show ?thesis unfolding packed_tree_def by blast
qed

lemma pack_prepare_plan:
  assumes asm: "pack_assumptions P sd walk source w"
    and prep: "pack_prepare P walk fuel source password duress params max_index w = (Inr plan, wp)"
  shows "w_disk wp = w_disk w" "plan_ok P walk (w_disk w) source password plan (source_content (w_disk w) (pl_sources plan))"
proof -
  let ?D = "w_disk w" and ?h = "pl_header plan" and ?es = "pl_entries plan"
  let ?content = "source_content ?D (pl_sources plan)"
  have P: "aead_ok P" "index_codec_ok P" "index_vec_bounded P" and walk: "distinct (walk_items walk ?D source)"
    and small: "\<And>p f. ?D p = Some (FileNode f) \<Longrightarrow> length (fd_bytes f) < 2 ^ 64"
    using asm by (auto simp: pack_assumptions_def)
  obtain ws dsz ws' ser isz wk where scan: "scan_source walk fuel source ws = (Inr (?es, pl_sources plan, pl_total plan, dsz), ws')"
    and ws: "w_disk ws = ?D" and ser: "p_index_to_vec P ?es = Inr ser"
    and keys: "pack_keys P password duress params ?es ser isz dsz wk = (Inr (?h, pl_dek plan, pl_index plan), wp)"
    and wk: "w_disk wk = ?D"
    using prep by (rule pack_prepare_Inr)
  note k = pack_keys_Inr [OF P(1) keys]
  show "w_disk wp = ?D" using k(1) wk by simp
  obtain rs es' where rs: "map (\<lambda>r. Inr (source @ r)) rs = walk_items walk ?D source"
    and es: "?es = directory_entry 1 1 [] 0 # es'" and nodes: "list_all2 (entry_node ?D source (pl_sources plan)) rs es'"
    and ids: "\<exists>ids. path_ids_ok rs ?es ids \<and> list_all2 (entry_at ids) rs es'"
    and srcs: "map fst (pl_sources plan) = map e_id (files_of ?es)" and len: "length ?es \<le> MAX_ENTRIES"
    and okh: "\<forall>h. unat (h_entry_count h) = length ?es \<longrightarrow> h_data_size h = dsz \<longrightarrow> index_ok h ?es"
    using scan_source_Inr [OF scan] walk unfolding ws by blast
  have "unat (h_entry_count ?h) = length ?es"
    unfolding k(4) using len by (intro unat_of_nat_small) (simp add: MAX_ENTRIES_def)
  with okh k(3) have ok: "index_ok ?h ?es" by blast
  have files: "files_of ?es = files_of es'" by (simp add: es files_of_def directory_entry_def)
  have dist: "distinct (map e_id es')" using ok by (simp add: index_ok_def es)
  note sources = scan_sources [OF nodes dist srcs [unfolded files]]
  have covers: "fst ` set (pl_sources plan) = e_id ` set (files_of ?es)" using arg_cong [OF srcs, of set] by simp
  have source: "\<exists>e \<in> set (files_of ?es). e_id e = fst src \<and>
      (\<exists>f. ?D (sn_path (snd src)) = Some (FileNode f) \<and> fd_bytes f = ?content e \<and> e_size e = of_nat (length (fd_bytes f)))"
    if src: "src \<in> set (pl_sources plan)" for src
    using sources(2) [of "fst src" "snd src"] src unfolding files by fastforce
  have csize: "length (?content e) = unat (e_size e)" if e: "e \<in> set (files_of ?es)" for e
  proof -
    from e covers obtain src where src: "src \<in> set (pl_sources plan)" "fst src = e_id e" by (metis imageE imageI)
    from source [OF src(1)] obtain x f where x: "x \<in> set (files_of ?es)" "e_id x = e_id e"
        "?D (sn_path (snd src)) = Some (FileNode f)" "fd_bytes f = ?content x" "e_size x = of_nat (length (fd_bytes f))"
      unfolding src(2) by blast
    have "x = e" using x(1,2) e dist files files_ofD by (metis distinct_map inj_onD)
    with x small [OF x(3)] show ?thesis by (simp add: unat_of_nat_small)
  qed
  from ids obtain ids where ids: "path_ids_ok rs ?es ids" "list_all2 (entry_at ids) rs es'" by blast
  show "plan_ok P walk ?D source password plan ?content"
    unfolding plan_ok_def
    using packed_treeI [OF rs es ids nodes sources(1)] ok covers csize pack_keys_plan [OF P ser keys ok len] k(7)
    by (intro conjI ballI impI) (assumption | blast dest: source)+
qed

text \<open>The bytes of a container: header, sealed index, and every chunk of every file in its place.\<close>

definition container_bytes :: "prims \<Rightarrow> pack_plan \<Rightarrow> (entry \<Rightarrow> bytes) \<Rightarrow> bytes \<Rightarrow> bool" where
  "container_bytes P plan content bs \<longleftrightarrow>
     (\<exists>start hb. checked_add HEADER64 (h_index_size (pl_header plan)) = Some start \<and>
        pack_ctx P (pl_header plan) (pl_entries plan) start (length bs) \<and>
        serialize_header P (pl_header plan) = Inr hb \<and> take HEADER_SIZE bs = hb \<and>
        slice HEADER_SIZE (unat (h_index_size (pl_header plan))) bs = pl_index plan \<and>
        (\<forall>e \<in> set (files_of (pl_entries plan)). \<forall>i < unat (e_chunk_count e).
           chunk_in P (pl_header plan) (pl_dek plan) start content bs (e, i)))"

lemma pack_write_container:
  assumes P: "aead_ok P" "schedules_ok sd" and plan: "plan_ok P walk D source password plan content"
    and fresh: "D T = None" and disk: "w_disk w = D(T := Some (FileNode g0))"
    and run: "pack_write P sd NoFault plan T w = (Inr (), w')"
  shows "\<exists>g. w_disk w' = D(T := Some (FileNode g)) \<and> container_bytes P plan content (fd_bytes g)"
proof -
  let ?h = "pl_header plan" and ?es = "pl_entries plan"
  have ok: "index_ok ?h ?es" and covers: "fst ` set (pl_sources plan) = e_id ` set (files_of ?es)"
    and isz: "length (pl_index plan) = unat (h_index_size ?h)"
    using plan by (simp_all add: plan_ok_def)
  have ready: "source_ready ?es content (w_disk w) T src" if src: "src \<in> set (pl_sources plan)" for src
  proof -
    from plan src obtain e f where e: "e \<in> set (files_of ?es)" "e_id e = fst src"
        "D (sn_path (snd src)) = Some (FileNode f)" "fd_bytes f = content e" unfolding plan_ok_def by blast
    have "sn_path (snd src) \<noteq> T" using e(3) fresh by auto
    moreover have "length (content e) = unat (e_size e)" using plan e(1) by (simp add: plan_ok_def)
    ultimately show ?thesis unfolding source_ready_def using e disk by (intro bexI [of _ e]) auto
  qed
  have T: "w_disk w T = Some (FileNode g0)" using disk by simp
  from pack_write_Inr [OF P run T ok isz ready] obtain start N hb where
    start: "checked_add HEADER64 (h_index_size ?h) = Some start" and ctx: "pack_ctx P ?h ?es start N"
    and hb: "serialize_header P ?h = Inr hb"
    and fill: "filled P ?h (pl_dek plan) ?es start N content (w_disk w) T (hb @ pl_index plan)
      (tasks_of ?es (set (pl_sources plan))) w'" by blast
  have us: "unat start = HEADER_SIZE + unat (h_index_size ?h)" using start by (simp add: checked_add_eq_Some)
  have hl: "length hb = HEADER_SIZE" by (rule length_serialize_header [OF hb])
  obtain g where g: "w_disk w' = (w_disk w)(T := Some (FileNode g))" "length (fd_bytes g) = N"
      "take (unat start) (fd_bytes g) = hb @ pl_index plan"
      "\<forall>task \<in> tasks_of ?es (set (pl_sources plan)). chunk_in P ?h (pl_dek plan) start content (fd_bytes g) task"
    using fill unfolding filled_def by blast
  have "take HEADER_SIZE (take (unat start) (fd_bytes g)) = hb" unfolding g(3) using hl by simp
  then have "take HEADER_SIZE (fd_bytes g) = hb" using us by (simp add: min_def)
  moreover have "drop HEADER_SIZE (take (unat start) (fd_bytes g)) = pl_index plan" unfolding g(3) using hl by simp
  then have "slice HEADER_SIZE (unat (h_index_size ?h)) (fd_bytes g) = pl_index plan"
    using us by (simp add: slice_def drop_take)
  moreover have "chunk_in P ?h (pl_dek plan) start content (fd_bytes g) (e, i)"
    if "e \<in> set (files_of ?es)" "i < unat (e_chunk_count e)" for e i
    using g(4) that covers by (auto simp: tasks_of_def)
  ultimately have "container_bytes P plan content (fd_bytes g)"
    unfolding container_bytes_def using start ctx hb g(2) by (intro exI [of _ start] exI [of _ hb]) simp
  with g(1) disk show ?thesis by auto
qed

lemma container_bytes_open:
  assumes plan: "plan_ok P walk D source password plan content" and codec: "header_codec_ok P"
    and bs: "container_bytes P plan content (fd_bytes g)" and lim: "header_within_limits (pl_header plan)"
    and v: "fault_free v" "w_disk v q = Some (FileNode g)"
  shows "\<exists>opened v'. open_container P q password v = (Inr opened, v') \<and>
    content_stored P opened (pl_entries plan) content \<and> oc_index opened = index_tables (pl_entries plan)"
proof -
  let ?h = "pl_header plan" and ?es = "pl_entries plan"
  from bs obtain start hb where start: "checked_add HEADER64 (h_index_size ?h) = Some start"
    and ctx: "pack_ctx P ?h ?es start (length (fd_bytes g))" and hb: "serialize_header P ?h = Inr hb"
    and front: "take HEADER_SIZE (fd_bytes g) = hb" "slice HEADER_SIZE (unat (h_index_size ?h)) (fd_bytes g) = pl_index plan"
    and chunks: "\<And>e i. e \<in> set (files_of ?es) \<Longrightarrow> i < unat (e_chunk_count e) \<Longrightarrow>
      chunk_in P ?h (pl_dek plan) start content (fd_bytes g) (e, i)"
    unfolding container_bytes_def by blast
  have us: "unat start = HEADER_SIZE + unat (h_index_size ?h)" using start by (simp add: checked_add_eq_Some)
  let ?o = "\<lparr>oc_read = content_reader (fd_bytes g), oc_header = ?h, oc_index = index_tables ?es, oc_dek = pl_dek plan, oc_data_start = start\<rparr>"
  have stored: "content_stored P ?o ?es content"
    by (rule filled_stored [OF ctx refl us chunks]) (use plan in \<open>simp_all add: plan_ok_def\<close>)
  have "\<exists>v'. open_container P q password v = (Inr ?o, v') \<and> w_disk v' = w_disk v"
  proof (rule open_container_succeeds [OF v])
    show "p_header_from P (take HEADER_SIZE (fd_bytes g)) = Inr ?h"
      using front(1) header_from_serialized [OF codec hb] by simp
    show "length (fd_bytes g) = HEADER_SIZE + unat (h_index_size ?h) + unat (h_data_size ?h)"
      using ctx us by (simp add: pack_ctx_def)
  qed (use lim ctx start front(2) plan in \<open>simp_all add: pack_ctx_def plan_ok_def\<close>)
  then obtain v' where "open_container P q password v = (Inr ?o, v')" by blast
  with stored show ?thesis by (intro exI [of _ ?o] exI [of _ v']) simp
qed

lemma pack_publishes:
  assumes asm: "pack_assumptions P sd walk source w"
    and run: "pack_inner P walk fuel sd source output password duress params max_index NoFault requested w = (Inr (), w')"
  shows "\<exists>es content. published P walk source output password (w_disk w) (w_disk w') es content"
proof -
  let ?D = "w_disk w"
  have P: "aead_ok P" "schedules_ok sd" and codec: "header_codec_ok P" using asm by (auto simp: pack_assumptions_def)
  obtain plan wp T wt where prep: "pack_prepare P walk fuel source password duress params max_index w = (Inr plan, wp)"
    and name: "(case requested of Some path \<Rightarrow> validate_requested_temporary_path output path
      | None \<Rightarrow> temporary_path output) wp = (Inr T, wt)"
    and out: "pack_output P sd NoFault plan T output password wt = (Inr (), w')"
    using run by (auto simp: pack_inner_def bindM_eq_Inr)
  let ?content = "source_content ?D (pl_sources plan)"
  note plan = pack_prepare_plan [OF asm prep]
  have wt: "w_disk wt = ?D" using temporary_name_world [OF name] plan(1) by simp
  obtain w1 g0 w2 w3 where T: "?D T = None" and w1: "w_disk w1 = ?D(T := Some (FileNode g0))"
    and wr: "pack_write P sd NoFault plan T w1 = (Inr (), w2)" and sv: "pack_self_verify P sd plan T password w2 = (Inr (), w3)"
    and cm: "pack_commit T output w3 = (Inr (), w')"
    using pack_output_Inr [OF out] wt by metis
  obtain g where w2: "w_disk w2 = ?D(T := Some (FileNode g))" and bs: "container_bytes P plan ?content (fd_bytes g)"
    using pack_write_container [OF P plan(2) T w1 wr] by blast
  from bs obtain start hb where hb: "serialize_header P (pl_header plan) = Inr hb" "take HEADER_SIZE (fd_bytes g) = hb"
    and start: "checked_add HEADER64 (h_index_size (pl_header plan)) = Some start"
    and ctx: "pack_ctx P (pl_header plan) (pl_entries plan) start (length (fd_bytes g))" unfolding container_bytes_def by blast
  have "w_disk w3 = w_disk w2 \<and> header_within_limits (pl_header plan)"
    by (rule pack_self_verify_Inr [OF sv codec hb(1) _ hb(2)])
       (use w2 ctx start in \<open>simp_all add: pack_ctx_def checked_add_eq_Some\<close>)
  then have w3: "w_disk w3 = ?D(T := Some (FileNode g))" and lim: "header_within_limits (pl_header plan)" using w2 by simp_all
  have out_none: "w_disk w3 output = None" and w': "w_disk w' = moved_disk T output (w_disk w3)"
    using pack_commit_Inr [OF cm] by simp_all
  have Dout: "?D output = None" using out_none w3 by (auto split: if_splits)
  have final: "w_disk w' output = Some (FileNode g)"
    unfolding w' moved_disk_def using w3 by (simp add: below_def starts_with_def)
  have "published P walk source output password ?D (w_disk w') (pl_entries plan) ?content"
    unfolding published_def
    using plan(2) Dout container_bytes_open [OF plan(2) codec bs lim] final by (auto simp: plan_ok_def)
  then show ?thesis by blast
qed

section \<open>Failure\<close>

lemma write_header_frame [frame_intros]: "S q \<Longrightarrow> disk_frame S (write_header P q h)"
  unfolding write_header_def by (intro frame_intros)

lemma wipe_slot_frame [frame_intros]: "disk_frame S (wipe_slot slot)"
  unfolding wipe_slot_def by (intro frame_intros)

text \<open>Opening can change only the file its path leads to, and only by the duress wipe.\<close>

lemma wipe_for_duress_other:
  assumes run: "wipe_for_duress P path h w = (r, w')" and p: "p \<noteq> follow (w_disk w) path"
  shows "w_disk w' p = w_disk w p"
proof -
  from wipe_slot_frame run [unfolded wipe_for_duress_def] show ?thesis
  proof (cases rule: bindM_pure_cases)
    case 1: (steps s0 w0)
    from wipe_slot_frame 1(3) show ?thesis
    proof (cases rule: bindM_pure_cases)
      case 2: (steps s1 w1)
      from disk_frame_readers(2) 2(3) show ?thesis
      proof (cases rule: bindM_pure_cases)
        case 3: (steps q w2)
        have q: "q = follow (w_disk w) path" using open_read_write_Inr [OF 3(1)] 1(2) 2(2) by simp
        have "disk_frame (\<lambda>x. x = q) (write_header P q (h\<lparr>h_slots := (s0, s1)\<rparr>))" by (intro frame_intros) simp
        from disk_frameD [OF this 3(3), of p] p q show ?thesis using 1(2) 2(2) 3(2) by simp
      qed (use 1(2) 2(2) in simp)
    qed (use 1(2) in simp)
  qed simp
qed

lemma open_container_other:
  assumes run: "open_container P path password w = (r, w')" and p: "p \<noteq> follow (w_disk w) path"
  shows "w_disk w' p = w_disk w p"
proof -
  from disk_frame_readers(1) run [unfolded open_container_def] show ?thesis
  proof (cases rule: bindM_pure_cases)
    case 1: (steps q w1)
    from read_header_frame 1(3) show ?thesis
    proof (cases rule: bindM_pure_cases)
      case 2: (steps h w2)
      let ?rest = "\<lambda>dek. bindM (read_exact_file q (unat (h_index_size h)) HEADER64) (\<lambda>encrypted_index.
         bindM (liftE (open_index P h dek encrypted_index)) (\<lambda>index.
         bindM (liftE (context_opt ''Data offset overflow'' (checked_add HEADER64 (h_index_size h)))) (\<lambda>data_start.
         bindM (file_reader q) (\<lambda>rd.
         returnM \<lparr>oc_read = rd, oc_header = h, oc_index = index, oc_dek = dek, oc_data_start = data_start\<rparr>))))"
      have rest: "disk_frame (\<lambda>_. False) (?rest dek)" for dek
        by (intro frame_intros) (simp add: disk_frame_def file_reader_def)
      have d2: "w_disk w2 = w_disk w" using 1(2) 2(2) by simp
      show ?thesis
      proof (cases "unlock P h password")
        case (Inl e)
        with 2(3) d2 show ?thesis by simp
      next
        case (Inr answer)
        show ?thesis
        proof (cases answer)
          case (Unlocked dek)
          have "?rest dek w2 = (r, w')" using 2(3) Inr Unlocked by simp
          from pure_disk [OF rest this] d2 show ?thesis by simp
        next
          case Duress
          obtain x w3 where x: "wipe_for_duress P path h w2 = (x, w3)" by (cases "wipe_for_duress P path h w2")
          then have "w' = w3" using 2(3) Inr Duress by (auto simp: bindM_def liftE_def bail_def split: sum.splits)
          with wipe_for_duress_other [OF x] p d2 show ?thesis by simp
        next
          case Failed
          with 2(3) Inr d2 show ?thesis by (simp add: bail_def)
        qed
      qed
    qed (use 1(2) in simp)
  qed simp
qed

lemma disk_frame_pack_write: "disk_frame (\<lambda>p. p = temp) (pack_write P sd NoFault plan temp)"
proof -
  let ?S = "\<lambda>p. p = temp"
  have chunk: "disk_frame ?S (encrypt_source_chunk P temp start snapshot q e h key c pr)" for start snapshot q e h key c pr
    unfolding encrypt_source_chunk_def Let_def split_beta by (intro frame_intros) simp
  have changed: "disk_frame ?S (ensure_unchanged snapshot q)" for snapshot q
    unfolding ensure_unchanged_def by (intro frame_intros)
  have one: "disk_frame ?S (encrypt_source P sd temp start es h dek source pr)" for start es h dek source pr
    unfolding encrypt_source_def encrypt_source_file_def
    by (intro frame_intros disk_frame_foldM chunk changed)
  show ?thesis
    unfolding pack_write_def Let_def split_beta pack_fault.case
    by (intro frame_intros disk_frame_foldM one) simp_all
qed

lemma pack_self_verify_other:
  assumes run: "pack_self_verify P sd plan temp password w = (r, w')" and p: "p \<noteq> temp" "follow (w_disk w) temp = temp"
  shows "w_disk w' p = w_disk w p"
proof -
  from disk_frame_ambient(1) run [unfolded pack_self_verify_def] show ?thesis
  proof (cases rule: bindM_pure_cases)
    case 1: (steps u w1)
    let ?w1 = "w1\<lparr>w_events := w_events w1 @ [PhaseStarted KeyDerivation]\<rparr>"
    obtain o' w2 where op: "open_container P temp password ?w1 = (o', w2)" by (cases "open_container P temp password ?w1")
    have d: "w_disk w2 p = w_disk w p" using open_container_other [OF op, of p] p 1(2) by simp
    let ?rest = "\<lambda>opened. bindM check_cancel (\<lambda>_.
       bindM (emit (PhaseStarted SelfVerify)) (\<lambda>_.
       bindM (emit (Progress \<lparr>pr_phase = SelfVerify, pr_completed = 0, pr_total = pl_total plan\<rparr>)) (\<lambda>_.
       bindM (contextM ''Self-verification of packed container failed''
         (reporting self_verify_event (verify_all_with_control P (sd_verify sd) opened))) (\<lambda>_.
       check_cancel))))"
    have rest: "disk_frame (\<lambda>_. False) (?rest opened)" for opened by (intro frame_intros)
    show ?thesis
    proof (cases o')
      case (Inl e)
      with 1(3) op d show ?thesis by (simp add: bindM_emit) (auto simp: bindM_def contextM_def)
    next
      case (Inr opened)
      then have "?rest opened w2 = (r, w')"
        using 1(3) op by (simp add: bindM_emit) (simp add: bindM_def contextM_def)
      from pure_disk [OF rest this] d show ?thesis by simp
    qed
  qed simp
qed

text \<open>A file stays a file while it is written.\<close>

named_theorems keep_intros \<open>computations that keep a file a file\<close>

definition keeps_file :: "path \<Rightarrow> 'a io \<Rightarrow> bool" where
  "keeps_file p m \<longleftrightarrow> (\<forall>w. (\<exists>f. w_disk w p = Some (FileNode f)) \<longrightarrow> (\<exists>f. w_disk (snd (m w)) p = Some (FileNode f)))"

lemma keeps_fileD: "keeps_file p m \<Longrightarrow> m w = (r, w') \<Longrightarrow> w_disk w p = Some (FileNode f) \<Longrightarrow> \<exists>f'. w_disk w' p = Some (FileNode f')"
  unfolding keeps_file_def by (metis snd_conv)

lemma keeps_file_frame: "disk_frame (\<lambda>_. False) m \<Longrightarrow> keeps_file p m"
  by (simp add: keeps_file_def disk_frame_def)

lemma keeps_file_bindM [keep_intros]:
  assumes "keeps_file p m" and "\<And>a. keeps_file p (f a)"
  shows "keeps_file p (bindM m f)"
  using assms unfolding keeps_file_def bindM_def by (fastforce split: prod.splits sum.splits)

lemma keeps_file_foldM [keep_intros]: "(\<And>x s. keeps_file p (f x s)) \<Longrightarrow> keeps_file p (foldM f xs s)"
proof (induction xs arbitrary: s)
  case Nil
  show ?case by (simp add: keeps_file_def returnM_def)
next
  case (Cons x xs)
  then show ?case by (auto intro!: keep_intros)
qed

lemma keeps_file_write [keep_intros]: "keeps_file p (write_file_at q off data)" "keeps_file p (set_file_len q len)"
  by (auto simp: keeps_file_def write_file_at_def set_file_len_def fs_call_def put_node_def split: option.splits node.splits)

lemma keeps_file_pure [keep_intros]: "keeps_file p (liftE x)" "keeps_file p check_cancel" "keeps_file p (emit ev)"
  "keeps_file p (emit_all evs)" "keeps_file p (sync_file q)" "keeps_file p (returnM a)"
  "keeps_file p (contextM msg (open_file q))" "keeps_file p (contextM msg (read_exact_file q n off))"
  by (rule keeps_file_frame; intro frame_intros)+

lemma pack_write_keeps:
  assumes "pack_write P sd NoFault plan temp w = (r, w')" and "w_disk w temp = Some (FileNode f)"
  shows "\<exists>f'. w_disk w' temp = Some (FileNode f')"
proof -
  have changed: "keeps_file temp (ensure_unchanged snapshot q)" for snapshot q
    unfolding ensure_unchanged_def by (rule keeps_file_frame) (intro frame_intros)
  have "keeps_file temp (pack_write P sd NoFault plan temp)"
    unfolding pack_write_def Let_def split_beta pack_fault.case encrypt_source_def encrypt_source_file_def encrypt_source_chunk_def
    by (intro keep_intros changed)
  from keeps_fileD [OF this assms] show ?thesis .
qed

lemma rename_noreplace_Inl: "rename_noreplace src dst w = (Inl e, w') \<Longrightarrow> w_disk w' = w_disk w"
  by (auto simp: rename_noreplace_def fs_call_def split: option.splits if_splits)

lemma pack_commit_Inl:
  assumes run: "pack_commit temp output w = (Inl e, w')"
  shows "w_disk w' = w_disk w"
proof -
  from disk_frame_ambient(1) run [unfolded pack_commit_def] show ?thesis
  proof (cases rule: bindM_pure_cases)
    case 1: (steps u w1)
    obtain r w2 where mv: "rename_noreplace temp output (w1\<lparr>w_events := w_events w1 @ [PhaseStarted Commit] @ [CommitStarted]\<rparr>) = (r, w2)"
      by (cases "rename_noreplace temp output (w1\<lparr>w_events := w_events w1 @ [PhaseStarted Commit] @ [CommitStarted]\<rparr>)")
    obtain r' w3 where s: "sync_parent (output_parent output) w2 = (r', w3)" by (cases "sync_parent (output_parent output) w2")
    show ?thesis
    proof (cases r)
      case (Inl e')
      from rename_noreplace_Inl [OF mv [unfolded Inl]] have "w_disk w2 = w_disk w" by (simp add: 1(2))
      with 1(3) mv Inl show ?thesis
        by (auto simp: bindM_emit) (auto simp: bindM_def contextM_def)
    next
      case (Inr u')
      with 1(3) mv s show ?thesis
        by (cases r') (auto simp: bindM_emit; auto simp: bindM_def contextM_def emit_def)+
    qed
  qed simp
qed

text \<open>A failing pack leaves every path but its temporary file as it was.\<close>

lemma pack_output_Inl:
  assumes run: "pack_output P sd NoFault plan temp output password w = (Inl e, w')" and p: "p \<noteq> temp"
  shows "w_disk w' p = w_disk w p"
proof -
  let ?body = "bindM (contextM ''Unable to create temporary container'' (create_new_file temp)) (\<lambda>_.
     bindM (emit (TemporaryArtifact PackContainer temp)) (\<lambda>_.
     bindM (pack_write P sd NoFault plan temp) (\<lambda>_.
     bindM (pack_self_verify P sd plan temp password) (\<lambda>_.
     pack_commit temp output))))"
  obtain e1 w1 where b: "?body w = (Inl e1, w1)" and w': "w' = snd (remove_one_file temp w1)"
    using run by (auto simp: pack_output_def with_temp_output_def split: prod.splits sum.splits)
  have "disk_frame (\<lambda>x. x = temp) (remove_one_file temp)" by (intro frame_intros) simp
  then have last: "w_disk w' p = w_disk w1 p" unfolding w' disk_frame_def using p by blast
  have new: "disk_frame (\<lambda>x. x = temp) (contextM ''Unable to create temporary container'' (create_new_file temp))"
    by (intro frame_intros) simp
  from b show ?thesis
  proof (cases rule: bindM_cases)
    case (fails e2)
    with disk_frameD [OF new fails(1) p] last show ?thesis by simp
  next
    case 1: (steps q w2)
    have c: "w_disk w2 p = w_disk w p" using disk_frameD [OF new 1(1) p] .
    have created: "\<exists>f. w_disk w2 temp = Some (FileNode f)"
      using 1(1) create_new_file_Inr [of temp w q w2] by (auto simp: contextM_eq_Inr)
    from 1(2) have "bindM (pack_write P sd NoFault plan temp) (\<lambda>_.
       bindM (pack_self_verify P sd plan temp password) (\<lambda>_. pack_commit temp output))
       (w2\<lparr>w_events := w_events w2 @ [TemporaryArtifact PackContainer temp]\<rparr>) = (Inl e1, w1)"
      by (simp add: bindM_emit)
    then show ?thesis
    proof (cases rule: bindM_cases)
      case (fails e2)
      with disk_frameD [OF disk_frame_pack_write fails(1) p] last c show ?thesis by simp
    next
      case 2: (steps u w3)
      have wr: "w_disk w3 p = w_disk w p" using disk_frameD [OF disk_frame_pack_write 2(1) p] c by simp
      have T: "follow (w_disk w3) temp = temp"
        using pack_write_keeps [OF 2(1)] created by (fastforce simp: follow_def)
      from 2(2) show ?thesis
      proof (cases rule: bindM_cases)
        case (fails e2)
        with pack_self_verify_other [OF fails(1) p T] wr last show ?thesis by simp
      next
        case 3: (steps u' w4)
        with pack_self_verify_other [OF 3(1) p T] pack_commit_Inl [OF 3(2)] wr last show ?thesis by simp
      qed
    qed
  qed
qed


lemma disk_frameI: "(\<And>w r w'. m w = (r, w') \<Longrightarrow> w_disk w' = w_disk w) \<Longrightarrow> disk_frame S m"
  unfolding disk_frame_def by (metis surj_pair snd_conv)

lemma key_frames [frame_intros]:
  "disk_frame S random_disabled_slot" "disk_frame S random_disabled_duress"
  "disk_frame S (make_key_slot P h password dek g params)"
  by (rule disk_frameI, erule random_disabled_slot_world random_disabled_duress_world make_key_slot_world)+

lemma configure_duress_frame [frame_intros]: "disk_frame S (configure_duress P h password params)"
  by (cases password) (auto simp: configure_duress_def Let_def intro!: frame_intros)

lemma pack_prepare_frame: "disk_frame (\<lambda>_. False) (pack_prepare P walk fuel source password duress params max_index)"
proof -
  have keys: "disk_frame (\<lambda>_. False) (pack_keys P password duress params es ser isz dsz)" for es ser isz dsz
    unfolding pack_keys_def Let_def by (intro frame_intros)
  show ?thesis
    unfolding pack_prepare_def Let_def split_beta by (intro frame_intros keys)
qed

text \<open>The temporary file is the requested one, or a new name beside the output.\<close>

definition temporary_for :: "path \<Rightarrow> path option \<Rightarrow> path \<Rightarrow> bool" where
  "temporary_for output requested temp \<longleftrightarrow> butlast temp = butlast output \<and> (\<forall>t. requested = Some t \<longrightarrow> temp = t \<and> t \<noteq> output)"

lemma temporary_path_loop_Inr: "temporary_path_loop n parent name w = (Inr temp, w') \<Longrightarrow> butlast temp = parent"
  by (induction n arbitrary: w) (auto simp: Let_def bindM_eq_Inr result_simps split: if_splits)

lemma temporary_for_Inr:
  assumes "(case requested of Some path \<Rightarrow> validate_requested_temporary_path output path
      | None \<Rightarrow> temporary_path output) w = (Inr temp, w')"
  shows "temporary_for output requested temp"
proof (cases requested)
  case None
  with assms temporary_path_loop_Inr show ?thesis
    by (auto simp: temporary_for_def temporary_path_def output_parent_def path_parent_def dest!: temporary_path_loop_Inr split: if_splits)
next
  case (Some t)
  with assms show ?thesis
    by (auto simp: temporary_for_def validate_requested_temporary_path_def bindM_eq_Inr result_simps path_parent_def
        path_file_name_def split: if_splits)
qed

lemma pack_inner_Inl:
  assumes run: "pack_inner P walk fuel sd source output password duress params max_index NoFault requested w = (Inl e, w')"
  shows "w_disk w' = w_disk w \<or>
    (\<exists>temp. temporary_for output requested temp \<and> (\<forall>p. p \<noteq> temp \<longrightarrow> w_disk w' p = w_disk w p))"
  using pack_prepare_frame run [unfolded pack_inner_def]
proof (cases rule: bindM_pure_cases)
  case 1: (steps plan w1)
  let ?name = "case requested of Some path \<Rightarrow> validate_requested_temporary_path output path
      | None \<Rightarrow> temporary_path output"
  from 1(3) show ?thesis
  proof (cases rule: bindM_cases)
    case (fails e')
    then show ?thesis using temporary_name_world [OF fails(1)] 1(2) by simp
  next
    case 2: (steps temp w2)
    have "w_disk w2 = w_disk w" using temporary_name_world [OF 2(1)] 1(2) by simp
    with pack_output_Inl [OF 2(2)] temporary_for_Inr [OF 2(1)] show ?thesis by (intro disjI2 exI [of _ temp]) simp
  qed
qed simp

text \<open>The guard removes what is at the temporary name, unless the removal itself fails.\<close>

lemma with_temp_output_removes:
  assumes "with_temp_output temp body w = (Inl e, w')" and "body w = (r, w1)"
    and "w_disk w1 temp = Some n" "n \<noteq> DirNode" "w_fault w1 (w_calls w1) = None"
  shows "w_disk w' temp = None"
  using assms
  by (auto simp: with_temp_output_def remove_one_file_def fs_call_def put_node_def
      split: prod.splits sum.splits node.splits)

text \<open>The guard is armed before the file exists: when another process has created that name, the
  creation fails and the guard removes a file the packer did not create.\<close>

lemma pack_output_removes_foreign:
  assumes f: "w_disk w temp = Some (FileNode f)" and ok: "w_fault w (w_calls w) = None" "w_fault w (Suc (w_calls w)) = None"
  shows "\<exists>e w'. pack_output P sd fault plan temp output password w = (Inl e, w') \<and> w_disk w' temp = None"
  using assms
  by (simp add: pack_output_def with_temp_output_def bindM_def contextM_def create_new_file_def remove_one_file_def
      fs_call_def put_node_def)

end
