(* ===== verification/ExtractSafety.thy ===== *)
theory ExtractSafety
  imports ExtractProofs PackProofs
begin

text \<open>
  Extraction is confined: whatever the index of the container says and whatever fails, only paths
  below the staging directory and the destination change. And the composition with packing: what
  was packed is what comes out.
\<close>

section \<open>Confinement\<close>

lemma disk_frame_bindM_post:
  assumes "disk_frame S m" and "\<And>a w w'. m w = (Inr a, w') \<Longrightarrow> disk_frame S (f a)"
  shows "disk_frame S (bindM m f)"
  unfolding disk_frame_def
proof (intro allI impI)
  fix w p
  assume p: "\<not> S p"
  obtain r w1 where m: "m w = (r, w1)" by (cases "m w")
  have w1: "w_disk w1 p = w_disk w p" by (rule disk_frameD [OF assms(1) m p])
  show "w_disk (snd (bindM m f w)) p = w_disk w p"
  proof (cases r)
    case (Inl e)
    with m w1 show ?thesis by (simp add: bindM_def)
  next
    case (Inr a)
    with m have f: "disk_frame S (f a)" by (intro assms(2)) simp
    obtain r' w2 where "f a w1 = (r', w2)" by (cases "f a w1")
    with disk_frameD [OF f this p] w1 m Inr show ?thesis by (simp add: bindM_def)
  qed
qed

lemma disk_frame_foldM_inv:
  assumes "I s" and "\<And>x s. I s \<Longrightarrow> disk_frame S (f x s)"
    and "\<And>x s w s' w'. I s \<Longrightarrow> f x s w = (Inr s', w') \<Longrightarrow> I s'"
  shows "disk_frame S (foldM f xs s)"
  using assms(1)
proof (induction xs arbitrary: s)
  case (Cons x xs)
  have "disk_frame S (bindM (f x s) (foldM f xs))"
    by (rule disk_frame_bindM_post [OF assms(2) [OF Cons.prems]]) (use Cons assms(3) in blast)
  then show ?case by simp
qed (simp add: frame_intros)

lemma foldM_inv:
  assumes "foldM f xs s w = (Inr t, w')" and "I s"
    and "\<And>x s w s' w'. I s \<Longrightarrow> f x s w = (Inr s', w') \<Longrightarrow> I s'"
  shows "I t"
  using assms(1,2)
proof (induction xs arbitrary: s w)
  case (Cons x xs)
  then show ?case using assms(3) by (simp add: bindM_eq_Inr) blast
qed simp

definition root_below :: "path \<Rightarrow> path \<Rightarrow> safe_root \<Rightarrow> bool" where
  "root_below stage out r \<longleftrightarrow>
     sr_parent r @ [sr_staging_name r] = stage \<and> sr_parent r @ [sr_target_name r] = out \<and>
     (\<forall>i p. map_of (sr_directories r) i = Some p \<longrightarrow> below stage p)"

definition pending_below :: "path \<Rightarrow> pending_file \<Rightarrow> bool" where
  "pending_below stage p \<longleftrightarrow> below stage (pf_parent p) \<and> (\<forall>q. pf_file p = Some q \<longrightarrow> below stage q)"

lemma below_trans_append: "below p q \<Longrightarrow> below p (q @ r)"
  by (auto simp: below_def starts_with_iff)

lemma below_dir_entry: "below p q \<Longrightarrow> below p (dir_entry q name)"
  by (simp add: dir_entry_def below_trans_append)

lemma disk_frame_liftE_bind:
  "(\<And>a. r = Inr a \<Longrightarrow> disk_frame S (f a)) \<Longrightarrow> disk_frame S (bindM (liftE r) f)"
  by (rule disk_frame_bindM_post) (auto simp: liftE_def frame_intros)

lemma create_directory_frame:
  assumes "root_below stage out r"
  shows "disk_frame (below stage) (create_directory i pid name r)"
  unfolding create_directory_def
proof (rule disk_frame_liftE_bind, rule disk_frame_liftE_bind)
  fix p
  assume "context_opt ''Parent directory has not been created'' (map_of (sr_directories r) pid) = Inr p"
  then have "below stage p" using assms by (simp add: context_opt_eq_Inr root_below_def)
  then show "disk_frame (below stage) (bindM (contextM ''Unable to create output directory'' (create_new_dir (dir_entry p name))) (\<lambda>_.
     bindM (dir_symlink_metadata p name) (\<lambda>metadata.
     bindM (liftE (ensure (metadata = DirNode) ''Output directory is not a safe real directory'')) (\<lambda>_.
     bindM (contextM ''Unable to open output directory without escaping output root'' (open_dir (dir_entry p name))) (\<lambda>child.
     returnM (r\<lparr>sr_directories := AList.update i child (sr_directories r)\<rparr>))))))"
    by (intro frame_intros below_dir_entry)
qed

lemma create_directory_below:
  assumes r: "root_below stage out r" and run: "create_directory i pid name r w = (Inr r', w')"
  shows "root_below stage out r'"
proof -
  from run obtain p w1 child where p: "map_of (sr_directories r) pid = Some p"
    and op: "open_dir (dir_entry p name) w1 = (Inr child, w')"
    and r': "r' = r\<lparr>sr_directories := AList.update i child (sr_directories r)\<rparr>"
    by (auto simp: create_directory_def bindM_eq_Inr contextM_eq_Inr result_simps)
  have "below stage child" using open_dir_Inr [OF op] p r by (simp add: root_below_def below_dir_entry)
  with r show ?thesis unfolding r' root_below_def by (simp add: update_conv')
qed

lemma begin_file_frame:
  assumes "root_below stage out r"
  shows "disk_frame (below stage) (begin_file pid name i r)"
  unfolding begin_file_def Let_def
proof (rule disk_frame_liftE_bind, rule disk_frame_liftE_bind)
  fix p
  assume "context_opt ''Parent directory has not been created'' (map_of (sr_directories r) pid) = Inr p"
  then have "below stage p" using assms by (simp add: context_opt_eq_Inr root_below_def)
  then have mk: "disk_frame (below stage) (create_new_file (p @ [t]))" for t by (intro frame_intros below_trans_append)
  show "disk_frame (below stage) (bindM (dir_exists p name) (\<lambda>exists.
     bindM (liftE (ensure (\<not> exists) (''Duplicate output entry '' @ name))) (\<lambda>_.
     bindM (fill_bytes 8) (\<lambda>random.
     bindM (contextM ''Unable to create temporary output file''
       (create_new_file (p @ [''.cipherfs-'' @ dec_string (unat i) @ ''-'' @ hex_encode random @ ''.tmp'']))) (\<lambda>file.
     bindM (try_clone p) (\<lambda>parent.
     returnM \<lparr>pf_parent = parent, pf_temp_name = ''.cipherfs-'' @ dec_string (unat i) @ ''-'' @ hex_encode random @ ''.tmp'',
       pf_final_name = name, pf_file = Some file, pf_committed = False\<rparr>))))))"
    by (intro frame_intros mk)
qed

lemma begin_file_below:
  assumes "root_below stage out r" "begin_file pid name i r w = (Inr p, w')"
  shows "pending_below stage p"
  using begin_file_Inr [OF assms(2)] assms(1) by (auto simp: pending_below_def root_below_def temp_path_def below_trans_append)

lemma pending_frames:
  assumes "pending_below stage p"
  shows "disk_frame (below stage) (pending_drop p)" "disk_frame (below stage) (finish_writing p)"
    "disk_frame (below stage) (pending_commit p)"
    "disk_frame (below stage) (write_plaintext inject p bs progress)"
proof -
  have b: "below stage (pf_parent p)" "\<And>q. pf_file p = Some q \<Longrightarrow> below stage q" using assms by (auto simp: pending_below_def)
  show drop: "disk_frame (below stage) (pending_drop p)"
    unfolding pending_drop_def by (intro frame_intros below_trans_append b)
  show fin: "disk_frame (below stage) (finish_writing p)" for p
    by (cases "pf_file p") (auto simp: finish_writing_def intro!: frame_intros)
  have ren: "disk_frame (below stage) (dir_rename_file (pf_parent p) src dst)" for src dst
    using b(1) below_trans_append [OF b(1)] below_dir_entry [OF b(1)]
    unfolding dir_rename_file_def by (intro frame_intros) (auto simp: disk_frame_def split: option.splits)
  have "pf_parent q = pf_parent p" if "finish_writing p w = (Inr q, w')" for q w w'
    using that by (auto simp: finish_writing_def bindM_eq_Inr split: option.splits)
  then show "disk_frame (below stage) (pending_commit p)"
    unfolding pending_commit_def by (intro frame_intros drop disk_frame_bindM_post [OF fin]) (simp add: ren)
  have ap: "disk_frame (below stage) (append_file q bs)" if "pf_file p = Some q" for q
    using b(2) [OF that] unfolding append_file_def
    by (intro frame_intros) (auto simp: disk_frame_def put_node_def split: option.splits node.splits)
  show "disk_frame (below stage) (write_plaintext inject p bs progress)"
    unfolding write_plaintext_def Let_def split_beta pending_writer_def
    by (intro disk_frame_liftE_bind frame_intros ap) (simp add: context_opt_eq_Inr)
qed

lemma extract_batches_frame:
  assumes "pending_below stage p"
  shows "disk_frame (below stage) (extract_batches P opened threads inject e p chunks progress)"
  using assms
proof (induction P opened threads inject e p chunks progress rule: extract_batches.induct)
  case (1 P opened threads inject e p chunks progress)
  note wr = pending_frames(4) [OF 1(2)]
  show ?case
  proof (cases "chunks = []")
    case True
    then show ?thesis by (subst extract_batches.simps) (simp add: frame_intros)
  next
    case False
    with 1 show ?thesis
      unfolding extract_batches.simps [of _ _ _ _ _ _ chunks]
      by (simp only: if_False, intro frame_intros disk_frame_mapM decrypt_batch_frame disk_frame_foldM wr) blast
  qed
qed

lemma drop_all_frame:
  assumes "\<forall>p \<in> set ps. pending_below stage p"
  shows "disk_frame (below stage) (drop_all ps)"
proof -
  have "w_disk (fold (\<lambda>p w. snd (pending_drop p w)) ps w) q = w_disk w q" if q: "\<not> below stage q" for w q
    using assms
  proof (induction ps arbitrary: w)
    case (Cons p ps)
    then have "disk_frame (below stage) (pending_drop p)" by (intro pending_frames) simp
    then have "w_disk (snd (pending_drop p w)) q = w_disk w q" using q unfolding disk_frame_def by blast
    with Cons show ?case by simp
  qed simp
  then show ?thesis by (simp add: disk_frame_def drop_all_def)
qed

lemma finish_writing_below: "pending_below stage p \<Longrightarrow> finish_writing p w = (Inr q, w') \<Longrightarrow> pending_below stage q"
  by (auto simp: finish_writing_def bindM_eq_Inr pending_below_def split: option.splits)

lemma extract_file_frame:
  assumes "root_below stage out r"
  shows "disk_frame (below stage) (extract_file P opened threads inject r e progress)"
    "extract_file P opened threads inject r e progress w = (Inr (p, progress'), w') \<Longrightarrow> pending_below stage p"
proof -
  show "disk_frame (below stage) (extract_file P opened threads inject r e progress)"
    unfolding extract_file_def
  proof (rule disk_frame_bindM_post [OF begin_file_frame [OF assms]])
    fix p w w'
    assume "begin_file (e_parent_id e) (e_name e) (e_id e) r w = (Inr p, w')"
    then have p: "pending_below stage p" by (rule begin_file_below [OF assms])
    show "disk_frame (below stage) (on_error (pending_drop p)
       (bindM (extract_batches P opened threads inject e p [0..<unat (e_chunk_count e)] progress) (\<lambda>progress.
        bindM (finish_writing p) (\<lambda>pending. returnM (pending, progress)))))"
      by (intro frame_intros extract_batches_frame [OF p] pending_frames [OF p])
  qed
  assume "extract_file P opened threads inject r e progress w = (Inr (p, progress'), w')"
  then obtain p0 w1 w2 where "begin_file (e_parent_id e) (e_name e) (e_id e) r w = (Inr p0, w1)" "finish_writing p0 w2 = (Inr p, w')"
    by (auto simp: extract_file_def bindM_eq_Inr on_error_eq_Inr)
  then show "pending_below stage p" by (metis begin_file_below [OF assms] finish_writing_below)
qed

definition loop_below :: "path \<Rightarrow> path \<Rightarrow> safe_root \<times> pending_file list \<times> progress_tracker \<Rightarrow> bool" where
  "loop_below stage out s \<longleftrightarrow> root_below stage out (fst s) \<and> (\<forall>p \<in> set (fst (snd s)). pending_below stage p)"

lemma extract_entry_frame:
  assumes "loop_below stage out s"
  shows "disk_frame (below stage) (extract_entry P opened threads inject e s)"
    "extract_entry P opened threads inject e s w = (Inr s', w') \<Longrightarrow> loop_below stage out s'"
proof -
  obtain r ps pr where s: "s = (r, ps, pr)" by (cases s)
  have r: "root_below stage out r" and ps: "\<forall>p \<in> set ps. pending_below stage p" using assms by (simp_all add: loop_below_def s)
  show "disk_frame (below stage) (extract_entry P opened threads inject e s)"
    unfolding extract_entry_def s prod.case
    by (intro frame_intros drop_all_frame [OF ps]; cases "e_kind e")
       (simp_all add: split_beta disk_frame_bindM extract_file_frame(1) [OF r] create_directory_frame [OF r] frame_intros)
  assume "extract_entry P opened threads inject e s w = (Inr s', w')"
  then show "loop_below stage out s'"
    unfolding extract_entry_def s prod.case on_error_eq_Inr
    using r ps create_directory_below [OF r] extract_file_frame(2) [OF r]
    by (cases "e_kind e") (auto simp: bindM_eq_Inr loop_below_def split: if_splits)
qed

lemma commit_pending_frame:
  "\<forall>p \<in> set ps. pending_below stage p \<Longrightarrow> disk_frame (below stage) (commit_pending ps)"
  by (induction ps) (auto intro!: frame_intros drop_all_frame pending_frames)

lemma fill_tree_frame:
  assumes r: "root_below stage out r"
  shows "disk_frame (below stage) (fill_tree P threads opened inject progress r)"
    "fill_tree P threads opened inject progress r w = (Inr r', w') \<Longrightarrow> root_below stage out r'"
proof -
  have ins: "root_below stage out r1" if "install_root_id 1 r w = (Inr r1, w')" for r1 w w'
    using that r by (auto simp: install_root_id_def bindM_eq_Inr result_simps try_clone_def fs_call_eq_Inr root_below_def update_conv' split: if_splits)
  have insf: "disk_frame (below stage) (install_root_id 1 r)" unfolding install_root_id_def by (intro frame_intros)
  have start: "loop_below stage out (r1, [], progress)" if "root_below stage out r1" for r1 using that by (simp add: loop_below_def)
  have loop: "disk_frame (below stage) (foldM (extract_entry P opened threads inject) es (r1, [], progress))"
    if "root_below stage out r1" for es r1
    by (rule disk_frame_foldM_inv [where I = "loop_below stage out", OF start [OF that]]) (simp_all add: extract_entry_frame)
  have loop_post: "loop_below stage out s"
    if "root_below stage out r1" "foldM (extract_entry P opened threads inject) es (r1, [], progress) w = (Inr s, w')" for es r1 s w w'
    by (rule foldM_inv [where I = "loop_below stage out", OF that(2) start [OF that(1)]]) (simp add: extract_entry_frame(2))
  show "disk_frame (below stage) (fill_tree P threads opened inject progress r)"
    unfolding fill_tree_def
  proof (rule disk_frame_bindM, intro frame_intros, rule disk_frame_bindM_post [OF insf])
    fix r1 w w'
    assume "install_root_id 1 r w = (Inr r1, w')"
    then have r1: "root_below stage out r1" by (rule ins)
    show "disk_frame (below stage) (bindM (foldM (extract_entry P opened threads inject) (extraction_order (oc_index opened)) (r1, [], progress))
       (\<lambda>(root, pending_files, progress).
     bindM (on_error (drop_all pending_files) check_cancel) (\<lambda>_.
     bindM (commit_pending pending_files) (\<lambda>_.
     bindM check_cancel (\<lambda>_.
     bindM (emit (PhaseStarted Commit)) (\<lambda>_.
     bindM (emit CommitStarted) (\<lambda>_.
     returnM root)))))))"
    proof (rule disk_frame_bindM_post [OF loop [OF r1]])
      fix s w w'
      assume "foldM (extract_entry P opened threads inject) (extraction_order (oc_index opened)) (r1, [], progress) w = (Inr s, w')"
      from loop_post [OF r1 this] show "disk_frame (below stage) (case s of (root, pending_files, progress) \<Rightarrow>
     bindM (on_error (drop_all pending_files) check_cancel) (\<lambda>_.
     bindM (commit_pending pending_files) (\<lambda>_.
     bindM check_cancel (\<lambda>_.
     bindM (emit (PhaseStarted Commit)) (\<lambda>_.
     bindM (emit CommitStarted) (\<lambda>_.
     returnM root))))))"
        unfolding split_beta loop_below_def by (intro frame_intros drop_all_frame commit_pending_frame) simp_all
    qed
  qed
  assume run: "fill_tree P threads opened inject progress r w = (Inr r', w')"
  then obtain r1 w1 w2 s w3 where "install_root_id 1 r w1 = (Inr r1, w2)"
    "foldM (extract_entry P opened threads inject) (extraction_order (oc_index opened)) (r1, [], progress) w2 = (Inr s, w3)" "r' = fst s"
    unfolding fill_tree_def split_beta by (auto simp: bindM_emit bindM_eq_Inr on_error_eq_Inr)
  with loop_post [OF ins] show "root_below stage out r'" by (auto simp: loop_below_def)
qed


lemma extract_tree_frame:
  assumes r: "root_below stage out r"
  shows "disk_frame (\<lambda>q. below stage q \<or> below out q) (extract_tree P threads order opened inject progress r)"
    "extract_tree P threads order opened inject progress r w = (Inl e, w') \<Longrightarrow> \<not> below stage q \<Longrightarrow> w_disk w' q = w_disk w q"
proof -
  let ?S = "\<lambda>q. below stage q \<or> below out q"
  have weaken: "disk_frame ?S m" if "disk_frame (below stage) m" for m :: "'b io"
    using that by (simp add: disk_frame_def)
  have drop: "disk_frame (below stage) (safe_root_drop r)" if "root_below stage out r" for r
    unfolding safe_root_drop_def using that by (intro frame_intros) (simp add: root_below_def)
  have fill: "disk_frame (below stage) (on_error (safe_root_drop r) (fill_tree P threads opened inject progress r))"
    by (intro frame_intros drop r fill_tree_frame(1) [OF r])
  have post: "root_below stage out r'" if "on_error (safe_root_drop r) (fill_tree P threads opened inject progress r) w = (Inr r', w')" for r' w w'
    using that fill_tree_frame(2) [OF r] by (simp add: on_error_eq_Inr)
  have sync: "disk_frame S (sync_open_directories order ds)" for S ds
    unfolding sync_open_directories_def by (intro disk_frame_foldM dir_frames)
  have parent: "disk_frame S (\<lambda>w. case sync_cap_directory p w of (Inr _, w') \<Rightarrow> (Inr None, w')
      | (Inl e, w') \<Rightarrow> (Inr (Some (''Unable to sync extraction parent after commit: '' @ display_chain e)), w'))" for S p
  proof -
    have "w_disk (snd (sync_cap_directory p w)) = w_disk w" for w
      using dir_frames(5) [of "\<lambda>_. False" p] by (intro ext) (simp add: disk_frame_def)
    then show ?thesis by (auto simp: disk_frame_def split: prod.splits sum.splits) (metis snd_conv)+
  qed
  have commit: "disk_frame ?S (safe_root_commit order r')" if r': "root_below stage out r'" for r'
    unfolding safe_root_commit_def
    using r' by (intro frame_intros weaken [OF drop [OF r']] sync parent) (auto simp: root_below_def)
  show "disk_frame ?S (extract_tree P threads order opened inject progress r)"
    unfolding extract_tree_def
    by (rule disk_frame_bindM_post [OF weaken [OF fill]], intro frame_intros commit post, assumption)
       (auto intro!: frame_intros split: option.split)
  assume run: "extract_tree P threads order opened inject progress r w = (Inl e, w')" and q: "\<not> below stage q"
  from run [unfolded extract_tree_def] show "w_disk w' q = w_disk w q"
  proof (cases rule: bindM_cases)
    case (fails e')
    from disk_frameD [OF fill fails(1) q] show ?thesis .
  next
    case (steps r' w1)
    have w1: "w_disk w1 q = w_disk w q" by (rule disk_frameD [OF fill steps(1) q])
    have r': "root_below stage out r'" by (rule post [OF steps(1)])
    from steps(2) show ?thesis
    proof (cases rule: bindM_cases)
      case (fails e')
      then obtain r1 w2 where body: "bindM (sync_open_directories order (sr_directories r')) (\<lambda>_.
         bindM (contextM (''Unable to install '' @ display_path (sr_target_display r'))
           (rename_noreplace (sr_parent r' @ [sr_staging_name r']) (sr_parent r' @ [sr_target_name r']))) (\<lambda>_ w.
         (case sync_cap_directory (sr_parent r') w of
            (Inr _, w') \<Rightarrow> (Inr None :: string option result, w')
          | (Inl e, w') \<Rightarrow> (Inr (Some (''Unable to sync extraction parent after commit: '' @ display_chain e)), w')))) w1 = (Inl r1, w2)"
        and w': "w' = snd (safe_root_drop r' w2)"
        by (auto simp: safe_root_commit_def on_error_def split: prod.splits sum.splits)
      from sync body have "w_disk w2 = w_disk w1"
      proof (cases rule: bindM_pure_cases)
        case 1: (steps u w3)
        from 1(3) show ?thesis
        proof (cases rule: bindM_cases)
          case (fails e3)
          then obtain e4 where "rename_noreplace (sr_parent r' @ [sr_staging_name r']) (sr_parent r' @ [sr_target_name r']) w3 = (Inl e4, w2)"
            by (auto simp: contextM_def context_err_def result_simps split: prod.splits)
          from rename_noreplace_Inl [OF this] 1(2) show ?thesis by simp
        next
          case (steps u' w4)
          then show ?thesis by (auto split: prod.splits sum.splits)
        qed
      qed simp
      then have "w_disk w2 q = w_disk w1 q" by simp
      moreover have "w_disk w' q = w_disk w2 q" using drop [OF r'] q unfolding w' disk_frame_def by blast
      ultimately show ?thesis using w1 by simp
    next
      case (steps x w2)
      then show ?thesis by (auto simp: bindM_def emit_def returnM_def split: option.splits)
    qed
  qed
qed


section \<open>Packing, then extracting\<close>

text \<open>The last component of every item a walk finds is a plain name.\<close>

definition walk_plain :: "walker \<Rightarrow> disk \<Rightarrow> path \<Rightarrow> bool" where
  "walk_plain walk D source \<longleftrightarrow> (\<forall>r. Inr (source @ r) \<in> set (walk_items walk D source) \<longrightarrow> plain_name (last r))"

text \<open>The tree at the destination is the tree that was packed.\<close>

definition same_tree :: "walker \<Rightarrow> disk \<Rightarrow> path \<Rightarrow> disk \<Rightarrow> path \<Rightarrow> bool" where
  "same_tree walk D source D' out \<longleftrightarrow>
     (\<exists>rs. map (\<lambda>r. Inr (source @ r)) rs = walk_items walk D source \<and>
        (\<forall>r \<in> set rs. D (source @ r) = Some DirNode \<and> D' (out @ r) = Some DirNode \<or>
           (\<exists>f g. D (source @ r) = Some (FileNode f) \<and> D' (out @ r) = Some (FileNode g) \<and> fd_bytes g = fd_bytes f)) \<and>
        (\<forall>r. D' (out @ r) \<noteq> None \<longrightarrow> r = [] \<or> r \<in> set rs))"

lemma packed_tree_paths:
  assumes ok: "index_ok h es" and tree: "packed_tree walk D source es content"
  obtains rs es' where "map (\<lambda>r. Inr (source @ r)) rs = walk_items walk D source" "es = directory_entry 1 1 [] 0 # es'"
    "length es' = length rs" "\<And>k. k < length rs \<Longrightarrow> rel_path es (es' ! k) = rs ! k"
    "\<And>k. k < length rs \<Longrightarrow> e_name (es' ! k) = last (rs ! k)"
    "\<And>k. k < length rs \<Longrightarrow> (case e_kind (es' ! k) of Directory \<Rightarrow> D (source @ rs ! k) = Some DirNode
          | File \<Rightarrow> (\<exists>f. D (source @ rs ! k) = Some (FileNode f) \<and> content (es' ! k) = fd_bytes f))"
proof -
  from tree obtain rs es' ids where t: "map (\<lambda>r. Inr (source @ r)) rs = walk_items walk D source" "es = directory_entry 1 1 [] 0 # es'"
    and ids: "path_ids_ok rs es ids" "list_all2 (entry_at ids) rs es'"
    and nodes: "list_all2 (\<lambda>r e. case e_kind e of Directory \<Rightarrow> D (source @ r) = Some DirNode
          | File \<Rightarrow> (\<exists>f. D (source @ r) = Some (FileNode f) \<and> content e = fd_bytes f)) rs es'"
    unfolding packed_tree_def by blast
  show thesis
  proof (rule that [OF t])
    show "length es' = length rs" using ids(2) by (simp add: list_all2_lengthD)
    fix k
    assume k: "k < length rs"
    show "rel_path es (es' ! k) = rs ! k" by (rule rel_path_entry_at [OF ok t(2) _ ids k]) (simp add: directory_entry_def)
    show "e_name (es' ! k) = last (rs ! k)" using list_all2_nthD [OF ids(2) k] by (simp add: entry_at_def)
    show "case e_kind (es' ! k) of Directory \<Rightarrow> D (source @ rs ! k) = Some DirNode
          | File \<Rightarrow> (\<exists>f. D (source @ rs ! k) = Some (FileNode f) \<and> content (es' ! k) = fd_bytes f)"
      by (rule list_all2_nthD [OF nodes k])
  qed
qed

lemma extracted_same_tree:
  assumes ok: "index_ok h es" and tree: "packed_tree walk D source es content"
    and ex: "extracted es content out D1 D'"
  shows "same_tree walk D source D' out"
proof -
  from packed_tree_paths [OF ok tree] obtain rs es' where t: "map (\<lambda>r. Inr (source @ r)) rs = walk_items walk D source"
      "es = directory_entry 1 1 [] 0 # es'" "length es' = length rs"
    and rel: "\<And>k. k < length rs \<Longrightarrow> rel_path es (es' ! k) = rs ! k"
    and nodes: "\<And>k. k < length rs \<Longrightarrow> (case e_kind (es' ! k) of Directory \<Rightarrow> D (source @ rs ! k) = Some DirNode
          | File \<Rightarrow> (\<exists>f. D (source @ rs ! k) = Some (FileNode f) \<and> content (es' ! k) = fd_bytes f))" by blast
  have each: "D (source @ r) = Some DirNode \<and> D' (out @ r) = Some DirNode \<or>
      (\<exists>f g. D (source @ r) = Some (FileNode f) \<and> D' (out @ r) = Some (FileNode g) \<and> fd_bytes g = fd_bytes f)"
    if "r \<in> set rs" for r
  proof -
    from that obtain k where k: "k < length rs" "r = rs ! k" by (auto simp: in_set_conv_nth)
    have "es' ! k \<in> set es" using k(1) t(2,3) by simp
    with ex have "case e_kind (es' ! k) of Directory \<Rightarrow> D' (out @ rel_path es (es' ! k)) = Some DirNode
      | File \<Rightarrow> (\<exists>f. D' (out @ rel_path es (es' ! k)) = Some (FileNode f) \<and> fd_bytes f = content (es' ! k))"
      by (simp add: extracted_def)
    with nodes [OF k(1)] show ?thesis unfolding rel [OF k(1)] k(2) by (cases "e_kind (es' ! k)") auto
  qed
  have "r = [] \<or> r \<in> set rs" if "D' (out @ r) \<noteq> None" for r
  proof -
    from ex that obtain e where e: "e \<in> set es" "r = rel_path es e" unfolding extracted_def by blast
    show ?thesis
    proof (cases "e \<in> set es'")
      case True
      with t(3) obtain k where "k < length rs" "e = es' ! k" by (auto simp: in_set_conv_nth)
      with rel e(2) show ?thesis by simp
    next
      case False
      with e(1) t(2) have "e = directory_entry 1 1 [] 0" by simp
      with e rel_path_root [OF ok e(1)] show ?thesis by (simp add: directory_entry_def)
    qed
  qed
  with each t(1) show ?thesis unfolding same_tree_def by blast
qed

text \<open>The names of a packed tree are the names of the walk.\<close>

lemma packed_tree_plain:
  assumes ok: "index_ok h es" and tree: "packed_tree walk D source es content" and plain: "walk_plain walk D source"
  shows "\<forall>e \<in> set es. e_id e \<noteq> 1 \<longrightarrow> plain_name (e_name e)"
proof (intro ballI impI)
  fix e
  assume e: "e \<in> set es" "e_id e \<noteq> 1"
  from packed_tree_paths [OF ok tree] obtain rs es' where t: "map (\<lambda>r. Inr (source @ r)) rs = walk_items walk D source"
      "es = directory_entry 1 1 [] 0 # es'" "length es' = length rs"
    and nm: "\<And>k. k < length rs \<Longrightarrow> e_name (es' ! k) = last (rs ! k)" by blast
  from e t(2,3) obtain k where k: "k < length rs" "e = es' ! k" by (auto simp: in_set_conv_nth directory_entry_def)
  have "(Inr (source @ rs ! k) :: path result) \<in> set (map (\<lambda>r. Inr (source @ r)) rs)" using k(1) by simp
  then have "Inr (source @ rs ! k) \<in> set (walk_items walk D source)" by (simp only: t(1))
  with plain nm [OF k(1)] k(2) show "plain_name (e_name e)" by (simp add: walk_plain_def)
qed

text \<open>Packing and extracting: the tree at the destination is the tree that was packed.\<close>

lemma pack_extract_same:
  assumes asm: "pack_assumptions P sd walk source w" and plain: "walk_plain walk (w_disk w) source"
    and pack: "pack_inner P walk fuel sd source container password duress params max_index NoFault requested w = (Inr (), w1)"
    and v: "w_disk v = w_disk w1" "disk_ok (w_disk v)"
    and unpack: "extract_v2_inner P threads order container out password inject staging v = (Inr (), v')"
  shows "same_tree walk (w_disk w) source (w_disk v') out" "\<forall>q. \<not> below out q \<longrightarrow> w_disk v' q = w_disk v q"
proof -
  from pack_publishes [OF asm pack] obtain es content where
    pub: "published P walk source container password (w_disk w) (w_disk w1) es content" by blast
  let ?u = "v\<lparr>w_fault := \<lambda>_. None\<rparr>"
  have "fault_free ?u" "w_disk ?u = w_disk w1" using v(1) by (simp_all add: fault_free_def)
  with pub obtain opened u' where op: "open_container P container password ?u = (Inr opened, u')" and st: "content_stored P opened es content"
    unfolding published_def by blast
  have tree: "packed_tree walk (w_disk w) source es content" using pub by (simp add: published_def)
  have ok: "index_ok (oc_header opened) es" using st by (simp add: content_stored_def opened_ok_def)
  note names = packed_tree_plain [OF ok tree plain]
  have ex: "extracted es content out (w_disk v) (w_disk v')"
    by (rule extract_v2_inner_Inr [OF op _ st names v(2) unpack]) simp
  show "same_tree walk (w_disk w) source (w_disk v') out" by (rule extracted_same_tree [OF ok tree ex])
  show "\<forall>q. \<not> below out q \<longrightarrow> w_disk v' q = w_disk v q" using ex by (simp add: extracted_def)
qed

text \<open>A failing extraction leaves everything outside of one sibling of the destination as it was,
  except that the duress password may rewrite the container.\<close>

lemma open_new_at_root:
  assumes "open_new_at out requested w = (Inr r, w')" "w_disk w [] = Some DirNode"
  shows "\<exists>s. root_below (butlast out @ [s]) out r \<and> (\<forall>q. q \<noteq> butlast out @ [s] \<longrightarrow> w_disk w' q = w_disk w q)"
  using open_new_at_Inr [OF assms] by (auto simp: root_below_def split: if_splits)

definition sibling_frame :: "path \<Rightarrow> 'a io \<Rightarrow> world \<Rightarrow> bool" where
  "sibling_frame out m w \<longleftrightarrow> (\<exists>s. \<forall>q. q \<noteq> butlast out @ [s] \<longrightarrow> w_disk (snd (m w)) q = w_disk w q)"

lemma sibling_frame_pure:
  assumes fr: "disk_frame (\<lambda>_. False) m"
    and step: "\<And>a w1. m w = (Inr a, w1) \<Longrightarrow> w_disk w1 = w_disk w \<Longrightarrow> sibling_frame out (f a) w1"
  shows "sibling_frame out (bindM m f) w"
proof -
  obtain r w1 where m: "m w = (r, w1)" by (cases "m w")
  have d: "w_disk w1 = w_disk w" by (rule pure_disk [OF fr m])
  show ?thesis
  proof (cases r)
    case (Inl e)
    with m d show ?thesis by (simp add: sibling_frame_def bindM_def)
  next
    case (Inr a)
    with step [of a w1] m d show ?thesis by (simp add: sibling_frame_def bindM_def)
  qed
qed

lemma open_verified_frame [frame_intros]: "disk_frame S (open_verified_directory p)"
  unfolding open_verified_directory_def by (intro frame_intros disk_frame_foldM)

lemma open_new_at_sibling:
  assumes root: "w_disk w [] = Some DirNode"
  shows "sibling_frame out (open_new_at out requested) w"
proof -
  have name: "disk_frame (\<lambda>_. False) (case requested of Some requested \<Rightarrow> requested_staging_name out pr requested
       | None \<Rightarrow> allocate_staging_name pr n)" for pr n
    by (cases requested) (simp_all add: staging_name_frame)
  have rest: "sibling_frame out
     (bindM (is_absent (pr @ [n])) (\<lambda>absent.
     bindM (liftE (ensure absent ''Extraction destination was created concurrently'')) (\<lambda>_.
     bindM (case requested of
         Some requested \<Rightarrow> requested_staging_name out pr requested
       | None \<Rightarrow> allocate_staging_name pr n) (\<lambda>staging_name.
     bindM (contextM ''Unable to create extraction staging directory''
       (create_new_dir (pr @ [staging_name]))) (\<lambda>_.
     bindM (contextM ''Unable to open extraction staging directory'' (open_dir (pr @ [staging_name]))) (\<lambda>root.
     returnM \<lparr>sr_directories = [(1, root)], sr_parent = pr, sr_staging_name = staging_name,
       sr_target_name = n, sr_target_display = out, sr_committed = False\<rparr>)))))) v"
    if "pr = butlast out" for pr n v
  proof (rule sibling_frame_pure [OF disk_frame_is_absent], rule sibling_frame_pure [OF disk_frame_liftE],
      rule sibling_frame_pure [OF name])
    fix s v
    have "disk_frame (\<lambda>q. q = pr @ [s])
      (bindM (contextM ''Unable to create extraction staging directory'' (create_new_dir (pr @ [s]))) (\<lambda>_.
       bindM (contextM ''Unable to open extraction staging directory'' (open_dir (pr @ [s]))) (\<lambda>root.
       returnM \<lparr>sr_directories = [(1, root)], sr_parent = pr, sr_staging_name = s,
         sr_target_name = n, sr_target_display = out, sr_committed = False\<rparr>)))"
      by (intro frame_intros) simp
    then show "sibling_frame out
      (bindM (contextM ''Unable to create extraction staging directory'' (create_new_dir (pr @ [s]))) (\<lambda>_.
       bindM (contextM ''Unable to open extraction staging directory'' (open_dir (pr @ [s]))) (\<lambda>root.
       returnM \<lparr>sr_directories = [(1, root)], sr_parent = pr, sr_staging_name = s,
         sr_target_name = n, sr_target_display = out, sr_committed = False\<rparr>))) v"
      unfolding sibling_frame_def disk_frame_def that by blast
  qed
  show ?thesis
    unfolding open_new_at_def
  proof (rule sibling_frame_pure [OF disk_frame_is_absent], rule sibling_frame_pure [OF disk_frame_liftE],
      rule sibling_frame_pure [OF disk_frame_liftE], rule sibling_frame_pure [OF disk_frame_liftE])
    fix a u pp n and w1 w2 w3 w4 :: world
    assume d: "w_disk w1 = w_disk w" "w_disk w2 = w_disk w1" "w_disk w3 = w_disk w2" "w_disk w4 = w_disk w3"
      and pp: "liftE (context_opt ''Extraction destination must have a parent directory'' (path_parent out)) w2 = (Inr pp, w3)"
    have pp: "pp = butlast out" using pp by (auto simp: liftE_def context_opt_eq_Inr path_parent_def split: if_splits)
    have fr: "disk_frame (\<lambda>_. False) (contextM (''Unable to safely open output parent '' @ display_path pp) (open_verified_directory pp))"
      by (intro frame_intros)
    show "sibling_frame out (bindM (contextM (''Unable to safely open output parent '' @ display_path pp)
       (open_verified_directory pp)) (\<lambda>parent.
     bindM (is_absent (parent @ [n])) (\<lambda>absent.
     bindM (liftE (ensure absent ''Extraction destination was created concurrently'')) (\<lambda>_.
     bindM (case requested of
         Some requested \<Rightarrow> requested_staging_name out parent requested
       | None \<Rightarrow> allocate_staging_name parent n) (\<lambda>staging_name.
     bindM (contextM ''Unable to create extraction staging directory''
       (create_new_dir (parent @ [staging_name]))) (\<lambda>_.
     bindM (contextM ''Unable to open extraction staging directory'' (open_dir (parent @ [staging_name]))) (\<lambda>root.
     returnM \<lparr>sr_directories = [(1, root)], sr_parent = parent, sr_staging_name = staging_name,
       sr_target_name = n, sr_target_display = out, sr_committed = False\<rparr>))))))) w4"
    proof (rule sibling_frame_pure [OF fr], rule rest)
      fix pr w5
      assume "contextM (''Unable to safely open output parent '' @ display_path pp) (open_verified_directory pp) w4 = (Inr pr, w5)"
      then have "open_verified_directory pp w4 = (Inr pr, w5)" by (simp add: contextM_eq_Inr)
      from open_verified_directory_Inr [OF this] d root pp show "pr = butlast out" by simp
    qed
  qed
qed

text \<open>A failing extraction leaves everything outside of one sibling of the destination as it was,
  except that the duress password may rewrite the container.\<close>

lemma extract_v2_inner_Inl:
  assumes run: "extract_v2_inner P threads order container out password inject requested w = (Inl e, w')"
    and root: "w_disk w [] = Some DirNode"
  shows "\<exists>s. \<forall>q. \<not> below (butlast out @ [s]) q \<longrightarrow> q \<noteq> follow (w_disk w) container \<longrightarrow> w_disk w' q = w_disk w q"
proof -
  let ?other = "\<lambda>v. \<forall>q. q \<noteq> follow (w_disk w) container \<longrightarrow> w_disk v q = w_disk w q"
  from disk_frame_ambient(1) run [unfolded extract_v2_inner_def] show ?thesis
  proof (cases rule: bindM_pure_cases)
    case 1: (steps u w1)
    let ?w1 = "w1\<lparr>w_events := w_events w1 @ [PhaseStarted KeyDerivation]\<rparr>"
    from 1(3) [unfolded bindM_emit] show ?thesis
    proof (cases rule: bindM_cases)
      case (fails e')
      from open_container_other [OF fails(1)] 1(2) show ?thesis by simp
    next
      case 2: (steps opened w2)
      have "w_disk w2 = w_disk ?w1"
      proof -
        from open_container_Inr [OF 2(1)] obtain a1 a2 enc where
          "open_file container ?w1 = (Inr (follow (w_disk ?w1) container), a1)"
          "read_header P (follow (w_disk ?w1) container) a1 = (Inr (oc_header opened), a2)"
          "read_exact_file (follow (w_disk ?w1) container) (unat (h_index_size (oc_header opened))) HEADER64 a2 = (Inr enc, w2)" by auto
        from open_file_Inr [OF this(1)] read_header_Inr(1) [OF this(2)] read_exact_file_Inr [OF this(3)] show ?thesis by simp
      qed
      then have d2: "w_disk w2 = w_disk w" using 1(2) by simp
      from disk_frame_ambient(1) 2(2) show ?thesis
      proof (cases rule: bindM_pure_cases)
        case 3: (steps u3 w3)
        from disk_frame_liftE 3(3) show ?thesis
        proof (cases rule: bindM_pure_cases)
          case 4: (steps tot w4)
          let ?w4 = "w4\<lparr>w_events := w_events w4 @ snd (tracker_new Extract tot)\<rparr>"
          have d4: "w_disk ?w4 = w_disk w" using 4(2) 3(2) d2 by simp
          have run4: "bindM (open_new_at out requested)
              (extract_tree P threads order opened inject (fst (tracker_new Extract tot))) ?w4 = (Inl e, w')"
            using 4(3) by (simp add: Let_def split_beta) (simp add: bindM_def emit_all_def)
          then show ?thesis
          proof (cases rule: bindM_cases)
            case (fails e')
            have "sibling_frame out (open_new_at out requested) ?w4" by (rule open_new_at_sibling) (simp add: d4 root)
            then obtain s where s: "\<And>q. q \<noteq> butlast out @ [s] \<Longrightarrow> w_disk w' q = w_disk w q"
              unfolding sibling_frame_def fails(1) snd_conv d4 by blast
            show ?thesis by (intro exI [of _ s] allI impI s) auto
          next
            case 5: (steps r w5)
            from open_new_at_root [OF 5(1)] root d4 obtain s where r: "root_below (butlast out @ [s]) out r"
              and s: "\<And>q. q \<noteq> butlast out @ [s] \<Longrightarrow> w_disk w5 q = w_disk w q" by auto
            have "w_disk w' q = w_disk w5 q" if "\<not> below (butlast out @ [s]) q" for q
              by (rule extract_tree_frame(2) [OF r 5(2) that])
            moreover have "q \<noteq> butlast out @ [s]" if "\<not> below (butlast out @ [s]) q" for q using that by auto
            ultimately show ?thesis using s by (intro exI [of _ s]) simp
          qed
        qed (use 3(2) d2 in simp)
      qed (use d2 in simp)
    qed
  qed simp
qed

end
