(* ===== verification/Instance.thy ===== *)
theory Instance
  imports V2Container
begin

text \<open>
  A concrete instance of the third-party operations: an authenticator that appends a tag taken
  from key and associated data, a digest and a key derivation that pad or cut, and fixed-layout
  codecs for header and index. It satisfies every hypothesis the theorems make about the
  packages, so those hypotheses can hold together; the witnesses run the model on it.
\<close>

section \<open>Cryptography\<close>

definition pad_to :: "nat \<Rightarrow> bytes \<Rightarrow> bytes" where
  "pad_to n bs = take n (bs @ replicate n 0)"

lemma length_pad_to [simp]: "length (pad_to n bs) = n"
  by (simp add: pad_to_def)

definition demo_tag :: "bytes \<Rightarrow> bytes \<Rightarrow> bytes" where
  "demo_tag key aad = pad_to 15 key @ [of_nat (length aad)]"

definition demo_encrypt :: "bytes \<Rightarrow> bytes \<Rightarrow> bytes \<Rightarrow> bytes \<Rightarrow> bytes option" where
  "demo_encrypt key nonce aad m = Some (m @ demo_tag key aad)"

definition demo_decrypt :: "bytes \<Rightarrow> bytes \<Rightarrow> bytes \<Rightarrow> bytes \<Rightarrow> bytes option" where
  "demo_decrypt key nonce aad c =
     (if 16 \<le> length c \<and> drop (length c - 16) c = demo_tag key aad
      then Some (take (length c - 16) c) else None)"

lemma length_demo_tag [simp]: "length (demo_tag key aad) = 16"
  by (simp add: demo_tag_def)

lemma demo_decrypt_iff: "demo_decrypt k n a c = Some m \<longleftrightarrow> c = m @ demo_tag k a"
proof
  assume "demo_decrypt k n a c = Some m"
  then show "c = m @ demo_tag k a"
    by (auto simp: demo_decrypt_def split: if_splits) (metis append_take_drop_id)
qed (simp add: demo_decrypt_def)

section \<open>The header codec\<close>

definition encode_params :: "argon2_params \<Rightarrow> bytes" where
  "encode_params p = to_le_bytes (m_cost p) @ to_le_bytes (t_cost p) @ to_le_bytes (p_cost p)"

definition encode_slot :: "key_slot \<Rightarrow> bytes" where
  "encode_slot s = to_le_bytes (ks_generation s) @ ks_salt s @ encode_params (ks_params s)
     @ ks_nonce s @ ks_encrypted_dek s"

definition encode_duress :: "duress_slot \<Rightarrow> bytes" where
  "encode_duress d = [if ds_enabled d then 1 else 0] @ ds_salt d @ encode_params (ds_params d)
     @ ds_nonce d @ ds_encrypted_marker d"

definition encode_header :: "header \<Rightarrow> bytes result" where
  "encode_header h =
     (if wf_header h \<and> wf_slot (fst (h_slots h)) \<and> wf_slot (snd (h_slots h))
      then Inr (h_magic h @ to_le_bytes (h_version h) @ to_le_bytes (h_header_size h)
        @ h_container_id h @ to_le_bytes (h_chunk_size h) @ to_le_bytes (h_index_size h)
        @ to_le_bytes (h_data_size h) @ to_le_bytes (h_entry_count h) @ h_index_nonce h
        @ encode_slot (fst (h_slots h)) @ encode_slot (snd (h_slots h)) @ encode_duress (h_duress h))
      else Inl [Foreign ''invalid array length''])"

definition decode_params :: "bytes \<Rightarrow> argon2_params" where
  "decode_params bs = \<lparr>m_cost = from_le_bytes (slice 0 4 bs), t_cost = from_le_bytes (slice 4 4 bs),
     p_cost = from_le_bytes (slice 8 4 bs)\<rparr>"

definition decode_slot :: "bytes \<Rightarrow> key_slot" where
  "decode_slot bs = \<lparr>ks_generation = from_le_bytes (slice 0 8 bs), ks_salt = slice 8 16 bs,
     ks_params = decode_params (slice 24 12 bs), ks_nonce = slice 36 12 bs,
     ks_encrypted_dek = slice 48 48 bs\<rparr>"

definition decode_duress :: "bytes \<Rightarrow> duress_slot" where
  "decode_duress bs = \<lparr>ds_enabled = (slice 0 1 bs = [1]), ds_salt = slice 1 16 bs,
     ds_params = decode_params (slice 17 12 bs), ds_nonce = slice 29 12 bs,
     ds_encrypted_marker = slice 41 48 bs\<rparr>"

definition decode_header :: "bytes \<Rightarrow> header result" where
  "decode_header bs =
     (if length bs < 347 then Inl [Foreign ''unexpected end of file'']
      else Inr \<lparr>h_magic = slice 0 4 bs, h_version = from_le_bytes (slice 4 2 bs),
        h_header_size = from_le_bytes (slice 6 4 bs), h_container_id = slice 10 16 bs,
        h_chunk_size = from_le_bytes (slice 26 4 bs), h_index_size = from_le_bytes (slice 30 8 bs),
        h_data_size = from_le_bytes (slice 38 8 bs), h_entry_count = from_le_bytes (slice 46 8 bs),
        h_index_nonce = slice 54 12 bs,
        h_slots = (decode_slot (slice 66 96 bs), decode_slot (slice 162 96 bs)),
        h_duress = decode_duress (slice 258 89 bs)\<rparr>)"

lemma slice_take_here: "length xs = n \<Longrightarrow> slice 0 n (xs @ ys) = xs" "slice 0 (length xs) xs = xs"
  by (simp_all add: slice_def)

lemma slice_all_eq: "length xs = n \<Longrightarrow> slice 0 n xs = xs"
  by (simp add: slice_def)

lemma le_bytes_u [simp]:
  "from_le_bytes (to_le_bytes (a :: u16)) = a" "from_le_bytes (to_le_bytes (b :: u32)) = b"
  "from_le_bytes (to_le_bytes (c :: u64)) = c"
  by (auto intro: from_to_le_bytes [of 2] from_to_le_bytes [of 4] from_to_le_bytes [of 8])

lemma length_encode_params [simp]: "length (encode_params p) = 12"
  by (simp add: encode_params_def)

lemma decode_encode_params [simp]: "decode_params (encode_params p) = p"
  by (simp add: decode_params_def encode_params_def slice_append_skip slice_take_here slice_all_eq)

lemma length_encode_slot [simp]: "wf_slot s \<Longrightarrow> length (encode_slot s) = 96"
  by (simp add: encode_slot_def wf_slot_def)

lemma decode_encode_slot [simp]: "wf_slot s \<Longrightarrow> decode_slot (encode_slot s) = s"
  by (simp add: decode_slot_def encode_slot_def wf_slot_def slice_append_skip slice_take_here slice_all_eq)

definition wf_duress :: "duress_slot \<Rightarrow> bool" where
  "wf_duress d \<longleftrightarrow> length (ds_salt d) = 16 \<and> length (ds_nonce d) = 12 \<and> length (ds_encrypted_marker d) = 48"

lemma length_encode_duress [simp]: "wf_duress d \<Longrightarrow> length (encode_duress d) = 89"
  by (simp add: encode_duress_def wf_duress_def)

lemma slice_Cons_skip: "0 < off \<Longrightarrow> slice off n (x # xs) = slice (off - 1) n xs"
  by (simp add: slice_def drop_Cons')

lemma slice_first: "slice 0 (Suc 0) (x # xs) = [x]"
  by (simp add: slice_def)

lemma decode_encode_duress [simp]: "wf_duress d \<Longrightarrow> decode_duress (encode_duress d) = d"
  by (simp add: decode_duress_def encode_duress_def wf_duress_def slice_append_skip slice_take_here
      slice_all_eq slice_Cons_skip slice_first)

lemma decode_encode_header:
  assumes "encode_header h = Inr bs"
  shows "decode_header (bs @ replicate k 0) = Inr h" "length bs = 347"
proof -
  have wf: "wf_header h" "wf_slot (fst (h_slots h))" "wf_slot (snd (h_slots h))"
    and bs: "bs = h_magic h @ to_le_bytes (h_version h) @ to_le_bytes (h_header_size h)
        @ h_container_id h @ to_le_bytes (h_chunk_size h) @ to_le_bytes (h_index_size h)
        @ to_le_bytes (h_data_size h) @ to_le_bytes (h_entry_count h) @ h_index_nonce h
        @ encode_slot (fst (h_slots h)) @ encode_slot (snd (h_slots h)) @ encode_duress (h_duress h)"
    using assms by (auto simp: encode_header_def split: if_splits)
  have d: "wf_duress (h_duress h)" using wf(1) by (simp add: wf_header_def wf_duress_def)
  note len = wf(1) [unfolded wf_header_def]
  show "length bs = 347" using wf d len by (simp add: bs)
  show "decode_header (bs @ replicate k 0) = Inr h"
    using wf d len unfolding bs
    by (simp add: decode_header_def slice_append_skip slice_take_here)
qed

section \<open>The index codec\<close>

definition string_of :: "bytes \<Rightarrow> string" where
  "string_of bs = map (\<lambda>b. char_of (unat b)) bs"

lemma string_of_bytes_of [simp]: "string_of (bytes_of s) = s"
proof -
  have "char_of (unat (of_nat (code c) :: byte)) = c" for c
    by (simp add: unat_of_nat_small code_def)
  then show ?thesis by (simp add: string_of_def bytes_of_def comp_def)
qed

definition encode_entry :: "entry \<Rightarrow> bytes" where
  "encode_entry e = to_le_bytes (e_id e) @ to_le_bytes (e_parent_id e) @ to_le_bytes (e_depth e)
     @ [case e_kind e of File \<Rightarrow> 0 | Directory \<Rightarrow> 1] @ e_file_id e @ to_le_bytes (e_size e)
     @ to_le_bytes (e_data_offset e) @ to_le_bytes (e_encrypted_size e) @ to_le_bytes (e_chunk_count e)
     @ to_le_bytes (of_nat (length (e_name e)) :: u32) @ bytes_of (e_name e)"

definition entry_encodable :: "entry \<Rightarrow> bool" where
  "entry_encodable e \<longleftrightarrow> length (e_file_id e) = 16 \<and> length (e_name e) \<le> 65535"

definition encode_index :: "entry list \<Rightarrow> bytes result" where
  "encode_index es =
     (if list_all entry_encodable es \<and> length es < 2 ^ 32
      then Inr (to_le_bytes (of_nat (length es) :: u32) @ concat (map encode_entry es))
      else Inl [Foreign ''value cannot be encoded''])"

definition decode_entry :: "bytes \<Rightarrow> entry \<times> bytes" where
  "decode_entry bs =
     (let n = unat (from_le_bytes (slice 69 4 bs) :: u32)
      in (\<lparr>e_id = from_le_bytes (slice 0 8 bs), e_parent_id = from_le_bytes (slice 8 8 bs),
           e_name = string_of (slice 73 n bs), e_depth = from_le_bytes (slice 16 4 bs),
           e_kind = (if slice 20 1 bs = [0] then File else Directory), e_file_id = slice 21 16 bs,
           e_size = from_le_bytes (slice 37 8 bs), e_data_offset = from_le_bytes (slice 45 8 bs),
           e_encrypted_size = from_le_bytes (slice 53 8 bs), e_chunk_count = from_le_bytes (slice 61 8 bs)\<rparr>,
          drop (73 + n) bs))"

fun decode_entries :: "nat \<Rightarrow> bytes \<Rightarrow> entry list" where
  "decode_entries 0 bs = []"
| "decode_entries (Suc n) bs = (case decode_entry bs of (e, rest) \<Rightarrow> e # decode_entries n rest)"

definition decode_index :: "bytes \<Rightarrow> entry_seq option result" where
  "decode_index bs =
     (let n = unat (from_le_bytes (slice 0 4 bs) :: u32)
      in Inr (Some \<lparr>es_hint = Some n, es_items = map Inr (decode_entries n (drop 4 bs))\<rparr>))"

lemma decode_encode_entry:
  assumes "entry_encodable e"
  shows "decode_entry (encode_entry e @ rest) = (e, rest)"
proof -
  have n: "unat (of_nat (length (e_name e)) :: u32) = length (e_name e)"
    using assms by (intro unat_of_nat_small) (simp add: entry_encodable_def)
  have len: "length (e_file_id e) = 16" using assms by (simp add: entry_encodable_def)
  define pre where "pre = to_le_bytes (e_id e) @ to_le_bytes (e_parent_id e) @ to_le_bytes (e_depth e)
     @ [case e_kind e of File \<Rightarrow> 0 | Directory \<Rightarrow> 1] @ e_file_id e @ to_le_bytes (e_size e)
     @ to_le_bytes (e_data_offset e) @ to_le_bytes (e_encrypted_size e) @ to_le_bytes (e_chunk_count e)
     @ to_le_bytes (of_nat (length (e_name e)) :: u32)"
  have split: "encode_entry e @ rest = pre @ bytes_of (e_name e) @ rest"
    by (simp add: encode_entry_def pre_def)
  have plen: "length pre = 73" using len by (simp add: pre_def)
  have name: "slice 73 (length (e_name e)) (pre @ bytes_of (e_name e) @ rest) = bytes_of (e_name e)"
    by (simp add: slice_append_skip plen slice_take_here)
  have size: "slice 69 4 (pre @ bytes_of (e_name e) @ rest) = to_le_bytes (of_nat (length (e_name e)) :: u32)"
    using len by (simp add: pre_def slice_append_skip slice_Cons_skip slice_take_here)
  have tl: "drop (73 + length (e_name e)) (pre @ bytes_of (e_name e) @ rest) = rest"
    by (simp add: plen)
  have kind: "(if slice 20 1 (pre @ bytes_of (e_name e) @ rest) = [0] then File else Directory) = e_kind e"
    using len by (cases "e_kind e") (simp_all add: pre_def slice_append_skip slice_Cons_skip slice_first)
  show ?thesis
    unfolding decode_entry_def Let_def split size le_bytes_u n name tl kind string_of_bytes_of
    using len by (simp add: pre_def slice_append_skip slice_Cons_skip slice_take_here)
qed

lemma decode_encode_entries:
  "list_all entry_encodable es \<Longrightarrow> decode_entries (length es) (concat (map encode_entry es)) = es"
  by (induction es) (simp_all add: decode_encode_entry)

lemma decode_encode_index:
  assumes "encode_index es = Inr bs"
  shows "decode_index bs = Inr (Some \<lparr>es_hint = Some (length es), es_items = map Inr es\<rparr>)"
proof -
  have ok: "list_all entry_encodable es" "length es < 2 ^ 32"
    and bs: "bs = to_le_bytes (of_nat (length es) :: u32) @ concat (map encode_entry es)"
    using assms by (auto simp: encode_index_def split: if_splits)
  have "unat (of_nat (length es) :: u32) = length es"
    using ok(2) by (intro unat_of_nat_small) simp
  then show ?thesis
    using decode_encode_entries [OF ok(1)] unfolding bs
    by (simp add: decode_index_def slice_take_here)
qed

section \<open>The instance\<close>

definition demo :: prims where
  "demo = \<lparr>
     p_argon2_params = (\<lambda>_. Inr ()),
     p_argon2 = (\<lambda>password salt params. Inr (pad_to 32 (bytes_of password))),
     p_hkdf_expand = (\<lambda>salt key info. Some (pad_to 32 key)),
     p_blake3 = pad_to 32,
     p_encrypt = demo_encrypt,
     p_decrypt = demo_decrypt,
     p_header_to_vec = encode_header,
     p_header_from = decode_header,
     p_index_to_vec = encode_index,
     p_index_seq = decode_index\<rparr>"

lemma demo_sel [simp]:
  "p_argon2_params demo params = Inr ()" "p_argon2 demo password salt params = Inr (pad_to 32 (bytes_of password))"
  "p_hkdf_expand demo salt key info = Some (pad_to 32 key)" "p_blake3 demo = pad_to 32"
  "p_encrypt demo = demo_encrypt" "p_decrypt demo = demo_decrypt"
  "p_header_to_vec demo = encode_header" "p_header_from demo = decode_header"
  "p_index_to_vec demo = encode_index" "p_index_seq demo = decode_index"
  by (simp_all add: demo_def)

lemma demo_ok:
  "aead_ok demo" "digest_ok demo" "hkdf_ok demo" "header_codec_ok demo" "index_codec_ok demo"
  "argon_total demo" "header_encoder_ok demo"
proof -
  show "aead_ok demo"
    by (simp add: aead_ok_def demo_def demo_encrypt_def demo_decrypt_iff)
  show "digest_ok demo" by (simp add: digest_ok_def demo_def)
  show "hkdf_ok demo" by (simp add: hkdf_ok_def demo_def)
  show "header_codec_ok demo"
    by (simp add: header_codec_ok_def demo_def decode_encode_header)
  show "index_codec_ok demo"
    by (simp add: index_codec_ok_def demo_def decode_encode_index)
  show "argon_total demo"
    unfolding argon_total_def
  proof (intro allI impI)
    fix password salt and params :: argon2_params
    assume "argon2_within_limits params"
    then have "validate_argon2 params = Inr ()" by (simp add: validate_argon2_eq_Inr)
    then show "\<exists>key. derive_kek demo password salt params = Inr key"
      by (simp add: derive_kek_def demo_def)
  qed
  show "header_encoder_ok demo"
    unfolding header_encoder_ok_def
  proof (intro allI impI)
    fix h :: header
    assume "wf_header h \<and> wf_slot (fst (h_slots h)) \<and> wf_slot (snd (h_slots h))"
    then obtain bs where bs: "encode_header h = Inr bs" by (auto simp: encode_header_def)
    from decode_encode_header(2) [OF bs] bs show "\<exists>out. serialize_header demo h = Inr out"
      by (simp add: serialize_header_def demo_def HEADER_SIZE_def)
  qed
qed

end
