(* ===== verification/Demo.thy ===== *)
theory Demo
  imports Instance ReadOnlyFs
begin

text \<open>
  A small container under the concrete instance: a root directory with one file of three bytes,
  a master password, a duress password, and the file system that holds it. The witnesses of the
  properties use it.
\<close>

section \<open>The container\<close>

definition demo_dek :: bytes where "demo_dek = replicate 32 7"

definition demo_kek :: "string \<Rightarrow> bytes" where "demo_kek password = pad_to 32 (bytes_of password)"

text \<open>The tag depends on the length of the associated data only.\<close>

definition demo_seal :: "bytes \<Rightarrow> nat \<Rightarrow> bytes \<Rightarrow> bytes" where
  "demo_seal key aad_len m = m @ demo_tag key (replicate aad_len 0)"

definition demo_slot :: "string \<Rightarrow> u64 \<Rightarrow> key_slot" where
  "demo_slot password generation =
     \<lparr>ks_generation = generation, ks_salt = replicate 16 3, ks_params = argon2_default,
      ks_nonce = replicate 12 4, ks_encrypted_dek = demo_seal (demo_kek password) 196 demo_dek\<rparr>"

definition demo_duress :: duress_slot where
  "demo_duress =
     \<lparr>ds_enabled = True, ds_salt = replicate 16 5, ds_params = argon2_default, ds_nonce = replicate 12 6,
      ds_encrypted_marker = demo_seal (demo_kek ''duress'') 106
        (pad_to 32 (bytes_of ''cipherfs-v2/duress-marker'' @ replicate 16 1))\<rparr>"

definition demo_header :: header where
  "demo_header =
     \<lparr>h_magic = MAGIC, h_version = VERSION, h_header_size = 4096, h_container_id = replicate 16 1,
      h_chunk_size = 4194304, h_index_size = 167, h_data_size = 19, h_entry_count = 2,
      h_index_nonce = replicate 12 2, h_slots = (demo_slot ''pw'' 1, demo_slot ''pw'' 0),
      h_duress = demo_duress\<rparr>"

definition demo_root :: entry where
  "demo_root =
     \<lparr>e_id = 1, e_parent_id = 1, e_name = [], e_depth = 0, e_kind = Directory,
      e_file_id = replicate 16 0, e_size = 0, e_data_offset = 0, e_encrypted_size = 0, e_chunk_count = 0\<rparr>"

definition demo_file :: entry where
  "demo_file =
     \<lparr>e_id = 2, e_parent_id = 1, e_name = ''a'', e_depth = 1, e_kind = File,
      e_file_id = replicate 16 9, e_size = 3, e_data_offset = 0, e_encrypted_size = 19, e_chunk_count = 1\<rparr>"

definition demo_entries :: "entry list" where "demo_entries = [demo_root, demo_file]"

definition demo_content :: bytes where "demo_content = [10, 20, 30]"

definition demo_index_bytes :: bytes where
  "demo_index_bytes = to_le_bytes (2 :: u32) @ encode_entry demo_root @ encode_entry demo_file"

definition demo_body :: bytes where
  "demo_body = demo_seal demo_dek 145 demo_index_bytes @ demo_seal demo_dek 70 demo_content"

definition demo_header_bytes :: bytes where
  "demo_header_bytes = (case serialize_header demo demo_header of Inr bs \<Rightarrow> bs | Inl _ \<Rightarrow> [])"

definition demo_fd :: file_data where
  "demo_fd = \<lparr>fd_bytes = demo_header_bytes @ demo_body, fd_modified = 0, fd_identity = Some (0, 1)\<rparr>"

definition demo_disk :: disk where
  "demo_disk = (\<lambda>p. if p = [] then Some DirNode else if p = [''c''] then Some (FileNode demo_fd) else None)"

definition demo_world :: world where
  "demo_world =
     \<lparr>w_disk = demo_disk, w_random = (\<lambda>n. of_nat (n + 17)), w_drawn = 0, w_calls = 0, w_fault = (\<lambda>_. None),
      w_polls = 0, w_cancelled = (\<lambda>_. False), w_now = 1, w_events = []\<rparr>"

definition demo_opened :: opened_container where
  "demo_opened =
     \<lparr>oc_read = content_reader (fd_bytes demo_fd), oc_header = demo_header,
      oc_index = index_tables demo_entries, oc_dek = demo_dek, oc_data_start = 4263\<rparr>"

section \<open>Its parts\<close>

lemma demo_wf:
  "wf_header demo_header" "wf_slot (demo_slot p g)"
  by (simp_all add: wf_header_def wf_slot_def demo_header_def demo_duress_def demo_slot_def demo_seal_def
      MAGIC_def demo_dek_def)

lemma demo_aad_lengths:
  "length (slot_aad demo demo_header (demo_slot p g)) = 196" "length (duress_aad demo_header) = 106"
  "length (index_aad demo demo_header) = 145"
  "length (e_file_id e) = 16 \<Longrightarrow> length (chunk_aad demo_header e i n) = 70"
  using aad_lengths [OF demo_wf(1) demo_ok(2)] demo_wf(2) by simp_all

lemma demo_decrypt_seal:
  "length aad = n \<Longrightarrow> decrypt_aead demo key nonce aad (demo_seal key n m) = Inr m"
  by (simp add: decrypt_aead_def ok_or_eq_Inr demo_decrypt_iff demo_seal_def demo_tag_def)

lemma demo_derive_kek: "derive_kek demo password salt argon2_default = Inr (demo_kek password)"
  by (simp add: derive_kek_def demo_kek_def validate_argon2_def argon2_default_def
      MIN_ARGON_MEMORY_KIB_def MAX_ARGON_MEMORY_KIB_def MAX_ARGON_TIME_def MAX_ARGON_LANES_def)

lemma demo_slot_opens: "slot_opens demo demo_header password (demo_slot password g) demo_dek"
proof -
  have "decrypt_aead demo (demo_kek password) (ks_nonce (demo_slot password g))
      (slot_aad demo demo_header (demo_slot password g)) (ks_encrypted_dek (demo_slot password g)) = Inr demo_dek"
    using demo_decrypt_seal [OF demo_aad_lengths(1)] by (simp add: demo_slot_def)
  moreover have "ks_params (demo_slot password g) = argon2_default" by (simp add: demo_slot_def)
  ultimately show ?thesis
    by (simp add: slot_opens_def demo_derive_kek demo_dek_def)
qed

lemma demo_limits: "header_within_limits demo_header"
  by (simp add: header_within_limits_def demo_header_def demo_slot_def demo_duress_def argon2_default_def
      argon2_within_limits_def HEADER_SIZE_def CHUNK_SIZE_def MAX_ENTRIES_def)

lemma demo_live: "live_slots demo_header = {demo_slot ''pw'' 1}"
  by (auto simp: live_slots_def demo_header_def demo_slot_def)

lemma demo_unlock: "unlock demo demo_header ''pw'' = Inr (Unlocked demo_dek)"
  using unlock_newest [OF demo_ok(6) demo_limits, of "demo_slot ''pw'' 1" "''pw''" demo_dek] demo_slot_opens
  by (simp add: demo_live)

lemma demo_tag_key: "demo_tag k a = demo_tag k' a' \<longleftrightarrow> pad_to 15 k = pad_to 15 k' \<and>
    of_nat (length a) = (of_nat (length a') :: byte)"
  by (simp add: demo_tag_def)

lemma demo_slot_closed:
  assumes "pad_to 15 (demo_kek other) \<noteq> pad_to 15 (demo_kek password)"
  shows "\<not> slot_opens demo demo_header other (demo_slot password g) dek"
proof
  assume "slot_opens demo demo_header other (demo_slot password g) dek"
  moreover have "ks_params (demo_slot password g) = argon2_default"
    and "ks_encrypted_dek (demo_slot password g) = demo_dek @ demo_tag (demo_kek password) (replicate 196 0)"
    by (simp_all add: demo_slot_def demo_seal_def)
  ultimately have "demo_dek @ demo_tag (demo_kek password) (replicate 196 0) =
      dek @ demo_tag (demo_kek other) (slot_aad demo demo_header (demo_slot password g))"
    by (simp add: slot_opens_def demo_derive_kek decrypt_aead_def ok_or_eq_Inr demo_decrypt_iff)
  then have "demo_tag (demo_kek password) (replicate 196 0) =
      demo_tag (demo_kek other) (slot_aad demo demo_header (demo_slot password g))"
    by (simp add: append_eq_append_conv)
  with assms show False by (simp add: demo_tag_key)
qed

lemma demo_keys_differ:
  "pad_to 15 (demo_kek ''duress'') \<noteq> pad_to 15 (demo_kek ''pw'')"
  "pad_to 15 (demo_kek ''bad'') \<noteq> pad_to 15 (demo_kek ''pw'')"
  "pad_to 15 (demo_kek ''bad'') \<noteq> pad_to 15 (demo_kek ''duress'')"
  by code_simp+

lemma demo_unlock_duress: "unlock demo demo_header ''duress'' = Inr Duress"
proof -
  have "duress_opens demo demo_header ''duress''"
  proof -
    have "ds_params (h_duress demo_header) = argon2_default" "ds_enabled (h_duress demo_header)"
      and "ds_encrypted_marker (h_duress demo_header) =
        demo_seal (demo_kek ''duress'') 106 (duress_marker demo demo_header)"
      by (simp_all add: demo_header_def demo_duress_def duress_marker_def)
    then show ?thesis
      by (simp add: duress_opens_def demo_derive_kek demo_decrypt_seal [OF demo_aad_lengths(2)])
  qed
  with demo_slot_closed [OF demo_keys_differ(1)] show ?thesis
    by (simp add: unlock_spec [OF demo_ok(6) demo_limits] demo_live)
qed

lemma demo_unlock_bad: "unlock demo demo_header ''bad'' = Inr Failed"
proof -
  have "\<not> duress_opens demo demo_header ''bad''"
  proof
    assume opens: "duress_opens demo demo_header ''bad''"
    have "ds_params (h_duress demo_header) = argon2_default"
      and "ds_encrypted_marker (h_duress demo_header) = duress_marker demo demo_header @
        demo_tag (demo_kek ''duress'') (replicate 106 0)"
      by (simp_all add: demo_header_def demo_duress_def duress_marker_def demo_seal_def)
    with opens have "demo_tag (demo_kek ''duress'') (replicate 106 0) = demo_tag (demo_kek ''bad'') (duress_aad demo_header)"
      by (simp add: duress_opens_def demo_derive_kek decrypt_aead_def ok_or_eq_Inr demo_decrypt_iff)
    with demo_keys_differ(3) show False by (simp add: demo_tag_key)
  qed
  with demo_slot_closed [OF demo_keys_differ(2)] show ?thesis
    by (simp add: unlock_spec [OF demo_ok(6) demo_limits] demo_live)
qed

section \<open>The file\<close>

lemma demo_index_encodes: "p_index_to_vec demo demo_entries = Inr demo_index_bytes"
  by (simp add: encode_index_def demo_entries_def entry_encodable_def demo_root_def demo_file_def
      demo_index_bytes_def)

lemma demo_index_length: "length demo_index_bytes = 151"
  by (simp add: demo_index_bytes_def encode_entry_def demo_root_def demo_file_def)

lemma demo_body_length: "length demo_body = 186"
  by (simp add: demo_body_def demo_seal_def demo_index_length demo_content_def)

lemma demo_header_serialized: "serialize_header demo demo_header = Inr demo_header_bytes"
proof -
  have "wf_slot (fst (h_slots demo_header))" "wf_slot (snd (h_slots demo_header))"
    using demo_wf(2) by (simp_all add: demo_header_def)
  then obtain out where "serialize_header demo demo_header = Inr out"
    using demo_ok(7) demo_wf(1) unfolding header_encoder_ok_def by blast
  then show ?thesis by (simp add: demo_header_bytes_def)
qed

lemma demo_header_bytes_length: "length demo_header_bytes = HEADER_SIZE"
  by (rule length_serialize_header [OF demo_header_serialized])

lemma demo_fd_length: "length (fd_bytes demo_fd) = 4282"
  by (simp add: demo_fd_def demo_header_bytes_length demo_body_length HEADER_SIZE_def)

lemma demo_follow: "follow (w_disk demo_world) [''c''] = [''c'']"
  by (simp add: follow_def demo_world_def demo_disk_def)

lemma demo_file_at: "w_disk demo_world [''c''] = Some (FileNode demo_fd)"
  by (simp add: demo_world_def demo_disk_def)

lemma demo_container: "container_at demo (w_disk demo_world) [''c''] demo_header demo_body"
  using header_from_serialized [OF demo_ok(4) demo_header_serialized]
  by (simp add: container_at_def demo_file_at) (simp add: demo_fd_def demo_header_bytes_length)

lemma demo_fault_free: "fault_free demo_world"
  by (simp add: fault_free_def demo_world_def)

lemma demo_sizes: "unat (h_index_size demo_header) = 167" "unat (h_data_size demo_header) = 19"
  by (simp_all add: demo_header_def)

section \<open>The index\<close>

lemma demo_file_size: "encrypted_file_size 3 = Inr (1, 19)"
  by (simp add: encrypted_file_size_eq_Inr chunks_for_def CHUNK_SIZE_def)

lemma demo_name: "validate_name ''a'' = Inr ()"
  by (simp add: validate_name_simple)

lemma demo_index_ok: "index_ok demo_header demo_entries"
proof -
  have "entry_ok demo_root" "entry_ok demo_file"
    using demo_file_size demo_name
    by (simp_all add: entry_ok_def demo_root_def demo_file_def MAX_DEPTH_def word_le_nat_alt)
  then show ?thesis
    by (simp add: index_ok_def demo_entries_def files_of_def)
      (simp add: demo_root_def demo_file_def demo_header_def MAX_ENTRIES_def)
qed

lemma demo_opened_ok: "opened_ok demo_opened demo_entries"
  using demo_index_ok demo_sizes by (simp add: opened_ok_def demo_opened_def HEADER_SIZE_def)

lemma demo_open_index: "open_index demo demo_header demo_dek (demo_seal demo_dek 145 demo_index_bytes) =
    Inr (index_tables demo_entries)"
proof -
  have key: "pad_to 32 demo_dek = demo_dek" by (simp add: pad_to_def demo_dek_def)
  have "deserialize_index demo demo_index_bytes = Inr demo_entries"
    using demo_index_encodes by (intro deserialize_index_encoded [OF demo_ok(5)])
      (simp_all add: demo_entries_def MAX_ENTRIES_def)
  moreover have "validate_index demo_header demo_entries = Inr (index_tables demo_entries)"
    using demo_index_ok by (simp add: validate_index_eq_Inr)
  ultimately show ?thesis
    by (simp add: open_index_def derive_index_key_def hkdf_key_def key demo_decrypt_seal [OF demo_aad_lengths(3)])
qed

lemma demo_open: "\<exists>w'. open_container demo [''c''] ''pw'' demo_world = (Inr demo_opened, w')"
proof -
  let ?w1 = "demo_world\<lparr>w_calls := Suc (w_calls demo_world)\<rparr>"
  have o: "open_file [''c''] demo_world = (Inr [''c''], ?w1)"
    using demo_fault_free by (simp add: open_file_def fs_call_fault_free Let_def demo_follow demo_file_at)
  obtain w2 where rd: "read_header demo [''c''] ?w1 = (Inr demo_header, w2)" "w_disk w2 = w_disk demo_world" "fault_free w2"
    using read_header_fault_free [of ?w1 demo "[''c'']" demo_header demo_body] demo_fault_free demo_container
      demo_limits demo_sizes by (auto simp: fault_free_def demo_body_length HEADER_SIZE_def)
  let ?w3 = "w2\<lparr>w_calls := Suc (w_calls w2)\<rparr>"
  have "slice 4096 167 (fd_bytes demo_fd) = demo_seal demo_dek 145 demo_index_bytes"
    by (simp add: demo_fd_def slice_append_skip demo_header_bytes_length HEADER_SIZE_def demo_body_def
        slice_def demo_seal_def demo_index_length)
  then have ri: "read_exact_file [''c''] 167 HEADER64 w2 = (Inr (demo_seal demo_dek 145 demo_index_bytes), ?w3)"
    using rd(2,3) by (simp add: read_exact_file_def fs_call_fault_free file_contents_def demo_file_at
        content_reader_def demo_fd_length HEADER_SIZE_def)
  have "checked_add HEADER64 (h_index_size demo_header) = Some 4263"
    by (simp add: checked_add_eq_Some demo_sizes HEADER_SIZE_def)
  then show ?thesis
    using o rd(1) ri demo_unlock demo_open_index demo_sizes(1) rd(2)
    by (simp add: open_container_def bindM_def liftE_def returnM_def file_reader_def demo_opened_def
        file_contents_def demo_file_at)
qed

section \<open>The stored file\<close>

lemma demo_chunk_stored: "chunk_stored demo demo_opened demo_file 0 demo_content"
proof -
  have pos: "chunk_position demo_opened demo_file 0 = 4263"
    by (simp add: chunk_position_def demo_opened_def demo_file_def)
  have key: "pad_to 32 demo_dek = demo_dek" by (simp add: pad_to_def demo_dek_def)
  have aad: "length (chunk_aad demo_header demo_file i n) = 70" for i n
    by (rule demo_aad_lengths(4)) (simp add: demo_file_def)
  have "encrypt_chunk demo demo_header demo_dek demo_file 0 demo_content = Inr (demo_seal demo_dek 70 demo_content)"
    by (simp add: encrypt_chunk_def derive_file_key_def hkdf_key_def key encrypt_aead_def demo_encrypt_def
        demo_seal_def demo_tag_def aad)
  moreover have "slice 4263 19 (fd_bytes demo_fd) = demo_seal demo_dek 70 demo_content"
    by (simp add: demo_fd_def slice_append_skip demo_header_bytes_length HEADER_SIZE_def demo_body_def
        slice_def demo_seal_def demo_index_length demo_content_def)
  moreover have "length demo_content = 3" "chunk_len (unat (e_size demo_file)) 0 = 3"
    by (simp_all add: demo_content_def demo_file_def chunk_len_def CHUNK_SIZE_def)
  moreover have "oc_header demo_opened = demo_header" "oc_dek demo_opened = demo_dek"
    "oc_read demo_opened = content_reader (fd_bytes demo_fd)"
    by (simp_all add: demo_opened_def)
  ultimately show ?thesis
    using demo_fd_length by (simp add: chunk_stored_def pos content_reader_def)
qed

lemma demo_file_stored: "file_stored demo demo_opened demo_file demo_content"
proof -
  have "slice 0 CHUNK_SIZE demo_content = demo_content"
    by (simp add: slice_def demo_content_def CHUNK_SIZE_def)
  with demo_chunk_stored show ?thesis
    by (simp add: file_stored_def demo_file_def demo_content_def)
qed

lemma demo_files: "files_of demo_entries = [demo_file]"
  by (simp add: files_of_def demo_entries_def demo_root_def demo_file_def)

lemma demo_content_stored: "content_stored demo demo_opened demo_entries (\<lambda>_. demo_content)"
  using demo_ok(1) demo_opened_ok demo_file_stored by (simp add: content_stored_def demo_files)

end
