(* ===== verification/Calm.thy ===== *)
theory Calm
  imports World
begin

text \<open>
  Total correctness. A world is calm when no file system call fails and nobody cancels; the
  triple \<open>runs r D m Q\<close> says that on every calm world with disk \<open>D\<close> the computation \<open>m\<close> returns a
  value, leaves the world calm, and value and disk satisfy \<open>Q\<close>. The rules step over the calls of
  the model in the order the code makes them.
\<close>

definition calm :: "(nat \<Rightarrow> byte) \<Rightarrow> world \<Rightarrow> bool" where
  "calm r w \<longleftrightarrow> fault_free w \<and> w_cancelled w = (\<lambda>_. False) \<and> w_random w = r"

definition runs :: "(nat \<Rightarrow> byte) \<Rightarrow> disk \<Rightarrow> 'a io \<Rightarrow> ('a \<Rightarrow> disk \<Rightarrow> bool) \<Rightarrow> bool" where
  "runs r D m Q \<longleftrightarrow>
     (\<forall>w. calm r w \<and> w_disk w = D \<longrightarrow> (\<exists>a w'. m w = (Inr a, w') \<and> calm r w' \<and> Q a (w_disk w')))"

lemma runsI:
  "(\<And>w. calm r w \<Longrightarrow> w_disk w = D \<Longrightarrow> \<exists>a w'. m w = (Inr a, w') \<and> calm r w' \<and> Q a (w_disk w')) \<Longrightarrow> runs r D m Q"
  unfolding runs_def by blast

lemma runsD:
  assumes "runs r D m Q" "calm r w" "w_disk w = D"
  obtains a w' where "m w = (Inr a, w')" "calm r w'" "Q a (w_disk w')"
  using assms unfolding runs_def by blast

lemma runs_mono: "runs r D m R \<Longrightarrow> (\<And>a D'. R a D' \<Longrightarrow> Q a D') \<Longrightarrow> runs r D m Q"
  unfolding runs_def by metis

lemma runs_bindM:
  assumes m: "runs r D m R" and f: "\<And>a D'. R a D' \<Longrightarrow> runs r D' (f a) Q"
  shows "runs r D (bindM m f) Q"
proof (rule runsI)
  fix w assume w: "calm r w" "w_disk w = D"
  from m w obtain a w1 where 1: "m w = (Inr a, w1)" "calm r w1" "R a (w_disk w1)" by (rule runsD)
  from f [OF 1(3)] 1(2) refl show "\<exists>b w'. bindM m f w = (Inr b, w') \<and> calm r w' \<and> Q b (w_disk w')"
    by (rule runsD) (simp add: bindM_def 1(1))
qed

text \<open>What a run has established may be used about its result.\<close>

lemma runs_strengthen:
  assumes "runs r D m Q" "\<And>a w w'. calm r w \<Longrightarrow> w_disk w = D \<Longrightarrow> m w = (Inr a, w') \<Longrightarrow> R a (w_disk w')"
  shows "runs r D m (\<lambda>a D'. Q a D' \<and> R a D')"
  using assms unfolding runs_def by metis

named_theorems step_intros
  \<open>rules that step over one call\<close>

lemma runs_returnM [step_intros]: "Q a D \<Longrightarrow> runs r D (returnM a) Q"
  by (simp add: runs_def returnM_def)

lemma runs_liftE [step_intros]: "x = Inr a \<Longrightarrow> Q a D \<Longrightarrow> runs r D (liftE x) Q"
  by (simp add: runs_def liftE_def)

lemma runs_contextM: "runs r D m Q \<Longrightarrow> runs r D (contextM msg m) Q"
  unfolding runs_def by (simp add: contextM_eq_Inr)

lemma runs_on_error: "runs r D m Q \<Longrightarrow> runs r D (on_error d m) Q"
  unfolding runs_def by (simp add: on_error_eq_Inr)

lemma runs_map_errM: "runs r D m Q \<Longrightarrow> runs r D (map_errM f m) Q"
  unfolding runs_def map_errM_def by (fastforce simp: map_err_simps)

lemma runs_finallyM:
  assumes "runs r D m R" "\<And>a D'. R a D' \<Longrightarrow> runs r D' d (\<lambda>_ D''. Q a D'')"
  shows "runs r D (finallyM m d) Q"
proof (rule runsI)
  fix w assume w: "calm r w" "w_disk w = D"
  from assms(1) w obtain a w1 where 1: "m w = (Inr a, w1)" "calm r w1" "R a (w_disk w1)" by (rule runsD)
  from assms(2) [OF 1(3)] 1(2) refl show "\<exists>b w'. finallyM m d w = (Inr b, w') \<and> calm r w' \<and> Q b (w_disk w')"
    by (rule runsD) (simp add: finallyM_def 1(1))
qed

lemma runs_check_cancel: "runs r D check_cancel (\<lambda>_ D'. D' = D)"
  by (simp add: runs_def check_cancel_def check_def is_cancelled_def calm_def fault_free_def)

lemma runs_emit: "runs r D (emit ev) (\<lambda>_ D'. D' = D)" "runs r D (emit_all evs) (\<lambda>_ D'. D' = D)"
  by (simp_all add: runs_def emit_def emit_all_def calm_def fault_free_def)

lemma runs_fill_bytes: "runs r D (fill_bytes n) (\<lambda>bs D'. D' = D \<and> length bs = n)"
  by (simp add: runs_def fill_bytes_def calm_def fault_free_def)

text \<open>A call of the file system.\<close>

lemma runs_fs_call:
  assumes "\<And>w. calm r w \<Longrightarrow> w_disk w = D \<Longrightarrow> \<exists>a w'. m w = (Inr a, w') \<and> calm r w' \<and> Q a (w_disk w')"
  shows "runs r D (fs_call m) Q"
proof (rule runsI)
  fix w assume "calm r w" "w_disk w = D"
  then show "\<exists>a w'. fs_call m w = (Inr a, w') \<and> calm r w' \<and> Q a (w_disk w')"
    using assms [of "w\<lparr>w_calls := Suc (w_calls w)\<rparr>"] by (simp add: fs_call_fault_free calm_def fault_free_def)
qed

lemma runs_reads:
  "D p = Some n \<Longrightarrow> runs r D (symlink_metadata p) (\<lambda>x D'. D' = D \<and> x = n)"
  "D (follow D p) = Some n \<Longrightarrow> runs r D (open_file p) (\<lambda>q D'. D' = D \<and> q = follow D p)"
  "D (follow D p) = Some n \<Longrightarrow> n \<noteq> DirNode \<Longrightarrow> runs r D (open_read_write p) (\<lambda>q D'. D' = D \<and> q = follow D p)"
  "D p = Some (FileNode f) \<Longrightarrow> content_reader (fd_bytes f) off k = Inr bs \<Longrightarrow>
     runs r D (read_exact_file p k off) (\<lambda>x D'. D' = D \<and> x = bs)"
  "D p = Some (FileNode f) \<Longrightarrow> runs r D (file_len p) (\<lambda>x D'. D' = D \<and> x = of_nat (length (fd_bytes f)))"
  "D p = Some (FileNode f) \<Longrightarrow> runs r D (fingerprint_of p) (\<lambda>x D'. D' = D \<and> x = fingerprint_from_file f)"
  "runs r D (sync_file p) (\<lambda>_ D'. D' = D)"
  unfolding symlink_metadata_def open_file_def open_read_write_def read_exact_file_def file_len_def
    fingerprint_of_def sync_file_def
  by (rule runs_fs_call; force simp: file_contents_def Let_def returnM_def split: node.splits)+

lemma runs_absent: "D p = None \<Longrightarrow> runs r D (is_absent p) (\<lambda>b D'. D' = D \<and> b)"
  unfolding runs_def is_absent_def symlink_metadata_def
  by (intro allI impI exI [of _ True]) (auto simp: fs_call_def calm_def fault_free_def)

lemma runs_not_exists: "D p = None \<Longrightarrow> runs r D (path_exists p) (\<lambda>b D'. D' = D \<and> \<not> b)"
  unfolding runs_def path_exists_def
  by (intro allI impI exI [of _ False]) (auto simp: follow_def fs_call_def calm_def fault_free_def)

lemma runs_writes:
  "D p = Some (FileNode f) \<Longrightarrow> runs r D (write_file_at p off data)
     (\<lambda>_ D'. \<exists>g. D' = D(p := Some (FileNode g)) \<and> fd_bytes g = write_bytes (unat off) data (fd_bytes f))"
  "D p = Some (FileNode f) \<Longrightarrow> runs r D (set_file_len p len)
     (\<lambda>_ D'. \<exists>g. D' = D(p := Some (FileNode g)) \<and>
        fd_bytes g = take (unat len) (fd_bytes f) @ replicate (unat len - length (fd_bytes f)) 0)"
  "D p = None \<Longrightarrow> p \<noteq> [] \<Longrightarrow> D (butlast p) = Some DirNode \<Longrightarrow> runs r D (create_new_file p)
     (\<lambda>q D'. q = p \<and> (\<exists>g. D' = D(p := Some (FileNode g)) \<and> fd_bytes g = []))"
  "D p = None \<Longrightarrow> p \<noteq> [] \<Longrightarrow> D (butlast p) = Some DirNode \<Longrightarrow> runs r D (create_new_dir p)
     (\<lambda>_ D'. D' = D(p := Some DirNode))"
  "D p = Some n \<Longrightarrow> n \<noteq> DirNode \<Longrightarrow> runs r D (remove_one_file p) (\<lambda>_ D'. D' = D(p := None))"
  unfolding write_file_at_def set_file_len_def create_new_file_def create_new_dir_def remove_one_file_def
  by (rule runs_fs_call; force simp: put_node_def calm_def fault_free_def split: node.splits)+

lemma runs_rename:
  assumes "D src \<noteq> None" "D dst = None" "\<not> below src dst" "dst \<noteq> []" "D (butlast dst) = Some DirNode"
  shows "runs r D (rename_noreplace src dst) (\<lambda>_ D'. D' = moved_disk src dst D)"
  unfolding rename_noreplace_def by (rule runs_fs_call) (simp add: assms calm_def fault_free_def)

text \<open>Loops: the invariant is about the elements taken.\<close>

lemma runs_foldM:
  assumes "\<And>pre x post s D. xs = pre @ x # post \<Longrightarrow> J pre s D \<Longrightarrow> runs r D (f x s) (\<lambda>t D'. J (pre @ [x]) t D')"
    and "J [] s D"
  shows "runs r D (foldM f xs s) (\<lambda>t D'. J xs t D')"
proof -
  have "runs r D (foldM f ys s) (\<lambda>t D'. J (pre @ ys) t D')" if "xs = pre @ ys" "J pre s D" for pre ys s D
    using that
  proof (induction ys arbitrary: pre s D)
    case (Cons y ys)
    show ?case unfolding foldM.simps
    proof (rule runs_bindM)
      show "runs r D (f y s) (\<lambda>t D'. J (pre @ [y]) t D')" by (rule assms(1)) (rule Cons.prems)+
      fix t D' assume "J (pre @ [y]) t D'"
      with Cons.IH [of "pre @ [y]" t D'] Cons.prems(1)
      show "runs r D' (foldM f ys t) (\<lambda>t D'. J (pre @ y # ys) t D')" by simp
    qed
  qed (simp add: runs_returnM)
  from this [of "[]" xs s D] assms(2) show ?thesis by simp
qed

text \<open>The steps, as rules over the rest of the computation.\<close>

lemma step_silent [step_intros]:
  "runs r D (f ()) Q \<Longrightarrow> runs r D (bindM check_cancel f) Q"
  "runs r D (f ()) Q \<Longrightarrow> runs r D (bindM (emit ev) f) Q"
  "runs r D (f ()) Q \<Longrightarrow> runs r D (bindM (emit_all evs) f) Q"
  by (rule runs_bindM, rule runs_check_cancel runs_emit; simp)+

lemma step_liftE [step_intros]: "x = Inr a \<Longrightarrow> runs r D (f a) Q \<Longrightarrow> runs r D (bindM (liftE x) f) Q"
  by simp

lemma step_fill_bytes [step_intros]:
  "(\<And>bs. length bs = n \<Longrightarrow> runs r D (f bs) Q) \<Longrightarrow> runs r D (bindM (fill_bytes n) f) Q"
  by (rule runs_bindM, rule runs_fill_bytes) simp

lemma step_symlink_metadata [step_intros]:
  "D p = Some n \<Longrightarrow> runs r D (f n) Q \<Longrightarrow> runs r D (bindM (symlink_metadata p) f) Q"
  by (rule runs_bindM, (rule runs_reads runs_absent runs_not_exists runs_writes runs_rename; assumption)) auto

lemma step_open [step_intros]:
  "D (follow D p) = Some n \<Longrightarrow> runs r D (f (follow D p)) Q \<Longrightarrow> runs r D (bindM (open_file p) f) Q"
  "D (follow D p) = Some n \<Longrightarrow> n \<noteq> DirNode \<Longrightarrow> runs r D (f (follow D p)) Q \<Longrightarrow> runs r D (bindM (open_read_write p) f) Q"
  by (rule runs_bindM, (rule runs_reads runs_absent runs_not_exists runs_writes runs_rename; assumption), auto)+

lemma step_read_exact_file [step_intros]:
  "D p = Some (FileNode g) \<Longrightarrow> content_reader (fd_bytes g) off k = Inr bs \<Longrightarrow> runs r D (f bs) Q \<Longrightarrow>
     runs r D (bindM (read_exact_file p k off) f) Q"
  by (rule runs_bindM, (rule runs_reads runs_absent runs_not_exists runs_writes runs_rename; assumption)) auto

lemma step_file_len [step_intros]:
  "D p = Some (FileNode g) \<Longrightarrow> runs r D (f (of_nat (length (fd_bytes g)))) Q \<Longrightarrow> runs r D (bindM (file_len p) f) Q"
  by (rule runs_bindM, (rule runs_reads runs_absent runs_not_exists runs_writes runs_rename; assumption)) auto

lemma step_fingerprint_of [step_intros]:
  "D p = Some (FileNode g) \<Longrightarrow> runs r D (f (fingerprint_from_file g)) Q \<Longrightarrow> runs r D (bindM (fingerprint_of p) f) Q"
  by (rule runs_bindM, (rule runs_reads runs_absent runs_not_exists runs_writes runs_rename; assumption)) auto

lemma step_absent [step_intros]:
  "D p = None \<Longrightarrow> runs r D (f True) Q \<Longrightarrow> runs r D (bindM (is_absent p) f) Q"
  "D p = None \<Longrightarrow> runs r D (f False) Q \<Longrightarrow> runs r D (bindM (path_exists p) f) Q"
  by (rule runs_bindM, (rule runs_reads runs_absent runs_not_exists runs_writes runs_rename; assumption), auto)+

lemma step_unit [step_intros]:
  "runs r D (f ()) Q \<Longrightarrow> runs r D (bindM (sync_file p) f) Q"
  "D p = None \<Longrightarrow> p \<noteq> [] \<Longrightarrow> D (butlast p) = Some DirNode \<Longrightarrow> runs r (D(p := Some DirNode)) (f ()) Q \<Longrightarrow>
     runs r D (bindM (create_new_dir p) f) Q"
  by (rule runs_bindM, (rule runs_reads runs_absent runs_not_exists runs_writes runs_rename; assumption), auto)+

lemma step_writes [step_intros]:
  "D p = Some (FileNode g) \<Longrightarrow>
     (\<And>g'. fd_bytes g' = write_bytes (unat off) data (fd_bytes g) \<Longrightarrow> runs r (D(p := Some (FileNode g'))) (f ()) Q) \<Longrightarrow>
     runs r D (bindM (write_file_at p off data) f) Q"
  "D p = Some (FileNode g) \<Longrightarrow>
     (\<And>g'. fd_bytes g' = take (unat len) (fd_bytes g) @ replicate (unat len - length (fd_bytes g)) 0 \<Longrightarrow>
        runs r (D(p := Some (FileNode g'))) (f ()) Q) \<Longrightarrow>
     runs r D (bindM (set_file_len p len) f) Q"
  by (rule runs_bindM, (rule runs_reads runs_absent runs_not_exists runs_writes runs_rename; assumption), auto)+

lemma step_create_new_file [step_intros]:
  "D p = None \<Longrightarrow> p \<noteq> [] \<Longrightarrow> D (butlast p) = Some DirNode \<Longrightarrow>
     (\<And>g. fd_bytes g = [] \<Longrightarrow> runs r (D(p := Some (FileNode g))) (f p) Q) \<Longrightarrow> runs r D (bindM (create_new_file p) f) Q"
  by (rule runs_bindM, (rule runs_reads runs_absent runs_not_exists runs_writes runs_rename; assumption)) auto

lemma step_rename [step_intros]:
  "D src \<noteq> None \<Longrightarrow> D dst = None \<Longrightarrow> \<not> below src dst \<Longrightarrow> dst \<noteq> [] \<Longrightarrow> D (butlast dst) = Some DirNode \<Longrightarrow>
     runs r (moved_disk src dst D) (f ()) Q \<Longrightarrow> runs r D (bindM (rename_noreplace src dst) f) Q"
  by (rule runs_bindM, (rule runs_reads runs_absent runs_not_exists runs_writes runs_rename; assumption)) auto

lemma step_contextM [step_intros]: "runs r D (bindM m f) Q \<Longrightarrow> runs r D (bindM (contextM msg m) f) Q"
proof -
  have "bindM (contextM msg m) f w = (Inr b, w') \<longleftrightarrow> bindM m f w = (Inr b, w')" for b w w'
    by (simp add: bindM_eq_Inr contextM_eq_Inr)
  then show "runs r D (bindM m f) Q \<Longrightarrow> ?thesis" by (simp add: runs_def)
qed

end
