(* ===== verification/CalmContainer.thy ===== *)
theory CalmContainer
  imports Calm V2Container
begin

text \<open>
  Operations of the container format on a calm world: opening with the master password, changing
  the password, and the duress answer all come to their end.
\<close>

section \<open>Headers\<close>

lemma runs_read_header:
  assumes at: "container_at P D q h body" and lim: "header_within_limits h"
    and len: "unat (h_index_size h) + unat (h_data_size h) = length body" and small: "HEADER_SIZE + length body < 2 ^ 64"
    and f: "runs r D (f h) Q"
  shows "runs r D (bindM (read_header P q) f) Q"
proof -
  obtain g where g: "D q = Some (FileNode g)" "HEADER_SIZE \<le> length (fd_bytes g)"
      "p_header_from P (take HEADER_SIZE (fd_bytes g)) = Inr h" "drop HEADER_SIZE (fd_bytes g) = body"
    using container_at_file [OF at] by blast
  have glen: "length (fd_bytes g) = HEADER_SIZE + length body" using g(2,4) by auto
  have "unat (of_nat (length (fd_bytes g)) :: u64) = HEADER_SIZE + length body"
    unfolding glen using small by (intro unat_of_nat_small) simp
  then have basic: "validate_header_basic h (Some (of_nat (length (fd_bytes g)))) = Inr ()"
    using lim len by (simp add: validate_header_basic_Some)
  have rd: "content_reader (fd_bytes g) 0 HEADER_SIZE = Inr (take HEADER_SIZE (fd_bytes g))"
    using g(2) by (simp add: content_reader_def slice_def HEADER_SIZE_def)
  have "runs r D (read_header P q) (\<lambda>x D'. D' = D \<and> x = h)"
    unfolding read_header_def
    by (rule step_contextM step_read_exact_file step_file_len step_liftE g rd basic runs_returnM
        conjI refl context_err_Inr(1) | simp add: g(3))+
  from runs_bindM [OF this] f show ?thesis by blast
qed

lemma runs_write_header:
  assumes codec: "header_codec_ok P" and out: "serialize_header P h' = Inr out" and at: "container_at P D q h body"
    and f: "\<And>g. container_at P (D(q := Some (FileNode g))) q h' body \<Longrightarrow> runs r (D(q := Some (FileNode g))) (f ()) Q"
  shows "runs r D (bindM (write_header P q h') f) Q"
proof -
  obtain g where g: "D q = Some (FileNode g)" "HEADER_SIZE \<le> length (fd_bytes g)" "drop HEADER_SIZE (fd_bytes g) = body"
    using container_at_file [OF at] by blast
  have len: "length out = HEADER_SIZE" by (rule length_serialize_header [OF out])
  have "write_bytes 0 out (fd_bytes g) = out @ body"
    using g(2,3) len by (simp add: write_bytes_def)
  then have at': "container_at P (D(q := Some (FileNode g'))) q h' body" if "fd_bytes g' = write_bytes 0 out (fd_bytes g)" for g'
    using that header_from_serialized [OF codec out] len by (simp add: container_at_def)
  have "runs r D (write_header P q h') (\<lambda>_ D'. \<exists>g'. D' = D(q := Some (FileNode g')) \<and> container_at P D' q h' body)"
    unfolding write_header_def
    by (rule step_liftE, rule out, rule step_writes(1), rule g(1), rule runs_mono, rule runs_reads(7)) (use at' in auto)
  then show ?thesis
  proof (rule runs_bindM)
    fix u :: unit and D' assume "\<exists>g'. D' = D(q := Some (FileNode g')) \<and> container_at P D' q h' body"
    then show "runs r D' (f u) Q" using f by (cases u) blast
  qed
qed

section \<open>Keys\<close>

lemma encrypt_aead_copies:
  assumes "aead_ok P" "length m = 32"
  obtains c where "encrypt_aead P k n a m = Inr c" "copy_from_slice 48 c = Inr c" "length c = 48"
  using encrypt_aead_ok [OF assms(1), of k n a m] assms(2) by (auto simp: copy_from_slice_eq_Inr)

lemma step_random_disabled_slot:
  assumes "\<And>slot. wf_slot slot \<Longrightarrow> ks_generation slot = 0 \<Longrightarrow> runs r D (f slot) Q"
  shows "runs r D (bindM random_disabled_slot f) Q"
proof -
  have "runs r D random_disabled_slot (\<lambda>s D'. D' = D \<and> wf_slot s \<and> ks_generation s = 0)"
    unfolding random_disabled_slot_def by (intro step_intros) (simp_all add: wf_slot_def)
  then show ?thesis by (rule runs_bindM) (use assms in blast)
qed

lemma step_make_key_slot:
  assumes P: "aead_ok P" "argon_total P" and dek: "length dek = 32" and params: "argon2_within_limits params"
    and f: "\<And>slot. slot_opens P h password slot dek \<Longrightarrow> ks_generation slot = g \<Longrightarrow> ks_params slot = params \<Longrightarrow>
      wf_slot slot \<Longrightarrow> runs r D (f slot) Q"
  shows "runs r D (bindM (make_key_slot P h password dek g params) f) Q"
proof -
  have "runs r D (make_key_slot P h password dek g params) (\<lambda>_ D'. D' = D)"
    unfolding make_key_slot_def Let_def
  proof (rule step_random_disabled_slot)
    fix slot :: key_slot
    let ?s = "slot\<lparr>ks_generation := g, ks_params := params\<rparr>"
    obtain kek where kek: "derive_kek P password (ks_salt ?s) (ks_params ?s) = Inr kek"
      using P(2) params unfolding argon_total_def by fastforce
    obtain c where "encrypt_aead P kek (ks_nonce ?s) (slot_aad P h ?s) dek = Inr c" "copy_from_slice 48 c = Inr c"
      using encrypt_aead_copies [OF P(1) dek] by blast
    with kek show "runs r D (liftE (bindE (derive_kek P password (ks_salt ?s) (ks_params ?s)) (\<lambda>kek.
        bindE (encrypt_aead P kek (ks_nonce ?s) (slot_aad P h ?s) dek) (\<lambda>enc.
        bindE (copy_from_slice 48 enc) (\<lambda>enc. Inr (?s\<lparr>ks_encrypted_dek := enc\<rparr>)))))) (\<lambda>_ D'. D' = D)"
      by (intro runs_liftE) auto
  qed
  then have "runs r D (make_key_slot P h password dek g params) (\<lambda>s D'. D' = D \<and> slot_opens P h password s dek \<and>
      ks_generation s = g \<and> ks_params s = params \<and> wf_slot s)"
    by (rule runs_strengthen) (intro conjI, (erule make_key_slot_opens [OF P(1) dek])+)
  then show ?thesis by (rule runs_bindM) (use f in blast)
qed

section \<open>Changing the password\<close>

definition container_ready :: "prims \<Rightarrow> disk \<Rightarrow> path \<Rightarrow> header \<Rightarrow> bytes \<Rightarrow> bool" where
  "container_ready P D path h body \<longleftrightarrow>
     container_at P D (follow D path) h body \<and> header_within_limits h \<and> wf_header h \<and>
     wf_slot (fst (h_slots h)) \<and> wf_slot (snd (h_slots h)) \<and>
     unat (h_index_size h) + unat (h_data_size h) = length body \<and> HEADER_SIZE + length body < 2 ^ 64"

lemma set_slot_wf:
  "wf_header h \<Longrightarrow> wf_header (set_slot i s h)"
  "wf_slot s \<Longrightarrow> wf_slot (fst (h_slots h)) \<Longrightarrow> wf_slot (snd (h_slots h)) \<Longrightarrow>
     wf_slot (fst (h_slots (set_slot i s h))) \<and> wf_slot (snd (h_slots (set_slot i s h)))"
  by (simp_all add: set_slot_def wf_header_slots)

lemma newest_slot_live:
  assumes "header_within_limits h" "live_slots h \<noteq> {}"
  shows "argon2_within_limits (ks_params (get_slot (1 - inactive_slot h) h))"
proof -
  have "0 < ks_generation (get_slot (1 - inactive_slot h) h)"
    using assms(2) by (auto simp: live_slots_eq get_slot_def inactive_slot_def word_less_nat_alt word_le_nat_alt)
  then show ?thesis using assms(1) by (auto simp: header_within_limits_def get_slot_def)
qed

lemma runs_rotate_slots:
  assumes P: "aead_ok P" "argon_total P" "header_codec_ok P" "header_encoder_ok P"
    and ready: "container_ready P D path h body" and q: "q = follow D path"
    and dek: "length dek = 32" and live: "live_slots h \<noteq> {}" and g: "unat (highest_generation h) + 1 < 2 ^ 64"
  shows "runs r D (rotate_slots P q h dek new) (\<lambda>_ _. True)"
proof -
  note rd = ready [unfolded container_ready_def]
  obtain gen where gen: "checked_add (highest_generation h) 1 = Some gen"
    using g by (cases "checked_add (highest_generation h) 1") (auto simp: checked_add_eq_None)
  have ser: "\<exists>out. serialize_header P h' = Inr out"
    if "wf_header h'" "wf_slot (fst (h_slots h'))" "wf_slot (snd (h_slots h'))" for h'
    using P(4) that unfolding header_encoder_ok_def by blast
  show ?thesis unfolding rotate_slots_def Let_def
  proof (intro step_liftE [OF context_opt_simps(1) [of _ gen, folded gen]] step_make_key_slot [OF P(1,2) dek] step_silent)
    show "argon2_within_limits (ks_params (get_slot (1 - inactive_slot h) h))"
      using newest_slot_live rd live by blast
    fix slot assume slot: "wf_slot slot"
    let ?h = "set_slot (inactive_slot h) slot h"
    have wf: "wf_header ?h" "wf_slot (fst (h_slots ?h))" "wf_slot (snd (h_slots ?h))"
      using set_slot_wf slot rd by blast+
    obtain out where out: "serialize_header P ?h = Inr out" using ser wf by blast
    have at: "container_at P D q h body" using rd q by simp
    show "runs r D (bindM (write_header P q ?h) (\<lambda>_. bindM random_disabled_slot (\<lambda>disabled.
        write_header P q (set_slot (1 - inactive_slot h) disabled ?h)))) (\<lambda>_ _. True)"
    proof (intro runs_write_header [OF P(3) out at] step_random_disabled_slot)
      fix gg d assume at': "container_at P (D(q := Some (FileNode gg))) q ?h body" and d: "wf_slot d"
      obtain out' where out': "serialize_header P (set_slot (1 - inactive_slot h) d ?h) = Inr out'"
        using ser set_slot_wf wf d by metis
      have "runs r (D(q := Some (FileNode gg))) (bindM (write_header P q (set_slot (1 - inactive_slot h) d ?h)) returnM) (\<lambda>_ _. True)"
        by (rule runs_write_header [OF P(3) out' at']) (simp add: runs_returnM)
      moreover have "bindM m returnM = (m :: unit io)" for m
        by (rule ext) (auto simp: bindM_def returnM_def split: prod.splits sum.splits)
      ultimately show "runs r (D(q := Some (FileNode gg))) (write_header P q (set_slot (1 - inactive_slot h) d ?h)) (\<lambda>_ _. True)"
        by simp
    qed
  qed
qed

text \<open>On a calm world a password change with the right old password and a new one that is not the
  duress password succeeds; with \<open>change_password_outcome\<close>, the new password then unlocks.\<close>

lemma change_password_runs:
  assumes P: "aead_ok P" "argon_total P" "header_codec_ok P" "header_encoder_ok P"
    and ready: "container_ready P D path h body"
    and old: "unlock P h old = Inr (Unlocked dek)" and new: "unlock P h new \<noteq> Inr Duress"
    and g: "unat (highest_generation h) + 1 < 2 ^ 64"
  shows "runs r D (change_password_inner P path old new) (\<lambda>_ _. True)"
proof -
  note rd = ready [unfolded container_ready_def]
  obtain f where f: "D (follow D path) = Some (FileNode f)" using container_at_file rd by blast
  obtain answer where answer: "unlock P h new = Inr answer" using unlock_total [OF P(2)] rd by blast
  have live: "live_slots h \<noteq> {}" using unlock_Unlocked_sound [OF old] by blast
  have rest: "runs r D (bindM (liftE (unlock P h new)) (\<lambda>answer. bindM (liftE (ensure (answer \<noteq> Duress)
      ''New master password must differ from the configured Duress password'')) (\<lambda>_.
      bindM check_cancel (\<lambda>_. bindM (liftE (unlock P h old)) (\<lambda>answer.
      bindM (case answer of Unlocked dek \<Rightarrow> returnM dek
        | Duress \<Rightarrow> bindM check_cancel (\<lambda>_. bindM (emit MutationStarted) (\<lambda>_.
            bindM (wipe_for_duress P path h) (\<lambda>_. liftE (bail cannot_unlock))))
        | Failed \<Rightarrow> liftE (bail cannot_unlock)) (\<lambda>dek. rotate_slots P (follow D path) h dek new)))))) (\<lambda>_ _. True)"
    using new runs_rotate_slots [OF P ready refl unlock_Unlocked_length [OF old] live g]
    by (simp add: answer old step_silent)
  show ?thesis unfolding change_password_inner_def
    by (rule step_silent, rule step_open(2), rule f, simp, rule runs_read_header [where h = h and body = body])
      (use rd rest in \<open>simp_all add: step_silent\<close>)
qed

section \<open>Opening\<close>

lemma open_container_runs:
  assumes ready: "container_ready P D path h body" and unl: "unlock P h password = Inr (Unlocked dek)"
    and idx: "open_index P h dek (take (unat (h_index_size h)) body) = Inr index"
  shows "runs r D (open_container P path password)
    (\<lambda>x D'. D' = D \<and> oc_header x = h \<and> oc_index x = index \<and> oc_dek x = dek)"
proof -
  note rd = ready [unfolded container_ready_def]
  let ?q = "follow D path"
  obtain g where g: "D ?q = Some (FileNode g)" "HEADER_SIZE \<le> length (fd_bytes g)" "drop HEADER_SIZE (fd_bytes g) = body"
    using container_at_file rd by blast
  have len: "length (fd_bytes g) = HEADER_SIZE + length body" using g(2,3) by auto
  have enc: "content_reader (fd_bytes g) HEADER64 (unat (h_index_size h)) = Inr (take (unat (h_index_size h)) body)"
    using rd len g(3) by (simp add: content_reader_def slice_def unat_consts)
  obtain start where start: "checked_add HEADER64 (h_index_size h) = Some start"
    using rd by (cases "checked_add HEADER64 (h_index_size h)") (auto simp: checked_add_eq_None unat_consts)
  let ?opened = "\<lparr>oc_read = (\<lambda>off n. bindE (file_contents D ?q) (\<lambda>c. content_reader c off n)), oc_header = h, oc_index = index,
      oc_dek = dek, oc_data_start = start\<rparr>"
  have rdr: "runs r D (file_reader ?q) (\<lambda>x D'. D' = D \<and> x = (\<lambda>off n. bindE (file_contents D ?q) (\<lambda>c. content_reader c off n)))"
    by (simp add: runs_def file_reader_def)
  have last: "runs r D (bindM (file_reader ?q) (\<lambda>rd. returnM \<lparr>oc_read = rd, oc_header = h, oc_index = index, oc_dek = dek,
      oc_data_start = start\<rparr>)) (\<lambda>x D'. D' = D \<and> x = ?opened)"
    by (rule runs_bindM, rule rdr, rule runs_returnM) simp
  have "runs r D (bindM (read_exact_file ?q (unat (h_index_size h)) HEADER64) (\<lambda>encrypted_index.
     bindM (liftE (open_index P h dek encrypted_index)) (\<lambda>index.
     bindM (liftE (context_opt ''Data offset overflow'' (checked_add HEADER64 (h_index_size h)))) (\<lambda>data_start.
     bindM (file_reader ?q) (\<lambda>rd. returnM \<lparr>oc_read = rd, oc_header = h, oc_index = index, oc_dek = dek,
              oc_data_start = data_start\<rparr>))))) (\<lambda>x D'. D' = D \<and> x = ?opened)"
    by (rule step_read_exact_file, rule g(1), rule enc) (use last in \<open>simp add: idx start\<close>)
  then have "runs r D (bindM (liftE (unlock P h password)) (\<lambda>answer.
     bindM (case answer of
         Unlocked dek \<Rightarrow> returnM dek
       | Duress \<Rightarrow> bindM (wipe_for_duress P path h) (\<lambda>_. liftE (bail cannot_unlock))
       | Failed \<Rightarrow> liftE (bail cannot_unlock)) (\<lambda>dek.
     bindM (read_exact_file ?q (unat (h_index_size h)) HEADER64) (\<lambda>encrypted_index.
     bindM (liftE (open_index P h dek encrypted_index)) (\<lambda>index.
     bindM (liftE (context_opt ''Data offset overflow'' (checked_add HEADER64 (h_index_size h)))) (\<lambda>data_start.
     bindM (file_reader ?q) (\<lambda>rd. returnM \<lparr>oc_read = rd, oc_header = h, oc_index = index, oc_dek = dek,
              oc_data_start = data_start\<rparr>))))))) (\<lambda>x D'. D' = D \<and> x = ?opened)"
    by (simp add: unl)
  then have "runs r D (open_container P path password) (\<lambda>x D'. D' = D \<and> x = ?opened)"
    unfolding open_container_def
    by (intro step_open(1) runs_read_header [where h = h and body = body]) (use rd g(1) in auto)
  then show ?thesis by (rule runs_mono) simp
qed

section \<open>The duress answer\<close>

text \<open>The answer is the one of a wrong password, and no password opens the container afterwards.\<close>

lemma open_duress_destroys:
  assumes codec: "header_codec_ok P" "header_encoder_ok P" and ready: "container_ready P D path h body"
    and dur: "unlock P h password = Inr Duress" and w: "fault_free w" "w_disk w = D"
    and run: "open_container P path password w = (res, w')"
  shows "res = Inl [Msg cannot_unlock]"
    and "w_disk w2 = w_disk w' \<Longrightarrow> open_container P path any w2 \<noteq> (Inr opened, w3)"
proof -
  note rd = ready [unfolded container_ready_def]
  let ?q = "follow D path" and ?w1 = "w\<lparr>w_calls := Suc (w_calls w)\<rparr>"
  obtain f where "D ?q = Some (FileNode f)" using container_at_file rd by blast
  then have o: "open_file path w = (Inr ?q, ?w1)"
    using w by (simp add: open_file_def fs_call_fault_free Let_def)
  obtain w2' where rdh: "read_header P ?q ?w1 = (Inr h, w2')" "w_disk w2' = D" "fault_free w2'"
    using read_header_fault_free [of ?w1 P ?q h body] w rd by (auto simp: fault_free_def)
  obtain w3' where wipe: "wipe_for_duress P path h w2' = (Inr (), w3')"
    using wipe_for_duress_fault_free [OF rdh(3) codec(2), of h path body] rdh(2) rd by auto
  have res: "res = Inl [Msg cannot_unlock]" "w' = w3'"
    using run o rdh(1) wipe dur by (simp_all add: open_container_def bindM_def liftE_def bail_def failM_def)
  show "res = Inl [Msg cannot_unlock]" by (rule res)
  have "container_at P (w_disk w2') (follow (w_disk w2') path) h body" using rd rdh(2) by simp
  from wipe_for_duress_outcome [OF codec(1) this wipe] obtain s where s: "live_slots (h\<lparr>h_slots := s\<rparr>) = {}"
      "container_at P (w_disk w') ?q (h\<lparr>h_slots := s\<rparr>) body" "follow (w_disk w') path = ?q"
    using res(2) rdh(2) by auto
  assume "w_disk w2 = w_disk w'"
  then show "open_container P path any w2 \<noteq> (Inr opened, w3)"
    using open_needs_live_slot [of P w2 path "h\<lparr>h_slots := s\<rparr>" body] s by simp
qed

end
