(* ===== verification/CalmExtract.thy ===== *)
theory CalmExtract
  imports CalmContainer ExtractProofs "HOL-Library.Multiset"
begin

text \<open>
  Extraction on a calm world comes to its end: every name of the tree is free when it is created,
  the parents are there, the temporary names do not collide, and the rename installs the tree.
  With \<open>extract_v2_inner_Inr\<close> the result is the tree of the index.
\<close>

section \<open>Temporary names\<close>

lemma dec_string_simps:
  "n < 10 \<Longrightarrow> dec_string n = [digit_char n]"
  "\<not> n < 10 \<Longrightarrow> dec_string n = dec_string (n div 10) @ [digit_char (n mod 10)]"
  by (simp_all add: dec_string.simps [of n])

lemma dec_string_neq_Nil: "dec_string n \<noteq> []"
  by (cases "n < 10") (simp_all add: dec_string_simps)

lemma dec_string_inject: "dec_string a = dec_string b \<longleftrightarrow> a = b"
proof (induction a arbitrary: b rule: less_induct)
  case (less a)
  consider "a < 10" "b < 10" | "a < 10" "\<not> b < 10" | "\<not> a < 10" "b < 10" | "\<not> a < 10" "\<not> b < 10" by blast
  then show ?case
  proof cases
    case 4
    have "a div 10 < a" using 4 by simp
    from less.IH [OF this, of "b div 10"] have "dec_string a = dec_string b \<longleftrightarrow> a div 10 = b div 10 \<and> a mod 10 = b mod 10"
      using 4 by (simp add: dec_string_simps digit_char_inject)
    then show ?thesis by (metis div_mult_mod_eq)
  qed (use dec_string_neq_Nil dec_string_neq_Nil [symmetric] in \<open>auto simp: dec_string_simps digit_char_inject\<close>)
qed

lemma dec_string_no_dash: "CHR ''-'' \<notin> set (dec_string n)"
proof (induction n rule: less_induct)
  case (less n)
  have digit: "digit_char d \<noteq> CHR ''-''" if "d < 10" for d
  proof -
    have "code (digit_char d) = 48 + d" using that by (simp add: digit_char_def code_char_of)
    moreover have "code (CHR ''-'') = 45" by (simp add: code_def)
    ultimately show ?thesis by auto
  qed
  show ?case
  proof (cases "n < 10")
    case True
    with digit [of n] show ?thesis by (simp add: dec_string_simps)
  next
    case False
    with less [of "n div 10"] digit [of "n mod 10"] show ?thesis by (auto simp: dec_string_simps)
  qed
qed

definition temp_of :: "u64 \<Rightarrow> string" where
  "temp_of i = temp_prefix @ dec_string (unat i) @ ''-''"

lemma temp_of_inject:
  assumes "starts_with (temp_of i) s" "starts_with (temp_of j) s"
  shows "i = j"
proof -
  obtain x y where "dec_string (unat i) @ CHR ''-'' # x = dec_string (unat j) @ CHR ''-'' # y"
    using assms by (auto simp: starts_with_iff temp_of_def)
  moreover have "takeWhile (\<lambda>c. c \<noteq> CHR ''-'') (dec_string n @ CHR ''-'' # z) = dec_string n" for n z
    using dec_string_no_dash [of n] by (subst takeWhile_append2) auto
  ultimately have "dec_string (unat i) = dec_string (unat j)" by metis
  then have "unat i = unat j" by (simp add: dec_string_inject)
  then show ?thesis by (rule unsigned_word_eqI)
qed

lemma temp_of_prefix: "starts_with (temp_of i) s \<Longrightarrow> starts_with temp_prefix s"
  by (auto simp: starts_with_iff temp_of_def)

section \<open>One file\<close>

lemma runs_mapM:
  "(\<And>x. x \<in> set xs \<Longrightarrow> runs r D (f x) (\<lambda>_ D'. D' = D)) \<Longrightarrow> runs r D (mapM f xs) (\<lambda>_ D'. D' = D)"
proof (induction xs)
  case (Cons x xs)
  have rest: "runs r D (bindM (mapM f xs) (\<lambda>ys. returnM (y # ys))) (\<lambda>_ D'. D' = D)" for y
    by (rule runs_bindM [OF Cons.IH]) (simp_all add: Cons.prems runs_returnM)
  show ?case unfolding mapM.simps
    by (rule runs_bindM [OF Cons.prems [of x]]) (use rest in simp_all)
qed (simp add: runs_returnM)

lemma runs_append_file:
  "D p = Some (FileNode f) \<Longrightarrow> runs r D (append_file p data) (\<lambda>_ D'. \<exists>g. D' = D(p := Some (FileNode g)))"
  unfolding append_file_def by (rule runs_fs_call) (auto simp: put_node_def calm_def fault_free_def)

lemma runs_write_plaintext:
  assumes "D q = Some (FileNode f)" "pf_file t = Some q"
  shows "runs r D (write_plaintext None t bs pr) (\<lambda>_ D'. \<exists>g. D' = D(q := Some (FileNode g)))"
  unfolding write_plaintext_def pending_writer_def
  by (simp add: assms(2) ensure_simps, rule runs_bindM, rule runs_append_file, rule assms(1))
    (auto simp: Let_def split_beta intro!: step_silent runs_returnM)

lemma runs_write_plaintexts:
  assumes "D q = Some (FileNode f)" "pf_file t = Some q"
  shows "runs r D (foldM (write_plaintext None t) ps pr) (\<lambda>_ D'. \<exists>g. D' = D(q := Some (FileNode g)))"
proof (rule runs_foldM [where J = "\<lambda>_ _ D'. \<exists>g. D' = D(q := Some (FileNode g))"])
  show "\<exists>g. D = D(q := Some (FileNode g))" using assms(1) by (intro exI [of _ f]) (simp add: fun_upd_idem)
  fix x s D'
  assume "\<exists>g. D' = D(q := Some (FileNode g))"
  then obtain g where D': "D' = D(q := Some (FileNode g))" by blast
  then have "D' q = Some (FileNode g)" by simp
  show "runs r D' (write_plaintext None t x s) (\<lambda>_ D''. \<exists>g. D'' = D(q := Some (FileNode g)))"
    by (rule runs_mono, rule runs_write_plaintext, rule \<open>D' q = _\<close>, rule assms(2)) (auto simp: D')
qed

lemma runs_extract_batches:
  assumes "\<forall>i \<in> set chunks. \<exists>p. decrypt_chunk P opened e (of_nat i) = Inr p"
    and "D q = Some (FileNode f)" "pf_file t = Some q"
  shows "runs r D (extract_batches P opened threads None e t chunks pr) (\<lambda>_ D'. \<exists>g. D' = D(q := Some (FileNode g)))"
  using assms(1,2)
proof (induction "length chunks" arbitrary: chunks pr D f rule: less_induct)
  case less
  show ?case
  proof (cases "chunks = []")
    case True
    have "\<exists>g. D = D(q := Some (FileNode g))" using less.prems(2) by (intro exI [of _ f]) (simp add: fun_upd_idem)
    then show ?thesis by (simp add: True extract_batches.simps [of _ _ _ _ _ _ "[]"] runs_returnM)
  next
    case False
    let ?b = "take (ordered_batch_size threads) chunks" and ?rest = "drop (ordered_batch_size threads) chunks"
    have shorter: "length ?rest < length chunks" using False by (auto simp: ordered_batch_size_def)
    have dec: "runs r D (mapM (decrypt_batch_item P opened e) ?b) (\<lambda>_ D'. D' = D)"
    proof (rule runs_mapM)
      fix i assume "i \<in> set ?b"
      then obtain p where "decrypt_chunk P opened e (of_nat i) = Inr p" using less.prems(1) by (meson in_set_takeD)
      then show "runs r D (decrypt_batch_item P opened e i) (\<lambda>_ D'. D' = D)"
        unfolding decrypt_batch_item_def by (intro step_silent runs_liftE) (simp_all add: context_err_Inr)
    qed
    have go: "runs r (D(q := Some (FileNode g))) (extract_batches P opened threads None e t ?rest pr')
        (\<lambda>_ D'. \<exists>g. D' = D(q := Some (FileNode g)))" for g pr'
      by (rule runs_mono [OF less.hyps [OF shorter, of "D(q := Some (FileNode g))" g pr']])
        (use less.prems(1) in \<open>auto dest: in_set_dropD\<close>)
    show ?thesis
      by (simp add: extract_batches.simps [of _ _ _ _ _ _ chunks] False)
        (rule step_silent, rule runs_bindM [OF dec], simp,
          rule runs_bindM, rule runs_write_plaintexts, rule less.prems(2), rule assms(3), use go in auto)
  qed
qed

lemma runs_try_clone: "runs r D (try_clone p) (\<lambda>q D'. D' = D \<and> q = p)"
  unfolding try_clone_def by (rule runs_fs_call) (simp add: returnM_def)

lemma runs_dir_not_exists:
  "D (dir_entry p name) = None \<Longrightarrow> runs r D (dir_exists p name) (\<lambda>b D'. D' = D \<and> \<not> b)"
  unfolding runs_def dir_exists_def dir_symlink_metadata_def
  by (intro allI impI exI [of _ False]) (auto simp: fs_call_def calm_def fault_free_def)

lemma runs_begin_file:
  assumes name: "validate_name name = Inr ()" "CHR ''/'' \<notin> set name"
    and p: "map_of (sr_directories root) pid = Some p" "D p = Some DirNode" "D (p @ [name]) = None"
    and free: "\<And>n. starts_with (temp_of i) n \<Longrightarrow> D (p @ [n]) = None"
  shows "runs r D (begin_file pid name i root) (\<lambda>t D'. pf_file t = Some (temp_path t) \<and>
    starts_with (temp_of i) (pf_temp_name t) \<and> (\<exists>g. D' = D(temp_path t := Some (FileNode g))))"
proof -
  have ex: "runs r D (dir_exists p name) (\<lambda>b D'. D' = D \<and> \<not> b)"
    by (rule runs_dir_not_exists) (simp add: dir_entry_plain name p)
  have made: "runs r D (bindM (contextM ''Unable to create temporary output file'' (create_new_file (p @ [n]))) (\<lambda>file.
      bindM (try_clone p) (\<lambda>parent. returnM \<lparr>pf_parent = parent, pf_temp_name = n, pf_final_name = name,
        pf_file = Some file, pf_committed = False\<rparr>))) (\<lambda>t D'. pf_file t = Some (temp_path t) \<and>
      starts_with (temp_of i) (pf_temp_name t) \<and> (\<exists>g. D' = D(temp_path t := Some (FileNode g))))"
    if n: "starts_with (temp_of i) n" for n
    by (rule step_contextM, rule step_create_new_file, rule free [OF n], simp, simp add: p,
        rule runs_bindM, rule runs_try_clone, rule runs_returnM) (auto simp: temp_path_def n)
  have shape: "starts_with (temp_of i) (''.cipherfs-'' @ dec_string (unat i) @ ''-'' @ x)" for x
    using starts_with_append [of "temp_of i" x] by (simp add: temp_of_def temp_prefix_def)
  show ?thesis unfolding begin_file_def Let_def
    by (simp add: name p context_opt_simps, rule runs_bindM, rule ex, simp add: ensure_simps, rule step_fill_bytes)
      (use made shape in simp)
qed

lemma runs_extract_file:
  assumes name: "validate_name (e_name e) = Inr ()" "CHR ''/'' \<notin> set (e_name e)"
    and p: "map_of (sr_directories root) (e_parent_id e) = Some p" "D p = Some DirNode" "D (p @ [e_name e]) = None"
    and free: "\<And>n. starts_with (temp_of (e_id e)) n \<Longrightarrow> D (p @ [n]) = None"
    and dec: "\<forall>i < unat (e_chunk_count e). \<exists>p. decrypt_chunk P opened e (of_nat i) = Inr p"
  shows "runs r D (extract_file P opened threads None root e pr) (\<lambda>(t, _) _. starts_with (temp_of (e_id e)) (pf_temp_name t))"
proof -
  have rest: "runs r D' (on_error (pending_drop t) (
      bindM (extract_batches P opened threads None e t [0..<unat (e_chunk_count e)] pr) (\<lambda>progress.
      bindM (finish_writing t) (\<lambda>pending. returnM (pending, progress)))))
      (\<lambda>(t, _) _. starts_with (temp_of (e_id e)) (pf_temp_name t))"
    if t: "pf_file t = Some (temp_path t)" "starts_with (temp_of (e_id e)) (pf_temp_name t)" "D' (temp_path t) = Some (FileNode g)"
    for t D' g
  proof (rule runs_on_error, rule runs_bindM)
    show "runs r D' (extract_batches P opened threads None e t [0..<unat (e_chunk_count e)] pr)
        (\<lambda>_ D''. \<exists>g. D'' = D'(temp_path t := Some (FileNode g)))"
      by (rule runs_extract_batches, use dec in simp, rule t(3), rule t(1))
    fix a D''
    show "runs r D'' (bindM (finish_writing t) (\<lambda>pending. returnM (pending, a)))
        (\<lambda>(t, _) _. starts_with (temp_of (e_id e)) (pf_temp_name t))"
      unfolding finish_writing_def t(1)
      by (simp, rule runs_bindM [where R = "\<lambda>t' _. pf_temp_name t' = pf_temp_name t"])
        (auto intro!: step_unit(1) runs_returnM simp: t(2))
  qed
  show ?thesis unfolding extract_file_def
    by (rule runs_bindM, rule runs_begin_file, (rule assms)+) (use rest in auto)
qed

section \<open>One entry\<close>

text \<open>In the staged tree the places of what comes next are free.\<close>

definition temps_of :: "entry list \<Rightarrow> pending_file list \<Rightarrow> bool" where
  "temps_of fs pend \<longleftrightarrow> list_all2 (\<lambda>e t. starts_with (temp_of (e_id e)) (pf_temp_name t)) fs pend"

lemma tree_inv_free:
  assumes ok: "index_ok h es" and inv: "tree_inv es D stage content seen dirs pend d"
    and e: "e \<in> set es" "e \<notin> set seen" "e_id e \<noteq> 1" and p: "dirs (e_parent_id e) = Some p"
    and temps: "temps_of (files_of seen) pend" and plain: "\<forall>e \<in> set es. e_id e \<noteq> 1 \<longrightarrow> plain_name (e_name e)"
  shows "d (p @ [e_name e]) = None" "starts_with (temp_of (e_id e)) n \<Longrightarrow> d (p @ [n]) = None"
proof -
  have sub: "set seen \<subseteq> set es" and dirs: "dirs_ok es stage seen dirs d"
    and pend: "list_all2 (pending_ok es stage content d) (files_of seen) pend"
    and only: "\<And>q. below stage q \<Longrightarrow> d q \<noteq> None \<Longrightarrow> q \<in> ran dirs \<union> temp_path ` set pend"
    using inv by (auto simp: tree_inv_def)
  note par = dirs_ok_parent [OF ok dirs sub e(1,3) p]
  have dir: "\<exists>x. x \<in> set seen \<and> x \<in> set es \<and> e_id x \<noteq> 1 \<and> p @ [n] = stage @ rel_path es x \<and> n = e_name x"
    if "p @ [n] \<in> ran dirs" for n
  proof -
    from that obtain i where "dirs i = Some (p @ [n])" by (auto simp: ran_def)
    moreover have "p @ [n] \<noteq> stage" using par(1) by (metis append.assoc append_self_conv not_Cons_self2 snoc_eq_iff_butlast)
    ultimately obtain x where x: "x \<in> set seen" "p @ [n] = stage @ rel_path es x" using dirs unfolding dirs_ok_def by metis
    then have xe: "x \<in> set es" using sub by blast
    have n1: "e_id x \<noteq> 1"
    proof
      assume "e_id x = 1"
      with rel_path_root [OF ok xe] x(2) par(1) show False by simp
    qed
    from index_ok_parent [OF ok xe n1] obtain y where "y \<in> set es" "e_id y = e_parent_id x" by blast
    from rel_path_child [OF ok xe n1 this] x(2) have "n = e_name x" by (metis append_assoc last_snoc)
    with x xe n1 show ?thesis by blast
  qed
  have temp: "\<exists>x (t :: pending_file). x \<in> set (files_of seen) \<and> starts_with (temp_of (e_id x)) (pf_temp_name t) \<and> n = pf_temp_name t"
    if "p @ [n] \<in> temp_path ` set pend" for n
  proof -
    from that obtain t where t: "t \<in> set pend" "p @ [n] = temp_path t" by auto
    with temps obtain x where "x \<in> set (files_of seen)" "starts_with (temp_of (e_id x)) (pf_temp_name t)"
      unfolding temps_of_def by (metis list_all2_conv_all_nth in_set_conv_nth)
    moreover have "n = pf_temp_name t" using t(2) by (simp add: temp_path_def)
    ultimately show ?thesis by blast
  qed
  have below: "below stage (p @ [n])" for n using par(1) by simp
  have plain_e: "plain_name (e_name e)" using plain e by blast
  show "d (p @ [e_name e]) = None"
  proof (rule ccontr)
    assume "d (p @ [e_name e]) \<noteq> None"
    with only [OF below] consider "p @ [e_name e] \<in> ran dirs" | "p @ [e_name e] \<in> temp_path ` set pend" by blast
    then show False
    proof cases
      case 1
      from dir [OF this] obtain x where "x \<in> set seen" "x \<in> set es" "p @ [e_name e] = stage @ rel_path es x" by blast
      with par(2) have "rel_path es x = rel_path es e" by simp
      from rel_path_inj [OF ok \<open>x \<in> set es\<close> e(1) this] \<open>x \<in> set seen\<close> e(2) show False by simp
    next
      case 2
      from temp [OF this] show False using plain_e temp_of_prefix by (auto simp: plain_name_def)
    qed
  qed
  assume n: "starts_with (temp_of (e_id e)) n"
  show "d (p @ [n]) = None"
  proof (rule ccontr)
    assume "d (p @ [n]) \<noteq> None"
    with only [OF below] consider "p @ [n] \<in> ran dirs" | "p @ [n] \<in> temp_path ` set pend" by blast
    then show False
    proof cases
      case 1
      from dir [OF this] plain temp_of_prefix [OF n] show False by (auto simp: plain_name_def)
    next
      case 2
      from temp [OF this] obtain x where x: "x \<in> set (files_of seen)" "starts_with (temp_of (e_id x)) n" by auto
      with temp_of_inject [OF n] have "e_id e = e_id x" by blast
      moreover have xs: "x \<in> set seen" using x(1) by (simp add: files_of_def)
      ultimately have "e = x" using sub e(1) by (intro index_ok_inj [OF ok]) auto
      with xs e(2) show False by simp
    qed
  qed
qed

text \<open>Parents come first.\<close>

lemma extraction_order_parent:
  assumes ok: "index_ok h es" and order: "extraction_order (index_tables es) = seen @ e # rest"
    and e: "e_id e \<noteq> 1" and dirs: "dirs_ok es stage seen dirs d"
  shows "e \<in> set es" "e \<notin> set seen" "\<exists>p. dirs (e_parent_id e) = Some p"
proof -
  let ?k = "\<lambda>e. (e_depth e, e_id e)"
  have sorted: "sorted (map ?k (seen @ e # rest))" and set: "set (seen @ e # rest) = set es" and dist: "distinct (seen @ e # rest)"
    using ok unfolding order [symmetric] extraction_order_tables by (simp_all add: index_ok_def distinct_map)
  show es: "e \<in> set es" using set by auto
  show "e \<notin> set seen" using dist by auto
  from index_ok_parent [OF ok es e] obtain y where y: "y \<in> set es" "e_id y = e_parent_id e" "e_kind y = Directory"
      "unat (e_depth e) = unat (e_depth y) + 1" by blast
  have "e_depth y < e_depth e" using y(4) by (simp add: word_less_nat_alt)
  then have "\<not> ?k e \<le> ?k y" by (auto simp: less_eq_prod_def)
  with sorted have "y \<notin> set rest" by (auto simp: sorted_append)
  moreover have "y \<noteq> e" using y(4) by auto
  ultimately have "y \<in> set seen" using y(1) set by auto
  with dirs y(2,3) show "\<exists>p. dirs (e_parent_id e) = Some p" unfolding dirs_ok_def by metis
qed

lemma runs_open_dir: "D p = Some DirNode \<Longrightarrow> runs r D (open_dir p) (\<lambda>q D'. D' = D \<and> q = p)"
  unfolding open_dir_def by (rule runs_fs_call) auto

lemma runs_dir_symlink_metadata:
  "D (dir_entry p name) = Some DirNode \<Longrightarrow> runs r D (dir_symlink_metadata p name) (\<lambda>n D'. D' = D \<and> n = DirNode)"
  unfolding dir_symlink_metadata_def by (rule runs_fs_call) auto

lemma runs_create_directory:
  assumes name: "validate_name name = Inr ()" "CHR ''/'' \<notin> set name"
    and p: "map_of (sr_directories root) pid = Some p" "D p = Some DirNode" "D (p @ [name]) = None"
  shows "runs r D (create_directory i pid name root)
    (\<lambda>root' _. root' = root\<lparr>sr_directories := AList.update i (p @ [name]) (sr_directories root)\<rparr>)"
proof -
  have opened: "runs r (D(p @ [name] := Some DirNode)) (bindM (contextM ''Unable to open output directory without escaping output root''
      (open_dir (p @ [name]))) (\<lambda>child. returnM (root\<lparr>sr_directories := AList.update i child (sr_directories root)\<rparr>)))
      (\<lambda>root' _. root' = root\<lparr>sr_directories := AList.update i (p @ [name]) (sr_directories root)\<rparr>)"
    by (rule step_contextM, rule runs_bindM, rule runs_open_dir, simp) (auto intro: runs_returnM)
  show ?thesis unfolding create_directory_def
    by (simp add: name p context_opt_simps dir_entry_plain, rule step_contextM, rule step_unit(2), rule p(3), simp, simp add: p,
        rule runs_bindM, rule runs_dir_symlink_metadata) (use opened in \<open>simp_all add: dir_entry_plain name ensure_simps\<close>)
qed

definition dirs_named :: "entry list \<Rightarrow> path \<Rightarrow> safe_root \<Rightarrow> bool" where
  "dirs_named es stage root \<longleftrightarrow> (\<forall>p \<in> snd ` set (sr_directories root).
     \<exists>e \<in> set es. e_kind e = Directory \<and> p = stage @ rel_path es e)"

lemma dirs_named_update:
  assumes "dirs_named es stage root" "e \<in> set es" "e_kind e = Directory" "p = stage @ rel_path es e"
  shows "dirs_named es stage (root\<lparr>sr_directories := AList.update i p (sr_directories root)\<rparr>)"
proof -
  have "set (AList.update i p (sr_directories root)) \<subseteq> insert (i, p) (set (sr_directories root))"
    by (rule set_update_subset)
  with assms show ?thesis unfolding dirs_named_def by fastforce
qed

definition staging ::
  "entry list \<Rightarrow> disk \<Rightarrow> path \<Rightarrow> (entry \<Rightarrow> bytes) \<Rightarrow> safe_root \<Rightarrow> entry list \<Rightarrow>
     safe_root \<times> pending_file list \<times> progress_tracker \<Rightarrow> disk \<Rightarrow> bool" where
  "staging es D stage content root0 seen s d \<longleftrightarrow>
     tree_inv es D stage content seen (map_of (sr_directories (fst s))) (fst (snd s)) d \<and>
     temps_of (files_of seen) (fst (snd s)) \<and> dirs_named es stage (fst s) \<and>
     (\<exists>dirs. fst s = root0\<lparr>sr_directories := dirs\<rparr>)"

lemma runs_extract_entry:
  assumes st: "content_stored P opened es content" and plain: "\<forall>e \<in> set es. e_id e \<noteq> 1 \<longrightarrow> plain_name (e_name e)"
    and order: "extraction_order (index_tables es) = seen @ e # rest" and inv: "staging es D stage content root0 seen s d"
  shows "runs r d (extract_entry P opened threads None e s) (staging es D stage content root0 (seen @ [e]))"
proof -
  obtain root pend pr where s: "s = (root, pend, pr)" by (cases s)
  have ok: "index_ok (oc_header opened) es" and opn: "opened_ok opened es" and P: "aead_ok P"
    using st by (simp_all add: content_stored_def opened_ok_def)
  note parts = inv [unfolded staging_def s fst_conv snd_conv]
  have tree: "tree_inv es D stage content seen (map_of (sr_directories root)) pend d"
    and temps: "temps_of (files_of seen) pend" and named: "dirs_named es stage root"
    and root0: "\<exists>dirs. root = root0\<lparr>sr_directories := dirs\<rparr>" using parts by blast+
  have "set (extraction_order (index_tables es)) = set es" "distinct (extraction_order (index_tables es))"
    using ok by (simp_all add: extraction_order_tables index_ok_def distinct_map)
  then have e: "e \<in> set es" "e \<notin> set seen" using order by auto
  have eok: "entry_ok e" using ok e(1) by (simp add: index_ok_def)
  have dirs: "dirs_ok es stage seen (map_of (sr_directories root)) d" and sub: "set seen \<subseteq> set es"
    using tree by (simp_all add: tree_inv_def)
  have goal: "runs r d (extract_entry P opened threads None e s)
      (\<lambda>s' _. dirs_named es stage (fst s') \<and> temps_of (files_of (seen @ [e])) (fst (snd s')))"
  proof (cases "e_id e = 1")
    case True
    have "e_kind e = Directory" by (rule index_ok_root(2) [OF ok e(1) True])
    then show ?thesis
      unfolding extract_entry_def s by (simp add: True, intro runs_on_error step_silent runs_returnM)
        (use named temps in \<open>simp add: files_of_def\<close>)
  next
    case False
    obtain p where p: "map_of (sr_directories root) (e_parent_id e) = Some p"
      using extraction_order_parent(3) [OF ok order False dirs] by blast
    have dp: "d p = Some DirNode" using dirs p unfolding dirs_ok_def by blast
    have name: "validate_name (e_name e) = Inr ()" using eok False by (simp add: entry_ok_def)
    have slash: "CHR ''/'' \<notin> set (e_name e)" using plain e(1) False by (simp add: plain_name_def)
    note free = tree_inv_free [OF ok tree e False p temps plain]
    show ?thesis
    proof (cases "e_kind e")
      case Directory
      have q: "p @ [e_name e] = stage @ rel_path es e" by (rule dirs_ok_parent(2) [OF ok dirs sub e(1) False p])
      have "runs r d (create_directory (e_id e) (e_parent_id e) (e_name e) root)
        (\<lambda>root' _. root' = root\<lparr>sr_directories := AList.update (e_id e) (p @ [e_name e]) (sr_directories root)\<rparr>)"
        by (rule runs_create_directory, rule name, rule slash, rule p, rule dp, rule free(1))
      then have "runs r d (bindM (create_directory (e_id e) (e_parent_id e) (e_name e) root) (\<lambda>root. returnM (root, pend, pr)))
        (\<lambda>s' _. dirs_named es stage (fst s') \<and> temps_of (files_of (seen @ [e])) (fst (snd s')))"
        by (rule runs_bindM) (use dirs_named_update [OF named e(1) Directory q] temps Directory in
          \<open>auto intro!: runs_returnM simp: files_of_def\<close>)
      then show ?thesis unfolding extract_entry_def s
        by (simp add: False Directory, intro runs_on_error step_silent)
    next
      case File
      have dec: "\<forall>i < unat (e_chunk_count e). \<exists>p. decrypt_chunk P opened e (of_nat i) = Inr p"
      proof (intro allI impI)
        fix i assume i: "i < unat (e_chunk_count e)"
        have "chunk_stored P opened e i (slice (i * CHUNK_SIZE) CHUNK_SIZE (content e))"
          using st e(1) File i by (simp add: content_stored_def files_of_def file_stored_def)
        from decrypt_chunk_stored [OF P opn e(1) File i this]
        show "\<exists>p. decrypt_chunk P opened e (of_nat i) = Inr p" by blast
      qed
      have "runs r d (extract_file P opened threads None root e pr) (\<lambda>(t, _) _. starts_with (temp_of (e_id e)) (pf_temp_name t))"
        by (rule runs_extract_file, rule name, rule slash, rule p, rule dp, rule free(1), rule free(2), assumption, rule dec)
      then have "runs r d (bindM (extract_file P opened threads None root e pr) (\<lambda>(pending, progress).
          returnM (root, pend @ [pending], progress)))
        (\<lambda>s' _. dirs_named es stage (fst s') \<and> temps_of (files_of (seen @ [e])) (fst (snd s')))"
        by (rule runs_bindM) (use named temps File in
          \<open>auto intro!: runs_returnM list_all2_appendI simp: files_of_def temps_of_def\<close>)
      then show ?thesis unfolding extract_entry_def s
        by (simp add: False File, intro runs_on_error step_silent)
    qed
  qed
  show ?thesis
  proof (rule runs_mono)
    show "runs r d (extract_entry P opened threads None e s)
      (\<lambda>s' d'. (dirs_named es stage (fst s') \<and> temps_of (files_of (seen @ [e])) (fst (snd s'))) \<and>
        tree_inv es D stage content (seen @ [e]) (map_of (sr_directories (fst s'))) (fst (snd s')) d' \<and>
        (\<exists>dirs. fst s' = root\<lparr>sr_directories := dirs\<rparr>))"
    proof (rule runs_strengthen [OF goal])
      fix s' w w' assume w: "w_disk w = d" and run: "extract_entry P opened threads None e s w = (Inr s', w')"
      obtain root' pend' pr' where s': "s' = (root', pend', pr')" by (cases s')
      have t: "tree_inv es D stage content seen (map_of (sr_directories root)) pend (w_disk w)" using tree w by simp
      from extract_entry_inv [OF st plain t e run [unfolded s s']]
      show "tree_inv es D stage content (seen @ [e]) (map_of (sr_directories (fst s'))) (fst (snd s')) (w_disk w') \<and>
          (\<exists>dirs. fst s' = root\<lparr>sr_directories := dirs\<rparr>)" by (simp add: s')
    qed
  qed (use root0 in \<open>auto simp: staging_def\<close>)
qed

section \<open>The tree\<close>

lemma runs_dir_rename_file:
  assumes "D (dir @ [src]) = Some n" "D (dir @ [dst]) \<noteq> Some DirNode" "CHR ''/'' \<notin> set dst"
  shows "runs r D (dir_rename_file dir src dst) (\<lambda>_ _. True)"
  unfolding dir_rename_file_def
  by (rule runs_fs_call) (use assms in \<open>auto simp: dir_entry_plain wants_directory_def calm_def fault_free_def\<close>)

lemma runs_pending_commit:
  assumes "D (temp_path t) = Some n" "D (pf_parent t @ [pf_final_name t]) \<noteq> Some DirNode"
    and "CHR ''/'' \<notin> set (pf_final_name t)" "pf_file t = None"
  shows "runs r D (pending_commit t) (\<lambda>_ D'. D' = D(temp_path t := None, pf_parent t @ [pf_final_name t] := Some n))"
proof -
  have "runs r D (pending_commit t) (\<lambda>_ _. True)"
    unfolding pending_commit_def finish_writing_def assms(4)
    by (simp, intro runs_on_error runs_contextM, rule runs_dir_rename_file)
      (use assms in \<open>simp_all add: temp_path_def\<close>)
  then have "runs r D (pending_commit t) (\<lambda>_ D'. True \<and> D' = D(temp_path t := None, pf_parent t @ [pf_final_name t] := Some n))"
    by (rule runs_strengthen) (use assms in \<open>auto dest!: pending_commit_Inr simp: dir_entry_plain\<close>)
  then show ?thesis by simp
qed

lemma runs_commit_pending:
  assumes "list_all2 (pending_ok es stage content D) fs ps" "distinct (map temp_path ps)" "finals_ok es fs"
    and "\<forall>e \<in> set fs. D (stage @ rel_path es e) \<noteq> Some DirNode"
  shows "runs r D (commit_pending ps) (\<lambda>_ _. True)"
  using assms
proof (induction ps arbitrary: D fs rule: list.induct)
  case (Cons p ps)
  from Cons.prems(1) obtain e fs' where fs: "fs = e # fs'" and p: "pending_ok es stage content D e p"
    and ps: "list_all2 (pending_ok es stage content D) fs' ps" by (auto simp: list_all2_Cons2)
  have e: "rel_path es e \<noteq> []" "last (rel_path es e) = e_name e" "plain_name (e_name e)" "finals_ok es fs'"
    using Cons.prems(3) fs by (auto simp: finals_ok_def)
  have final: "pf_parent p @ [pf_final_name p] = stage @ rel_path es e"
    using p e(1,2) by (auto simp: pending_ok_def) (metis append_butlast_last_id)
  from p obtain f where f: "D (temp_path p) = Some (FileNode f)" by (auto simp: pending_ok_def)
  let ?D = "D(temp_path p := None, stage @ rel_path es e := Some (FileNode f))"
  have step: "runs r D (pending_commit p) (\<lambda>_ D'. D' = ?D)"
    unfolding final [symmetric]
    by (rule runs_pending_commit, rule f) (use p e(3) final Cons.prems(4) fs in \<open>auto simp: pending_ok_def plain_name_def\<close>)
  have l: "list_all2 (pending_ok es stage content ?D) fs' ps"
  proof (rule list_all2_all_nthI)
    show "length fs' = length ps" using ps by (rule list_all2_lengthD)
    fix i assume i: "i < length fs'"
    then have mem: "ps ! i \<in> set ps" using ps by (simp add: list_all2_lengthD)
    have pi: "pending_ok es stage content D (fs' ! i) (ps ! i)" by (rule list_all2_nthD [OF ps i])
    have "temp_path (ps ! i) \<noteq> stage @ rel_path es e"
      using temp_path_neq_final [OF Cons.prems(3), of e "ps ! i"] fs pi by (simp add: pending_ok_def)
    moreover have "temp_path (ps ! i) \<noteq> temp_path p" using Cons.prems(2) mem by (simp, metis imageI)
    ultimately show "pending_ok es stage content ?D (fs' ! i) (ps ! i)"
      using pi by (auto intro: pending_ok_other)
  qed
  have "\<forall>x \<in> set fs'. ?D (stage @ rel_path es x) \<noteq> Some DirNode"
    using Cons.prems(4) fs by auto
  then have "runs r ?D (commit_pending ps) (\<lambda>_ _. True)"
    by (rule Cons.IH [OF l _ e(4), rotated]) (use Cons.prems(2) in simp)
  then show ?case unfolding commit_pending.simps
    by (intro runs_bindM [OF runs_on_error [OF step]]) simp
qed (simp add: runs_returnM)

lemma runs_fill_tree:
  assumes st: "content_stored P opened es content" and plain: "\<forall>e \<in> set es. e_id e \<noteq> 1 \<longrightarrow> plain_name (e_name e)"
    and root: "sr_directories root = [(1, stage)]" and D: "disk_ok D" "D stage = None"
  shows "runs r (D(stage := Some DirNode)) (fill_tree P threads opened None progress root)
    (\<lambda>root' D'. staged_tree es D stage content D' \<and> dirs_named es stage root' \<and> (\<exists>dirs. root' = root\<lparr>sr_directories := dirs\<rparr>))"
proof -
  have ok: "index_ok (oc_header opened) es" and tables: "oc_index opened = index_tables es"
    using st by (simp_all add: content_stored_def opened_ok_def)
  let ?order = "extraction_order (oc_index opened)" and ?d = "D(stage := Some DirNode)"
  have order: "set ?order = set es" "distinct ?order"
    using ok by (simp_all add: tables extraction_order_tables index_ok_def distinct_map)
  let ?root = "root\<lparr>sr_directories := AList.update 1 stage (sr_directories root)\<rparr>"
  obtain top where top: "top \<in> set es" "e_id top = 1" using ok by (auto simp: index_ok_def)
  have named: "dirs_named es stage ?root"
    using top index_ok_root(2) [OF ok top] rel_path_root [OF ok top] root by (auto simp: dirs_named_def)
  have start: "staging es D stage content root [] (?root, [], progress) ?d"
    using tree_inv_start [OF D, of "map_of (sr_directories ?root)"] named root
    by (auto simp: staging_def temps_of_def files_of_def)
  have install: "runs r ?d (install_root_id 1 root) (\<lambda>x D'. D' = ?d \<and> x = ?root)"
    unfolding install_root_id_def
    by (simp add: root context_opt_simps, rule runs_bindM, rule runs_try_clone) (simp add: runs_returnM root)
  have loop: "runs r ?d (foldM (extract_entry P opened threads None) ?order (?root, [], progress))
      (staging es D stage content root ?order)"
    by (rule runs_foldM [where J = "staging es D stage content root"])
      (rule runs_extract_entry [OF st plain], simp add: tables, assumption, rule start)
  have rest: "runs r d (bindM (on_error (drop_all pend) check_cancel) (\<lambda>_. bindM (commit_pending pend) (\<lambda>_. bindM check_cancel (\<lambda>_.
      bindM (emit (PhaseStarted Commit)) (\<lambda>_. bindM (emit CommitStarted) (\<lambda>_. returnM root')))))) 
      (\<lambda>x _. x = root')" if s: "staging es D stage content root ?order (root', pend, pr) d" for root' pend pr d
  proof -
    have tree: "tree_inv es D stage content ?order (map_of (sr_directories root')) pend d" using s by (simp add: staging_def)
    have finals: "finals_ok es (files_of ?order)" by (rule files_finals_ok [OF ok plain order])
    have "d (stage @ rel_path es e) \<noteq> Some DirNode" if e: "e \<in> set (files_of ?order)" for e
    proof
      assume dir: "d (stage @ rel_path es e) = Some DirNode"
      have pend: "list_all2 (pending_ok es stage content d) (files_of ?order) pend" and dirs: "dirs_ok es stage ?order (map_of (sr_directories root')) d"
        using tree by (simp_all add: tree_inv_def)
      have "stage @ rel_path es e \<notin> temp_path ` set pend"
      proof
        assume "stage @ rel_path es e \<in> temp_path ` set pend"
        then obtain t where t: "t \<in> set pend" "temp_path t = stage @ rel_path es e" by auto
        with pend obtain x where "pending_ok es stage content d x t" by (metis in_set_conv_nth list_all2_conv_all_nth)
        with t(2) dir show False by (simp add: pending_ok_def)
      qed
      then have "stage @ rel_path es e \<in> ran (map_of (sr_directories root'))"
        using tree dir below_append(1) [of stage "rel_path es e"] unfolding tree_inv_def
        by (metis UnE option.distinct(1))
      then obtain i where i: "map_of (sr_directories root') i = Some (stage @ rel_path es e)" by (auto simp: ran_def)
      have "rel_path es e \<noteq> []" using finals e by (simp add: finals_ok_def)
      with dirs i obtain x where x: "x \<in> set ?order" "e_kind x = Directory" "rel_path es x = rel_path es e"
        unfolding dirs_ok_def by fastforce
      have ee: "e \<in> set es" "e_kind e = File" using e order(1) by (auto simp: files_of_def)
      from rel_path_inj [OF ok _ ee(1) x(3)] x(1,2) order(1) ee(2) show False by auto
    qed
    then have commit: "runs r d (commit_pending pend) (\<lambda>_ _. True)"
      by (intro runs_commit_pending [OF _ _ finals]) (use tree in \<open>auto simp: tree_inv_def\<close>)
    have tail: "runs r d' (bindM check_cancel (\<lambda>_. bindM (emit (PhaseStarted Commit)) (\<lambda>_. bindM (emit CommitStarted) (\<lambda>_.
        returnM root')))) (\<lambda>x _. x = root')" for d'
      by (intro step_silent runs_returnM) simp
    show ?thesis
      by (rule runs_bindM [OF runs_on_error [OF runs_check_cancel]], simp, rule runs_bindM [OF commit]) (rule tail)
  qed
  have "runs r ?d (fill_tree P threads opened None progress root) (\<lambda>root' _. dirs_named es stage root')"
    unfolding fill_tree_def
    by (rule step_silent, rule runs_bindM [OF install], simp, rule runs_bindM [OF loop])
      (auto intro!: runs_mono [OF rest] simp: staging_def)
  then have "runs r ?d (fill_tree P threads opened None progress root)
    (\<lambda>root' D'. dirs_named es stage root' \<and> (staged_tree es D stage content D' \<and> (\<exists>dirs. root' = root\<lparr>sr_directories := dirs\<rparr>)))"
    by (rule runs_strengthen) (use fill_tree_Inr [OF st plain _ root D] in blast)
  then show ?thesis by (rule runs_mono) blast
qed

section \<open>The whole extraction\<close>

lemma runs_sync_cap_directory: "D p = Some DirNode \<Longrightarrow> runs r D (sync_cap_directory p) (\<lambda>_ D'. D' = D)"
  unfolding sync_cap_directory_def
  by (rule step_open(1) [where n = DirNode], simp add: follow_def, rule runs_reads(7))

lemma runs_safe_root_commit:
  assumes named: "\<forall>p \<in> snd ` set (sr_directories root). D p = Some DirNode" and order: "\<forall>xs. set (order xs) \<subseteq> set xs"
    and src: "D (sr_parent root @ [sr_staging_name root]) \<noteq> None" and dst: "D (sr_parent root @ [sr_target_name root]) = None"
    and ne: "sr_staging_name root \<noteq> sr_target_name root" and par: "D (sr_parent root) = Some DirNode"
  shows "runs r D (safe_root_commit order root) (\<lambda>_ _. True)"
proof -
  let ?src = "sr_parent root @ [sr_staging_name root]" and ?dst = "sr_parent root @ [sr_target_name root]"
  have sync: "runs r D (sync_open_directories order (sr_directories root)) (\<lambda>_ D'. D' = D)"
    unfolding sync_open_directories_def
  proof (rule runs_foldM [where J = "\<lambda>_ _ D'. D' = D"])
    fix pre x post s D'
    assume "order (map snd (sr_directories root)) = pre @ x # post"
    then have "x \<in> set (order (map snd (sr_directories root)))" by simp
    then have "x \<in> set (map snd (sr_directories root))" using order by blast
    then have "D x = Some DirNode" using named by force
    then show "D' = D \<Longrightarrow> runs r D' (sync_cap_directory x) (\<lambda>t D'. D' = D)" using runs_sync_cap_directory by simp
  qed simp
  have apart: "\<not> below ?src ?dst" "\<not> below ?dst (sr_parent root)" "\<not> below ?src (sr_parent root)"
    using ne by (auto simp: below_def starts_with_iff)
  have "moved_disk ?src ?dst D (sr_parent root) = Some DirNode"
    using apart(2,3) par by (simp add: moved_disk_def)
  then have "runs r (moved_disk ?src ?dst D) (sync_cap_directory (sr_parent root)) (\<lambda>_ D'. D' = moved_disk ?src ?dst D)"
    by (rule runs_sync_cap_directory)
  then have last: "runs r (moved_disk ?src ?dst D) (\<lambda>w. (case sync_cap_directory (sr_parent root) w of
        (Inr _, w') \<Rightarrow> (Inr None, w')
      | (Inl e, w') \<Rightarrow> (Inr (Some (''Unable to sync extraction parent after commit: '' @ display_chain e)), w'))) (\<lambda>_ _. True)"
    unfolding runs_def by fastforce
  show ?thesis unfolding safe_root_commit_def
    by (rule runs_on_error, rule runs_bindM [OF sync], simp, rule step_contextM, rule step_rename)
      (use src dst apart par last in simp_all)
qed

lemma runs_openat_dir: "D (p @ [x]) = Some DirNode \<Longrightarrow> runs r D (openat_dir x p) (\<lambda>q D'. D' = D \<and> q = p @ [x])"
  unfolding openat_dir_def by (rule runs_fs_call) auto

lemma runs_open_verified_directory:
  assumes "\<forall>k \<le> length p. D (take k p) = Some DirNode"
  shows "runs r D (open_verified_directory p) (\<lambda>q D'. D' = D \<and> q = p)"
proof -
  have root: "D [] = Some DirNode" using assms by force
  have "runs r D (foldM (\<lambda>name current. contextM msg (openat_dir name current)) p []) (\<lambda>q D'. D' = D \<and> q = p)" for msg
  proof (rule runs_foldM [where J = "\<lambda>pre q D'. D' = D \<and> q = pre"])
    fix pre x post q D'
    assume p: "p = pre @ x # post" and J: "D' = D \<and> q = pre"
    have "D (pre @ [x]) = Some DirNode" using assms [rule_format, of "Suc (length pre)"] p by simp
    then show "runs r D' (contextM msg (openat_dir x q)) (\<lambda>q D'. D' = D \<and> q = pre @ [x])"
      using J by (auto intro!: runs_contextM runs_openat_dir)
  qed simp
  then show ?thesis unfolding open_verified_directory_def
    by (intro step_open(1) [where n = DirNode]) (simp_all add: follow_def root)
qed

text \<open>The places an extraction to \<open>out\<close> takes are free, and its parents are directories.\<close>

definition place_free :: "disk \<Rightarrow> path \<Rightarrow> bool" where
  "place_free D out \<longleftrightarrow>
     out \<noteq> [] \<and> D out = None \<and> (\<forall>k < length out. D (take k out) = Some DirNode) \<and> valid_utf8 (last out) \<and>
     (\<forall>s. starts_with (''.'' @ last out @ ''.cipherfs-stage-'') s \<longrightarrow> D (butlast out @ [s]) = None)"

lemma runs_open_new_at:
  assumes free: "place_free D out"
  shows "runs r D (open_new_at out None) (\<lambda>root D'. sr_staging_name root \<noteq> last out \<and> sr_parent root = butlast out \<and>
    sr_target_name root = last out \<and> sr_directories root = [(1, butlast out @ [sr_staging_name root])] \<and>
    D (butlast out @ [sr_staging_name root]) = None \<and> D' = D(butlast out @ [sr_staging_name root] := Some DirNode))"
    (is "runs r D _ ?Q")
proof -
  have out: "out \<noteq> []" "D out = None" "\<And>k. k < length out \<Longrightarrow> D (take k out) = Some DirNode" "valid_utf8 (last out)"
    using free by (auto simp: place_free_def)
  have par: "D (butlast out) = Some DirNode" using out(1,3) by (simp add: butlast_conv_take)
  let ?pre = "''.'' @ last out @ ''.cipherfs-stage-''"
  have stage: "D (butlast out @ [s]) = None" "s \<noteq> last out" if "starts_with ?pre s" for s
  proof -
    show "D (butlast out @ [s]) = None" using free that by (simp add: place_free_def)
    show "s \<noteq> last out" using that by (auto simp: starts_with_iff)
  qed
  have name: "runs r D (allocate_staging_name (butlast out) (last out)) (\<lambda>s D'. D' = D \<and> starts_with ?pre s)"
  proof -
    have fresh: "starts_with ?pre (''.'' @ last out @ ''.cipherfs-stage-'' @ x)" for x
      using starts_with_append [of ?pre x] by simp
    have loop: "runs r D (allocate_staging_name_loop (Suc n) (butlast out) (last out)) (\<lambda>s D'. D' = D \<and> starts_with ?pre s)" for n
      by (simp add: Let_def, rule step_fill_bytes, rule step_absent(1))
        (use fresh stage(1) in \<open>auto intro!: runs_returnM\<close>)
    show ?thesis unfolding allocate_staging_name_def
      using loop [of 31] by (simp add: utf8_lossy_valid [OF out(4)] del: allocate_staging_name_loop.simps)
  qed
  have made: "runs r D (bindM (contextM msg1 (create_new_dir (butlast out @ [s]))) (\<lambda>_.
     bindM (contextM msg2 (open_dir (butlast out @ [s]))) (\<lambda>root.
     returnM \<lparr>sr_directories = [(1, root)], sr_parent = butlast out, sr_staging_name = s,
       sr_target_name = last out, sr_target_display = out, sr_committed = False\<rparr>))) ?Q"
    if s: "starts_with ?pre s" for s msg1 msg2
    by (rule step_contextM, rule step_unit(2), rule stage(1) [OF s], simp, simp add: par,
        rule step_contextM, rule runs_bindM, rule runs_open_dir, simp, rule runs_returnM) (use stage [OF s] in auto)
  have parents: "runs r D (open_verified_directory (butlast out)) (\<lambda>q D'. D' = D \<and> q = butlast out)"
    by (rule runs_open_verified_directory) (use out(1,3) in \<open>cases out rule: rev_cases; auto simp: less_Suc_eq_le\<close>)
  have absent: "runs r D (is_absent out) (\<lambda>b D'. D' = D \<and> b)" by (rule runs_absent) (rule out(2))
  show ?thesis unfolding open_new_at_def path_parent_def path_file_name_def
    by (rule runs_bindM [OF absent], simp add: ensure_simps context_opt_simps out(1),
        rule step_contextM, rule runs_bindM [OF parents], simp add: out(1),
        rule runs_bindM [OF absent], simp add: ensure_simps, rule runs_bindM [OF name]) (use made in simp)
qed

lemma sibling_apart:
  assumes "out \<noteq> []" "s \<noteq> last out"
  shows "\<not> below (butlast out @ [s]) out" "\<not> below (butlast out @ [s]) (butlast out)"
  using assms by (cases out rule: rev_cases; auto simp: below_def starts_with_iff)+

lemma runs_extract_tree:
  assumes st: "content_stored P opened es content" and plain: "\<forall>e \<in> set es. e_id e \<noteq> 1 \<longrightarrow> plain_name (e_name e)"
    and D: "disk_ok D" "D (butlast out @ [s]) = None" and out: "out \<noteq> []" "D out = None" "D (butlast out) = Some DirNode"
    and root: "sr_directories root = [(1, butlast out @ [s])]" "sr_parent root = butlast out" "sr_staging_name root = s"
      "sr_target_name root = last out" "s \<noteq> last out" and order: "\<forall>xs. set (order xs) \<subseteq> set xs"
  shows "runs r (D(butlast out @ [s] := Some DirNode)) (extract_tree P threads order opened None pr root) (\<lambda>_ _. True)"
proof -
  have ok: "index_ok (oc_header opened) es" using st by (simp add: content_stored_def opened_ok_def)
  obtain top where top: "top \<in> set es" "e_id top = 1" using ok by (auto simp: index_ok_def)
  let ?stage = "butlast out @ [s]"
  have done_tree: "runs r D' (bindM (safe_root_commit order root') (\<lambda>warning.
      bindM (case warning of Some message \<Rightarrow> emit (Warning message) | None \<Rightarrow> returnM ()) (\<lambda>_. emit Committed))) (\<lambda>_ _. True)"
    if tree: "staged_tree es D ?stage content D'" and named: "dirs_named es ?stage root'"
      and r': "sr_parent root' = butlast out" "sr_staging_name root' = s" "sr_target_name root' = last out" for root' D'
  proof (rule runs_bindM)
    have dirs: "\<forall>p \<in> snd ` set (sr_directories root'). D' p = Some DirNode"
    proof
      fix p assume "p \<in> snd ` set (sr_directories root')"
      with named obtain e where e: "e \<in> set es" "e_kind e = Directory" "p = ?stage @ rel_path es e"
        unfolding dirs_named_def by blast
      with tree show "D' p = Some DirNode" unfolding staged_tree_def by fastforce
    qed
    have src: "D' ?stage = Some DirNode"
      using tree top index_ok_root(2) [OF ok top] rel_path_root [OF ok top] unfolding staged_tree_def by fastforce
    note apart = sibling_apart [OF out(1) root(5)]
    have "D' out = None" "D' (butlast out) = Some DirNode" using tree apart out by (simp_all add: staged_tree_def)
    then show "runs r D' (safe_root_commit order root') (\<lambda>_ _. True)"
      by (intro runs_safe_root_commit dirs order) (use r' src root(5) out(1) in simp_all)
    fix warning D''
    show "runs r D'' (bindM (case warning of Some message \<Rightarrow> emit (Warning message) | None \<Rightarrow> returnM ()) (\<lambda>_. emit Committed)) (\<lambda>_ _. True)"
      by (cases warning) (auto intro!: step_silent runs_mono [OF runs_emit(1)])
  qed
  show ?thesis unfolding extract_tree_def
    by (rule runs_bindM, rule runs_on_error, rule runs_fill_tree [OF st plain root(1) D], elim conjE exE, rule done_tree)
      (use root in simp_all)
qed

text \<open>What a container on disk holds for a password.\<close>

definition container_holds ::
  "prims \<Rightarrow> disk \<Rightarrow> path \<Rightarrow> string \<Rightarrow> entry list \<Rightarrow> (entry \<Rightarrow> bytes) \<Rightarrow> bool" where
  "container_holds P D path password es content \<longleftrightarrow>
     (\<exists>h body dek. container_ready P D path h body \<and> unlock P h password = Inr (Unlocked dek) \<and>
        open_index P h dek (take (unat (h_index_size h)) body) = Inr (index_tables es)) \<and>
     (\<forall>v opened v'. w_disk v = D \<and> open_container P path password v = (Inr opened, v') \<longrightarrow>
        content_stored P opened es content)"

lemma runs_holds_open:
  assumes "container_holds P D path password es content"
  shows "runs r D (open_container P path password) (\<lambda>opened D'. D' = D \<and> content_stored P opened es content)"
proof -
  obtain h body dek where "container_ready P D path h body" "unlock P h password = Inr (Unlocked dek)"
      "open_index P h dek (take (unat (h_index_size h)) body) = Inr (index_tables es)"
    using assms by (auto simp: container_holds_def)
  from open_container_runs [OF this] have "runs r D (open_container P path password) (\<lambda>_ D'. D' = D)"
    by (rule runs_mono) simp
  then show ?thesis by (rule runs_strengthen) (use assms in \<open>auto simp: container_holds_def\<close>)
qed

lemma total_size_unsorted:
  assumes "opened_ok opened es"
  shows "\<exists>tot. total_size msg (filter (\<lambda>e. e_kind e = File) (map snd (vi_entries (oc_index opened)))) = Inr tot"
proof -
  have "mset (sort_key e_data_offset (files_of es)) = mset (files_of es)" by simp
  then have "mset (map (\<lambda>e. unat (e_size e)) (sort_key e_data_offset (files_of es))) = mset (map (\<lambda>e. unat (e_size e)) (files_of es))"
    by simp
  then have "sum_list (map (\<lambda>e. unat (e_size e)) (sort_key e_data_offset (files_of es))) = sum_list (map (\<lambda>e. unat (e_size e)) (files_of es))"
    by (metis sum_mset_sum_list)
  moreover have "oc_index opened = index_tables es" using assms by (simp add: opened_ok_def)
  ultimately show ?thesis
    using total_size_fits [OF assms, of msg]
    by (simp add: total_size_eq_Inr file_entries_index_tables) (simp add: index_tables_def files_of_def comp_def)
qed

lemma runs_extract:
  assumes holds: "container_holds P D container password es content"
    and plain: "\<forall>e \<in> set es. e_id e \<noteq> 1 \<longrightarrow> plain_name (e_name e)"
    and D: "disk_ok D" and out: "place_free D out" and order: "\<forall>xs. set (order xs) \<subseteq> set xs"
  shows "runs r D (extract_v2_inner P threads order container out password None None)
    (\<lambda>_ D'. extracted es content out D D')"
proof -
  have o: "out \<noteq> []" "D out = None" "D (butlast out) = Some DirNode"
    using out by (auto simp: place_free_def butlast_conv_take)
  have tree: "runs r D (bindM (open_new_at out None) (extract_tree P threads order opened None pr)) (\<lambda>_ _. True)"
    if st: "content_stored P opened es content" for opened pr
    by (rule runs_bindM, rule runs_open_new_at [OF out], elim conjE)
      (use runs_extract_tree [OF st plain D _ o _ _ _ _ _ order] in simp)
  have rest: "runs r D (bindM check_cancel (\<lambda>_.
     bindM (liftE (total_size ''Total extraction size overflow''
       (filter (\<lambda>e. e_kind e = File) (map snd (vi_entries (oc_index opened)))))) (\<lambda>total.
     let (progress, events) = tracker_new Extract total in
     bindM (emit_all events) (\<lambda>_.
     bindM (open_new_at out None) (\<lambda>root.
     extract_tree P threads order opened None progress root))))) (\<lambda>_ _. True)"
    if st: "content_stored P opened es content" for opened
  proof -
    obtain tot where "total_size ''Total extraction size overflow''
       (filter (\<lambda>e. e_kind e = File) (map snd (vi_entries (oc_index opened)))) = Inr tot"
      using total_size_unsorted [of opened es] st unfolding content_stored_def by blast
    then show ?thesis by (simp add: Let_def split_beta) (intro step_silent tree [OF st])
  qed
  have run: "runs r D (extract_v2_inner P threads order container out password None None) (\<lambda>_ _. True)"
    unfolding extract_v2_inner_def
    by (rule step_silent, rule step_silent, rule runs_bindM, rule runs_holds_open [OF holds]) (use rest in auto)
  have "runs r D (extract_v2_inner P threads order container out password None None)
    (\<lambda>_ D'. True \<and> extracted es content out D D')"
  proof (rule runs_strengthen [OF run])
    fix u w w' assume w: "calm r w" "w_disk w = D"
      and ex: "extract_v2_inner P threads order container out password None None w = (Inr u, w')"
    from runs_holds_open [OF holds] w obtain opened v' where
      v: "open_container P container password w = (Inr opened, v')" "content_stored P opened es content"
      by (rule runsD) blast
    from extract_v2_inner_Inr [OF v(1) refl v(2) plain _ ex [simplified]] D w(2)
    show "extracted es content out D (w_disk w')" by simp
  qed
  then show ?thesis by simp
qed

end
