(* ===== verification/Protocol.thy ===== *)
theory Protocol
  imports Operation
begin

text \<open>
  \<open>protocol.rs\<close> of the Windows shell: the messages between the window and its worker process and
  the length-prefixed frames that carry them. The message codec is a parameter. A pipe is the
  list of what its reader will see: bytes, interruptions and failures, then end of file.
\<close>

section \<open>Messages\<close>

definition PROTOCOL_VERSION :: u16 where "PROTOCOL_VERSION = 1"

definition MAX_FRAME_SIZE :: nat where "MAX_FRAME_SIZE = 8 * 1024 * 1024"

type_synonym secret = string

datatype worker_operation =
    OpPack path path path secret "secret option"
  | OpExtract path path path secret
  | OpVerify path secret
  | OpMount path secret
  | OpChangePassword path secret secret

record worker_request =
  rq_version :: u16
  rq_operation :: worker_operation

datatype parent_command = Cancel | Unmount

datatype phase = PScan | PKeyDerivation | PEncrypt | PSelfVerify | PExtract | PVerify | PCommit

datatype artifact_kind = ArtifactPack | ArtifactTree

datatype error_kind_dto =
    DCancelled | DAuthentication | DIntegrity | DInvalidFormat | DUnsafePath | DDestinationExists
  | DSourceChanged | DIo | DInternal | DWorkerProtocol | DWorkerCrashed

datatype worker_event =
    EvPhaseStarted phase
  | EvProgress phase u64 u64
  | EvWarning string
  | EvTemporaryArtifact artifact_kind path
  | EvCommitStarted
  | EvCommitted
  | EvMutationStarted
  | EvMounted path
  | EvSucceeded
  | EvFailed error_kind_dto string

section \<open>Pipes\<close>

datatype pipe_item = Data byte | Interrupted | Failure string

type_synonym pipe = "pipe_item list"

text \<open>\<open>read_exact\<close> retries interruptions; the end of the pipe is an error.\<close>

fun pipe_read_exact :: "nat \<Rightarrow> pipe \<Rightarrow> bytes result \<times> pipe" where
  "pipe_read_exact 0 p = (Inr [], p)"
| "pipe_read_exact (Suc n) [] = (Inl [IoError ''failed to fill whole buffer''], [])"
| "pipe_read_exact (Suc n) (Interrupted # p) = pipe_read_exact (Suc n) p"
| "pipe_read_exact (Suc n) (Failure m # p) = (Inl [IoError m], p)"
| "pipe_read_exact (Suc n) (Data b # p) =
     (case pipe_read_exact n p of (Inr bs, p') \<Rightarrow> (Inr (b # bs), p') | (Inl e, p') \<Rightarrow> (Inl e, p'))"

section \<open>Frames\<close>

text \<open>The sink of \<open>write_all\<close> is a parameter: it takes bytes and answers, and so is \<open>flush\<close>.\<close>

type_synonym 's sink = "bytes \<Rightarrow> 's \<Rightarrow> unit result \<times> 's"

definition frame_header :: "nat \<Rightarrow> bytes result" where
  "frame_header len =
     bindE (ensure (len \<le> MAX_FRAME_SIZE) ''Worker protocol frame exceeds the size limit'') (\<lambda>_.
     bindE (context_opt ''Worker frame length overflow''
       (if len < 2 ^ 32 then Some (of_nat len :: u32) else None)) (\<lambda>length.
     Inr (to_le_bytes length)))"

definition write_frame ::
  "('a \<Rightarrow> bytes result) \<Rightarrow> 's sink \<Rightarrow> ('s \<Rightarrow> unit result \<times> 's) \<Rightarrow> 'a \<Rightarrow> 's \<Rightarrow> unit result \<times> 's" where
  "write_frame enc put flush value s =
     (case bindE (enc value) (\<lambda>payload. bindE (frame_header (length payload)) (\<lambda>len. Inr (len, payload))) of
        Inl e \<Rightarrow> (Inl e, s)
      | Inr (len, payload) \<Rightarrow>
          (case put len s of
             (Inl e, s) \<Rightarrow> (Inl e, s)
           | (Inr _, s) \<Rightarrow>
               (case put payload s of
                  (Inl e, s) \<Rightarrow> (Inl e, s)
                | (Inr _, s) \<Rightarrow> flush s)))"

fun read_frame :: "(bytes \<Rightarrow> 'a result) \<Rightarrow> pipe \<Rightarrow> 'a option result \<times> pipe" where
  "read_frame dec [] = (Inr None, [])"
| "read_frame dec (Interrupted # p) = read_frame dec p"
| "read_frame dec (Failure m # p) = (Inl [Msg ''Unable to read worker frame length'', IoError m], p)"
| "read_frame dec (Data b # p) =
     (case pipe_read_exact 3 p of
        (Inl e, p) \<Rightarrow> (Inl (Msg ''Truncated worker frame length'' # e), p)
      | (Inr rest, p) \<Rightarrow>
          let len = unat (from_le_bytes (b # rest) :: u32) in
          if \<not> len \<le> MAX_FRAME_SIZE then (Inl [Msg ''Worker protocol frame is too large''], p)
          else if \<not> 0 < len then (Inl [Msg ''Worker protocol frame is empty''], p)
          else
            (case pipe_read_exact len p of
               (Inl e, p) \<Rightarrow> (Inl (Msg ''Truncated worker protocol frame'' # e), p)
             | (Inr payload, p) \<Rightarrow>
                 (case context_err ''Malformed worker protocol frame'' (dec payload) of
                    Inl e \<Rightarrow> (Inl e, p)
                  | Inr v \<Rightarrow> (Inr (Some v), p))))"

section \<open>What frames guarantee\<close>

text \<open>The bytes of a pipe, interruptions dropped; a pipe is clean when nothing in it fails.\<close>

fun pipe_bytes :: "pipe \<Rightarrow> bytes" where
  "pipe_bytes [] = []"
| "pipe_bytes (Data b # p) = b # pipe_bytes p"
| "pipe_bytes (x # p) = pipe_bytes p"

definition pipe_clean :: "pipe \<Rightarrow> bool" where
  "pipe_clean p \<longleftrightarrow> (\<forall>x \<in> set p. \<forall>m. x \<noteq> Failure m)"

lemma pipe_clean_simps [simp]:
  "pipe_clean []" "pipe_clean (Data b # p) = pipe_clean p" "pipe_clean (Interrupted # p) = pipe_clean p"
  "\<not> pipe_clean (Failure m # p)"
  by (auto simp: pipe_clean_def)

lemma pipe_read_exact_clean:
  "pipe_clean p \<Longrightarrow> n \<le> length (pipe_bytes p) \<Longrightarrow>
   \<exists>p'. pipe_read_exact n p = (Inr (take n (pipe_bytes p)), p') \<and> pipe_clean p' \<and>
     pipe_bytes p' = drop n (pipe_bytes p)"
proof (induction n p rule: pipe_read_exact.induct)
  case (5 n b p)
  then obtain p' where "pipe_read_exact n p = (Inr (take n (pipe_bytes p)), p')" "pipe_clean p'"
    "pipe_bytes p' = drop n (pipe_bytes p)" by auto
  then show ?case by simp
qed auto

lemma pipe_read_exact_short:
  "pipe_clean p \<Longrightarrow> length (pipe_bytes p) < n \<Longrightarrow>
   \<exists>p'. pipe_read_exact n p = (Inl [IoError ''failed to fill whole buffer''], p')"
  by (induction n p rule: pipe_read_exact.induct) auto

lemma read_frame_bytes:
  assumes "pipe_clean p"
  shows "pipe_bytes p = [] \<Longrightarrow> \<exists>p'. read_frame dec p = (Inr None, p')"
    and "pipe_bytes p = b # bs \<Longrightarrow> \<exists>q. pipe_clean q \<and> pipe_bytes q = bs \<and> read_frame dec p = read_frame dec (Data b # q)"
  using assms
proof (induction p)
  case (Cons x p)
  { case 1
    with Cons show ?case by (cases x) auto
  next
    case 2
    with Cons show ?case by (cases x) auto }
qed auto

definition frame_of :: "bytes \<Rightarrow> bytes" where
  "frame_of payload = to_le_bytes (of_nat (length payload) :: u32) @ payload"

lemma frame_length_decodes:
  assumes "length payload \<le> MAX_FRAME_SIZE"
  shows "unat (from_le_bytes (to_le_bytes (of_nat (length payload) :: u32)) :: u32) = length payload"
proof -
  have "(from_le_bytes (to_le_bytes (of_nat (length payload) :: u32)) :: u32) = of_nat (length payload)"
    by (rule from_to_le_bytes [of 4]) simp
  moreover have "unat (of_nat (length payload) :: u32) = length payload"
    using assms by (intro unat_of_nat_small) (simp add: MAX_FRAME_SIZE_def)
  ultimately show ?thesis by simp
qed

lemma write_frame_eq:
  assumes "enc value = Inr payload" "length payload \<le> MAX_FRAME_SIZE"
  shows "write_frame enc (\<lambda>bs out. (Inr (), out @ bs)) (\<lambda>out. (Inr (), out)) value out =
    (Inr (), out @ frame_of payload)"
  using assms by (simp add: write_frame_def frame_header_def frame_of_def MAX_FRAME_SIZE_def)

lemma write_frame_oversize:
  assumes "enc value = Inr payload" "MAX_FRAME_SIZE < length payload"
  shows "write_frame enc put flush value s = (Inl [Msg ''Worker protocol frame exceeds the size limit''], s)"
  using assms by (simp add: write_frame_def frame_header_def ensure_def ensureE_def)

text \<open>A frame is read back, with what follows left in the pipe, however the bytes are interrupted.\<close>

lemma read_frame_frame:
  assumes clean: "pipe_clean p" and bytes: "pipe_bytes p = frame_of payload @ rest"
    and size: "length payload \<le> MAX_FRAME_SIZE" "payload \<noteq> []" and dec: "dec payload = Inr v"
  shows "\<exists>p'. read_frame dec p = (Inr (Some v), p') \<and> pipe_clean p' \<and> pipe_bytes p' = rest"
proof -
  let ?hd = "to_le_bytes (of_nat (length payload) :: u32)"
  have hlen: "length ?hd = 4" by simp
  then obtain b hs where hd: "?hd = b # hs" "length hs = 3" by (cases ?hd) auto
  obtain q where q: "pipe_clean q" "pipe_bytes q = hs @ payload @ rest" "read_frame dec p = read_frame dec (Data b # q)"
    using read_frame_bytes(2) [OF clean, of b "hs @ payload @ rest"] bytes hd by (auto simp: frame_of_def)
  obtain q1 where q1: "pipe_read_exact 3 q = (Inr hs, q1)" "pipe_clean q1" "pipe_bytes q1 = payload @ rest"
    using pipe_read_exact_clean [OF q(1), of 3] q(2) hd(2) by auto
  obtain q2 where q2: "pipe_read_exact (length payload) q1 = (Inr payload, q2)" "pipe_clean q2" "pipe_bytes q2 = rest"
    using pipe_read_exact_clean [OF q1(2), of "length payload"] q1(3) by auto
  have "unat (from_le_bytes (b # hs) :: u32) = length payload"
    using frame_length_decodes [OF size(1)] hd(1) by simp
  with q1 q2 size dec q(3) show ?thesis by (simp add: Let_def)
qed

text \<open>A pipe that ends inside a frame is an error, never a value and never a clean end.\<close>

lemma read_frame_truncated:
  assumes clean: "pipe_clean p" and bytes: "pipe_bytes p = take n (frame_of payload)"
    and n: "0 < n" "n < length (frame_of payload)" and size: "length payload \<le> MAX_FRAME_SIZE"
  shows "\<exists>e p'. read_frame dec p = (Inl e, p')"
proof -
  let ?hd = "to_le_bytes (of_nat (length payload) :: u32)"
  have hlen: "length ?hd = 4" by simp
  then obtain b hs where hd: "?hd = b # hs" "length hs = 3" by (cases ?hd) auto
  obtain m where m: "n = Suc m" using n(1) by (cases n) auto
  obtain q where q: "pipe_clean q" "pipe_bytes q = take m (hs @ payload)" "read_frame dec p = read_frame dec (Data b # q)"
    using read_frame_bytes(2) [OF clean, of b "take m (hs @ payload)"] bytes hd m by (auto simp: frame_of_def)
  show ?thesis
  proof (cases "m < 3")
    case True
    then have "length (pipe_bytes q) < 3" using q(2) hd(2) by simp
    from pipe_read_exact_short [OF q(1) this] q(3) show ?thesis by auto
  next
    case False
    then obtain q1 where q1: "pipe_read_exact 3 q = (Inr hs, q1)" "pipe_clean q1"
        "pipe_bytes q1 = take (m - 3) payload"
      using pipe_read_exact_clean [OF q(1), of 3] q(2) hd(2) by auto
    have "unat (from_le_bytes (b # hs) :: u32) = length payload"
      using frame_length_decodes [OF size] hd(1) by simp
    moreover have "length (pipe_bytes q1) < length payload"
      using q1(3) n m hd(2) hlen False by (auto simp: frame_of_def)
    from pipe_read_exact_short [OF q1(2) this] obtain q2 where
      "pipe_read_exact (length payload) q1 = (Inl [IoError ''failed to fill whole buffer''], q2)" by blast
    ultimately show ?thesis using q1(1) q(3) by (simp add: Let_def)
  qed
qed

text \<open>Messages written one after the other come out in order, and then the end.\<close>

fun read_frames :: "(bytes \<Rightarrow> 'a result) \<Rightarrow> nat \<Rightarrow> pipe \<Rightarrow> 'a option result list" where
  "read_frames dec 0 p = []"
| "read_frames dec (Suc n) p = (case read_frame dec p of (r, p') \<Rightarrow> r # read_frames dec n p')"

lemma read_frames_written:
  assumes "\<And>v. v \<in> set vs \<Longrightarrow> \<exists>payload. enc v = Inr payload \<and> payload \<noteq> [] \<and>
      length payload \<le> MAX_FRAME_SIZE \<and> dec payload = Inr v"
    and "pipe_clean p" "pipe_bytes p = concat (map (\<lambda>v. frame_of (projr (enc v))) vs)"
  shows "read_frames dec (Suc (length vs)) p = map (\<lambda>v. Inr (Some v)) vs @ [Inr None]"
  using assms
proof (induction vs arbitrary: p)
  case Nil
  then show ?case using read_frame_bytes(1) [of p dec] by auto
next
  case (Cons v vs)
  obtain payload where pl: "enc v = Inr payload" "payload \<noteq> []" "length payload \<le> MAX_FRAME_SIZE"
      "dec payload = Inr v"
    using Cons.prems(1) by auto
  obtain p' where "read_frame dec p = (Inr (Some v), p')" "pipe_clean p'"
      "pipe_bytes p' = concat (map (\<lambda>v. frame_of (projr (enc v))) vs)"
    using read_frame_frame [of p payload "concat (map (\<lambda>v. frame_of (projr (enc v))) vs)" dec v]
      Cons.prems(2,3) pl by auto
  with Cons.IH [of p'] Cons.prems(1) show ?case by simp
qed

end
