(* ===== verification/DemoCalm.thy ===== *)
theory DemoCalm
  imports Demo CalmExtract Protocol
begin

text \<open>The demo container on a calm world: what the liveness theorems need of it.\<close>

lemma demo_calm: "calm (w_random demo_world) demo_world"
  by (simp add: calm_def fault_free_def demo_world_def)

lemma demo_ready: "container_ready demo (w_disk demo_world) [''c''] demo_header demo_body"
  using demo_container demo_limits demo_wf demo_sizes demo_body_length
  by (simp add: container_ready_def demo_follow HEADER_SIZE_def) (simp add: demo_header_def demo_wf)

lemma demo_holds: "container_holds demo (w_disk demo_world) [''c''] ''pw'' demo_entries (\<lambda>_. demo_content)"
proof -
  have "take 167 demo_body = demo_seal demo_dek 145 demo_index_bytes"
    using demo_index_length by (simp add: demo_body_def demo_seal_def demo_tag_def)
  then have "open_index demo demo_header demo_dek (take (unat (h_index_size demo_header)) demo_body) = Inr (index_tables demo_entries)"
    using demo_open_index by (simp add: demo_sizes)
  moreover have "content_stored demo opened demo_entries (\<lambda>_. demo_content)"
    if "w_disk v = w_disk demo_world" "open_container demo [''c''] ''pw'' v = (Inr opened, v')" for v v' opened
  proof -
    obtain w' where "open_container demo [''c''] ''pw'' demo_world = (Inr demo_opened, w')" using demo_open by blast
    from open_container_deterministic [OF that(2) this that(1)] demo_content_stored show ?thesis by simp
  qed
  ultimately show ?thesis unfolding container_holds_def using demo_ready demo_unlock by blast
qed

lemma demo_disk_ok: "disk_ok (w_disk demo_world)"
  by (auto simp: disk_ok_def demo_world_def demo_disk_def split: if_splits)

lemma demo_plain: "\<forall>e \<in> set demo_entries. e_id e \<noteq> 1 \<longrightarrow> plain_name (e_name e)"
  by (simp add: demo_entries_def demo_root_def demo_file_def plain_name_def temp_prefix_def starts_with_def)

lemma demo_place: "place_free (w_disk demo_world) [''out'']"
  by (auto simp: place_free_def demo_world_def demo_disk_def starts_with_iff valid_utf8_ascii code_def)

lemma demo_rel_path: "rel_path demo_entries demo_file = [''a'']"
  using rel_path_child [OF demo_index_ok, of demo_file demo_root] rel_path_root [OF demo_index_ok, of demo_root]
  by (simp add: demo_entries_def) (simp add: demo_file_def demo_root_def)

lemma pipe_of_data [simp]: "pipe_bytes (map Data bs) = bs" "pipe_clean (map Data bs)"
  by (induction bs) (simp_all add: pipe_clean_def)

lemma demo_extract_bad:
  "\<exists>e w'. extract_v2_inner demo 1 (\<lambda>x. x) [''c''] [''out''] ''bad'' None None demo_world = (Inl e, w')"
proof -
  let ?w = "demo_world\<lparr>w_polls := 1, w_events := [PhaseStarted KeyDerivation]\<rparr>"
  have "fst (open_container demo [''c''] ''bad'' ?w) = Inl [Msg cannot_unlock]"
    by (rule open_duress_or_failed [where h = demo_header and body = demo_body and answer = Failed])
      (use demo_ready demo_fault_free demo_ok(7) demo_unlock_bad in \<open>auto simp: container_ready_def fault_free_def\<close>)
  then obtain w' where "open_container demo [''c''] ''bad'' ?w = (Inl [Msg cannot_unlock], w')" by (metis prod.collapse)
  then show ?thesis
    by (simp add: extract_v2_inner_def bindM_def check_cancel_def emit_def demo_world_def check_def is_cancelled_def)
qed

lemma demo_require_v2: "\<exists>w'. require_v2 demo (\<lambda>_. Inl []) [''c''] demo_world = (Inr (), w')"
proof -
  have f: "w_disk demo_world [''c''] = Some (FileNode demo_fd)" by (rule demo_file_at)
  obtain g where g: "w_disk demo_world [''c''] = Some (FileNode g)" "HEADER_SIZE \<le> length (fd_bytes g)"
      "p_header_from demo (take HEADER_SIZE (fd_bytes g)) = Inr demo_header"
    using container_at_file [OF demo_container] by blast
  have rd: "content_reader (fd_bytes demo_fd) 0 HEADER_SIZE = Inr (take HEADER_SIZE (fd_bytes demo_fd))"
    using g f by (simp add: content_reader_def slice_def HEADER_SIZE_def)
  have len: "HEADER64 \<le> of_nat (length (fd_bytes demo_fd))" by (simp add: demo_fd_length HEADER_SIZE_def)
  have magic: "h_magic demo_header = MAGIC" by (simp add: demo_header_def)
  have probe: "runs (w_random demo_world) (w_disk demo_world)
      (probe_v2 demo [''c''] (of_nat (length (fd_bytes demo_fd)))) (\<lambda>x D'. D' = w_disk demo_world \<and> x)"
    unfolding probe_v2_def
    by (simp add: len, rule step_contextM, rule step_read_exact_file, rule f, rule rd)
      (use g f magic in \<open>auto intro!: runs_returnM\<close>)
  have "runs (w_random demo_world) (w_disk demo_world) (detect demo (\<lambda>_. Inl []) [''c'']) (\<lambda>x _. x = V2)"
    unfolding detect_def
    by (rule step_open(1), unfold demo_follow, rule f, rule step_file_len, rule f, rule runs_bindM, rule probe)
      (simp add: runs_returnM)
  then have "runs (w_random demo_world) (w_disk demo_world) (require_v2 demo (\<lambda>_. Inl []) [''c'']) (\<lambda>_ _. True)"
    unfolding require_v2_def by (rule runs_bindM) (simp add: runs_returnM)
  from runsD [OF this demo_calm refl] show ?thesis by (metis (full_types) old.unit.exhaust)
qed

end
