(* ===== verification/WindowsNames.thy ===== *)
theory WindowsNames
  imports ReadOnlyFs
begin

text \<open>
  Display names on Windows (\<open>windows_names.rs\<close>). A name is a byte string of UTF-8 text, so a
  character is its lead byte with the continuation bytes after it. The case mapping and the ordinal
  comparison are Windows' own and parameters here; an ordered map keyed by their order is a list
  searched with their equality.
\<close>

section \<open>Ordinal comparison\<close>

datatype ordering = Less | Equal | Greater

record windows_ordinal =
  wo_uppercase :: "string \<Rightarrow> u16 list"
  wo_compare :: "u16 list \<Rightarrow> u16 list \<Rightarrow> nat"

fun cmp_slices :: "u16 list \<Rightarrow> u16 list \<Rightarrow> ordering" where
  "cmp_slices [] [] = Equal"
| "cmp_slices [] (b # bs) = Less"
| "cmp_slices (a # as) [] = Greater"
| "cmp_slices (a # as) (b # bs) = (if a < b then Less else if b < a then Greater else cmp_slices as bs)"

text \<open>\<open>CSTR_LESS_THAN\<close>, \<open>CSTR_EQUAL\<close> and \<open>CSTR_GREATER_THAN\<close> are 1, 2 and 3; 0 is a failure.\<close>

definition compare_wide :: "windows_ordinal \<Rightarrow> u16 list \<Rightarrow> u16 list \<Rightarrow> ordering" where
  "compare_wide W left right =
     (let r = wo_compare W left right in
      if r = 1 then Less else if r = 2 then Equal else if r = 3 then Greater else cmp_slices left right)"

definition windows_uppercase :: "windows_ordinal \<Rightarrow> string \<Rightarrow> u16 list" where
  "windows_uppercase W value = wo_uppercase W value"

text \<open>\<open>OrdinalName\<close> holds the uppercase form.\<close>

record ordinal_name =
  on_uppercase :: "u16 list"

definition ordinal_name_new :: "windows_ordinal \<Rightarrow> string \<Rightarrow> ordinal_name" where
  "ordinal_name_new W value = \<lparr>on_uppercase = windows_uppercase W value\<rparr>"

definition ordinal_name_eq :: "windows_ordinal \<Rightarrow> ordinal_name \<Rightarrow> ordinal_name \<Rightarrow> bool" where
  "ordinal_name_eq W a b \<longleftrightarrow> compare_wide W (on_uppercase a) (on_uppercase b) = Equal"

definition ordinal_name_cmp :: "windows_ordinal \<Rightarrow> ordinal_name \<Rightarrow> ordinal_name \<Rightarrow> ordering" where
  "ordinal_name_cmp W a b = compare_wide W (on_uppercase a) (on_uppercase b)"

definition ordinal_compare :: "windows_ordinal \<Rightarrow> string \<Rightarrow> string \<Rightarrow> ordering" where
  "ordinal_compare W left right = compare_wide W (windows_uppercase W left) (windows_uppercase W right)"

definition equivalent :: "windows_ordinal \<Rightarrow> string \<Rightarrow> string \<Rightarrow> bool" where
  "equivalent W left right \<longleftrightarrow> ordinal_compare W left right = Equal"

definition compare_display_names :: "windows_ordinal \<Rightarrow> string \<Rightarrow> string \<Rightarrow> ordering" where
  "compare_display_names W left right = ordinal_compare W left right"

section \<open>Names Windows accepts\<close>

definition forbidden_char :: "char \<Rightarrow> bool" where
  "forbidden_char c \<longleftrightarrow> code c \<le> 31 \<or> c \<in> set ''<>:/|?*'' \<or> code c = 34 \<or> code c = 92"

definition trailing_char :: "char \<Rightarrow> bool" where
  "trailing_char c \<longleftrightarrow> c = CHR '' '' \<or> c = CHR ''.''"

text \<open>A character of four bytes takes two units.\<close>

definition utf16_count :: "string \<Rightarrow> nat" where
  "utf16_count s = length (filter (\<lambda>c. \<not> continuation c) s) + length (filter (\<lambda>c. 240 \<le> code c) s)"

definition stem_of :: "string \<Rightarrow> string" where
  "stem_of name = takeWhile (\<lambda>c. c \<noteq> CHR ''.'') name"

text \<open>The superscript digits are two bytes each.\<close>

definition device_number :: "string \<Rightarrow> bool" where
  "device_number number \<longleftrightarrow>
     number \<in> {''1'', ''2'', ''3'', ''4'', ''5'', ''6'', ''7'', ''8'', ''9'',
       [CHR 0xC2, CHR 0xB9], [CHR 0xC2, CHR 0xB2], [CHR 0xC2, CHR 0xB3]}"

definition reserved_stem :: "string \<Rightarrow> bool" where
  "reserved_stem upper \<longleftrightarrow>
     upper \<in> {''CON'', ''PRN'', ''AUX'', ''NUL''} \<or>
     (case (case strip_prefix ''COM'' upper of None \<Rightarrow> strip_prefix ''LPT'' upper | Some number \<Rightarrow> Some number) of
        None \<Rightarrow> False | Some number \<Rightarrow> device_number number)"

definition needs_mapping :: "string \<Rightarrow> bool" where
  "needs_mapping name \<longleftrightarrow>
     name = [] \<or> trailing_char (last name) \<or> list_ex forbidden_char name \<or> 255 < utf16_count name \<or>
     reserved_stem (to_ascii_uppercase (stem_of name))"

section \<open>A mapped name\<close>

definition mapping_suffix :: "u64 \<Rightarrow> u64 \<Rightarrow> string" where
  "mapping_suffix i attempt =
     (if attempt = 0 then ''~cfs-'' @ hex_digits 16 (unat i)
      else ''~cfs-'' @ hex_digits 16 (unat i) @ ''-'' @ dec_string (unat attempt))"

definition clean_char :: "char \<Rightarrow> char" where
  "clean_char c = (if forbidden_char c then CHR ''_'' else c)"

definition trim_end :: "string \<Rightarrow> string" where
  "trim_end s = rev (dropWhile trailing_char (rev s))"

text \<open>\<open>String::pop\<close>: the last lead byte and what follows it.\<close>

definition pop_char :: "string \<Rightarrow> string" where
  "pop_char s = rev (drop 1 (dropWhile continuation (rev s)))"

lemma pop_char_shorter: "s \<noteq> [] \<Longrightarrow> length (pop_char s) < length s"
proof -
  assume "s \<noteq> []"
  have "length (dropWhile continuation (rev s)) \<le> length s" using length_dropWhile_le [of continuation "rev s"] by simp
  moreover have "0 < length s" using \<open>s \<noteq> []\<close> by simp
  moreover have "length (pop_char s) = length (dropWhile continuation (rev s)) - 1" by (simp add: pop_char_def)
  ultimately show ?thesis by linarith
qed

text \<open>The loop would not end on an empty text under an overlong suffix; \<open>utf16_count_mapping_suffix\<close>
  shows that no suffix is.\<close>

function shorten :: "string \<Rightarrow> string \<Rightarrow> string" where
  "shorten cleaned suffix =
     (if 255 < utf16_count cleaned + utf16_count suffix \<and> cleaned \<noteq> [] then shorten (pop_char cleaned) suffix else cleaned)"
  by pat_completeness auto
termination
  by (relation "measure (\<lambda>(cleaned, _). length cleaned)") (auto simp: pop_char_shorter)

declare shorten.simps [simp del]

definition mapped_name :: "string \<Rightarrow> u64 \<Rightarrow> u64 \<Rightarrow> string" where
  "mapped_name name i attempt =
     (let suffix = mapping_suffix i attempt;
          cleaned = trim_end (map clean_char name);
          cleaned = (if cleaned = [] then ''entry'' else cleaned)
      in shorten cleaned suffix @ suffix)"

section \<open>The map\<close>

record name_map =
  wm_names :: "u64 \<Rightarrow> string option"
  wm_lookup :: "((u64 \<times> ordinal_name) \<times> u64) list"
  wm_changes :: "(string \<times> string) list"

text \<open>The entries below a parent; the root is its own parent.\<close>

definition by_parent :: "fs_node list \<Rightarrow> (u64 \<times> fs_node list) list" where
  "by_parent nodes =
     (let inner = filter (\<lambda>n. n_id n \<noteq> n_parent_id n) nodes
      in map (\<lambda>p. (p, filter (\<lambda>n. n_parent_id n = p) inner)) (remdups (map n_parent_id inner)))"

fun group_push :: "windows_ordinal \<Rightarrow> ordinal_name \<Rightarrow> fs_node \<Rightarrow> (ordinal_name \<times> fs_node list) list \<Rightarrow> (ordinal_name \<times> fs_node list) list" where
  "group_push W k child [] = [(k, [child])]"
| "group_push W k child ((k', cs) # groups) =
     (if ordinal_name_eq W k' k then (k', cs @ [child]) # groups else (k', cs) # group_push W k child groups)"

definition groups_of :: "windows_ordinal \<Rightarrow> fs_node list \<Rightarrow> (ordinal_name \<times> fs_node list) list" where
  "groups_of W children = fold (\<lambda>c. group_push W (ordinal_name_new W (n_name c)) c) children []"

definition collisions :: "windows_ordinal \<Rightarrow> fs_node list \<Rightarrow> u64 list" where
  "collisions W children =
     map n_id (concat (filter (\<lambda>group. 1 < length group) (map snd (groups_of W children))))"

definition used_contains :: "windows_ordinal \<Rightarrow> ordinal_name list \<Rightarrow> ordinal_name \<Rightarrow> bool" where
  "used_contains W used k \<longleftrightarrow> list_ex (\<lambda>k'. ordinal_name_eq W k' k) used"

definition used_insert :: "windows_ordinal \<Rightarrow> ordinal_name \<Rightarrow> ordinal_name list \<Rightarrow> ordinal_name list" where
  "used_insert W k used = (if used_contains W used k then used else k # used)"

definition keep_name ::
  "windows_ordinal \<Rightarrow> u64 list \<Rightarrow> fs_node \<Rightarrow> ordinal_name list \<times> (u64 \<Rightarrow> string option) \<Rightarrow> ordinal_name list \<times> (u64 \<Rightarrow> string option)" where
  "keep_name W colliding child = (\<lambda>(used, names).
     if \<not> needs_mapping (n_name child) \<and> \<not> List.member colliding (n_id child)
     then (used_insert W (ordinal_name_new W (n_name child)) used, names(n_id child \<mapsto> n_name child))
     else (used, names))"

text \<open>The search for a free name, with a bound on its attempts.\<close>

fun find_display :: "windows_ordinal \<Rightarrow> nat \<Rightarrow> string \<Rightarrow> u64 \<Rightarrow> ordinal_name list \<Rightarrow> u64 \<Rightarrow> string option" where
  "find_display W 0 name i used attempt = None"
| "find_display W (Suc fuel) name i used attempt =
     (let candidate = mapped_name name i attempt in
      if used_contains W used (ordinal_name_new W candidate)
      then find_display W fuel name i used (saturating_add attempt 1)
      else Some candidate)"

fun map_names ::
  "windows_ordinal \<Rightarrow> nat \<Rightarrow> fs_node list \<Rightarrow> ordinal_name list \<Rightarrow> (u64 \<Rightarrow> string option) \<Rightarrow> (u64 \<Rightarrow> string option) option" where
  "map_names W fuel [] used names = Some names"
| "map_names W fuel (child # children) used names =
     (if names (n_id child) \<noteq> None then map_names W fuel children used names
      else (case find_display W fuel (n_name child) (n_id child) used 0 of
          None \<Rightarrow> None
        | Some display \<Rightarrow>
            map_names W fuel children (ordinal_name_new W display # used) (names(n_id child \<mapsto> display))))"

fun lookup_insert :: "windows_ordinal \<Rightarrow> u64 \<times> ordinal_name \<Rightarrow> u64 \<Rightarrow> ((u64 \<times> ordinal_name) \<times> u64) list \<Rightarrow> ((u64 \<times> ordinal_name) \<times> u64) list" where
  "lookup_insert W k i [] = [(k, i)]"
| "lookup_insert W k i ((k', j) # table) =
     (if fst k' = fst k \<and> ordinal_name_eq W (snd k') (snd k) then (k', i) # table else (k', j) # lookup_insert W k i table)"

definition add_lookup :: "windows_ordinal \<Rightarrow> u64 \<Rightarrow> (u64 \<Rightarrow> string option) \<Rightarrow> fs_node \<Rightarrow> ((u64 \<times> ordinal_name) \<times> u64) list \<Rightarrow> ((u64 \<times> ordinal_name) \<times> u64) list" where
  "add_lookup W parent names child table =
     (case names (n_id child) of None \<Rightarrow> table
      | Some display \<Rightarrow> lookup_insert W (parent, ordinal_name_new W display) (n_id child) table)"

fun name_parents ::
  "windows_ordinal \<Rightarrow> nat \<Rightarrow> (u64 \<times> fs_node list) list \<Rightarrow> (u64 \<Rightarrow> string option) \<Rightarrow> ((u64 \<times> ordinal_name) \<times> u64) list \<Rightarrow>
     ((u64 \<Rightarrow> string option) \<times> ((u64 \<times> ordinal_name) \<times> u64) list) option" where
  "name_parents W fuel [] names table = Some (names, table)"
| "name_parents W fuel ((parent, nodes) # groups) names table =
     (let children = sort_key n_id nodes;
          (used, names) = fold (keep_name W (collisions W children)) children ([], names)
      in (case map_names W fuel children used names of
            None \<Rightarrow> None
          | Some names \<Rightarrow> name_parents W fuel groups names (fold (add_lookup W parent names) children table)))"

text \<open>The loop of \<open>node_path\<close>, with a bound on the depth.\<close>

fun node_path_loop :: "nat \<Rightarrow> (u64 \<Rightarrow> fs_node option) \<Rightarrow> (u64 \<Rightarrow> string option) \<Rightarrow> u64 \<Rightarrow> string list \<Rightarrow> string list option" where
  "node_path_loop 0 nodes names current components = None"
| "node_path_loop (Suc fuel) nodes names current components =
     (case nodes current of
        None \<Rightarrow> Some components
      | Some node \<Rightarrow>
          if n_id node = n_parent_id node then Some components
          else node_path_loop fuel nodes names (n_parent_id node)
            (components @ [case names (n_id node) of None \<Rightarrow> n_name node | Some name \<Rightarrow> name]))"

fun join_backslash :: "string list \<Rightarrow> string" where
  "join_backslash [] = []"
| "join_backslash [s] = s"
| "join_backslash (s # ss) = s @ [CHR 0x5C] @ join_backslash ss"

definition node_path :: "nat \<Rightarrow> u64 \<Rightarrow> (u64 \<Rightarrow> fs_node option) \<Rightarrow> (u64 \<Rightarrow> string option) \<Rightarrow> string option" where
  "node_path fuel i nodes names = map_option (\<lambda>components. join_backslash (rev components)) (node_path_loop fuel nodes names i [])"

fun changed_names :: "nat \<Rightarrow> (u64 \<Rightarrow> fs_node option) \<Rightarrow> (u64 \<Rightarrow> string option) \<Rightarrow> fs_node list \<Rightarrow> (string \<times> string) list option" where
  "changed_names fuel by_id names [] = Some []"
| "changed_names fuel by_id names (node # nodes) =
     Option.bind (node_path fuel (n_id node) by_id Map.empty) (\<lambda>original.
     Option.bind (node_path fuel (n_id node) by_id names) (\<lambda>display.
     Option.bind (changed_names fuel by_id names nodes) (\<lambda>rest. Some ((original, display) # rest))))"

definition name_map_new :: "windows_ordinal \<Rightarrow> nat \<Rightarrow> fs_node list \<Rightarrow> name_map option" where
  "name_map_new W fuel nodes =
     Option.bind (name_parents W fuel (by_parent nodes) Map.empty []) (\<lambda>(names, table).
     let by_id = map_of (rev (map (\<lambda>n. (n_id n, n)) nodes));
         changed = sort_key n_id (filter (\<lambda>n. case names (n_id n) of None \<Rightarrow> False | Some name \<Rightarrow> name \<noteq> n_name n) nodes)
     in Option.bind (changed_names fuel by_id names changed) (\<lambda>changes.
        Some \<lparr>wm_names = names, wm_lookup = table, wm_changes = changes\<rparr>))"

definition name_for :: "name_map \<Rightarrow> u64 \<Rightarrow> string \<Rightarrow> string" where
  "name_for m i original = (case wm_names m i of None \<Rightarrow> original | Some name \<Rightarrow> name)"

definition name_map_name :: "name_map \<Rightarrow> fs_node \<Rightarrow> string" where
  "name_map_name m node = name_for m (n_id node) (n_name node)"

fun lookup_find :: "windows_ordinal \<Rightarrow> u64 \<times> ordinal_name \<Rightarrow> ((u64 \<times> ordinal_name) \<times> u64) list \<Rightarrow> u64 option" where
  "lookup_find W k [] = None"
| "lookup_find W k ((k', i) # table) =
     (if fst k' = fst k \<and> ordinal_name_eq W (snd k') (snd k) then Some i else lookup_find W k table)"

definition name_map_lookup :: "windows_ordinal \<Rightarrow> name_map \<Rightarrow> u64 \<Rightarrow> string \<Rightarrow> u64 option" where
  "name_map_lookup W m parent display_name = lookup_find W (parent, ordinal_name_new W display_name) (wm_lookup m)"


section \<open>What a mapped name looks like\<close>

lemma utf16_count_append: "utf16_count (s @ t) = utf16_count s + utf16_count t"
  by (simp add: utf16_count_def)

lemma forbidden_code: "forbidden_char c \<longleftrightarrow> code c \<le> 31 \<or> code c \<in> {60, 62, 58, 47, 124, 63, 42, 34, 92}"
  unfolding forbidden_char_def by (simp add: code_inject [symmetric]) (auto simp: code_def)

lemma trailing_code: "trailing_char c \<longleftrightarrow> code c = 32 \<or> code c = 46"
  unfolding trailing_char_def by (simp add: code_inject [symmetric]) (auto simp: code_def)

lemma dot_code: "c = CHR ''.'' \<longleftrightarrow> code c = 46"
  by (simp add: code_inject [symmetric]) (auto simp: code_def)

text \<open>Digits, hexadecimal letters, and the letters of \<open>~cfs-\<close>.\<close>

definition suffix_char :: "char \<Rightarrow> bool" where
  "suffix_char c \<longleftrightarrow> code c \<in> {126, 45, 115} \<or> 48 \<le> code c \<and> code c \<le> 57 \<or> 97 \<le> code c \<and> code c \<le> 102"

lemma suffix_char_digit: "d < 16 \<Longrightarrow> suffix_char (digit_char d)"
  by (auto simp: suffix_char_def digit_char_def)

lemma suffix_char_hex_digits: "c \<in> set (hex_digits k n) \<Longrightarrow> suffix_char c"
  by (induction k arbitrary: n) (auto simp: suffix_char_digit)

lemma suffix_char_dec_string: "c \<in> set (dec_string n) \<Longrightarrow> suffix_char c"
proof (induction n rule: dec_string.induct)
  case (1 n)
  show ?case
  proof (cases "n < 10")
    case True
    with 1 show ?thesis by (simp add: dec_string.simps [of n] suffix_char_digit)
  next
    case False
    with 1 show ?thesis by (auto simp: dec_string.simps [of n] suffix_char_digit)
  qed
qed

lemma suffix_char_ok: "suffix_char c \<Longrightarrow> \<not> forbidden_char c \<and> \<not> trailing_char c \<and> code c < 128 \<and> c \<noteq> CHR ''.''"
  by (auto simp: suffix_char_def forbidden_code trailing_code dot_code)

lemma mapping_suffix_chars: "c \<in> set (mapping_suffix i attempt) \<Longrightarrow> suffix_char c"
  using suffix_char_hex_digits suffix_char_dec_string
  by (auto simp: mapping_suffix_def split: if_splits) (simp_all add: suffix_char_def code_def)

lemma utf16_count_ascii: "\<forall>c \<in> set s. code c < 128 \<Longrightarrow> utf16_count s = length s"
proof -
  assume s: "\<forall>c \<in> set s. code c < 128"
  then have "filter (\<lambda>c. \<not> continuation c) s = s" by (intro filter_True) (auto simp: continuation_def)
  moreover have "filter (\<lambda>c. 240 \<le> code c) s = []" using s by (intro filter_False) auto
  ultimately show ?thesis by (simp add: utf16_count_def)
qed

lemma length_dec_string: "n < 10 ^ Suc k \<Longrightarrow> length (dec_string n) \<le> Suc k"
proof (induction k arbitrary: n)
  case 0
  then show ?case by (simp add: dec_string.simps [of n])
next
  case (Suc k)
  show ?case
  proof (cases "n < 10")
    case True
    then show ?thesis by (simp add: dec_string.simps [of n])
  next
    case False
    have "n div 10 < 10 ^ Suc k" using Suc.prems by (simp add: less_mult_imp_div_less mult.commute)
    from Suc.IH [OF this] False show ?thesis by (simp add: dec_string.simps [of n])
  qed
qed

lemma utf16_count_mapping_suffix: "utf16_count (mapping_suffix i attempt) \<le> 42"
proof -
  have "utf16_count (mapping_suffix i attempt) = length (mapping_suffix i attempt)"
    using mapping_suffix_chars suffix_char_ok by (intro utf16_count_ascii) blast
  moreover have "length (dec_string (unat attempt)) \<le> 20"
    using order.strict_trans [OF unat_u64_bound [of attempt], of "10 ^ 20"] length_dec_string [of "unat attempt" 19] by simp
  ultimately show ?thesis by (simp add: mapping_suffix_def)
qed

lemma shorten_fits: "utf16_count suffix \<le> 255 \<Longrightarrow> utf16_count (shorten cleaned suffix) + utf16_count suffix \<le> 255"
proof (induction cleaned suffix rule: shorten.induct)
  case (1 cleaned suffix)
  then show ?case
    by (cases "255 < utf16_count cleaned + utf16_count suffix \<and> cleaned \<noteq> []")
       (auto simp: shorten.simps [of cleaned] utf16_count_def)
qed

lemma set_pop_char: "set (pop_char s) \<subseteq> set s"
  unfolding pop_char_def using set_drop_subset set_dropWhileD by fastforce

lemma set_shorten: "set (shorten cleaned suffix) \<subseteq> set cleaned"
proof (induction cleaned suffix rule: shorten.induct)
  case (1 cleaned suffix)
  then show ?case using set_pop_char [of cleaned] by (auto simp: shorten.simps [of cleaned])
qed

lemma set_trim_end: "set (trim_end s) \<subseteq> set s"
  unfolding trim_end_def using set_dropWhileD by fastforce

lemma clean_char_ok: "\<not> forbidden_char (clean_char c)"
proof (cases "forbidden_char c")
  case True
  have "\<not> forbidden_char (CHR ''_'')" by (simp add: forbidden_code code_def)
  with True show ?thesis by (simp add: clean_char_def)
qed (simp add: clean_char_def)

text \<open>A mapped name has no forbidden character, no trailing space or dot, and fits.\<close>

lemma mapped_name_shape:
  "mapped_name name i attempt \<noteq> [] \<and> \<not> trailing_char (last (mapped_name name i attempt)) \<and>
   \<not> list_ex forbidden_char (mapped_name name i attempt) \<and> utf16_count (mapped_name name i attempt) \<le> 255"
proof -
  let ?s = "mapping_suffix i attempt"
  let ?c = "if trim_end (map clean_char name) = [] then ''entry'' else trim_end (map clean_char name)"
  have m: "mapped_name name i attempt = shorten ?c ?s @ ?s" by (simp add: mapped_name_def Let_def)
  have ne: "?s \<noteq> []" by (simp add: mapping_suffix_def)
  then have "last ?s \<in> set ?s" by simp
  then have "\<not> trailing_char (last ?s)" using mapping_suffix_chars suffix_char_ok by blast
  moreover have "\<not> forbidden_char c" if "c \<in> set ?c" for c
  proof (cases "trim_end (map clean_char name) = []")
    case True
    with that show ?thesis by (auto simp: forbidden_code code_def)
  next
    case False
    with that set_trim_end clean_char_ok show ?thesis by fastforce
  qed
  then have "\<not> forbidden_char c" if "c \<in> set (mapped_name name i attempt)" for c
    using that set_shorten [of ?c ?s] mapping_suffix_chars suffix_char_ok unfolding m by fastforce
  moreover have "utf16_count (mapped_name name i attempt) \<le> 255"
    unfolding m utf16_count_append using shorten_fits utf16_count_mapping_suffix [of i attempt] by simp
  ultimately show ?thesis using ne by (auto simp: m list_ex_iff)
qed

text \<open>Without a dot the suffix makes the stem an ordinary one; with a dot the stem is the original
  one, and a device name stays reserved.\<close>

lemma takeWhile_suffix: "\<forall>c \<in> set s. c \<noteq> CHR ''.'' \<Longrightarrow> stem_of s = s"
  by (simp add: stem_of_def)

lemma reserved_device_stays_reserved: "needs_mapping (mapped_name ''CON.txt'' i attempt)"
proof -
  have c: "map clean_char ''CON.txt'' = ''CON.txt''" by (simp add: clean_char_def forbidden_code code_def)
  have t: "trim_end ''CON.txt'' = ''CON.txt''" by (simp add: trim_end_def trailing_code code_def)
  have "utf16_count ''CON.txt'' = 7" by (simp add: utf16_count_def continuation_def code_def)
  then have "shorten ''CON.txt'' (mapping_suffix i attempt) = ''CON.txt''"
    using utf16_count_mapping_suffix [of i attempt] by (subst shorten.simps) simp
  then have "mapped_name ''CON.txt'' i attempt = ''CON.txt'' @ mapping_suffix i attempt"
    unfolding mapped_name_def c t Let_def by simp
  then have "stem_of (mapped_name ''CON.txt'' i attempt) = ''CON''" by (simp add: stem_of_def)
  moreover have "to_ascii_uppercase ''CON'' = ''CON''" by (simp add: to_ascii_uppercase_def ascii_upper_def code_def)
  ultimately show ?thesis by (simp add: needs_mapping_def reserved_stem_def)
qed


lemma reserved_stem_no_tilde: "reserved_stem u \<Longrightarrow> CHR ''~'' \<notin> set u"
proof -
  assume r: "reserved_stem u"
  have num: "CHR ''~'' \<notin> set n" if "device_number n" for n
    using that by (auto simp: device_number_def)
  from r consider "u \<in> {''CON'', ''PRN'', ''AUX'', ''NUL''}" | n where "u = ''COM'' @ n" "device_number n"
    | n where "u = ''LPT'' @ n" "device_number n"
    unfolding reserved_stem_def strip_prefix_def starts_with_iff by (auto split: option.splits if_splits)
  then show ?thesis by cases (use num in auto)
qed

lemma mapped_name_accepted:
  assumes "CHR ''.'' \<notin> set name"
  shows "\<not> needs_mapping (mapped_name name i attempt)"
proof -
  let ?s = "mapping_suffix i attempt"
  let ?c = "if trim_end (map clean_char name) = [] then ''entry'' else trim_end (map clean_char name)"
  have m: "mapped_name name i attempt = shorten ?c ?s @ ?s" by (simp add: mapped_name_def Let_def)
  have "CHR ''.'' \<notin> set (map clean_char name)" using assms by (auto simp: clean_char_def)
  then have "CHR ''.'' \<notin> set ?c" using set_trim_end [of "map clean_char name"] by auto
  then have "\<forall>c \<in> set (mapped_name name i attempt). c \<noteq> CHR ''.''"
    using set_shorten [of ?c ?s] mapping_suffix_chars suffix_char_ok unfolding m by fastforce
  from takeWhile_suffix [OF this] have stem: "stem_of (mapped_name name i attempt) = mapped_name name i attempt" .
  have "CHR ''~'' \<in> set (mapped_name name i attempt)" by (simp add: m mapping_suffix_def)
  then have "ascii_upper (CHR ''~'') \<in> set (to_ascii_uppercase (mapped_name name i attempt))"
    unfolding to_ascii_uppercase_def set_map by (rule imageI)
  moreover have "ascii_upper (CHR ''~'') = CHR ''~''" by (simp add: ascii_upper_def code_def)
  ultimately have "\<not> reserved_stem (to_ascii_uppercase (mapped_name name i attempt))"
    using reserved_stem_no_tilde by metis
  with mapped_name_shape [of name i attempt] stem show ?thesis by (auto simp: needs_mapping_def)
qed

section \<open>The table of one directory\<close>

text \<open>Windows' comparison: equality is an equivalence, and the number after a dash matters.\<close>

definition ordinal_ok :: "windows_ordinal \<Rightarrow> bool" where
  "ordinal_ok W \<longleftrightarrow>
     (\<forall>a. ordinal_name_eq W a a) \<and> (\<forall>a b. ordinal_name_eq W a b \<longrightarrow> ordinal_name_eq W b a) \<and>
     (\<forall>a b c. ordinal_name_eq W a b \<longrightarrow> ordinal_name_eq W b c \<longrightarrow> ordinal_name_eq W a c) \<and>
     (\<forall>x y m n. ordinal_name_eq W (ordinal_name_new W (x @ ''-'' @ dec_string m)) (ordinal_name_new W (y @ ''-'' @ dec_string n)) \<longrightarrow> m = n)"

abbreviation node_key :: "windows_ordinal \<Rightarrow> fs_node \<Rightarrow> ordinal_name" where
  "node_key W n \<equiv> ordinal_name_new W (n_name n)"

lemma ordinal_okD:
  assumes "ordinal_ok W"
  shows "ordinal_name_eq W a a" "ordinal_name_eq W a b \<Longrightarrow> ordinal_name_eq W b a"
    "ordinal_name_eq W a b \<Longrightarrow> ordinal_name_eq W b c \<Longrightarrow> ordinal_name_eq W a c"
  using assms unfolding ordinal_ok_def by blast+

definition groups_inv :: "windows_ordinal \<Rightarrow> fs_node set \<Rightarrow> (ordinal_name \<times> fs_node list) list \<Rightarrow> bool" where
  "groups_inv W cs gs \<longleftrightarrow>
     sorted_wrt (\<lambda>a b. \<not> ordinal_name_eq W a b) (map fst gs) \<and>
     (\<forall>g \<in> set gs. \<forall>x \<in> set (snd g). ordinal_name_eq W (fst g) (node_key W x)) \<and>
     cs \<subseteq> (\<Union>g \<in> set gs. set (snd g))"

lemma group_push_keys:
  "map fst (group_push W k c gs) = map fst gs \<and> (\<exists>g \<in> set gs. ordinal_name_eq W (fst g) k) \<or>
   map fst (group_push W k c gs) = map fst gs @ [k] \<and> (\<forall>g \<in> set gs. \<not> ordinal_name_eq W (fst g) k)"
  by (induction W k c gs rule: group_push.induct) auto

lemma group_push_members:
  "g \<in> set (group_push W k c gs) \<Longrightarrow> x \<in> set (snd g) \<Longrightarrow>
   x = c \<and> (fst g = k \<or> ordinal_name_eq W (fst g) k) \<or> (\<exists>h \<in> set gs. fst h = fst g \<and> x \<in> set (snd h))"
  by (induction W k c gs rule: group_push.induct) (auto split: if_splits)

lemma group_push_cover: "(\<Union>g \<in> set (group_push W k c gs). set (snd g)) = insert c (\<Union>g \<in> set gs. set (snd g))"
  by (induction W k c gs rule: group_push.induct) auto

lemma groups_inv_push:
  assumes W: "ordinal_ok W" and inv: "groups_inv W cs gs"
  shows "groups_inv W (insert c cs) (group_push W (node_key W c) c gs)"
proof -
  have "sorted_wrt (\<lambda>a b. \<not> ordinal_name_eq W a b) (map fst (group_push W (node_key W c) c gs))"
    using group_push_keys [of W "node_key W c" c gs] inv unfolding groups_inv_def
    by (auto simp: sorted_wrt_append)
  moreover have "ordinal_name_eq W (fst g) (node_key W x)"
    if g: "g \<in> set (group_push W (node_key W c) c gs)" "x \<in> set (snd g)" for g x
    using group_push_members [OF g] inv ordinal_okD(1) [OF W] unfolding groups_inv_def by fastforce
  moreover have "insert c cs \<subseteq> (\<Union>g \<in> set (group_push W (node_key W c) c gs). set (snd g))"
    using inv unfolding group_push_cover groups_inv_def by blast
  ultimately show ?thesis by (simp add: groups_inv_def)
qed

lemma groups_inv_of: "ordinal_ok W \<Longrightarrow> groups_inv W (set children) (groups_of W children)"
proof -
  assume W: "ordinal_ok W"
  have "groups_inv W (cs \<union> set xs) (fold (\<lambda>c. group_push W (node_key W c) c) xs gs)" if "groups_inv W cs gs" for cs xs gs
    using that
  proof (induction xs arbitrary: cs gs)
    case (Cons x xs)
    from Cons.IH [OF groups_inv_push [OF W Cons.prems, of x]] show ?case by simp
  qed simp
  from this [of "{}" "[]" children] show ?thesis by (simp add: groups_of_def groups_inv_def)
qed

text \<open>Two children with equivalent names are both in the collision set.\<close>

lemma collisions_complete:
  assumes W: "ordinal_ok W" and c: "c \<in> set children" and d: "d \<in> set children" and ne: "c \<noteq> d"
    and eq: "ordinal_name_eq W (node_key W c) (node_key W d)"
  shows "n_id c \<in> set (collisions W children)"
proof -
  let ?gs = "groups_of W children"
  note inv = groups_inv_of [OF W, of children]
  from inv c obtain g where g: "g \<in> set ?gs" "c \<in> set (snd g)" unfolding groups_inv_def by blast
  from inv d obtain h where h: "h \<in> set ?gs" "d \<in> set (snd h)" unfolding groups_inv_def by blast
  have "ordinal_name_eq W (fst g) (node_key W c)" "ordinal_name_eq W (fst h) (node_key W d)"
    using inv g h unfolding groups_inv_def by blast+
  with eq W have gh: "ordinal_name_eq W (fst g) (fst h)" "ordinal_name_eq W (fst h) (fst g)" by (metis ordinal_okD(2,3))+
  from g(1) h(1) obtain i j where ij: "i < length ?gs" "?gs ! i = g" "j < length ?gs" "?gs ! j = h" by (metis in_set_conv_nth)
  have "i = j"
  proof (rule ccontr)
    assume "i \<noteq> j"
    with inv ij gh show False
      unfolding groups_inv_def sorted_wrt_iff_nth_less by (cases "i < j") fastforce+
  qed
  with ij have "g = h" by simp
  with h(2) have "card {c, d} \<le> card (set (snd g))" using g(2) by (intro card_mono) auto
  with ne card_length [of "snd g"] have "1 < length (snd g)" by simp
  with g show ?thesis by (force simp: collisions_def)
qed

end
