(* ===== verification/WindowsNamesMap.thy ===== *)
theory WindowsNamesMap
  imports WindowsNames
begin

text \<open>
  The name map gives every entry below one directory a display name of its own, under which it is
  found again: names that are acceptable and unique stay, every other entry gets a mapped name that
  no sibling uses, after at most as many attempts as there are siblings, and two.
\<close>

section \<open>Every child gets a name of its own\<close>

definition named :: "windows_ordinal \<Rightarrow> ordinal_name list \<Rightarrow> (u64 \<Rightarrow> string option) \<Rightarrow> fs_node set \<Rightarrow> bool" where
  "named W used names S \<longleftrightarrow>
     (\<forall>c \<in> S. \<exists>d. names (n_id c) = Some d \<and> used_contains W used (ordinal_name_new W d)) \<and>
     (\<forall>c \<in> S. \<forall>c' \<in> S. c \<noteq> c' \<longrightarrow>
        \<not> ordinal_name_eq W (ordinal_name_new W (the (names (n_id c)))) (ordinal_name_new W (the (names (n_id c')))))"

lemma used_contains_eq:
  "ordinal_ok W \<Longrightarrow> used_contains W used a \<Longrightarrow> ordinal_name_eq W a b \<Longrightarrow> used_contains W used b"
  unfolding used_contains_def list_ex_iff by (metis ordinal_okD(3))

lemma used_contains_Cons: "ordinal_ok W \<Longrightarrow> used_contains W (k # used) k"
  by (simp add: used_contains_def ordinal_okD(1))

lemma named_add:
  assumes W: "ordinal_ok W" and n: "named W used names S" and new: "\<forall>x \<in> S. n_id x \<noteq> n_id c"
    and free: "\<not> used_contains W used (ordinal_name_new W d)"
  shows "named W (ordinal_name_new W d # used) (names(n_id c \<mapsto> d)) (insert c S)"
proof -
  have other: "\<not> ordinal_name_eq W (ordinal_name_new W (the (names (n_id x)))) (ordinal_name_new W d)" if "x \<in> S" for x
    using n that free used_contains_eq [OF W] unfolding named_def by fastforce
  moreover have "\<not> ordinal_name_eq W (ordinal_name_new W d) (ordinal_name_new W (the (names (n_id x))))" if "x \<in> S" for x
    using other [OF that] ordinal_okD(2) [OF W] by blast
  ultimately show ?thesis
    using n new used_contains_Cons [OF W] unfolding named_def by (auto simp: used_contains_def)
qed

text \<open>First pass: names that are acceptable and unique stay.\<close>

definition kept :: "windows_ordinal \<Rightarrow> u64 list \<Rightarrow> fs_node \<Rightarrow> bool" where
  "kept W colliding c \<longleftrightarrow> \<not> needs_mapping (n_name c) \<and> n_id c \<notin> set colliding"

lemma keep_pass:
  assumes W: "ordinal_ok W" and dist: "distinct (map n_id children)"
    and "fold (keep_name W (collisions W children)) xs (used, names) = (used', names')"
    and "set xs \<subseteq> set children" "distinct (map n_id xs)" "S \<subseteq> set children" "\<forall>c \<in> S. n_id c \<notin> n_id ` set xs"
    and "named W used names S" "\<forall>k \<in> set used. \<exists>c \<in> S. k = node_key W c"
  shows "named W used' names' (S \<union> {c \<in> set xs. kept W (collisions W children) c}) \<and>
    length used' \<le> length used + length xs \<and>
    (\<forall>c \<in> set xs. kept W (collisions W children) c \<longrightarrow> names' (n_id c) = Some (n_name c)) \<and>
    (\<forall>i. (\<forall>c \<in> set xs. kept W (collisions W children) c \<longrightarrow> n_id c \<noteq> i) \<longrightarrow> names' i = names i)"
  using assms(3-)
proof (induction xs arbitrary: used names S)
  case (Cons x xs)
  let ?col = "collisions W children"
  show ?case
  proof (cases "kept W ?col x")
    case False
    then have "keep_name W ?col x (used, names) = (used, names)" by (auto simp: keep_name_def kept_def)
    moreover have "{c \<in> set (x # xs). kept W ?col c} = {c \<in> set xs. kept W ?col c}" using False by auto
    moreover have p: "fold (keep_name W ?col) xs (used, names) = (used', names')"
      using Cons.prems(1) calculation(1) by simp
    have q: "set xs \<subseteq> set children" "distinct (map n_id xs)" "\<forall>c \<in> S. n_id c \<notin> n_id ` set xs"
      using Cons.prems(2,3,5) by auto
    note Cons.IH [OF p q(1,2) Cons.prems(4) q(3) Cons.prems(6,7)]
    ultimately show ?thesis using False by auto
  next
    case True
    have free: "\<not> used_contains W used (node_key W x)"
    proof
      assume "used_contains W used (node_key W x)"
      then obtain k where "k \<in> set used" "ordinal_name_eq W k (node_key W x)" by (auto simp: used_contains_def list_ex_iff)
      moreover from this(1) Cons.prems(7) obtain c where "c \<in> S" "k = node_key W c" by blast
      ultimately have c: "c \<in> S" "ordinal_name_eq W (node_key W c) (node_key W x)" by simp_all
      have "c \<noteq> x" using c(1) Cons.prems(5) by auto
      then have "x \<noteq> c" by simp
      moreover have "x \<in> set children" "c \<in> set children" using Cons.prems(2,4) c(1) by auto
      ultimately have "n_id x \<in> set ?col" using collisions_complete [OF W] ordinal_okD(2) [OF W c(2)] by blast
      with True show False by (simp add: kept_def)
    qed
    then have step: "keep_name W ?col x (used, names) = (node_key W x # used, names(n_id x \<mapsto> n_name x))"
      using True by (auto simp: keep_name_def kept_def used_insert_def)
    have "named W (node_key W x # used) (names(n_id x \<mapsto> n_name x)) (insert x S)"
      by (rule named_add [OF W Cons.prems(6) _ free]) (use Cons.prems(5) in auto)
    note n = this
    have p: "fold (keep_name W ?col) xs (node_key W x # used, names(n_id x \<mapsto> n_name x)) = (used', names')"
      using Cons.prems(1) step by simp
    have q: "set xs \<subseteq> set children" "distinct (map n_id xs)" "insert x S \<subseteq> set children"
      "\<forall>c \<in> insert x S. n_id c \<notin> n_id ` set xs" "\<forall>k \<in> set (node_key W x # used). \<exists>c \<in> insert x S. k = node_key W c"
      using Cons.prems(2-5,7) by auto
    from Cons.IH [OF p q(1-4) n q(5)]
    have IH: "named W used' names' (insert x S \<union> {c \<in> set xs. kept W ?col c})"
      "length used' \<le> length (node_key W x # used) + length xs"
      "\<forall>c \<in> set xs. kept W ?col c \<longrightarrow> names' (n_id c) = Some (n_name c)"
      "\<forall>i. (\<forall>c \<in> set xs. kept W ?col c \<longrightarrow> n_id c \<noteq> i) \<longrightarrow> names' i = (names(n_id x \<mapsto> n_name x)) i"
      by blast+
    have "insert x S \<union> {c \<in> set xs. kept W ?col c} = S \<union> {c \<in> set (x # xs). kept W ?col c}" using True by auto
    moreover have "\<forall>c \<in> set xs. n_id c \<noteq> n_id x" using Cons.prems(3) by (metis distinct.simps(2) imageI list.simps(9) set_map)
    then have "names' (n_id x) = Some (n_name x)" using IH(4) by simp
    ultimately show ?thesis using IH True by auto
  qed
qed simp

text \<open>Second pass: every other child gets a free mapped name.\<close>

lemma find_display_Some:
  "find_display W fuel name i used attempt = Some d \<Longrightarrow>
   \<not> used_contains W used (ordinal_name_new W d) \<and> (\<exists>a. d = mapped_name name i a)"
  by (induction W fuel name i used attempt rule: find_display.induct) (auto simp: Let_def split: if_splits)

lemma map_pass:
  assumes W: "ordinal_ok W" and "map_names W fuel xs used names = Some names'" and "named W used names S"
    and "distinct (map n_id xs)" and "\<forall>c \<in> set xs. names (n_id c) \<noteq> None \<longleftrightarrow> c \<in> S" and "\<forall>c \<in> S. \<forall>x \<in> set xs. n_id c = n_id x \<longrightarrow> c = x"
  shows "(\<exists>used'. named W used' names' (S \<union> set xs)) \<and>
    (\<forall>c \<in> set xs. c \<notin> S \<longrightarrow> (\<exists>a. names' (n_id c) = Some (mapped_name (n_name c) (n_id c) a))) \<and>
    (\<forall>i. (\<forall>c \<in> set xs. c \<notin> S \<longrightarrow> n_id c \<noteq> i) \<longrightarrow> names' i = names i)"
  using assms(2-)
proof (induction xs arbitrary: used names S)
  case (Cons x xs)
  show ?case
  proof (cases "x \<in> S")
    case True
    with Cons.prems have "names (n_id x) \<noteq> None" by simp
    with Cons.IH [of used names S] Cons.prems True show ?thesis by (auto simp: insert_absorb)
  next
    case False
    with Cons.prems(4) have "names (n_id x) = None" by auto
    with Cons.prems(1) obtain d where d: "find_display W fuel (n_name x) (n_id x) used 0 = Some d"
      and rest: "map_names W fuel xs (ordinal_name_new W d # used) (names(n_id x \<mapsto> d)) = Some names'"
      by (auto split: option.splits)
    from find_display_Some [OF d] obtain a where free: "\<not> used_contains W used (ordinal_name_new W d)" and a: "d = mapped_name (n_name x) (n_id x) a" by blast
    have new: "\<forall>c \<in> S. n_id c \<noteq> n_id x" using Cons.prems(5) False by auto
    from named_add [OF W Cons.prems(2) new free]
    have n: "named W (ordinal_name_new W d # used) (names(n_id x \<mapsto> d)) (insert x S)" .
    have "n_id x \<notin> n_id ` set xs" using Cons.prems(3) by simp
    then have ids: "\<forall>c \<in> set xs. n_id c \<noteq> n_id x" by (metis imageI)
    have q: "distinct (map n_id xs)" "\<forall>c \<in> set xs. (names(n_id x \<mapsto> d)) (n_id c) \<noteq> None \<longleftrightarrow> c \<in> insert x S"
      "\<forall>c \<in> insert x S. \<forall>y \<in> set xs. n_id c = n_id y \<longrightarrow> c = y"
      using Cons.prems(3-5) ids by (auto split: if_splits)
    from Cons.IH [OF rest n q]
    have IH: "\<exists>used'. named W used' names' (insert x S \<union> set xs)"
      "\<forall>c \<in> set xs. c \<notin> insert x S \<longrightarrow> (\<exists>a. names' (n_id c) = Some (mapped_name (n_name c) (n_id c) a))"
      "\<forall>i. (\<forall>c \<in> set xs. c \<notin> insert x S \<longrightarrow> n_id c \<noteq> i) \<longrightarrow> names' i = (names(n_id x \<mapsto> d)) i"
      by blast+
    have "names' (n_id x) = Some d" using IH(3) ids by auto
    with IH a False ids show ?thesis by auto
  qed
qed auto

text \<open>A free name is found after as many attempts as names are taken, and two.\<close>

lemma find_display_None:
  assumes "find_display W fuel name i used attempt = None" "unat attempt + fuel < 2 ^ 64" "j < fuel"
  shows "used_contains W used (ordinal_name_new W (mapped_name name i (of_nat (unat attempt + j))))"
  using assms
proof (induction fuel arbitrary: attempt j)
  case (Suc fuel)
  show ?case
  proof (cases j)
    case 0
    with Suc.prems(1) show ?thesis by (simp add: Let_def split: if_splits)
  next
    case (Suc k)
    have next1: "unat (saturating_add attempt 1) = unat attempt + 1"
      using Suc.prems(2) by (simp add: unat_saturating_add)
    have "find_display W fuel name i used (saturating_add attempt 1) = None"
      using Suc.prems(1) by (simp add: Let_def split: if_splits)
    from Suc.IH [OF this, of k] Suc.prems(2,3) Suc next1 show ?thesis by simp
  qed
qed simp

lemma find_display_returns:
  assumes W: "ordinal_ok W" and fuel: "length used + 2 \<le> fuel" "fuel < 2 ^ 64"
  shows "\<exists>d. find_display W fuel name i used 0 = Some d"
proof (rule ccontr)
  assume "\<not> ?thesis"
  then have none: "find_display W fuel name i used 0 = None" by simp
  let ?k = "\<lambda>j. ordinal_name_new W (mapped_name name i (of_nat j))"
  have hit: "\<exists>k \<in> set used. ordinal_name_eq W k (?k j)" if "j < fuel" for j
    using find_display_None [OF none _ that] fuel(2) by (simp add: used_contains_def list_ex_iff)
  define f where "f j = (SOME k. k \<in> set used \<and> ordinal_name_eq W k (?k j))" for j
  have f: "f j \<in> set used \<and> ordinal_name_eq W (f j) (?k j)" if "j < fuel" for j
    unfolding f_def by (rule someI_ex) (use hit [OF that] in blast)
  have shape: "\<exists>x. mapped_name name i (of_nat j) = x @ ''-'' @ dec_string j" if j: "0 < j" "j < fuel" for j
  proof -
    have "unat (of_nat j :: u64) = j" using j fuel(2) by (intro unat_of_nat_small) simp
    then have "mapping_suffix i (of_nat j) = (''~cfs-'' @ hex_digits 16 (unat i)) @ ''-'' @ dec_string j"
      using j(1) by (auto simp: mapping_suffix_def)
    then show ?thesis by (auto simp: mapped_name_def Let_def)
  qed
  have "inj_on f {1..<fuel}"
  proof (rule inj_onI)
    fix m n
    assume m: "m \<in> {1..<fuel}" and n: "n \<in> {1..<fuel}" and eq: "f m = f n"
    have "ordinal_name_eq W (f m) (?k m)" "ordinal_name_eq W (f m) (?k n)" using f [of m] f [of n] m n eq by auto
    then have "ordinal_name_eq W (?k m) (?k n)" using ordinal_okD(2,3) [OF W] by blast
    moreover obtain x y where "mapped_name name i (of_nat m) = x @ ''-'' @ dec_string m" "mapped_name name i (of_nat n) = y @ ''-'' @ dec_string n"
      using shape [of m] shape [of n] m n by auto
    ultimately have "ordinal_name_eq W (ordinal_name_new W (x @ ''-'' @ dec_string m)) (ordinal_name_new W (y @ ''-'' @ dec_string n))"
      by simp
    then show "m = n" using W unfolding ordinal_ok_def by blast
  qed
  then have "card {1..<fuel} = card (f ` {1..<fuel})" by (simp add: card_image)
  also have "\<dots> \<le> card (set used)" using f by (intro card_mono) auto
  also have "\<dots> \<le> length used" by (rule card_length)
  finally show False using fuel(1) by simp
qed

lemma map_names_returns:
  assumes W: "ordinal_ok W" and "length used + length xs + 2 \<le> fuel" "fuel < 2 ^ 64"
  shows "\<exists>names'. map_names W fuel xs used names = Some names'"
  using assms(2,3)
proof (induction xs arbitrary: used names)
  case (Cons x xs)
  from find_display_returns [OF W, of used fuel "n_name x" "n_id x"] Cons.prems obtain d where
    "find_display W fuel (n_name x) (n_id x) used 0 = Some d" by auto
  moreover have "\<exists>names'. map_names W fuel xs used names = Some names'"
    "\<exists>names'. map_names W fuel xs (ordinal_name_new W d # used) (names(n_id x \<mapsto> d)) = Some names'"
    using Cons.prems by (intro Cons.IH; simp)+
  ultimately show ?case by simp
qed simp

section \<open>One directory\<close>

lemma directory_named:
  assumes W: "ordinal_ok W" and dist: "distinct (map n_id children)" and new: "\<forall>c \<in> set children. names (n_id c) = None"
    and fuel: "2 * length children + 2 \<le> fuel" "fuel < 2 ^ 64"
    and keep: "fold (keep_name W (collisions W children)) children ([], names) = (used, names1)"
  obtains names2 used2 where "map_names W fuel children used names1 = Some names2" "named W used2 names2 (set children)"
    "\<forall>i. i \<notin> n_id ` set children \<longrightarrow> names2 i = names i"
    "\<forall>c \<in> set children. names2 (n_id c) = Some (n_name c) \<or> (\<exists>a. names2 (n_id c) = Some (mapped_name (n_name c) (n_id c) a))"
proof -
  let ?K = "{c \<in> set children. kept W (collisions W children) c}"
  have "named W used names1 ({} \<union> ?K) \<and> length used \<le> length ([] :: ordinal_name list) + length children \<and>
    (\<forall>c \<in> set children. kept W (collisions W children) c \<longrightarrow> names1 (n_id c) = Some (n_name c)) \<and>
    (\<forall>i. (\<forall>c \<in> set children. kept W (collisions W children) c \<longrightarrow> n_id c \<noteq> i) \<longrightarrow> names1 i = names i)"
    by (rule keep_pass [OF W dist keep]) (simp_all add: dist named_def)
  then have k: "named W used names1 ?K" "length used \<le> length children"
    "\<forall>c \<in> set children. kept W (collisions W children) c \<longrightarrow> names1 (n_id c) = Some (n_name c)"
    "\<forall>i. (\<forall>c \<in> set children. kept W (collisions W children) c \<longrightarrow> n_id c \<noteq> i) \<longrightarrow> names1 i = names i" by auto
  have same: "c = c'" if "c \<in> set children" "c' \<in> set children" "n_id c = n_id c'" for c c'
    using dist that by (metis distinct_map inj_onD)
  have split: "\<forall>c \<in> set children. names1 (n_id c) \<noteq> None \<longleftrightarrow> c \<in> ?K"
  proof
    fix c assume c: "c \<in> set children"
    show "names1 (n_id c) \<noteq> None \<longleftrightarrow> c \<in> ?K"
    proof (cases "c \<in> ?K")
      case True
      with k(3) c show ?thesis by auto
    next
      case False
      then have "\<forall>c' \<in> set children. kept W (collisions W children) c' \<longrightarrow> n_id c' \<noteq> n_id c" using same c by blast
      with k(4) new c False show ?thesis by simp
    qed
  qed
  obtain names2 where run: "map_names W fuel children used names1 = Some names2"
    using map_names_returns [OF W, of used children fuel names1] k(2) fuel by auto
  have "(\<exists>used'. named W used' names2 (?K \<union> set children)) \<and>
    (\<forall>c \<in> set children. c \<notin> ?K \<longrightarrow> (\<exists>a. names2 (n_id c) = Some (mapped_name (n_name c) (n_id c) a))) \<and>
    (\<forall>i. (\<forall>c \<in> set children. c \<notin> ?K \<longrightarrow> n_id c \<noteq> i) \<longrightarrow> names2 i = names1 i)"
    by (rule map_pass [OF W run k(1) dist split]) (use same in blast)
  moreover have "?K \<union> set children = set children" by auto
  ultimately obtain used2 where m: "named W used2 names2 (set children)"
    "\<forall>c \<in> set children. c \<notin> ?K \<longrightarrow> (\<exists>a. names2 (n_id c) = Some (mapped_name (n_name c) (n_id c) a))"
    "\<forall>i. (\<forall>c \<in> set children. c \<notin> ?K \<longrightarrow> n_id c \<noteq> i) \<longrightarrow> names2 i = names1 i" by auto
  show thesis
  proof (rule that [OF run m(1)])
    show "\<forall>i. i \<notin> n_id ` set children \<longrightarrow> names2 i = names i" using m(3) k(4) by (metis imageI)
    show "\<forall>c \<in> set children. names2 (n_id c) = Some (n_name c) \<or> (\<exists>a. names2 (n_id c) = Some (mapped_name (n_name c) (n_id c) a))"
    proof
      fix c assume c: "c \<in> set children"
      show "names2 (n_id c) = Some (n_name c) \<or> (\<exists>a. names2 (n_id c) = Some (mapped_name (n_name c) (n_id c) a))"
      proof (cases "c \<in> ?K")
        case True
        then have "\<forall>c' \<in> set children. c' \<notin> ?K \<longrightarrow> n_id c' \<noteq> n_id c" using same c by blast
        with m(3) k(3) True show ?thesis by auto
      next
        case False
        with m(2) c show ?thesis by blast
      qed
    qed
  qed
qed

section \<open>The lookup table\<close>

lemma lookup_find_insert:
  assumes W: "ordinal_ok W"
  shows "lookup_find W q (lookup_insert W k i table) =
    (if fst k = fst q \<and> ordinal_name_eq W (snd k) (snd q) then Some i else lookup_find W q table)"
proof (induction table)
  case (Cons e table)
  obtain k' j where e: "e = (k', j)" by (cases e)
  show ?case
  proof (cases "fst k' = fst k \<and> ordinal_name_eq W (snd k') (snd k)")
    case True
    then have "ordinal_name_eq W (snd k') (snd q) \<longleftrightarrow> ordinal_name_eq W (snd k) (snd q)"
      using ordinal_okD(2,3) [OF W] by blast
    with True show ?thesis by (simp add: e)
  next
    case False
    have "\<not> (fst k = fst q \<and> ordinal_name_eq W (snd k) (snd q))"
      if "fst k' = fst q" "ordinal_name_eq W (snd k') (snd q)"
      using False that ordinal_okD(2) [OF W, of "snd k" "snd q"] ordinal_okD(3) [OF W, of "snd k'" "snd q" "snd k"] by auto
    with False Cons show ?thesis by (auto simp: e)
  qed
qed simp

definition table_ok ::
  "windows_ordinal \<Rightarrow> (u64 \<Rightarrow> string option) \<Rightarrow> fs_node set \<Rightarrow> ((u64 \<times> ordinal_name) \<times> u64) list \<Rightarrow> bool" where
  "table_ok W names S table \<longleftrightarrow>
     (\<forall>c \<in> S. \<exists>d. names (n_id c) = Some d \<and> lookup_find W (n_parent_id c, ordinal_name_new W d) table = Some (n_id c))"

lemma table_ok_cong:
  "table_ok W names S table \<Longrightarrow> (\<And>c. c \<in> S \<Longrightarrow> names' (n_id c) = names (n_id c)) \<Longrightarrow> table_ok W names' S table"
  by (simp add: table_ok_def)

lemma table_ok_add:
  assumes W: "ordinal_ok W" and ok: "table_ok W names S table" and d: "names (n_id c) = Some d"
    and apart: "\<forall>x \<in> S. n_parent_id x = n_parent_id c \<longrightarrow>
      \<not> ordinal_name_eq W (ordinal_name_new W (the (names (n_id x)))) (ordinal_name_new W d)"
  shows "table_ok W names (insert c S) (add_lookup W (n_parent_id c) names c table)"
proof -
  have find: "lookup_find W q (add_lookup W (n_parent_id c) names c table) =
      (if n_parent_id c = fst q \<and> ordinal_name_eq W (ordinal_name_new W d) (snd q) then Some (n_id c) else lookup_find W q table)" for q
    by (simp add: add_lookup_def d lookup_find_insert [OF W])
  show ?thesis unfolding table_ok_def
  proof
    fix x assume "x \<in> insert c S"
    then consider "x = c" | "x \<in> S" by blast
    then show "\<exists>d. names (n_id x) = Some d \<and>
        lookup_find W (n_parent_id x, ordinal_name_new W d) (add_lookup W (n_parent_id c) names c table) = Some (n_id x)"
    proof cases
      case 1
      with d show ?thesis by (simp add: find ordinal_okD(1) [OF W])
    next
      case 2
      with ok obtain dx where dx: "names (n_id x) = Some dx"
          "lookup_find W (n_parent_id x, ordinal_name_new W dx) table = Some (n_id x)" unfolding table_ok_def by blast
      have "\<not> ordinal_name_eq W (ordinal_name_new W d) (ordinal_name_new W dx)" if "n_parent_id c = n_parent_id x"
        using apart 2 dx(1) that ordinal_okD(2) [OF W, of "ordinal_name_new W d" "ordinal_name_new W dx"] by auto
      with dx show ?thesis by (auto simp: find)
    qed
  qed
qed

lemma table_ok_fold:
  assumes W: "ordinal_ok W" and "table_ok W names S table" and "named W used names (T \<union> set xs)"
    and "\<forall>c \<in> set xs. n_parent_id c = parent" "\<forall>x \<in> S. n_parent_id x = parent \<longrightarrow> x \<in> T" "distinct xs" "T \<inter> set xs = {}"
  shows "table_ok W names (S \<union> set xs) (fold (add_lookup W parent names) xs table)"
  using assms(2-)
proof (induction xs arbitrary: S T table)
  case (Cons x xs)
  obtain d where d: "names (n_id x) = Some d" using Cons.prems(2) by (auto simp: named_def)
  have "table_ok W names (insert x S) (add_lookup W (n_parent_id x) names x table)"
  proof (rule table_ok_add [OF W Cons.prems(1) d], intro ballI impI)
    fix y assume y: "y \<in> S" "n_parent_id y = n_parent_id x"
    then have "y \<in> T" "y \<noteq> x" using Cons.prems(3,4,6) by auto
    then show "\<not> ordinal_name_eq W (ordinal_name_new W (the (names (n_id y)))) (ordinal_name_new W d)"
      using Cons.prems(2) d unfolding named_def by (metis UnCI list.set_intros(1) option.sel)
  qed
  moreover have "n_parent_id x = parent" using Cons.prems(3) by simp
  moreover have "insert x T \<union> set xs = T \<union> set (x # xs)" by auto
  ultimately show ?case
    using Cons.IH [of "insert x S" "add_lookup W parent names x table" "insert x T"] Cons.prems by (auto simp: insert_commute)
qed simp

section \<open>All directories\<close>

definition own_name :: "(u64 \<Rightarrow> string option) \<Rightarrow> fs_node \<Rightarrow> bool" where
  "own_name names c \<longleftrightarrow> names (n_id c) = Some (n_name c) \<or> (\<exists>a. names (n_id c) = Some (mapped_name (n_name c) (n_id c) a))"

lemma name_parents_ok:
  assumes W: "ordinal_ok W" and fuel: "fuel < 2 ^ 64"
    and "distinct (map fst groups)" "\<forall>g \<in> set groups. \<forall>n \<in> set (snd g). n_parent_id n = fst g"
    and "inj_on n_id (S \<union> \<Union> (set (map (set \<circ> snd) groups)))" "\<forall>g \<in> set groups. distinct (snd g) \<and> 2 * length (snd g) + 2 \<le> fuel"
    and "\<forall>x \<in> S. n_parent_id x \<notin> fst ` set groups" "\<forall>i. i \<notin> n_id ` S \<longrightarrow> names i = None"
    and "table_ok W names S table" "\<forall>c \<in> S. own_name names c"
  shows "\<exists>names' table'. name_parents W fuel groups names table = Some (names', table') \<and>
    table_ok W names' (S \<union> \<Union> (set (map (set \<circ> snd) groups))) table' \<and>
    (\<forall>c \<in> S \<union> \<Union> (set (map (set \<circ> snd) groups)). own_name names' c)"
  using assms(3-)
proof (induction groups arbitrary: S names table)
  case (Cons g groups)
  obtain parent nodes where g: "g = (parent, nodes)" by (cases g)
  let ?children = "sort_key n_id nodes"
  have set: "set ?children = set nodes" by simp
  have inj: "inj_on n_id (S \<union> set nodes)" using Cons.prems(3) by (rule inj_on_subset) (auto simp: g)
  have dist: "distinct ?children" "distinct (map n_id ?children)" "length ?children = length nodes"
    using Cons.prems(4) inj_on_subset [OF inj] by (auto simp: g distinct_map)
  have apart: "x \<notin> S" if "x \<in> set nodes" for x using Cons.prems(2,5) that by (auto simp: g)
  have "n_id x \<notin> n_id ` S" if "x \<in> set nodes" for x
  proof
    assume "n_id x \<in> n_id ` S"
    then obtain y where y: "y \<in> S" "n_id x = n_id y" by blast
    with inj that have "x = y" by (auto dest: inj_onD)
    with apart [OF that] y(1) show False by blast
  qed
  then have new: "\<forall>c \<in> set ?children. names (n_id c) = None" using Cons.prems(6) by simp
  obtain used names1 where keep: "fold (keep_name W (collisions W ?children)) ?children ([], names) = (used, names1)" by force
  have "2 * length ?children + 2 \<le> fuel" using Cons.prems(4) by (simp add: g)
  from directory_named [OF W dist(2) new this fuel keep] obtain names2 used2 where
    n2: "map_names W fuel ?children used names1 = Some names2" "named W used2 names2 (set ?children)"
      "\<forall>i. i \<notin> n_id ` set ?children \<longrightarrow> names2 i = names i" "\<forall>c \<in> set ?children. own_name names2 c"
    unfolding own_name_def by metis
  let ?table = "fold (add_lookup W parent names2) ?children table"
  have same: "names2 (n_id x) = names (n_id x)" if "x \<in> S" for x
  proof -
    have "n_id x \<notin> n_id ` set nodes"
    proof
      assume "n_id x \<in> n_id ` set nodes"
      then obtain y where y: "y \<in> set nodes" "n_id x = n_id y" by blast
      with inj that have "x = y" by (auto dest: inj_onD)
      with apart y(1) that show False by blast
    qed
    with n2(3) show ?thesis by simp
  qed
  have t1: "table_ok W names2 S table" using Cons.prems(7) same by (rule table_ok_cong)
  have "table_ok W names2 (S \<union> set ?children) ?table"
    by (rule table_ok_fold [where T = "{}", OF W t1]) (use n2(2) Cons.prems(2,5) dist(1) in \<open>auto simp: g\<close>)
  then have t2: "table_ok W names2 (S \<union> set nodes) ?table" by simp
  have rest: "distinct (map fst groups)" "\<forall>g \<in> set groups. \<forall>n \<in> set (snd g). n_parent_id n = fst g"
      "\<forall>g \<in> set groups. distinct (snd g) \<and> 2 * length (snd g) + 2 \<le> fuel"
    using Cons.prems(1,2,4) by simp_all
  have inj': "inj_on n_id (S \<union> set nodes \<union> \<Union> (set (map (set \<circ> snd) groups)))"
    using Cons.prems(3) by (simp add: g Un_assoc)
  have par: "\<forall>x \<in> S \<union> set nodes. n_parent_id x \<notin> fst ` set groups"
    using Cons.prems(1,2,5) by (auto simp: g)
  have out: "\<forall>i. i \<notin> n_id ` (S \<union> set nodes) \<longrightarrow> names2 i = None"
    using Cons.prems(6) n2(3) by (auto simp: image_Un)
  have own: "\<forall>c \<in> S \<union> set nodes. own_name names2 c"
  proof
    fix c assume "c \<in> S \<union> set nodes"
    then consider "c \<in> S" | "c \<in> set nodes" by blast
    then show "own_name names2 c"
    proof cases
      case 1
      with Cons.prems(8) have "own_name names c" by blast
      with same [OF 1] show ?thesis by (simp add: own_name_def)
    next
      case 2
      with n2(4) show ?thesis by simp
    qed
  qed
  from Cons.IH [OF rest(1,2) inj' rest(3) par out t2 own] show ?case
    by (simp add: g Let_def keep n2(1) Un_assoc)
qed simp

section \<open>The whole map\<close>

lemma by_parent_groups:
  "distinct (map fst (by_parent nodes))"
  "\<forall>g \<in> set (by_parent nodes). \<forall>n \<in> set (snd g). n_parent_id n = fst g"
  "\<Union> (set (map (set \<circ> snd) (by_parent nodes))) = {n \<in> set nodes. n_id n \<noteq> n_parent_id n}"
  "distinct nodes \<Longrightarrow> \<forall>g \<in> set (by_parent nodes). distinct (snd g) \<and> length (snd g) \<le> length nodes"
proof -
  show "distinct (map fst (by_parent nodes))" by (simp add: by_parent_def Let_def comp_def)
  show "\<forall>g \<in> set (by_parent nodes). \<forall>n \<in> set (snd g). n_parent_id n = fst g" by (auto simp: by_parent_def Let_def)
  show "\<Union> (set (map (set \<circ> snd) (by_parent nodes))) = {n \<in> set nodes. n_id n \<noteq> n_parent_id n}"
    by (auto simp: by_parent_def Let_def)
  show "distinct nodes \<Longrightarrow> \<forall>g \<in> set (by_parent nodes). distinct (snd g) \<and> length (snd g) \<le> length nodes"
    by (auto simp: by_parent_def Let_def intro: order_trans [OF length_filter_le])
qed

text \<open>The walk to the root ends when a rank falls from every node to its parent.\<close>

lemma node_path_loop_returns:
  assumes rank: "\<And>i n m. nodes i = Some n \<Longrightarrow> n_id n \<noteq> n_parent_id n \<Longrightarrow> nodes (n_parent_id n) = Some m \<Longrightarrow> rk m < rk n"
    and "0 < fuel" "\<And>n. nodes current = Some n \<Longrightarrow> rk n + 1 < fuel"
  shows "\<exists>cs. node_path_loop fuel nodes names current components = Some cs"
  using assms(2,3)
proof (induction fuel arbitrary: current components)
  case (Suc fuel)
  show ?case
  proof (cases "nodes current")
    case (Some n)
    show ?thesis
    proof (cases "n_id n = n_parent_id n")
      case False
      have "rk n + 1 < Suc fuel" using Suc.prems(2) [OF Some] .
      moreover have "rk m < rk n" if "nodes (n_parent_id n) = Some m" for m by (rule rank [OF Some False that])
      ultimately have "0 < fuel" "\<And>m. nodes (n_parent_id n) = Some m \<Longrightarrow> rk m + 1 < fuel" by fastforce+
      from Suc.IH [OF this] Some False show ?thesis by simp
    qed (simp add: Some)
  qed simp
qed simp

lemma changed_names_returns:
  assumes "\<And>i n m. by_id i = Some n \<Longrightarrow> n_id n \<noteq> n_parent_id n \<Longrightarrow> by_id (n_parent_id n) = Some m \<Longrightarrow> rk m < rk n"
    and "0 < fuel" "\<And>i n. by_id i = Some n \<Longrightarrow> rk n + 1 < fuel"
  shows "\<exists>cs. changed_names fuel by_id names nodes = Some cs"
proof (induction nodes)
  case (Cons n nodes)
  have "\<exists>p. node_path fuel (n_id n) by_id nm = Some p" for nm
    using node_path_loop_returns [of by_id rk fuel "n_id n" nm "[]", OF assms(1)] assms(2,3) by (auto simp: node_path_def)
  with Cons show ?case by (metis bind.bind_lunit changed_names.simps(2))
qed simp

text \<open>Every name given is one Windows can show: nonempty, without a forbidden character, and within the
  length of a component.\<close>

definition plain_display :: "string \<Rightarrow> bool" where
  "plain_display s \<longleftrightarrow> s \<noteq> [] \<and> \<not> list_ex forbidden_char s \<and> utf16_count s \<le> 255"

definition all_plain :: "(u64 \<Rightarrow> string option) \<Rightarrow> bool" where
  "all_plain names \<longleftrightarrow> (\<forall>i d. names i = Some d \<longrightarrow> plain_display d)"

lemma all_plain_upd: "all_plain names \<Longrightarrow> plain_display d \<Longrightarrow> all_plain (names(i \<mapsto> d))"
  by (auto simp: all_plain_def)

lemma keep_plain: "all_plain (snd st) \<Longrightarrow> all_plain (snd (fold (keep_name W colliding) xs st))"
proof (induction xs arbitrary: st)
  case (Cons x xs)
  have "plain_display (n_name x)" if "\<not> needs_mapping (n_name x)" using that by (auto simp: needs_mapping_def plain_display_def)
  then have "all_plain (snd (keep_name W colliding x st))"
    using Cons.prems all_plain_upd by (cases st) (auto simp: keep_name_def)
  from Cons.IH [OF this] show ?case by simp
qed simp

lemma map_plain: "map_names W fuel xs used names = Some names' \<Longrightarrow> all_plain names \<Longrightarrow> all_plain names'"
proof (induction xs arbitrary: used names)
  case (Cons x xs)
  show ?case
  proof (cases "names (n_id x) = None")
    case True
    with Cons.prems(1) obtain d where d: "find_display W fuel (n_name x) (n_id x) used 0 = Some d"
      "map_names W fuel xs (ordinal_name_new W d # used) (names(n_id x \<mapsto> d)) = Some names'"
      by (auto split: option.splits)
    from find_display_Some [OF d(1)] have "plain_display d" using mapped_name_shape by (auto simp: plain_display_def)
    with Cons.IH [OF d(2)] Cons.prems(2) all_plain_upd show ?thesis by blast
  next
    case False
    with Cons show ?thesis by simp
  qed
qed simp

lemma name_parents_plain:
  "name_parents W fuel groups names table = Some (names', table') \<Longrightarrow> all_plain names \<Longrightarrow> all_plain names'"
proof (induction groups arbitrary: names table)
  case (Cons g groups)
  obtain parent nodes where g: "g = (parent, nodes)" by (cases g)
  let ?cs = "sort_key n_id nodes"
  obtain used names1 where k: "fold (keep_name W (collisions W ?cs)) ?cs ([], names) = (used, names1)" by fastforce
  with Cons.prems(2) keep_plain [of "([], names)" W "collisions W ?cs" ?cs] have p1: "all_plain names1" by simp
  from Cons.prems(1) k obtain names2 where m: "map_names W fuel ?cs used names1 = Some names2"
    and rest: "name_parents W fuel groups names2 (fold (add_lookup W parent names2) ?cs table) = Some (names', table')"
    by (auto simp: g Let_def split: option.splits)
  from Cons.IH [OF rest map_plain [OF m p1]] show ?case .
qed simp

lemma name_map_plain: "name_map_new W fuel nodes = Some m \<Longrightarrow> wm_names m i = Some d \<Longrightarrow> plain_display d"
  using name_parents_plain [of W fuel "by_parent nodes" Map.empty "[]"]
  by (auto simp: name_map_new_def bind_eq_Some_conv Let_def all_plain_def split: prod.splits)

lemma name_map_complete:
  assumes W: "ordinal_ok W" and dist: "distinct (map n_id nodes)" and fuel: "2 * length nodes + 2 \<le> fuel" "fuel < 2 ^ 64"
    and rank: "\<And>n m. n \<in> set nodes \<Longrightarrow> m \<in> set nodes \<Longrightarrow> n_id n \<noteq> n_parent_id n \<Longrightarrow> n_id m = n_parent_id n \<Longrightarrow> rk m < rk n"
    and small: "\<And>n. n \<in> set nodes \<Longrightarrow> rk n + 1 < fuel"
  obtains m where "name_map_new W fuel nodes = Some m"
    "\<And>n. n \<in> set nodes \<Longrightarrow> n_id n \<noteq> n_parent_id n \<Longrightarrow>
      name_map_lookup W m (n_parent_id n) (name_map_name m n) = Some (n_id n) \<and> wm_names m (n_id n) \<noteq> None \<and>
      (name_map_name m n = n_name n \<or> (\<exists>a. name_map_name m n = mapped_name (n_name n) (n_id n) a))"
proof -
  let ?inner = "{n \<in> set nodes. n_id n \<noteq> n_parent_id n}" and ?by_id = "map_of (rev (map (\<lambda>n. (n_id n, n)) nodes))"
  have dn: "distinct nodes" using dist by (simp add: distinct_map)
  note g = by_parent_groups [of nodes]
  have inj: "inj_on n_id ({} \<union> \<Union> (set (map (set \<circ> snd) (by_parent nodes))))"
    unfolding g(3) using dist by (auto simp: distinct_map intro: inj_on_subset)
  have len: "\<forall>g \<in> set (by_parent nodes). distinct (snd g) \<and> 2 * length (snd g) + 2 \<le> fuel"
    using g(4) [OF dn] fuel(1) by fastforce
  obtain names table where np: "name_parents W fuel (by_parent nodes) Map.empty [] = Some (names, table)"
    and t: "table_ok W names ?inner table" and own: "\<forall>c \<in> ?inner. own_name names c"
    using name_parents_ok [OF W fuel(2) g(1,2) inj len, of Map.empty "[]"] unfolding g(3) by (auto simp: table_ok_def)
  have by_id: "n \<in> set nodes \<and> n_id n = i" if "?by_id i = Some n" for i n
    using map_of_SomeD [OF that] by auto
  have "0 < fuel" using fuel(1) by simp
  moreover have "rk m < rk n" if "?by_id i = Some n" "n_id n \<noteq> n_parent_id n" "?by_id (n_parent_id n) = Some m" for i n m
    using rank [of n m] by_id [OF that(1)] by_id [OF that(3)] that(2) by blast
  moreover have "rk n + 1 < fuel" if "?by_id i = Some n" for i n using small by_id [OF that] by blast
  ultimately obtain changes where "changed_names fuel ?by_id names (sort_key n_id (filter (\<lambda>n. case names (n_id n) of None \<Rightarrow> False
      | Some name \<Rightarrow> name \<noteq> n_name n) nodes)) = Some changes"
    using changed_names_returns [of ?by_id rk fuel] by meson
  then have m: "name_map_new W fuel nodes = Some \<lparr>wm_names = names, wm_lookup = table, wm_changes = changes\<rparr>"
    by (simp add: name_map_new_def np Let_def)
  show thesis
  proof (rule that [OF m])
    fix n assume n: "n \<in> set nodes" "n_id n \<noteq> n_parent_id n"
    then obtain d where "names (n_id n) = Some d" "lookup_find W (n_parent_id n, ordinal_name_new W d) table = Some (n_id n)"
      using t unfolding table_ok_def by blast
    moreover have "own_name names n" using own n by blast
    ultimately show "name_map_lookup W \<lparr>wm_names = names, wm_lookup = table, wm_changes = changes\<rparr> (n_parent_id n)
        (name_map_name \<lparr>wm_names = names, wm_lookup = table, wm_changes = changes\<rparr> n) = Some (n_id n) \<and>
      wm_names \<lparr>wm_names = names, wm_lookup = table, wm_changes = changes\<rparr> (n_id n) \<noteq> None \<and>
      (name_map_name \<lparr>wm_names = names, wm_lookup = table, wm_changes = changes\<rparr> n = n_name n \<or>
       (\<exists>a. name_map_name \<lparr>wm_names = names, wm_lookup = table, wm_changes = changes\<rparr> n = mapped_name (n_name n) (n_id n) a))"
      by (auto simp: name_map_lookup_def name_map_name_def name_for_def own_name_def)
  qed
qed

text \<open>The nodes of an accepted index, in any order: the depth falls towards the root.\<close>

lemma tree_names_complete:
  assumes W: "ordinal_ok W" and ok: "index_ok h es" and fuel: "2 * length es + unat MAX_DEPTH + 2 \<le> fuel" "fuel < 2 ^ 64"
    and nodes: "length nodes = length es" "distinct (map n_id nodes)" "set nodes = node_of_entry ` set es"
  shows "\<exists>m. name_map_new W fuel nodes = Some m \<and>
    (\<forall>e \<in> set es. e_id e = 1 \<or>
       name_map_lookup W m (e_parent_id e) (name_map_name m (node_of_entry e)) = Some (e_id e) \<and>
       plain_display (name_map_name m (node_of_entry e)) \<and>
       (name_map_name m (node_of_entry e) = e_name e \<or>
        (\<exists>a. name_map_name m (node_of_entry e) = mapped_name (e_name e) (e_id e) a)))"
proof -
  have dist: "distinct (map e_id es)" using ok by (simp add: index_ok_def)
  have inj: "x = y" if "x \<in> set es" "y \<in> set es" "e_id x = e_id y" for x y
    using dist that by (metis distinct_map inj_onD)
  define rk :: "fs_node \<Rightarrow> nat" where "rk n = unat (e_depth (the (map_of (map (\<lambda>e. (e_id e, e)) es) (n_id n))))" for n
  have rk: "rk (node_of_entry e) = unat (e_depth e)" if "e \<in> set es" for e
  proof -
    have "map_of (map (\<lambda>e. (e_id e, e)) es) (e_id e) = Some e"
      using dist that by (intro map_of_is_SomeI) (auto simp: comp_def)
    then show ?thesis by (simp add: rk_def node_of_entry_def)
  qed
  have up: "unat (e_depth p) < unat (e_depth e) \<and> e_id e \<noteq> e_parent_id e"
    if e: "e \<in> set es" "e_id e \<noteq> 1" and p: "p \<in> set es" "e_id p = e_parent_id e" for e p
  proof -
    obtain q where q: "q \<in> set es" "e_id q = e_parent_id e" "unat (e_depth e) = unat (e_depth q) + 1"
      using ok e unfolding index_ok_def by blast
    then have "q = p" using inj p by simp
    with q inj e(1) show ?thesis by fastforce
  qed
  have root: "e_parent_id e = e_id e" if "e \<in> set es" "e_id e = 1" for e
    using ok that by (auto simp: index_ok_def entry_ok_def)
  obtain m where m: "name_map_new W fuel nodes = Some m"
    and all: "\<And>n. n \<in> set nodes \<Longrightarrow> n_id n \<noteq> n_parent_id n \<Longrightarrow>
      name_map_lookup W m (n_parent_id n) (name_map_name m n) = Some (n_id n) \<and> wm_names m (n_id n) \<noteq> None \<and>
      (name_map_name m n = n_name n \<or> (\<exists>a. name_map_name m n = mapped_name (n_name n) (n_id n) a))"
  proof (rule name_map_complete [OF W nodes(2) _ fuel(2)])
    show "2 * length nodes + 2 \<le> fuel" using fuel(1) nodes(1) by simp
    fix n assume n: "n \<in> set nodes"
    then obtain e where e: "e \<in> set es" "n = node_of_entry e" using nodes(3) by auto
    have "unat (e_depth e) \<le> unat MAX_DEPTH"
      using ok e(1) by (auto simp: index_ok_def entry_ok_def word_le_nat_alt)
    moreover have "0 < length es" using e(1) by (cases es) auto
    ultimately show "rk n + 1 < fuel" using fuel(1) rk [OF e(1)] by (simp add: e(2))
    fix k assume k: "k \<in> set nodes" "n_id n \<noteq> n_parent_id n" "n_id k = n_parent_id n"
    then obtain p where p: "p \<in> set es" "k = node_of_entry p" using nodes(3) by auto
    have "e_id e \<noteq> 1" using root [OF e(1)] k(2) by (auto simp: e(2) node_of_entry_def)
    with up [OF e(1) _ p(1)] k(3) show "rk k < rk n"
      using rk [OF e(1)] rk [OF p(1)] by (simp add: e(2) p(2)) (simp add: node_of_entry_def)
  qed auto
  have "e_id e = 1 \<or> name_map_lookup W m (e_parent_id e) (name_map_name m (node_of_entry e)) = Some (e_id e) \<and>
       plain_display (name_map_name m (node_of_entry e)) \<and>
       (name_map_name m (node_of_entry e) = e_name e \<or>
        (\<exists>a. name_map_name m (node_of_entry e) = mapped_name (e_name e) (e_id e) a))" if e: "e \<in> set es" for e
  proof (cases "e_id e = 1")
    case False
    obtain p where "p \<in> set es" "e_id p = e_parent_id e" using ok e False unfolding index_ok_def by blast
    with up [OF e False] have "e_id e \<noteq> e_parent_id e" by blast
    then have "name_map_lookup W m (e_parent_id e) (name_map_name m (node_of_entry e)) = Some (e_id e) \<and>
        wm_names m (e_id e) \<noteq> None \<and>
        (name_map_name m (node_of_entry e) = e_name e \<or>
         (\<exists>a. name_map_name m (node_of_entry e) = mapped_name (e_name e) (e_id e) a))"
      using all [of "node_of_entry e"] e nodes(3) by (simp add: node_of_entry_def)
    moreover from this obtain d where "wm_names m (e_id e) = Some d" by blast
    then have "plain_display (name_map_name m (node_of_entry e))"
      using name_map_plain [OF m] by (simp add: name_map_name_def name_for_def node_of_entry_def)
    ultimately show ?thesis by blast
  qed simp
  with m show ?thesis by blast
qed

lemma index_names_complete:
  assumes "ordinal_ok W" and ok: "index_ok h es" and "2 * length es + unat MAX_DEPTH + 2 \<le> fuel" "fuel < 2 ^ 64"
  shows "\<exists>m. name_map_new W fuel (map node_of_entry es) = Some m \<and>
    (\<forall>e \<in> set es. e_id e = 1 \<or>
       name_map_lookup W m (e_parent_id e) (name_map_name m (node_of_entry e)) = Some (e_id e) \<and>
       (name_map_name m (node_of_entry e) = e_name e \<or>
        (\<exists>a. name_map_name m (node_of_entry e) = mapped_name (e_name e) (e_id e) a)))"
proof -
  have "distinct (map n_id (map node_of_entry es))" using ok by (simp add: index_ok_def node_of_entry_def comp_def)
  from tree_names_complete [OF assms _ this] show ?thesis by auto
qed

section \<open>Lookups ignore what the comparison ignores\<close>

lemma lookup_find_cong:
  assumes "ordinal_ok W" "ordinal_name_eq W a b"
  shows "lookup_find W (p, a) table = lookup_find W (p, b) table"
proof -
  have "ordinal_name_eq W k a \<longleftrightarrow> ordinal_name_eq W k b" for k
    using assms ordinal_okD(2,3) [OF assms(1)] by blast
  then show ?thesis by (induction table) (auto simp: lookup_find.simps)
qed

end
