(* ===== verification/DemoNames.thy ===== *)
theory DemoNames
  imports WindowsNamesMap Demo CalmExtract
begin

text \<open>An ordinal comparison that satisfies the laws the name map relies on: exact equality.\<close>

definition demo_ordinal :: windows_ordinal where
  "demo_ordinal = \<lparr>wo_uppercase = map (\<lambda>c. of_nat (code c)), wo_compare = (\<lambda>a b. if a = b then 2 else 1)\<rparr>"

lemma demo_ordinal_eq: "ordinal_name_eq demo_ordinal a b \<longleftrightarrow> a = b"
  by (cases a, cases b) (simp add: ordinal_name_eq_def compare_wide_def demo_ordinal_def Let_def)

lemma demo_ordinal_new: "ordinal_name_new demo_ordinal s = ordinal_name_new demo_ordinal t \<longleftrightarrow> s = t"
proof -
  have "inj (\<lambda>c. of_nat (code c) :: u16)"
  proof (rule injI)
    fix c d assume "(of_nat (code c) :: u16) = of_nat (code d)"
    then have "unat (of_nat (code c) :: u16) = unat (of_nat (code d) :: u16)" by simp
    moreover have "unat (of_nat (code x) :: u16) = code x" for x
      using less_trans [OF code_less, of "2 ^ 16" x] by (intro unat_of_nat_small) simp
    ultimately show "c = d" by (simp add: code_inject)
  qed
  then show ?thesis
    by (simp add: ordinal_name_new_def windows_uppercase_def demo_ordinal_def inj_map_eq_map)
qed

lemma demo_ordinal_ok: "ordinal_ok demo_ordinal"
proof -
  have num: "m = n" if "x @ ''-'' @ dec_string m = y @ ''-'' @ dec_string n" for x y m n
  proof -
    have "rev (dec_string m) @ CHR ''-'' # rev x = rev (dec_string n) @ CHR ''-'' # rev y"
      using arg_cong [OF that, of rev] by simp
    moreover have "takeWhile (\<lambda>c. c \<noteq> CHR ''-'') (rev (dec_string k) @ CHR ''-'' # r) = rev (dec_string k)" for k r
      by (subst takeWhile_append2) (use dec_string_no_dash in auto)
    ultimately have "rev (dec_string m) = rev (dec_string n)" by metis
    then show ?thesis by (simp add: dec_string_inject)
  qed
  show ?thesis unfolding ordinal_ok_def demo_ordinal_eq demo_ordinal_new
    using num by (intro conjI allI impI) (simp, simp, simp, blast)
qed

end
