(* ===== verification/Mounted.thy ===== *)
theory Mounted
  imports ReadOnlyFs "HOL-Library.Multiset"
begin

text \<open>
  The view both mounts have of the read-only file system: nodes by id and the listing of a
  directory as a list, with the facts a caller that pages through it needs. A page of a listing
  goes through a reply buffer that accepts entries until it is full; both kernels' buffers are
  instances of that contract.
\<close>

section \<open>Rounding up\<close>

text \<open>\<open>u64::div_ceil\<close>.\<close>

definition div_ceil :: "u64 \<Rightarrow> u64 \<Rightarrow> u64" where
  "div_ceil a b = (if a mod b = 0 then a div b else a div b + 1)"

lemma div_rest: "r < b \<Longrightarrow> (q * b + r) div b = q" for b :: nat
  by (simp add: div_mult_self3)

lemma div_ceil_spec:
  assumes "0 < unat b"
  shows "unat (div_ceil a b) = (unat a + unat b - 1) div unat b"
proof -
  have m: "a mod b = 0 \<longleftrightarrow> unat a mod unat b = 0" by (simp add: unat_eq_0 flip: unat_mod)
  show ?thesis
  proof (cases "unat a mod unat b = 0")
    case True
    then obtain k where k: "unat a = unat b * k" by auto
    then have "unat a + unat b - 1 = (unat b - 1) + unat b * k" using assms by linarith
    moreover have "(unat b - 1 + unat b * k) div unat b = k + (unat b - 1) div unat b"
      using assms by (intro div_mult_self2) simp
    ultimately have "(unat a + unat b - 1) div unat b = k" using assms by (simp only:) simp
    with True m k assms show ?thesis by (simp add: div_ceil_def unat_div)
  next
    case False
    let ?q = "unat a div unat b" and ?r = "unat a mod unat b"
    have "unat a + unat b - 1 = (?q + 1) * unat b + (?r - 1)"
      using False div_mult_mod_eq [of "unat a" "unat b"] unfolding add_mult_distrib nat_mult_1 by linarith
    moreover have "?r - 1 < unat b" using assms mod_less_divisor [of "unat b" "unat a"] by linarith
    ultimately have "(unat a + unat b - 1) div unat b = ?q + 1" by (simp only: div_rest)
    moreover have "?q + 1 < 2 ^ 64"
    proof -
      have "unat b \<noteq> 1" using False by auto
      with assms have "2 \<le> unat b" by simp
      then have "?q \<le> unat a div 2" by (simp add: div_le_mono2)
      then have "?q + 1 < 18446744073709551616" using unat_u64_bound [of a] by linarith
      then show ?thesis by simp
    qed
    then have "unat (a div b + 1) = ?q + 1" by (simp add: unat_word_ariths unat_div)
    ultimately show ?thesis using False m by (simp add: div_ceil_def)
  qed
qed

section \<open>Nodes\<close>

definition fs_node_metadata :: "validated_index \<Rightarrow> u64 \<Rightarrow> fs_node fs_result" where
  "fs_node_metadata index i = bindE (fs_metadata index i) (\<lambda>e. Inr (node_of_entry e))"

definition fs_node_lookup :: "validated_index \<Rightarrow> u64 \<Rightarrow> string \<Rightarrow> fs_node fs_result" where
  "fs_node_lookup index parent name = bindE (fs_lookup index parent name) (\<lambda>e. Inr (node_of_entry e))"

lemma node_of_entry_simps [simp]:
  "n_id (node_of_entry e) = e_id e" "n_parent_id (node_of_entry e) = e_parent_id e"
  "n_name (node_of_entry e) = e_name e" "n_size (node_of_entry e) = e_size e"
  "n_kind (node_of_entry e) = NodeFile \<longleftrightarrow> e_kind e = File"
  "n_kind (node_of_entry e) = NodeDirectory \<longleftrightarrow> e_kind e = Directory"
  by (cases "e_kind e"; simp add: node_of_entry_def)+

lemma index_distinct: "index_ok h es \<Longrightarrow> distinct (map e_id es)"
  by (simp add: index_ok_def)

lemma node_metadata_entry:
  "index_ok h es \<Longrightarrow> e \<in> set es \<Longrightarrow> fs_node_metadata (index_tables es) (e_id e) = Inr (node_of_entry e)"
  using map_of_entries [OF index_distinct, of h es "e_id e" e] by (simp add: fs_node_metadata_def fs_metadata_def index_tables_def)

lemma node_metadata_iff:
  assumes "index_ok h es"
  shows "fs_node_metadata (index_tables es) i = Inr n \<longleftrightarrow> (\<exists>e \<in> set es. e_id e = i \<and> n = node_of_entry e)"
proof
  assume "fs_node_metadata (index_tables es) i = Inr n"
  then obtain e where "map_of (map (\<lambda>e. (e_id e, e)) es) i = Some e" "n = node_of_entry e"
    by (auto simp: fs_node_metadata_def fs_metadata_def index_tables_def bindE_eq_Inr ok_or_eq_Inr)
  moreover from this(1) have "(i, e) \<in> set (map (\<lambda>e. (e_id e, e)) es)" by (rule map_of_SomeD)
  ultimately show "\<exists>e \<in> set es. e_id e = i \<and> n = node_of_entry e" by auto
next
  assume "\<exists>e \<in> set es. e_id e = i \<and> n = node_of_entry e"
  then show "fs_node_metadata (index_tables es) i = Inr n" using node_metadata_entry [OF assms] by blast
qed

section \<open>Listings\<close>

lemma mset_insert_node [simp]: "mset (insert_node x ns) = add_mset x (mset ns)"
  by (induction ns) auto

lemma mset_sort_nodes: "mset (sort_nodes ns) = mset ns"
  by (induction ns) (simp_all add: sort_nodes_def)

definition child_nodes :: "entry list \<Rightarrow> u64 \<Rightarrow> fs_node list" where
  "child_nodes es i = sort_nodes (map node_of_entry (children_of es i))"

lemma set_child_nodes: "set (child_nodes es i) = node_of_entry ` {e \<in> set es. e_id e \<noteq> 1 \<and> e_parent_id e = i}"
  using sort_nodes_spec by (auto simp: child_nodes_def children_of_def)

lemma child_nodes_ids: "mset (map n_id (child_nodes es i)) = mset (map e_id (children_of es i))"
  by (simp add: child_nodes_def mset_map mset_sort_nodes comp_def multiset.map_comp)

lemma child_nodes_distinct: "index_ok h es \<Longrightarrow> distinct (map n_id (child_nodes es i))"
  using mset_eq_imp_distinct_iff [OF child_nodes_ids] index_distinct [of h es]
  by (simp add: children_of_def distinct_map_filter)

lemma child_nodes_length: "length (child_nodes es i) = length (children_of es i)"
  using arg_cong [OF child_nodes_ids, of size] by simp

lemma read_dir_nodes:
  assumes "index_ok h es" "d \<in> set es"
  shows "fs_read_dir (index_tables es) (e_id d) =
    (if e_kind d = Directory then Inr (child_nodes es (e_id d)) else Inl (fs_semantic NotDirectory))"
proof -
  have dist: "distinct (map e_id es)" using assms(1) by (rule index_distinct)
  then have "fs_metadata (index_tables es) (e_id d) = Inr d"
    using assms(2) by (simp add: fs_metadata_def ok_or_eq_Inr index_tables_def map_of_entries)
  then show ?thesis
    using children_table [OF dist] by (simp add: fs_read_dir_def fs_read_dir_entries_def child_nodes_def)
qed

section \<open>Reply buffers\<close>

text \<open>A buffer either takes an entry whole or leaves its content as it was and says that it is full.\<close>

type_synonym ('e, 'b) buffer_add = "'e \<Rightarrow> 'b \<Rightarrow> bool \<times> 'b"

definition buffer_ok :: "('e, 'b) buffer_add \<Rightarrow> ('b \<Rightarrow> 'e list) \<Rightarrow> bool" where
  "buffer_ok add entries \<longleftrightarrow>
     (\<forall>e b. entries (snd (add e b)) = (if fst (add e b) then entries b else entries b @ [e]))"

text \<open>The loop of both callbacks: stop at the first entry that does not fit.\<close>

fun fill_buffer :: "('e, 'b) buffer_add \<Rightarrow> 'e list \<Rightarrow> 'b \<Rightarrow> 'b" where
  "fill_buffer add [] b = b"
| "fill_buffer add (e # es) b =
     (case add e b of (full, b) \<Rightarrow> if full then b else fill_buffer add es b)"

lemma fill_buffer_prefix:
  assumes "buffer_ok add entries"
  shows "\<exists>k \<le> length es. entries (fill_buffer add es b) = entries b @ take k es \<and>
    (k = 0 \<and> es \<noteq> [] \<longrightarrow> fst (add (hd es) b))"
proof (induction es arbitrary: b)
  case Nil
  show ?case by simp
next
  case (Cons e es)
  obtain full b' where a: "add e b = (full, b')" by (cases "add e b")
  with assms have content: "entries b' = (if full then entries b else entries b @ [e])"
    unfolding buffer_ok_def by (metis fst_conv snd_conv)
  show ?case
  proof (cases full)
    case True
    with a content show ?thesis by (intro exI [of _ 0]) simp
  next
    case False
    from Cons.IH [of b'] obtain k where "k \<le> length es" "entries (fill_buffer add es b') = entries b' @ take k es" by blast
    with a content False show ?thesis by (intro exI [of _ "Suc k"]) simp
  qed
qed

text \<open>A reader that asks again from the last entry it got, until a page brings nothing.\<close>

fun read_pages :: "nat \<Rightarrow> ('m \<Rightarrow> 'e list) \<Rightarrow> ('e \<Rightarrow> 'm) \<Rightarrow> 'm \<Rightarrow> 'e list" where
  "read_pages 0 page marker m = []"
| "read_pages (Suc fuel) page marker m =
     (let p = page m in if p = [] then [] else p @ read_pages fuel page marker (marker (last p)))"

lemma read_pages_all:
  assumes page: "\<And>i. i \<le> length L \<Longrightarrow> \<exists>k. (i < length L \<longrightarrow> 0 < k) \<and> page (at i) = take k (drop i L)"
    and next_at: "\<And>i. i < length L \<Longrightarrow> marker (L ! i) = at (Suc i)"
    and "length L - i < fuel" "i \<le> length L"
  shows "read_pages fuel page marker (at i) = drop i L"
  using assms(3,4)
proof (induction fuel arbitrary: i)
  case (Suc fuel)
  from page [OF Suc.prems(2)] obtain k' where k': "i < length L \<longrightarrow> 0 < k'" "page (at i) = take k' (drop i L)" by blast
  show ?case
  proof (cases "i < length L")
    case True
    define k where "k = min k' (length L - i)"
    from k' True have k: "0 < k" "i + k \<le> length L" "page (at i) = take k (drop i L)"
      by (auto simp: k_def min_def)
    then have "page (at i) \<noteq> []" using True by simp
    moreover have "length (take k (drop i L)) = k" using k(2) by simp
    then have "last (take k (drop i L)) = L ! (i + k - 1)"
      using k(1,2) last_conv_nth [of "take k (drop i L)"] True by simp
    then have "marker (last (page (at i))) = at (i + k)" using k next_at [of "i + k - 1"] by simp
    moreover have "read_pages fuel page marker (at (i + k)) = drop (i + k) L"
      using Suc.prems k by (intro Suc.IH) linarith+
    moreover have "take k (drop i L) @ drop (i + k) L = drop i L"
      by (metis add.commute append_take_drop_id drop_drop)
    ultimately show ?thesis using k(3) by (simp add: Let_def)
  next
    case False
    with k' show ?thesis by simp
  qed
qed simp

end
