(* ===== verification/Fuse.thy ===== *)
theory Fuse
  imports Mounted World
begin

text \<open>
  The FUSE mount (\<open>cipherfs-fuse\<close>): every callback of the kernel as a function from the file system
  to its reply. The kernel side (\<open>fuser\<close>) is not under \<open>src/\<close>: the directory buffer and the call
  that spawns the session are parameters.
\<close>

section \<open>Replies\<close>

datatype errno = ENOENT | ENOTDIR | EISDIR | EIO

datatype file_type = RegularFile | DirectoryType

record file_attr =
  fa_ino :: u64
  fa_size :: u64
  fa_blocks :: u64
  fa_atime :: nat
  fa_mtime :: nat
  fa_ctime :: nat
  fa_crtime :: nat
  fa_kind :: file_type
  fa_perm :: u16
  fa_nlink :: u32
  fa_uid :: u32
  fa_gid :: u32
  fa_rdev :: u32
  fa_flags :: u32
  fa_blksize :: u32

definition fuse_error :: "fs_error \<Rightarrow> errno" where
  "fuse_error e = (case fe_kind e of
     NotFound \<Rightarrow> ENOENT | NotDirectory \<Rightarrow> ENOTDIR | IsDirectory \<Rightarrow> EISDIR | IntegrityFailure \<Rightarrow> EIO)"

text \<open>Times are seconds since the Unix epoch; the modes are octal 555 and 444.\<close>

definition node_attr :: "u32 \<Rightarrow> u32 \<Rightarrow> fs_node \<Rightarrow> file_attr" where
  "node_attr uid gid ent =
     (let directory = (n_kind ent = NodeDirectory) in
      \<lparr>fa_ino = n_id ent, fa_size = n_size ent, fa_blocks = div_ceil (n_size ent) 512,
       fa_atime = 0, fa_mtime = 0, fa_ctime = 0, fa_crtime = 0,
       fa_kind = (if directory then DirectoryType else RegularFile),
       fa_perm = (if directory then 365 else 292), fa_nlink = (if directory then 2 else 1),
       fa_uid = uid, fa_gid = gid, fa_rdev = 0, fa_flags = 0, fa_blksize = 4096\<rparr>)"

section \<open>Callbacks\<close>

text \<open>A name is the byte string the kernel passes. A reply to \<open>lookup\<close> is valid for one second.\<close>

definition TTL :: nat where "TTL = 1"

definition fuse_lookup :: "u32 \<Rightarrow> u32 \<Rightarrow> validated_index \<Rightarrow> u64 \<Rightarrow> string \<Rightarrow> errno + nat \<times> file_attr \<times> nat" where
  "fuse_lookup uid gid index parent name =
     (case to_str name of
        None \<Rightarrow> Inl ENOENT
      | Some name \<Rightarrow>
          (case fs_node_lookup index parent name of
             Inr node \<Rightarrow> Inr (TTL, node_attr uid gid node, 0)
           | Inl e \<Rightarrow> Inl (fuse_error e)))"

definition fuse_getattr :: "u32 \<Rightarrow> u32 \<Rightarrow> validated_index \<Rightarrow> u64 \<Rightarrow> errno + nat \<times> file_attr" where
  "fuse_getattr uid gid index ino =
     (case fs_node_metadata index ino of
        Inr node \<Rightarrow> Inr (TTL, node_attr uid gid node)
      | Inl e \<Rightarrow> Inl (fuse_error e))"

text \<open>An entry of the reply: inode, the offset after it, type and name.\<close>

type_synonym fuse_dirent = "u64 \<times> u64 \<times> file_type \<times> string"

definition listing :: "fs_node \<Rightarrow> fs_node list \<Rightarrow> (u64 \<times> string \<times> file_type) list" where
  "listing node children =
     [(n_id node, ''.'', DirectoryType), (n_parent_id node, ''..'', DirectoryType)] @
     map (\<lambda>child. (n_id child, n_name child, if n_kind child = NodeFile then RegularFile else DirectoryType)) children"

definition numbered :: "(u64 \<times> string \<times> file_type) list \<Rightarrow> fuse_dirent list" where
  "numbered ls = map (\<lambda>(position, (i, name, kind)). (i, of_nat (position + 1), kind, name)) (enumerate 0 ls)"

definition fuse_readdir :: "(fuse_dirent, 'b) buffer_add \<Rightarrow> validated_index \<Rightarrow> u64 \<Rightarrow> u64 \<Rightarrow> 'b \<Rightarrow> errno + 'b" where
  "fuse_readdir add index ino offset reply =
     (case fs_node_metadata index ino of
        Inl e \<Rightarrow> Inl (fuse_error e)
      | Inr node \<Rightarrow>
          (case fs_read_dir index ino of
             Inl e \<Rightarrow> Inl (fuse_error e)
           | Inr children \<Rightarrow> Inr (fill_buffer add (drop (unat offset) (numbered (listing node children))) reply)))"

definition fuse_read :: "prims \<Rightarrow> opened_container \<Rightarrow> u64 \<Rightarrow> u64 \<Rightarrow> u32 \<Rightarrow> cache \<Rightarrow> (errno + bytes) \<times> cache" where
  "fuse_read P opened ino offset sz c =
     (case fs_read P opened ino offset sz c of
        (Inr output, c) \<Rightarrow> (Inr output, c)
      | (Inl e, c) \<Rightarrow> (Inl (fuse_error e), c))"

section \<open>The session\<close>

text \<open>\<open>std::fs::create_dir_all\<close>: try the directory, then its parents first.\<close>

definition dir_there :: "path \<Rightarrow> disk \<Rightarrow> bool" where
  "dir_there p d \<longleftrightarrow> d (follow d p) = Some DirNode"

definition make_dir_or_there :: "path \<Rightarrow> unit io" where
  "make_dir_or_there p w = (case create_new_dir p w of
     (Inr _, w') \<Rightarrow> (Inr (), w')
   | (Inl e, w') \<Rightarrow> if dir_there p (w_disk w') then (Inr (), w') else (Inl e, w'))"

function create_dir_all :: "path \<Rightarrow> unit io" where
  "create_dir_all p =
     (if p = [] then returnM ()
      else (\<lambda>w. case create_new_dir p w of
          (Inr _, w') \<Rightarrow> (Inr (), w')
        | (Inl e, w') \<Rightarrow>
            if e = not_found then bindM (create_dir_all (butlast p)) (\<lambda>_. make_dir_or_there p) w'
            else if dir_there p (w_disk w') then (Inr (), w') else (Inl e, w')))"
  by pat_completeness auto
termination
  by (relation "measure length") auto

declare create_dir_all.simps [simp del]

definition fuse_new :: "prims \<Rightarrow> (bytes \<Rightarrow> v1_header result) \<Rightarrow> path \<Rightarrow> string \<Rightarrow> u64 \<Rightarrow> (opened_container \<times> cache) io" where
  "fuse_new P L path password cache_mib = read_only_fs_open P L path password cache_mib"

datatype mount_option = RO | FSName string

definition fuse_start ::
  "prims \<Rightarrow> (bytes \<Rightarrow> v1_header result) \<Rightarrow> (opened_container \<times> cache \<Rightarrow> path \<Rightarrow> mount_option list \<Rightarrow> 's io) \<Rightarrow>
     path \<Rightarrow> path \<Rightarrow> string \<Rightarrow> u64 \<Rightarrow> 's io" where
  "fuse_start P L spawn container mountpoint password cache_mib =
     bindM (fuse_new P L container password cache_mib) (\<lambda>filesystem.
     bindM (contextM ''Unable to create mount point directory'' (create_dir_all mountpoint)) (\<lambda>_.
     contextM ''FUSE mount failed'' (spawn filesystem mountpoint [RO, FSName ''cipherfs''])))"

section \<open>Listings page by page\<close>

lemma length_numbered [simp]: "length (numbered ls) = length ls"
  by (simp add: numbered_def)

lemma numbered_nth: "i < length ls \<Longrightarrow> numbered ls ! i = (fst (ls ! i), of_nat (Suc i), snd (snd (ls ! i)), fst (snd (ls ! i)))"
  by (simp add: numbered_def nth_enumerate_eq split: prod.splits)

definition entry_offset :: "fuse_dirent \<Rightarrow> u64" where
  "entry_offset e = fst (snd e)"

definition readdir_page :: "(fuse_dirent, 'b) buffer_add \<Rightarrow> ('b \<Rightarrow> fuse_dirent list) \<Rightarrow> 'b \<Rightarrow> validated_index \<Rightarrow> u64 \<Rightarrow> u64 \<Rightarrow> fuse_dirent list" where
  "readdir_page add entries blank index ino offset =
     (case fuse_readdir add index ino offset blank of Inl _ \<Rightarrow> [] | Inr reply \<Rightarrow> entries reply)"

lemma fuse_readdir_listing:
  assumes "index_ok h es" "d \<in> set es" "e_kind d = Directory"
  shows "fuse_readdir add (index_tables es) (e_id d) offset reply =
    Inr (fill_buffer add (drop (unat offset) (numbered (listing (node_of_entry d) (child_nodes es (e_id d))))) reply)"
  using assms by (simp add: fuse_readdir_def node_metadata_entry read_dir_nodes)

lemma readdir_page_part:
  assumes ok: "index_ok h es" "d \<in> set es" "e_kind d = Directory"
    and buffer: "buffer_ok add entries" "entries blank = []" "\<And>e. \<not> fst (add e blank)"
    and L: "L = numbered (listing (node_of_entry d) (child_nodes es (e_id d)))"
  shows "\<exists>k. (unat offset < length L \<longrightarrow> 0 < k) \<and>
    readdir_page add entries blank (index_tables es) (e_id d) offset = take k (drop (unat offset) L)"
proof -
  from fill_buffer_prefix [OF buffer(1), of "drop (unat offset) L" blank] obtain k where
    k: "entries (fill_buffer add (drop (unat offset) L) blank) = take k (drop (unat offset) L)"
    "k = 0 \<and> drop (unat offset) L \<noteq> [] \<longrightarrow> fst (add (hd (drop (unat offset) L)) blank)" using buffer(2) by auto
  then show ?thesis
    using buffer(3) unfolding readdir_page_def fuse_readdir_listing [OF ok] L [symmetric]
    by (intro exI [of _ k]) (auto simp: not_less)
qed

lemma children_fewer: "length (children_of es i) \<le> length es"
  by (simp add: children_of_def)

text \<open>Whatever the size of the reply buffer, following the offsets of the entries reads the listing
  once from beginning to end.\<close>

lemma readdir_complete:
  assumes ok: "index_ok h es" "d \<in> set es" "e_kind d = Directory"
    and buffer: "buffer_ok add entries" "entries blank = []" "\<And>e. \<not> fst (add e blank)"
    and fuel: "length es + 2 < fuel" "fuel < 2 ^ 64"
  shows "read_pages fuel (readdir_page add entries blank (index_tables es) (e_id d)) entry_offset 0 =
    numbered (listing (node_of_entry d) (child_nodes es (e_id d)))"
proof -
  let ?L = "numbered (listing (node_of_entry d) (child_nodes es (e_id d)))"
  have len: "length ?L < fuel" using fuel(1) children_fewer [of es "e_id d"] by (simp add: listing_def child_nodes_length)
  have small: "unat (of_nat i :: u64) = i" if "i \<le> length ?L" for i
    using that len fuel(2) by (intro unat_of_nat_small) simp
  have "read_pages fuel (readdir_page add entries blank (index_tables es) (e_id d)) entry_offset (of_nat 0) = drop 0 ?L"
  proof (rule read_pages_all [where at = of_nat])
    fix i assume i: "i \<le> length ?L"
    from readdir_page_part [OF ok buffer refl, of "of_nat i"] show "\<exists>k. (i < length ?L \<longrightarrow> 0 < k) \<and>
        readdir_page add entries blank (index_tables es) (e_id d) (of_nat i) = take k (drop i ?L)" by (simp only: small [OF i])
  next
    fix i assume "i < length ?L"
    then show "entry_offset (?L ! i) = of_nat (Suc i)" by (simp add: numbered_nth entry_offset_def)
  qed (use len in simp_all)
  then show ?thesis by simp
qed

section \<open>Lookups and reads\<close>

text \<open>A name the kernel passes is found exactly if it is the name of an entry below the parent; bytes that
  are not UTF-8 are the name of none.\<close>

lemma fuse_lookup_entry:
  assumes "index_ok h es"
  shows "fuse_lookup uid gid (index_tables es) p name = Inr (TTL, a, 0) \<longleftrightarrow>
    (\<exists>e \<in> set es. e_id e \<noteq> 1 \<and> e_parent_id e = p \<and> e_name e = name \<and> valid_utf8 name \<and> a = node_attr uid gid (node_of_entry e))"
proof -
  have "fuse_lookup uid gid (index_tables es) p name = Inr (TTL, a, 0) \<longleftrightarrow>
      valid_utf8 name \<and> (\<exists>e. fs_lookup (index_tables es) p name = Inr e \<and> a = node_attr uid gid (node_of_entry e))"
    by (cases "fs_lookup (index_tables es) p name") (auto simp: fuse_lookup_def to_str_def fs_node_lookup_def)
  then show ?thesis using fs_lookup_iff [OF assms] by blast
qed

lemma fuse_read_content:
  assumes "content_stored P opened es content" "cached_ok es content c"
    and "e \<in> set (files_of es)" "sz \<noteq> 0 \<or> offset \<noteq> 0 \<or> e_size e = 0"
  shows "fst (fuse_read P opened (e_id e) offset sz c) = Inr (slice (unat offset) (unat sz) (content e))"
proof -
  obtain r c' where "fs_read P opened (e_id e) offset sz c = (r, c')" by (cases "fs_read P opened (e_id e) offset sz c")
  with fs_read_content [OF assms] show ?thesis by (simp add: fuse_read_def)
qed

text \<open>An error of the file system has one code, and reads fail with it only.\<close>

lemma fuse_error_codes:
  "fuse_error (fs_semantic NotFound) = ENOENT" "fuse_error (fs_semantic NotDirectory) = ENOTDIR"
  "fuse_error (fs_semantic IsDirectory) = EISDIR" "fuse_error (fs_integrity e) = EIO"
  by (simp_all add: fuse_error_def fs_semantic_def fs_integrity_def)



end
