(* ===== verification/WinFsp.thy ===== *)
theory WinFsp
  imports Mounted WindowsNamesMap World
begin

text \<open>
  The WinFsp mount (\<open>cipherfs-winfsp/src/lib.rs\<close>): the identity of the volume, the walk that names
  every node, and the callbacks of the file system. WinFsp's own text conversion, directory buffer
  and limits on names are a record of parameters.
\<close>

unbundle bit_operations_syntax

section \<open>Identity of a mount\<close>

datatype nt_status =
    STATUS_BUFFER_TOO_SMALL
  | STATUS_DATA_ERROR
  | STATUS_FILE_IS_A_DIRECTORY
  | STATUS_MEDIA_WRITE_PROTECTED
  | STATUS_NOT_A_DIRECTORY
  | STATUS_OBJECT_NAME_NOT_FOUND
  | OtherStatus u32

record mount_identity =
  mi_volume_serial_number :: u32
  mi_snapshot_time :: u64

definition WINDOWS_EPOCH_OFFSET_SECONDS :: u64 where "WINDOWS_EPOCH_OFFSET_SECONDS = 11644473600"
definition FILETIME_TICKS_PER_SECOND :: u64 where "FILETIME_TICKS_PER_SECOND = 10000000"
definition FALLBACK_FILETIME_BASE :: u64 where "FALLBACK_FILETIME_BASE = 125911584000000000"
definition FALLBACK_FILETIME_SPAN :: u64 where
  "FALLBACK_FILETIME_SPAN = 20 * 365 * 24 * 60 * 60 * FILETIME_TICKS_PER_SECOND"

text \<open>FNV-1a; zero is not a serial number.\<close>

definition fnv1a :: "bytes \<Rightarrow> u32" where
  "fnv1a bs = fold (\<lambda>b hash. (hash XOR ucast b) * 16777619) bs 2166136261"

definition volume_serial_number :: "bytes \<Rightarrow> u32" where
  "volume_serial_number container_id = (let serial = fnv1a container_id in if serial = 0 then 1 else serial)"

text \<open>A duration is whole seconds and nanoseconds; a time is its distance from the Unix epoch and
  its side.\<close>

record duration =
  du_secs :: u64
  du_nanos :: u32

datatype system_time = SinceEpoch duration | BeforeEpoch duration

definition duration_to_filetime_ticks :: "duration \<Rightarrow> u64 option" where
  "duration_to_filetime_ticks d =
     Option.bind (checked_mul (du_secs d) FILETIME_TICKS_PER_SECOND) (\<lambda>ticks.
       checked_add ticks (ucast (du_nanos d) div 100))"

definition system_time_to_filetime :: "system_time \<Rightarrow> u64 option" where
  "system_time_to_filetime t =
     Option.bind (checked_mul WINDOWS_EPOCH_OFFSET_SECONDS FILETIME_TICKS_PER_SECOND) (\<lambda>unix_epoch_ticks.
       (case t of
          SinceEpoch d \<Rightarrow> Option.bind (duration_to_filetime_ticks d) (checked_add unix_epoch_ticks)
        | BeforeEpoch d \<Rightarrow> Option.bind (duration_to_filetime_ticks d) (checked_sub unix_epoch_ticks)))"

definition fallback_filetime :: "bytes \<Rightarrow> u64" where
  "fallback_filetime container_id =
     FALLBACK_FILETIME_BASE + from_le_bytes (take 8 container_id) mod FALLBACK_FILETIME_SPAN"

definition mount_identity_of :: "bytes \<Rightarrow> system_time option \<Rightarrow> mount_identity" where
  "mount_identity_of container_id modified =
     \<lparr>mi_volume_serial_number = volume_serial_number container_id,
      mi_snapshot_time = (case Option.bind modified system_time_to_filetime of
         Some t \<Rightarrow> t | None \<Rightarrow> fallback_filetime container_id)\<rparr>"

section \<open>Opening\<close>

record winfsp_fs =
  wf_opened :: opened_container
  wf_names :: name_map
  wf_total_size :: u64
  wf_security_descriptor :: bytes
  wf_identity :: mount_identity

text \<open>A file system error as the head of a chain.\<close>

definition fs_anyhow :: "fs_error \<Rightarrow> error" where
  "fs_anyhow e = Foreign (fs_error_display e) # (case fe_source e of None \<Rightarrow> [] | Some source \<Rightarrow> source)"

text \<open>The walk from the root: the list of nodes grows at its end while a cursor moves through it. The
  bound is the number of steps.\<close>

fun collect_nodes :: "nat \<Rightarrow> validated_index \<Rightarrow> fs_node list \<Rightarrow> nat \<Rightarrow> u64 \<Rightarrow> (fs_node list \<times> u64) result option" where
  "collect_nodes 0 index nodes cursor tot = None"
| "collect_nodes (Suc fuel) index nodes cursor tot =
     (if cursor < length nodes then
        (let node = nodes ! cursor in
         if n_kind node = NodeDirectory
         then (case fs_read_dir index (n_id node) of
             Inl e \<Rightarrow> Some (Inl (fs_anyhow e))
           | Inr children \<Rightarrow> collect_nodes fuel index (nodes @ children) (cursor + 1) tot)
         else (case checked_add tot (n_size node) of
             None \<Rightarrow> Some (Inl [Msg ''Mounted plaintext size overflow''])
           | Some tot \<Rightarrow> collect_nodes fuel index nodes (cursor + 1) tot))
      else Some (Inr (nodes, tot)))"

text \<open>Everything after the container is open. \<open>modified\<close> is the modification time of its file if it
  could be read, \<open>descriptor\<close> the read-only security descriptor of the current user.\<close>

definition winfsp_from ::
  "windows_ordinal \<Rightarrow> nat \<Rightarrow> opened_container \<Rightarrow> system_time option \<Rightarrow> bytes result \<Rightarrow> winfsp_fs result option" where
  "winfsp_from W fuel opened modified descriptor =
     (case fs_node_metadata (oc_index opened) 1 of
        Inl e \<Rightarrow> Some (Inl (fs_anyhow e))
      | Inr root \<Rightarrow>
          Option.bind (collect_nodes fuel (oc_index opened) [root] 0 0) (\<lambda>r.
            (case r of
               Inl e \<Rightarrow> Some (Inl e)
             | Inr (nodes, tot) \<Rightarrow>
                 Option.bind (name_map_new W fuel nodes) (\<lambda>names.
                   Some (bindE descriptor (\<lambda>descriptor.
                     Inr \<lparr>wf_opened = opened, wf_names = names, wf_total_size = tot,
                          wf_security_descriptor = descriptor,
                          wf_identity = mount_identity_of (fs_container_id opened) modified\<rparr>))))))"

text \<open>The descriptor names the user as owner and grants read access to the system and to the user.\<close>

definition sddl :: "string \<Rightarrow> string" where
  "sddl sid = ''O:'' @ sid @ ''G:'' @ sid @ ''D:P(A;;FR;;;SY)(A;;FR;;;'' @ sid @ '')''"

section \<open>Callbacks that refuse\<close>

datatype mutating_request =
    CreateRequest
  | SetSecurityRequest
  | OverwriteRequest
  | RenameRequest
  | SetBasicInfoRequest
  | SetDeleteRequest
  | SetFileSizeRequest
  | WriteRequest

definition refuse :: "mutating_request \<Rightarrow> nt_status + 'a" where
  "refuse request = Inl STATUS_MEDIA_WRITE_PROTECTED"

section \<open>Callbacks that answer\<close>

text \<open>The conversion of a file name, the name of a directory entry (which has room for 255 units),
  and the directory buffer, which takes an entry or refuses it.\<close>

record winfsp_api =
  wa_to_string_lossy :: "u16 list \<Rightarrow> string"
  wa_set_name :: "string \<Rightarrow> nt_status + u16 list"

record file_info =
  fi_attributes :: u32
  fi_size :: u64
  fi_allocation_size :: u64
  fi_creation_time :: u64
  fi_last_access_time :: u64
  fi_last_write_time :: u64
  fi_change_time :: u64
  fi_index_number :: u64

record dir_info =
  di_file_info :: file_info
  di_name :: "u16 list"

definition FILE_ATTRIBUTE_READONLY :: u32 where "FILE_ATTRIBUTE_READONLY = 1"
definition FILE_ATTRIBUTE_DIRECTORY :: u32 where "FILE_ATTRIBUTE_DIRECTORY = 16"

definition attributes :: "fs_node \<Rightarrow> u32" where
  "attributes node = (if n_kind node = NodeDirectory then FILE_ATTRIBUTE_DIRECTORY else FILE_ATTRIBUTE_READONLY)"

definition fill_info :: "fs_node \<Rightarrow> u64 \<Rightarrow> file_info" where
  "fill_info node snapshot_time =
     \<lparr>fi_attributes = attributes node, fi_size = n_size node,
      fi_allocation_size = div_ceil (n_size node) 4096 * 4096,
      fi_creation_time = snapshot_time, fi_last_access_time = snapshot_time,
      fi_last_write_time = snapshot_time, fi_change_time = snapshot_time, fi_index_number = n_id node\<rparr>"

definition map_error :: "fs_error \<Rightarrow> nt_status" where
  "map_error e = (case fe_kind e of
     NotFound \<Rightarrow> STATUS_OBJECT_NAME_NOT_FOUND
   | NotDirectory \<Rightarrow> STATUS_NOT_A_DIRECTORY
   | IsDirectory \<Rightarrow> STATUS_FILE_IS_A_DIRECTORY
   | IntegrityFailure \<Rightarrow> STATUS_DATA_ERROR)"

fun split_backslash :: "string \<Rightarrow> string list" where
  "split_backslash [] = [[]]"
| "split_backslash (c # cs) =
     (if c = CHR 0x5C then [] # split_backslash cs
      else (case split_backslash cs of [] \<Rightarrow> [[c]] | p # ps \<Rightarrow> (c # p) # ps))"

fun resolve_components :: "windows_ordinal \<Rightarrow> name_map \<Rightarrow> string list \<Rightarrow> u64 \<Rightarrow> nt_status + u64" where
  "resolve_components W names [] i = Inr i"
| "resolve_components W names (component # rest) i =
     (case name_map_lookup W names i component of
        None \<Rightarrow> Inl STATUS_OBJECT_NAME_NOT_FOUND
      | Some i \<Rightarrow> resolve_components W names rest i)"

definition resolve :: "windows_ordinal \<Rightarrow> winfsp_api \<Rightarrow> winfsp_fs \<Rightarrow> u16 list \<Rightarrow> nt_status + fs_node" where
  "resolve W A fs file_name =
     (let path = wa_to_string_lossy A file_name in
      bindE (resolve_components W (wf_names fs) (filter (\<lambda>part. part \<noteq> []) (split_backslash path)) 1)
        (\<lambda>i. map_err map_error (fs_node_metadata (oc_index (wf_opened fs)) i)))"

definition copy_security_descriptor :: "winfsp_fs \<Rightarrow> bytes option \<Rightarrow> nt_status + bytes option" where
  "copy_security_descriptor fs destination =
     (case destination of
        None \<Rightarrow> Inr None
      | Some destination \<Rightarrow>
          if length destination < length (wf_security_descriptor fs) then Inl STATUS_BUFFER_TOO_SMALL
          else Inr (Some (write_bytes 0 (wf_security_descriptor fs) destination)))"

record file_security =
  fsec_reparse :: bool
  fsec_size :: u64
  fsec_attributes :: u32

definition get_security_by_name ::
  "windows_ordinal \<Rightarrow> winfsp_api \<Rightarrow> winfsp_fs \<Rightarrow> u16 list \<Rightarrow> bytes option \<Rightarrow> nt_status + file_security \<times> bytes option" where
  "get_security_by_name W A fs file_name security_descriptor =
     bindE (resolve W A fs file_name) (\<lambda>node.
     bindE (copy_security_descriptor fs security_descriptor) (\<lambda>written.
     Inr (\<lparr>fsec_reparse = False, fsec_size = of_nat (length (wf_security_descriptor fs)),
           fsec_attributes = attributes node\<rparr>, written)))"

text \<open>Opening gives the node as the context of the handle, its information and the name as asked.\<close>

definition winfsp_open :: "windows_ordinal \<Rightarrow> winfsp_api \<Rightarrow> winfsp_fs \<Rightarrow> u16 list \<Rightarrow> nt_status + fs_node \<times> file_info \<times> u16 list" where
  "winfsp_open W A fs file_name =
     bindE (resolve W A fs file_name) (\<lambda>node.
     Inr (node, fill_info node (mi_snapshot_time (wf_identity fs)), file_name))"

definition get_security :: "winfsp_fs \<Rightarrow> bytes option \<Rightarrow> nt_status + u64 \<times> bytes option" where
  "get_security fs security_descriptor =
     bindE (copy_security_descriptor fs security_descriptor) (\<lambda>written.
     Inr (of_nat (length (wf_security_descriptor fs)), written))"

definition get_file_info :: "winfsp_fs \<Rightarrow> fs_node \<Rightarrow> nt_status + file_info" where
  "get_file_info fs context' = Inr (fill_info context' (mi_snapshot_time (wf_identity fs)))"

record volume_info =
  vo_total_size :: u64
  vo_free_size :: u64
  vo_label :: string

definition get_volume_info :: "winfsp_fs \<Rightarrow> nt_status + volume_info" where
  "get_volume_info fs = Inr \<lparr>vo_total_size = wf_total_size fs, vo_free_size = 0, vo_label = ''CipherFS''\<rparr>"

text \<open>The listing: sorted as Windows shows it, from after the marker.\<close>

definition display_le :: "windows_ordinal \<Rightarrow> name_map \<Rightarrow> fs_node \<Rightarrow> fs_node \<Rightarrow> bool" where
  "display_le W names left right =
     (case compare_display_names W (name_map_name names left) (name_map_name names right) of
        Less \<Rightarrow> True | Greater \<Rightarrow> False | Equal \<Rightarrow> n_id left \<le> n_id right)"

fun insert_display :: "windows_ordinal \<Rightarrow> name_map \<Rightarrow> fs_node \<Rightarrow> fs_node list \<Rightarrow> fs_node list" where
  "insert_display W names x [] = [x]"
| "insert_display W names x (y # ys) =
     (if display_le W names x y then x # y # ys else y # insert_display W names x ys)"

definition sort_display :: "windows_ordinal \<Rightarrow> name_map \<Rightarrow> fs_node list \<Rightarrow> fs_node list" where
  "sort_display W names ns = foldr (insert_display W names) ns []"

fun index_where :: "('a \<Rightarrow> bool) \<Rightarrow> 'a list \<Rightarrow> nat option" where
  "index_where Q [] = None"
| "index_where Q (x # xs) = (if Q x then Some 0 else map_option Suc (index_where Q xs))"

definition start_position :: "windows_ordinal \<Rightarrow> name_map \<Rightarrow> fs_node list \<Rightarrow> string \<Rightarrow> nat" where
  "start_position W names children marker =
     (if marker = [] then 0
      else (case index_where (\<lambda>child. equivalent W (name_map_name names child) marker) children of
          None \<Rightarrow> 0
        | Some position \<Rightarrow> position + 1))"

text \<open>\<open>append_to_buffer\<close> answers whether the entry was stored; the first that is not ends the page.\<close>

fun append_children ::
  "winfsp_api \<Rightarrow> (dir_info \<Rightarrow> 'b \<Rightarrow> bool \<times> 'b) \<Rightarrow> winfsp_fs \<Rightarrow> fs_node list \<Rightarrow> 'b \<Rightarrow> (nt_status + unit) \<times> 'b" where
  "append_children A store fs [] buffer = (Inr (), buffer)"
| "append_children A store fs (child # rest) buffer =
     (case wa_set_name A (name_map_name (wf_names fs) child) of
        Inl e \<Rightarrow> (Inl e, buffer)
      | Inr units \<Rightarrow>
          (case store \<lparr>di_file_info = fill_info child (mi_snapshot_time (wf_identity fs)), di_name = units\<rparr> buffer of
             (stored, buffer) \<Rightarrow>
               if stored then append_children A store fs rest buffer else (Inr (), buffer)))"

definition read_directory ::
  "windows_ordinal \<Rightarrow> winfsp_api \<Rightarrow> (dir_info \<Rightarrow> 'b \<Rightarrow> bool \<times> 'b) \<Rightarrow> ('b \<Rightarrow> 'b) \<Rightarrow> ('b \<Rightarrow> u32) \<Rightarrow>
     winfsp_fs \<Rightarrow> fs_node \<Rightarrow> u16 list option \<Rightarrow> 'b \<Rightarrow> (nt_status + u32) \<times> 'b" where
  "read_directory W A store finalize cursor fs context' marker buffer =
     (if n_kind context' \<noteq> NodeDirectory then (Inl STATUS_NOT_A_DIRECTORY, buffer)
      else (case fs_read_dir (oc_index (wf_opened fs)) (n_id context') of
          Inl e \<Rightarrow> (Inl (map_error e), buffer)
        | Inr children \<Rightarrow>
            let children = sort_display W (wf_names fs) children;
                marker = (case marker of None \<Rightarrow> [] | Some m \<Rightarrow> wa_to_string_lossy A m);
                start = start_position W (wf_names fs) children marker
             in (case append_children A store fs (drop start children) buffer of
                   (Inl e, buffer) \<Rightarrow> (Inl e, buffer)
                 | (Inr _, buffer) \<Rightarrow> let buffer = finalize buffer in (Inr (cursor buffer), buffer))))"

definition winfsp_read ::
  "prims \<Rightarrow> winfsp_fs \<Rightarrow> fs_node \<Rightarrow> bytes \<Rightarrow> u64 \<Rightarrow> cache \<Rightarrow> (nt_status + u32) \<times> bytes \<times> cache" where
  "winfsp_read P fs context' buffer offset c =
     (if n_kind context' = NodeDirectory then (Inl STATUS_FILE_IS_A_DIRECTORY, buffer, c)
      else
        let requested = (if length buffer < 2 ^ 32 then of_nat (length buffer) else - 1)
         in (case fs_read P (wf_opened fs) (n_id context') offset requested c of
               (Inl e, c) \<Rightarrow> (Inl (map_error e), buffer, c)
             | (Inr plaintext, c) \<Rightarrow> (Inr (of_nat (length plaintext)), write_bytes 0 plaintext buffer, c)))"

end
