(* ===== verification/WinFspProofs.thy ===== *)
theory WinFspProofs
  imports WinFsp
begin

text \<open>
  What the mount shows of an accepted index: the walk names every node once and its total is exact,
  a display path resolves to its node, a directory is listed completely page by page, and a read
  gives the bytes of the file.
\<close>

section \<open>The walk\<close>

definition kids :: "entry list \<Rightarrow> fs_node \<Rightarrow> fs_node list" where
  "kids es n = (if n_kind n = NodeDirectory then child_nodes es (n_id n) else [])"

definition file_bytes :: "fs_node \<Rightarrow> nat" where
  "file_bytes n = (if n_kind n = NodeDirectory then 0 else unat (n_size n))"

definition walk_inv :: "entry list \<Rightarrow> fs_node \<Rightarrow> fs_node list \<Rightarrow> nat \<Rightarrow> u64 \<Rightarrow> bool" where
  "walk_inv es root nodes cursor acc \<longleftrightarrow>
     nodes = root # concat (map (kids es) (take cursor nodes)) \<and> distinct (map n_id nodes) \<and>
     set nodes \<subseteq> node_of_entry ` set es \<and> cursor \<le> length nodes \<and>
     unat acc = sum_list (map file_bytes (take cursor nodes))"

lemma node_inj:
  assumes "index_ok h es" "x \<in> node_of_entry ` set es" "y \<in> node_of_entry ` set es" "n_id x = n_id y"
  shows "x = y"
  using assms index_distinct [OF assms(1)] by (auto simp: distinct_map dest: inj_onD)

lemma kids_entry:
  "k \<in> set (kids es n) \<Longrightarrow> \<exists>e \<in> set es. k = node_of_entry e \<and> e_id e \<noteq> 1 \<and> n_parent_id k = n_id n \<and> n_kind n = NodeDirectory"
  by (auto simp: kids_def set_child_nodes split: if_splits)

lemma walk_inv_fresh:
  assumes ok: "index_ok h es" and inv: "walk_inv es root nodes cursor acc" and root: "n_id root = 1"
    and c: "cursor < length nodes" and k: "k \<in> set (kids es (nodes ! cursor))" and m: "m \<in> set nodes"
  shows "n_id k \<noteq> n_id m"
proof
  assume eq: "n_id k = n_id m"
  from kids_entry [OF k] have k': "k \<in> node_of_entry ` set es" "n_id k \<noteq> 1" "n_parent_id k = n_id (nodes ! cursor)"
    by auto
  with node_inj [OF ok] eq m inv have km: "k = m" unfolding walk_inv_def by blast
  from inv have nodes: "nodes = root # concat (map (kids es) (take cursor nodes))" unfolding walk_inv_def by blast
  have "m \<in> set (root # concat (map (kids es) (take cursor nodes)))" using m nodes by metis
  moreover have "m \<noteq> root" using km k'(2) root by auto
  ultimately obtain n where n: "n \<in> set (take cursor nodes)" "m \<in> set (kids es n)" by auto
  from kids_entry [OF n(2)] k'(3) km have "n_id n = n_id (nodes ! cursor)" by auto
  moreover from n(1) c obtain j where j: "j < cursor" "n = nodes ! j" by (auto simp: in_set_conv_nth)
  moreover have "distinct (map n_id nodes)" using inv unfolding walk_inv_def by blast
  ultimately show False using c nth_eq_iff_index_eq [of "map n_id nodes" j cursor] by simp
qed

lemma walk_inv_step:
  assumes ok: "index_ok h es" and inv: "walk_inv es root nodes cursor acc" and root: "n_id root = 1"
    and c: "cursor < length nodes" and tot': "unat total' = unat acc + file_bytes (nodes ! cursor)"
  shows "walk_inv es root (nodes @ kids es (nodes ! cursor)) (Suc cursor) total'"
proof -
  let ?k = "kids es (nodes ! cursor)"
  from inv have nodes: "nodes = root # concat (map (kids es) (take cursor nodes))" and dist: "distinct (map n_id nodes)"
    and sub: "set nodes \<subseteq> node_of_entry ` set es" unfolding walk_inv_def by blast+
  have tk: "take (Suc cursor) (nodes @ ?k) = take cursor nodes @ [nodes ! cursor]"
    using c by (simp add: take_Suc_conv_app_nth)
  have "nodes @ ?k = root # concat (map (kids es) (take (Suc cursor) (nodes @ ?k)))"
    unfolding tk using nodes by simp
  moreover have "distinct (map n_id ?k)" by (simp add: kids_def child_nodes_distinct [OF ok])
  then have "distinct (map n_id (nodes @ ?k))"
    using dist walk_inv_fresh [OF ok inv root c] by fastforce
  moreover have "set (nodes @ ?k) \<subseteq> node_of_entry ` set es" using sub kids_entry [of _ es "nodes ! cursor"] by auto
  moreover have "unat total' = sum_list (map file_bytes (take (Suc cursor) (nodes @ ?k)))"
    unfolding tk using inv tot' by (simp add: walk_inv_def)
  moreover have "Suc cursor \<le> length (nodes @ ?k)" using c by simp
  ultimately show ?thesis unfolding walk_inv_def by blast
qed

text \<open>The sizes of distinct nodes of the index stay below the total of its files.\<close>

definition plain_bytes :: "entry list \<Rightarrow> nat" where
  "plain_bytes es = sum_list (map (\<lambda>e. unat (e_size e)) (files_of es))"

lemma sum_file_bytes:
  assumes "distinct (map e_id es)"
  shows "sum file_bytes (node_of_entry ` set es) = plain_bytes es"
proof -
  have inj: "inj_on node_of_entry (set es)"
    using assms by (auto simp: distinct_map inj_on_def) (metis node_of_entry_simps(1))
  have "sum file_bytes (node_of_entry ` set es) = sum (\<lambda>e. if e_kind e = Directory then 0 else unat (e_size e)) (set es)"
    by (simp add: sum.reindex [OF inj] file_bytes_def cong: if_cong)
  also have "\<dots> = sum (\<lambda>e. unat (e_size e)) {e \<in> set es. e_kind e = File}"
    by (intro sum.mono_neutral_cong_right) (auto, metis entry_kind.exhaust)
  also have "{e \<in> set es. e_kind e = File} = set (files_of es)" by (auto simp: files_of_def)
  also have "distinct (files_of es)" using assms by (simp add: files_of_def distinct_map)
  then have "sum (\<lambda>e. unat (e_size e)) (set (files_of es)) = plain_bytes es"
    by (simp add: plain_bytes_def sum_list_distinct_conv_sum_set)
  finally show ?thesis .
qed

lemma walk_bytes_below:
  assumes ok: "index_ok h es" and sub: "set ns \<subseteq> node_of_entry ` set es" and dist: "distinct (map n_id ns)"
  shows "sum_list (map file_bytes ns) \<le> plain_bytes es"
proof -
  have "sum_list (map file_bytes ns) = sum file_bytes (set ns)"
    using dist by (simp add: distinct_map sum_list_distinct_conv_sum_set)
  also have "\<dots> \<le> sum file_bytes (node_of_entry ` set es)" using sub by (intro sum_mono2) auto
  finally show ?thesis using sum_file_bytes [OF index_distinct [OF ok]] by simp
qed

lemma walk_inv_length:
  assumes ok: "index_ok h es" and "walk_inv es root nodes cursor acc"
  shows "length nodes \<le> length es"
proof -
  have "distinct nodes" "set nodes \<subseteq> node_of_entry ` set es" using assms(2) by (auto simp: walk_inv_def distinct_map)
  then have "length nodes \<le> card (node_of_entry ` set es)"
    by (metis List.finite_set card_mono distinct_card finite_imageI)
  also have "\<dots> \<le> length es" by (metis card_image_le card_length le_trans List.finite_set)
  finally show ?thesis .
qed

text \<open>When the cursor has passed the last node every entry has been reached.\<close>

lemma walk_inv_complete:
  assumes ok: "index_ok h es" and inv: "walk_inv es root nodes (length nodes) acc" and root: "n_id root = 1"
    and e: "e \<in> set es"
  shows "node_of_entry e \<in> set nodes"
  using e
proof (induction "unat (e_depth e)" arbitrary: e rule: less_induct)
  case less
  from inv have nodes: "nodes = root # concat (map (kids es) nodes)" and sub: "set nodes \<subseteq> node_of_entry ` set es"
    by (auto simp: walk_inv_def)
  have root_in: "root \<in> set nodes" by (subst nodes) simp
  show ?case
  proof (cases "e_id e = 1")
    case True
    have "node_of_entry e = root"
      using True root root_in sub less.prems by (intro node_inj [OF ok]) auto
    with root_in show ?thesis by simp
  next
    case False
    obtain p where p: "p \<in> set es" "e_id p = e_parent_id e" "e_kind p = Directory" "unat (e_depth e) = unat (e_depth p) + 1"
      using index_ok_parent [OF ok less.prems False] by blast
    with less.hyps have "node_of_entry p \<in> set nodes" by simp
    moreover have "node_of_entry e \<in> set (kids es (node_of_entry p))"
      using p False less.prems by (auto simp: kids_def set_child_nodes)
    ultimately have "node_of_entry e \<in> set (concat (map (kids es) nodes))" by auto
    then show ?thesis by (subst nodes) simp
  qed
qed

lemma collect_nodes_complete:
  assumes ok: "index_ok h es" and small: "plain_bytes es < 2 ^ 64" and root: "n_id root = 1"
    and "walk_inv es root nodes cursor acc" "length es - cursor < fuel"
  shows "\<exists>nodes' total'. collect_nodes fuel (index_tables es) nodes cursor acc = Some (Inr (nodes', total')) \<and>
    distinct (map n_id nodes') \<and> set nodes' = node_of_entry ` set es \<and> unat total' = plain_bytes es"
  using assms(4,5)
proof (induction fuel arbitrary: nodes cursor acc)
  case (Suc fuel)
  note inv = Suc.prems(1)
  then have sub: "set nodes \<subseteq> node_of_entry ` set es" and dist: "distinct (map n_id nodes)" and le: "cursor \<le> length nodes"
    by (auto simp: walk_inv_def)
  show ?case
  proof (cases "cursor < length nodes")
    case False
    with le have c: "cursor = length nodes" by simp
    with inv have all: "set nodes = node_of_entry ` set es" using sub walk_inv_complete [OF ok _ root] by blast
    have "unat acc = sum_list (map file_bytes nodes)" using inv c by (simp add: walk_inv_def)
    also have "\<dots> = plain_bytes es"
      using dist all sum_file_bytes [OF index_distinct [OF ok]] by (simp add: distinct_map sum_list_distinct_conv_sum_set)
    finally show ?thesis using False all dist by simp
  next
    case True
    let ?n = "nodes ! cursor"
    from True sub obtain e where e: "e \<in> set es" "?n = node_of_entry e" by (meson image_iff nth_mem subsetD)
    have fuel: "length es - Suc cursor < fuel" using Suc.prems(2) True walk_inv_length [OF ok inv] by linarith
    show ?thesis
    proof (cases "e_kind e = Directory")
      case dir: True
      then have k: "fs_read_dir (index_tables es) (n_id ?n) = Inr (kids es ?n)"
        using read_dir_nodes [OF ok e(1)] e(2) by (simp add: kids_def)
      have "unat acc = unat acc + file_bytes ?n" using dir e(2) by (simp add: file_bytes_def)
      from Suc.IH [OF walk_inv_step [OF ok inv root True this] fuel] show ?thesis
        using True k dir e(2) by simp
    next
      case plain: False
      have b: "file_bytes ?n = unat (n_size ?n)" and none: "kids es ?n = []" using plain e(2) by (simp_all add: file_bytes_def kids_def)
      have take: "take (Suc cursor) nodes = take cursor nodes @ [?n]" using True by (simp add: take_Suc_conv_app_nth)
      have "distinct (map n_id (take (Suc cursor) nodes))" using dist by (metis distinct_take take_map)
      then have "sum_list (map file_bytes (take (Suc cursor) nodes)) \<le> plain_bytes es"
        using sub set_take_subset [of "Suc cursor" nodes] by (intro walk_bytes_below [OF ok]) auto
      then have "unat acc + file_bytes ?n \<le> plain_bytes es" unfolding take using inv by (simp add: walk_inv_def)
      with small b have "unat acc + unat (n_size ?n) < 2 ^ 64" by simp
      then have "unat (of_nat (unat acc + unat (n_size ?n)) :: u64) = unat acc + unat (n_size ?n)"
        by (intro unat_of_nat_small) simp
      then obtain t where t: "checked_add acc (n_size ?n) = Some t" "unat t = unat acc + unat (n_size ?n)"
        using checked_add_eq_Some by blast
      with b have "unat t = unat acc + file_bytes ?n" by simp
      from Suc.IH [OF walk_inv_step [OF ok inv root True this] fuel] show ?thesis
        using True plain e(2) t(1) none by simp
    qed
  qed
qed simp

section \<open>A mounted index\<close>

definition mounted :: "windows_ordinal \<Rightarrow> winfsp_fs \<Rightarrow> entry list \<Rightarrow> bool" where
  "mounted W fs es \<longleftrightarrow>
     opened_ok (wf_opened fs) es \<and> unat (wf_total_size fs) = plain_bytes es \<and>
     (\<forall>e \<in> set es. e_id e \<noteq> 1 \<longrightarrow>
        name_map_lookup W (wf_names fs) (e_parent_id e) (name_map_name (wf_names fs) (node_of_entry e)) = Some (e_id e) \<and>
        plain_display (name_map_name (wf_names fs) (node_of_entry e)))"

lemma opened_ok_index: "opened_ok opened es \<Longrightarrow> oc_index opened = index_tables es \<and> index_ok (oc_header opened) es"
  by (simp add: opened_ok_def)

lemma plain_bytes_small:
  assumes "opened_ok opened es"
  shows "plain_bytes es < 2 ^ 64"
proof -
  obtain tot where "total_size '''' (file_entries (oc_index opened)) = Inr tot" using total_size_fits [OF assms] by blast
  then have "unat tot = sum_list (map (\<lambda>e. unat (e_size e)) (sort_key e_data_offset (files_of es)))"
    using assms by (simp add: total_size_eq_Inr opened_ok_def file_entries_index_tables)
  also have "\<dots> = plain_bytes es"
    unfolding plain_bytes_def using arg_cong [OF mset_sort, of "\<lambda>m. sum_mset (image_mset (\<lambda>e. unat (e_size e)) m)" e_data_offset "files_of es"]
    by (simp only: mset_map [symmetric] sum_mset_sum_list)
  finally show ?thesis using unat_u64_bound [of tot] by simp
qed

lemma root_metadata:
  assumes "opened_ok opened es"
  obtains r where "r \<in> set es" "e_id r = 1" "fs_node_metadata (oc_index opened) 1 = Inr (node_of_entry r)"
proof -
  from opened_ok_index [OF assms] obtain r where "r \<in> set es" "e_id r = 1" by (auto simp: index_ok_def)
  with node_metadata_entry [of "oc_header opened" es r] opened_ok_index [OF assms] that show thesis by auto
qed

text \<open>The mount of a container that opened comes to its end.\<close>

lemma winfsp_from_mounted:
  assumes W: "ordinal_ok W" and ok: "opened_ok opened es"
    and fuel: "2 * length es + unat MAX_DEPTH + 2 \<le> fuel" "fuel < 2 ^ 64"
  shows "\<exists>fs. winfsp_from W fuel opened modified (Inr descriptor) = Some (Inr fs) \<and> mounted W fs es \<and>
    wf_opened fs = opened \<and> wf_identity fs = mount_identity_of (fs_container_id opened) modified \<and>
    wf_security_descriptor fs = descriptor"
proof -
  let ?h = "oc_header opened"
  have idx: "oc_index opened = index_tables es" "index_ok ?h es" using opened_ok_index [OF ok] by auto
  obtain r where r: "r \<in> set es" "e_id r = 1" "fs_node_metadata (oc_index opened) 1 = Inr (node_of_entry r)"
    using root_metadata [OF ok] .
  have "walk_inv es (node_of_entry r) [node_of_entry r] 0 0" using r(1) by (simp add: walk_inv_def)
  moreover have "length es - 0 < fuel" using fuel(1) r(1) by (cases es) auto
  ultimately obtain nodes tot where nodes: "collect_nodes fuel (oc_index opened) [node_of_entry r] 0 0 = Some (Inr (nodes, tot))"
    "distinct (map n_id nodes)" "set nodes = node_of_entry ` set es" "unat tot = plain_bytes es"
    using collect_nodes_complete [OF idx(2) plain_bytes_small [OF ok], of "node_of_entry r" "[node_of_entry r]" 0 0 fuel] r(2) idx(1)
    by auto
  have "length nodes = card (node_of_entry ` set es)" using nodes(2,3) by (metis distinct_card distinct_map)
  also have "\<dots> = card (set es)"
    using index_distinct [OF idx(2)] by (intro card_image) (metis distinct_map inj_on_def node_of_entry_simps(1))
  also have "\<dots> = length es" using index_distinct [OF idx(2)] by (metis distinct_card distinct_map)
  finally obtain m where m: "name_map_new W fuel nodes = Some m" "\<And>e. e \<in> set es \<Longrightarrow> e_id e \<noteq> 1 \<Longrightarrow>
      name_map_lookup W m (e_parent_id e) (name_map_name m (node_of_entry e)) = Some (e_id e) \<and>
      plain_display (name_map_name m (node_of_entry e))"
    using tree_names_complete [OF W idx(2) fuel _ nodes(2,3)] by blast
  let ?fs = "\<lparr>wf_opened = opened, wf_names = m, wf_total_size = tot, wf_security_descriptor = descriptor,
      wf_identity = mount_identity_of (fs_container_id opened) modified\<rparr>"
  have "winfsp_from W fuel opened modified (Inr descriptor) = Some (Inr ?fs)"
    by (simp add: winfsp_from_def r(3) nodes(1) m(1))
  moreover have "mounted W ?fs es" using ok nodes(4) m(2) by (simp add: mounted_def)
  ultimately show ?thesis by (intro exI [of _ ?fs]) simp
qed

section \<open>Paths\<close>

text \<open>The display names from below the root down to an entry.\<close>

fun display_components :: "entry list \<Rightarrow> name_map \<Rightarrow> nat \<Rightarrow> u64 \<Rightarrow> string list" where
  "display_components es m 0 i = []"
| "display_components es m (Suc n) i =
     (case map_of (vi_entries (index_tables es)) i of
        None \<Rightarrow> []
      | Some e \<Rightarrow> display_components es m n (e_parent_id e) @ [name_map_name m (node_of_entry e)])"

definition windows_path :: "entry list \<Rightarrow> name_map \<Rightarrow> entry \<Rightarrow> string" where
  "windows_path es m e = CHR 0x5C # join_backslash (display_components es m (unat (e_depth e)) (e_id e))"

lemma split_backslash_not_Nil [simp]: "split_backslash s \<noteq> []"
  by (induction s) (auto split: list.splits)

lemma split_backslash_append: "CHR 0x5C \<notin> set p \<Longrightarrow> split_backslash (p @ CHR 0x5C # s) = p # split_backslash s"
  by (induction p) auto

lemma split_backslash_plain: "CHR 0x5C \<notin> set p \<Longrightarrow> split_backslash p = [p]"
  by (induction p) auto

lemma split_join_backslash:
  "\<forall>c \<in> set cs. c \<noteq> [] \<and> CHR 0x5C \<notin> set c \<Longrightarrow> filter (\<lambda>part. part \<noteq> []) (split_backslash (join_backslash cs)) = cs"
  by (induction cs rule: join_backslash.induct) (auto simp: split_backslash_append split_backslash_plain)

lemma resolve_components_append:
  "resolve_components W names (xs @ ys) i = bindE (resolve_components W names xs i) (resolve_components W names ys)"
  by (induction xs arbitrary: i) (auto split: option.splits)

lemma plain_display_no_backslash: "plain_display s \<Longrightarrow> s \<noteq> [] \<and> CHR 0x5C \<notin> set s"
proof -
  assume s: "plain_display s"
  have "forbidden_char (CHR 0x5C)" by (simp add: forbidden_char_def code_def)
  with s show ?thesis unfolding plain_display_def list_ex_iff by blast
qed

lemma resolve_display_components:
  assumes m: "mounted W fs es" and e: "e \<in> set es"
  shows "resolve_components W (wf_names fs) (display_components es (wf_names fs) (unat (e_depth e)) (e_id e)) 1 = Inr (e_id e) \<and>
    (\<forall>c \<in> set (display_components es (wf_names fs) (unat (e_depth e)) (e_id e)). c \<noteq> [] \<and> CHR 0x5C \<notin> set c)"
  using e
proof (induction "unat (e_depth e)" arbitrary: e)
  case 0
  have ok: "index_ok (oc_header (wf_opened fs)) es" using m opened_ok_index by (auto simp: mounted_def)
  have "e_id e = 1" using index_ok_parent [OF ok 0(2)] 0(1) by (metis add_is_0 one_neq_zero)
  then show ?case using 0(1) by simp
next
  case (Suc n)
  have ok: "index_ok (oc_header (wf_opened fs)) es" using m opened_ok_index by (auto simp: mounted_def)
  have "e_id e \<noteq> 1" using ok Suc.prems Suc(2) by (auto simp: index_ok_def entry_ok_def)
  then obtain p where p: "p \<in> set es" "e_id p = e_parent_id e" "unat (e_depth e) = unat (e_depth p) + 1"
    using index_ok_parent [OF ok Suc.prems] by metis
  have dp: "n = unat (e_depth p)" using Suc(2) p(3) by simp
  have me: "map_of (vi_entries (index_tables es)) (e_id e) = Some e"
    using map_of_entries [OF index_distinct [OF ok]] Suc.prems by (simp add: index_tables_def)
  have name: "name_map_lookup W (wf_names fs) (e_parent_id e) (name_map_name (wf_names fs) (node_of_entry e)) = Some (e_id e)"
    "plain_display (name_map_name (wf_names fs) (node_of_entry e))"
    using m Suc.prems \<open>e_id e \<noteq> 1\<close> by (auto simp: mounted_def)
  have comps: "display_components es (wf_names fs) (unat (e_depth e)) (e_id e) =
      display_components es (wf_names fs) n (e_id p) @ [name_map_name (wf_names fs) (node_of_entry e)]"
    unfolding Suc(2) [symmetric] by (simp add: me p(2))
  show ?case
    unfolding comps using Suc.hyps(1) [OF dp p(1)] name p(2) plain_display_no_backslash [OF name(2)]
    by (simp add: resolve_components_append dp)
qed

lemma resolve_display_path:
  assumes m: "mounted W fs es" and e: "e \<in> set es" and name: "wa_to_string_lossy A name = windows_path es (wf_names fs) e"
  shows "resolve W A fs name = Inr (node_of_entry e)"
proof -
  have ok: "opened_ok (wf_opened fs) es" using m by (simp add: mounted_def)
  note idx = opened_ok_index [OF ok]
  let ?cs = "display_components es (wf_names fs) (unat (e_depth e)) (e_id e)"
  have "filter (\<lambda>part. part \<noteq> []) (split_backslash (wa_to_string_lossy A name)) = ?cs"
    unfolding name windows_path_def using split_join_backslash [of ?cs] resolve_display_components [OF m e] by simp
  then show ?thesis
    using resolve_display_components [OF m e] node_metadata_entry [of "oc_header (wf_opened fs)" es e] idx e
    by (simp add: resolve_def Let_def map_err_def)
qed

text \<open>And a path that resolves leads to an entry of the index.\<close>

lemma resolve_entry:
  assumes m: "mounted W fs es" and "resolve W A fs name = Inr n"
  shows "\<exists>e \<in> set es. n = node_of_entry e"
proof -
  have ok: "opened_ok (wf_opened fs) es" using m by (simp add: mounted_def)
  from assms(2) obtain i where "fs_node_metadata (oc_index (wf_opened fs)) i = Inr n"
    by (auto simp: resolve_def Let_def result_simps)
  with node_metadata_iff [of "oc_header (wf_opened fs)" es i n] opened_ok_index [OF ok] show ?thesis by auto
qed

section \<open>Listings\<close>

lemma mset_sort_display: "mset (sort_display W m ns) = mset ns"
proof -
  have "mset (insert_display W m x ys) = add_mset x (mset ys)" for x ys by (induction ys) auto
  then show ?thesis unfolding sort_display_def by (induction ns) simp_all
qed

text \<open>No two entries of a directory have display names the comparison takes for equal.\<close>

lemma siblings_apart:
  assumes W: "ordinal_ok W" and m: "mounted W fs es"
    and e: "e \<in> set es" "e_id e \<noteq> 1" and f: "f \<in> set es" "e_id f \<noteq> 1" and parent: "e_parent_id e = e_parent_id f"
    and eq: "equivalent W (name_map_name (wf_names fs) (node_of_entry e)) (name_map_name (wf_names fs) (node_of_entry f))"
  shows "e_id e = e_id f"
proof -
  have "ordinal_name_eq W (ordinal_name_new W (name_map_name (wf_names fs) (node_of_entry e)))
      (ordinal_name_new W (name_map_name (wf_names fs) (node_of_entry f)))"
    using eq by (simp add: equivalent_def ordinal_compare_def ordinal_name_eq_def ordinal_name_new_def)
  from lookup_find_cong [OF W this, of "e_parent_id e" "wm_lookup (wf_names fs)"] m e f parent show ?thesis
    unfolding mounted_def name_map_lookup_def by (metis option.inject)
qed

lemma index_where_unique:
  "i < length xs \<Longrightarrow> Q (xs ! i) \<Longrightarrow> (\<And>j. j < length xs \<Longrightarrow> Q (xs ! j) \<Longrightarrow> j = i) \<Longrightarrow> index_where Q xs = Some i"
proof (induction xs arbitrary: i)
  case (Cons x xs)
  show ?case
  proof (cases i)
    case 0
    with Cons.prems show ?thesis by simp
  next
    case (Suc j)
    have "\<not> Q x" using Cons.prems(3) [of 0] Suc by auto
    moreover have "index_where Q xs = Some j"
    proof (rule Cons.IH)
      show "j < length xs" "Q (xs ! j)" using Cons.prems(1,2) Suc by simp_all
      show "k = j" if "k < length xs" "Q (xs ! k)" for k using Cons.prems(3) [of "Suc k"] that Suc by simp
    qed
    ultimately show ?thesis using Suc by simp
  qed
qed simp

definition display_children :: "windows_ordinal \<Rightarrow> winfsp_fs \<Rightarrow> entry list \<Rightarrow> u64 \<Rightarrow> fs_node list" where
  "display_children W fs es i = sort_display W (wf_names fs) (child_nodes es i)"

lemma display_children_facts:
  assumes "index_ok h es"
  shows "set (display_children W fs es i) = node_of_entry ` {e \<in> set es. e_id e \<noteq> 1 \<and> e_parent_id e = i}"
    "distinct (map n_id (display_children W fs es i))" "length (display_children W fs es i) \<le> length es"
proof -
  have m: "mset (display_children W fs es i) = mset (child_nodes es i)" by (simp add: display_children_def mset_sort_display)
  show "set (display_children W fs es i) = node_of_entry ` {e \<in> set es. e_id e \<noteq> 1 \<and> e_parent_id e = i}"
    using mset_eq_setD [OF m] by (simp add: set_child_nodes)
  show "distinct (map n_id (display_children W fs es i))"
    using child_nodes_distinct [OF assms, of i] mset_eq_imp_distinct_iff [of "map n_id (display_children W fs es i)" "map n_id (child_nodes es i)"] m
    by simp
  show "length (display_children W fs es i) \<le> length es"
    using mset_eq_length [OF m] by (simp add: child_nodes_length children_of_def)
qed

lemma start_position_child:
  assumes W: "ordinal_ok W" and m: "mounted W fs es" and i: "i < length (display_children W fs es d)"
  shows "start_position W (wf_names fs) (display_children W fs es d)
    (name_map_name (wf_names fs) (display_children W fs es d ! i)) = Suc i"
proof -
  let ?L = "display_children W fs es d" and ?name = "name_map_name (wf_names fs)"
  have ok: "index_ok (oc_header (wf_opened fs)) es" using m opened_ok_index by (auto simp: mounted_def)
  note facts = display_children_facts [OF ok, of W fs d]
  have entry: "\<exists>e. ?L ! j = node_of_entry e \<and> e \<in> set es \<and> e_id e \<noteq> 1 \<and> e_parent_id e = d" if "j < length ?L" for j
    using nth_mem [OF that] unfolding facts(1) by auto
  from entry [OF i] obtain e where e: "?L ! i = node_of_entry e" "e \<in> set es" "e_id e \<noteq> 1" "e_parent_id e = d" by blast
  then have "?name (?L ! i) \<noteq> []" using m by (simp add: mounted_def plain_display_def)
  moreover have "index_where (\<lambda>child. equivalent W (?name child) (?name (?L ! i))) ?L = Some i"
  proof (rule index_where_unique [OF i])
    show "equivalent W (?name (?L ! i)) (?name (?L ! i))"
      using ordinal_okD(1) [OF W] by (auto simp: equivalent_def ordinal_compare_def ordinal_name_eq_def) (metis ordinal_name.select_convs(1))
    fix j assume j: "j < length ?L" "equivalent W (?name (?L ! j)) (?name (?L ! i))"
    from entry [OF j(1)] obtain f where f: "?L ! j = node_of_entry f" "f \<in> set es" "e_id f \<noteq> 1" "e_parent_id f = d" by blast
    have "e_id f = e_id e" using siblings_apart [OF W m f(2,3) e(2,3)] j(2) e f by simp
    with e f have "map n_id ?L ! j = map n_id ?L ! i" using i j(1) by simp
    with nth_eq_iff_index_eq [OF facts(2), of j i] i j(1) show "j = i" by simp
  qed
  ultimately show ?thesis by (simp add: start_position_def)
qed

text \<open>WinFsp's side: a name within the limit of a component is stored and read back as it is.\<close>

definition api_ok :: "winfsp_api \<Rightarrow> bool" where
  "api_ok A \<longleftrightarrow> (\<forall>s. utf16_count s \<le> 255 \<longrightarrow>
     (\<exists>units. wa_set_name A s = Inr units \<and> wa_to_string_lossy A units = s))"

definition store_add :: "(dir_info \<Rightarrow> 'b \<Rightarrow> bool \<times> 'b) \<Rightarrow> (dir_info, 'b) buffer_add" where
  "store_add store e b = (case store e b of (stored, b) \<Rightarrow> (\<not> stored, b))"

definition dir_info_of :: "winfsp_api \<Rightarrow> winfsp_fs \<Rightarrow> fs_node \<Rightarrow> dir_info" where
  "dir_info_of A fs child =
     \<lparr>di_file_info = fill_info child (mi_snapshot_time (wf_identity fs)),
      di_name = projr (wa_set_name A (name_map_name (wf_names fs) child))\<rparr>"

lemma append_children_fill:
  assumes "\<And>c. c \<in> set cs \<Longrightarrow> \<exists>units. wa_set_name A (name_map_name (wf_names fs) c) = Inr units"
  shows "append_children A store fs cs b = (Inr (), fill_buffer (store_add store) (map (dir_info_of A fs) cs) b)"
  using assms
proof (induction cs arbitrary: b)
  case (Cons c cs)
  then obtain units where "wa_set_name A (name_map_name (wf_names fs) c) = Inr units" by fastforce
  with Cons show ?case by (simp add: dir_info_of_def store_add_def split: prod.split)
qed simp

definition directory_page ::
  "windows_ordinal \<Rightarrow> winfsp_api \<Rightarrow> (dir_info \<Rightarrow> 'b \<Rightarrow> bool \<times> 'b) \<Rightarrow> ('b \<Rightarrow> 'b) \<Rightarrow> ('b \<Rightarrow> u32) \<Rightarrow> ('b \<Rightarrow> dir_info list) \<Rightarrow> 'b \<Rightarrow>
     winfsp_fs \<Rightarrow> fs_node \<Rightarrow> u16 list option \<Rightarrow> dir_info list" where
  "directory_page W A store finalize cursor entries blank fs node marker =
     (case read_directory W A store finalize cursor fs node marker blank of
        (Inl _, _) \<Rightarrow> [] | (Inr _, buffer) \<Rightarrow> entries buffer)"

lemma read_directory_from:
  assumes m: "mounted W fs es" and d: "d \<in> set es" "e_kind d = Directory" and A: "api_ok A"
    and start: "start_position W (wf_names fs) (display_children W fs es (e_id d))
      (case marker of None \<Rightarrow> [] | Some u \<Rightarrow> wa_to_string_lossy A u) = i"
  shows "read_directory W A store finalize cursor fs (node_of_entry d) marker b =
    (let b = finalize (fill_buffer (store_add store) (drop i (map (dir_info_of A fs) (display_children W fs es (e_id d)))) b)
     in (Inr (cursor b), b))"
proof -
  let ?L = "display_children W fs es (e_id d)"
  have ok: "index_ok (oc_header (wf_opened fs)) es" "oc_index (wf_opened fs) = index_tables es"
    using m opened_ok_index by (auto simp: mounted_def)
  have names: "\<exists>units. wa_set_name A (name_map_name (wf_names fs) c) = Inr units" if "c \<in> set (drop i ?L)" for c
  proof -
    from in_set_dropD [OF that] obtain e where "c = node_of_entry e" "e \<in> set es" "e_id e \<noteq> 1"
      unfolding display_children_facts(1) [OF ok(1)] by auto
    then have "utf16_count (name_map_name (wf_names fs) c) \<le> 255" using m by (simp add: mounted_def plain_display_def)
    with A show ?thesis unfolding api_ok_def by blast
  qed
  have dir: "fs_read_dir (oc_index (wf_opened fs)) (n_id (node_of_entry d)) = Inr (child_nodes es (e_id d))"
    using read_dir_nodes [OF ok(1) d(1)] d(2) ok(2) by simp
  show ?thesis
    unfolding read_directory_def dir using d(2) start append_children_fill [where cs = "drop i ?L" and store = store and b = b, OF names]
    by (simp add: Let_def drop_map flip: display_children_def)
qed

text \<open>Whatever the size of WinFsp's buffer, asking again with the last name until nothing comes lists
  every entry of the directory once, in the order shown.\<close>

lemma directory_complete:
  assumes W: "ordinal_ok W" and m: "mounted W fs es" and d: "d \<in> set es" "e_kind d = Directory" and A: "api_ok A"
    and buffer: "buffer_ok (store_add store) entries" "entries blank = []" "\<And>e. fst (store e blank)"
      "\<And>b. entries (finalize b) = entries b"
    and fuel: "length es < fuel"
  shows "read_pages fuel (directory_page W A store finalize cursor entries blank fs (node_of_entry d)) (\<lambda>e. Some (di_name e)) None =
    map (dir_info_of A fs) (display_children W fs es (e_id d))"
proof -
  let ?L = "display_children W fs es (e_id d)"
  let ?D = "map (dir_info_of A fs) ?L"
  let ?at = "\<lambda>i. if i = 0 then None else Some (di_name (?D ! (i - 1)))"
  have ok: "index_ok (oc_header (wf_opened fs)) es" using m opened_ok_index by (auto simp: mounted_def)
  note facts = display_children_facts [OF ok, of W fs "e_id d"]
  have lossy: "wa_to_string_lossy A (di_name (?D ! i)) = name_map_name (wf_names fs) (?L ! i)" if "i < length ?L" for i
  proof -
    from nth_mem [OF that] obtain e where "?L ! i = node_of_entry e" "e \<in> set es" "e_id e \<noteq> 1" unfolding facts(1) by auto
    then have "utf16_count (name_map_name (wf_names fs) (?L ! i)) \<le> 255" using m by (simp add: mounted_def plain_display_def)
    with A that show ?thesis by (auto simp: api_ok_def dir_info_of_def)
  qed
  have start: "start_position W (wf_names fs) ?L (case ?at i of None \<Rightarrow> [] | Some u \<Rightarrow> wa_to_string_lossy A u) = i"
    if "i \<le> length ?L" for i
  proof (cases i)
    case 0
    then show ?thesis by (simp add: start_position_def)
  next
    case (Suc j)
    with that have j: "j < length ?L" by simp
    with Suc show ?thesis using start_position_child [OF W m j] lossy [OF j] by simp
  qed
  have "read_pages fuel (directory_page W A store finalize cursor entries blank fs (node_of_entry d)) (\<lambda>e. Some (di_name e)) (?at 0) =
      drop 0 ?D"
  proof (rule read_pages_all [where at = ?at])
    fix i assume i: "i \<le> length ?D"
    let ?rest = "drop i ?D"
    from fill_buffer_prefix [OF buffer(1), of ?rest blank] obtain k where
      k: "entries (fill_buffer (store_add store) ?rest blank) = take k ?rest"
      "k = 0 \<and> ?rest \<noteq> [] \<longrightarrow> fst (store_add store (hd ?rest) blank)" using buffer(2) by auto
    have page: "directory_page W A store finalize cursor entries blank fs (node_of_entry d) (?at i) = take k ?rest"
      unfolding directory_page_def using read_directory_from [OF m d A start, of i store finalize cursor blank] i k(1) buffer(4)
      by (simp add: Let_def)
    have "0 < k" if "i < length ?D"
    proof (rule ccontr)
      assume "\<not> 0 < k"
      with k(2) that have "fst (store_add store (hd ?rest) blank)" by simp
      with buffer(3) [of "hd ?rest"] show False by (cases "store (hd ?rest) blank") (simp add: store_add_def)
    qed
    with page show "\<exists>k. (i < length ?D \<longrightarrow> 0 < k) \<and>
        directory_page W A store finalize cursor entries blank fs (node_of_entry d) (?at i) = take k ?rest" by blast
  qed (use facts(3) fuel in simp_all)
  then show ?thesis by simp
qed

lemma directory_ids:
  assumes "index_ok h es"
  shows "mset (map (\<lambda>e. fi_index_number (di_file_info e)) (map (dir_info_of A fs) (display_children W fs es i))) =
    mset (map e_id (children_of es i))"
proof -
  have "map (\<lambda>e. fi_index_number (di_file_info e)) (map (dir_info_of A fs) xs) = map n_id xs" for xs
    by (simp add: dir_info_of_def fill_info_def)
  from this [of "display_children W fs es i"] show ?thesis
    using child_nodes_ids [of es i] by (simp only: mset_map) (simp add: display_children_def mset_sort_display)
qed

section \<open>Reads\<close>

text \<open>A read fills the front of the caller's buffer with the bytes of the range and says how many.\<close>

lemma winfsp_read_content:
  assumes st: "content_stored P (wf_opened fs) es content" and c: "cached_ok es content c"
    and e: "e \<in> set (files_of es)" and buffer: "0 < length buffer" "length buffer < 2 ^ 32"
  shows "\<exists>c'. winfsp_read P fs (node_of_entry e) buffer offset c =
      (Inr (of_nat (length (slice (unat offset) (length buffer) (content e)))),
       slice (unat offset) (length buffer) (content e) @
         drop (length (slice (unat offset) (length buffer) (content e))) buffer, c') \<and> cached_ok es content c'"
proof -
  let ?sz = "of_nat (length buffer) :: u32" and ?s = "slice (unat offset) (length buffer) (content e)"
  have sz: "unat ?sz = length buffer" using buffer(2) by (intro unat_of_nat_small) simp
  then have "?sz \<noteq> 0" using buffer(1) by (metis less_irrefl unat_0)
  then obtain r c' where run: "fs_read P (wf_opened fs) (e_id e) offset ?sz c = (r, c')" and r: "r = Inr ?s" "cached_ok es content c'"
    using fs_read_content [OF st c e, of ?sz offset] sz by (cases "fs_read P (wf_opened fs) (e_id e) offset ?sz c") auto
  have "e_kind e \<noteq> Directory" using e by (auto simp: files_of_def)
  moreover have "length buffer < 4294967296" using buffer(2) by simp
  ultimately show ?thesis
    using run r by (simp add: winfsp_read_def write_bytes_def)
qed

section \<open>Sizes and times\<close>

text \<open>The allocation size is the size rounded up to whole clusters; it cannot wrap.\<close>

lemma allocation_size_exact:
  assumes ok: "opened_ok opened es" and e: "e \<in> set es"
  shows "unat (fi_allocation_size (fill_info (node_of_entry e) t)) = (unat (e_size e) + 4095) div 4096 * 4096"
proof -
  have "unat (e_size e) + HEADER_SIZE \<le> 2 ^ 64"
  proof (cases "e_kind e = File")
    case True
    have "unat (e_size e) \<le> unat (e_encrypted_size e)"
      using file_entry_sizes(2) [of e] opened_ok_entry [OF ok e] True by simp
    moreover have "unat (e_data_offset e) + unat (e_encrypted_size e) \<le> unat (h_data_size (oc_header opened))"
      using index_ok_regions(1) [of "oc_header opened" es e] ok e True by (simp add: opened_ok_def)
    ultimately show ?thesis using ok by (simp add: opened_ok_def)
  next
    case False
    then have "e_size e = 0" using opened_ok_entry [OF ok e] by (cases "e_kind e") (auto simp: entry_ok_def)
    then show ?thesis by (simp add: HEADER_SIZE_def)
  qed
  then have small: "unat (e_size e) + 4096 \<le> 18446744073709551616" by (simp add: HEADER_SIZE_def)
  have c: "unat (div_ceil (e_size e) 4096) = (unat (e_size e) + 4095) div 4096"
    using div_ceil_spec [of 4096 "e_size e"] by simp
  have "(unat (e_size e) + 4095) div 4096 * 4096 \<le> unat (e_size e) + 4095" by simp
  with small have "unat (div_ceil (e_size e) 4096) * unat (4096 :: u64) < 18446744073709551616" unfolding c by simp
  then have "unat (div_ceil (e_size e) 4096 * 4096) = unat (div_ceil (e_size e) 4096) * 4096"
    by (subst unat_mul_exact) simp_all
  then show ?thesis by (simp add: fill_info_def c)
qed

lemma volume_serial_nonzero: "volume_serial_number container_id \<noteq> 0"
  by (simp add: volume_serial_number_def Let_def)

lemma fallback_filetime_range:
  "unat (fallback_filetime container_id) =
     125911584000000000 + unat (from_le_bytes (take 8 container_id) :: u64) mod 6307200000000000 "
proof -
  have span: "FALLBACK_FILETIME_SPAN = 6307200000000000" by (simp add: FALLBACK_FILETIME_SPAN_def FILETIME_TICKS_PER_SECOND_def)
  let ?v = "unat (from_le_bytes (take 8 container_id) :: u64) mod 6307200000000000"
  have "?v < 6307200000000000" by simp
  then show ?thesis
    unfolding fallback_filetime_def span FALLBACK_FILETIME_BASE_def
    by (subst unat_add_exact) (simp_all add: unat_mod)
qed

lemma word_of_nat_exists: "n < 2 ^ 64 \<Longrightarrow> \<exists>w :: u64. unat w = n"
  by (intro exI [of _ "of_nat n"] unat_of_nat_small) simp

lemma filetime_ticks_exact:
  "duration_to_filetime_ticks d = Some v \<longleftrightarrow> unat v = unat (du_secs d) * 10000000 + unat (du_nanos d) div 100"
proof -
  have n: "unat (ucast (du_nanos d) div 100 :: u64) = unat (du_nanos d) div 100"
    by (simp add: unat_div)
  have t: "unat FILETIME_TICKS_PER_SECOND = 10000000" by (simp add: FILETIME_TICKS_PER_SECOND_def)
  have "\<exists>w :: u64. unat w = unat (du_secs d) * 10000000"
    if "unat v = unat (du_secs d) * 10000000 + unat (du_nanos d) div 100"
    using that unat_u64_bound [of v] by (intro word_of_nat_exists) simp
  then show ?thesis
    unfolding duration_to_filetime_ticks_def bind_eq_Some_conv checked_mul_eq_Some checked_add_eq_Some n t by auto metis
qed

text \<open>A time after the epoch converts exactly if its tick count fits; a time before it if it is not
  before 1601.\<close>

lemma filetime_since_exact:
  "system_time_to_filetime (SinceEpoch d) = Some v \<longleftrightarrow>
     unat v = 116444736000000000 + (unat (du_secs d) * 10000000 + unat (du_nanos d) div 100)"
proof -
  have base: "checked_mul WINDOWS_EPOCH_OFFSET_SECONDS FILETIME_TICKS_PER_SECOND = Some 116444736000000000"
    by (simp add: checked_mul_eq_Some WINDOWS_EPOCH_OFFSET_SECONDS_def FILETIME_TICKS_PER_SECOND_def)
  have "\<exists>w :: u64. unat w = unat (du_secs d) * 10000000 + unat (du_nanos d) div 100"
    if "unat v = 116444736000000000 + (unat (du_secs d) * 10000000 + unat (du_nanos d) div 100)"
    using that unat_u64_bound [of v] by (intro word_of_nat_exists) simp
  then show ?thesis
    by (auto simp: system_time_to_filetime_def base bind_eq_Some_conv filetime_ticks_exact checked_add_eq_Some) metis
qed

lemma filetime_before_exact:
  "system_time_to_filetime (BeforeEpoch d) = Some v \<longleftrightarrow>
     unat v + (unat (du_secs d) * 10000000 + unat (du_nanos d) div 100) = 116444736000000000"
proof -
  have base: "checked_mul WINDOWS_EPOCH_OFFSET_SECONDS FILETIME_TICKS_PER_SECOND = Some 116444736000000000"
    by (simp add: checked_mul_eq_Some WINDOWS_EPOCH_OFFSET_SECONDS_def FILETIME_TICKS_PER_SECOND_def)
  have "\<exists>w :: u64. unat w = unat (du_secs d) * 10000000 + unat (du_nanos d) div 100"
    if "unat v + (unat (du_secs d) * 10000000 + unat (du_nanos d) div 100) = 116444736000000000"
    using that by (intro word_of_nat_exists) simp
  then show ?thesis
    by (auto simp: system_time_to_filetime_def base bind_eq_Some_conv filetime_ticks_exact checked_sub_eq_Some)
      (metis add_diff_cancel_right' le_add2)
qed

end
