(* ===== verification/WinFspSession.thy ===== *)
theory WinFspSession
  imports WinFspProofs Calm
begin

text \<open>
  A running WinFsp mount (\<open>cipherfs-winfsp\<close>: \<open>lib.rs\<close>, \<open>mountpoint.rs\<close>, \<open>runtime.rs\<close>): finding the
  runtime, preparing a directory as mount point, choosing a drive letter, and a session that takes
  the mount down however it ends. The host is WinFsp's and a record of parameters. The model reads a
  reparse point as a symbolic link.
\<close>

unbundle bit_operations_syntax

section \<open>The runtime\<close>

text \<open>\<open>PathBuf::join\<close> of a relative path on Windows.\<close>

definition join_windows :: "string \<Rightarrow> string \<Rightarrow> string" where
  "join_windows dir rest =
     (if dir = [] \<or> last dir = CHR ''/'' \<or> last dir = CHR 0x5C then dir @ rest else dir @ CHR 0x5C # rest)"

text \<open>\<open>winfsp_init\<close> is tried before and after the library of the first registered installation is loaded;
  \<open>registry\<close> reads the \<open>InstallDir\<close> value of a key.\<close>

definition initialize_runtime ::
  "'e + 'i \<Rightarrow> (string \<Rightarrow> string option) \<Rightarrow> (string \<Rightarrow> unit result) \<Rightarrow> 'i result \<Rightarrow> 'i result" where
  "initialize_runtime first registry load again =
     (case first of
        Inr init \<Rightarrow> Inr init
      | Inl _ \<Rightarrow>
          bindE (context_opt ''WinFsp runtime is unavailable; install it from https://winfsp.dev/rel/''
            (case registry (''SOFTWARE'' @ [CHR 0x5C] @ ''WOW6432Node'' @ [CHR 0x5C] @ ''WinFsp'') of
               Some dir \<Rightarrow> Some dir | None \<Rightarrow> registry (''SOFTWARE'' @ [CHR 0x5C] @ ''WinFsp''))) (\<lambda>install_dir.
          bindE (context_err ''Unable to load the installed WinFsp runtime''
            (load (join_windows install_dir ''bin/winfsp-x64.dll''))) (\<lambda>_.
          context_err ''Unable to initialize the installed WinFsp runtime'' again)))"

section \<open>The mount point\<close>

text \<open>What the session asks of Windows: the drive letters in use, the absolute form of a path, and the
  names in a directory.\<close>

record windows_env =
  we_occupied :: u32
  we_absolute :: "string \<Rightarrow> path result"
  we_entries :: "disk \<Rightarrow> path \<Rightarrow> string list"

definition is_drive_letter :: "string \<Rightarrow> bool" where
  "is_drive_letter text \<longleftrightarrow> length text = 2 \<and> is_ascii_alphabetic (text ! 0) \<and> text ! 1 = CHR '':''"

definition drive_letter :: "nat \<Rightarrow> string" where
  "drive_letter i = [char_of (65 + i), CHR '':'']"

definition auto_drive_candidates :: "u32 \<Rightarrow> string list" where
  "auto_drive_candidates occupied =
     map drive_letter (filter (\<lambda>i. occupied AND push_bit i 1 = 0) (rev [3..<26]))"

text \<open>Every ancestor is opened without following a link and kept open.\<close>

definition prefixes :: "path \<Rightarrow> path list" where
  "prefixes p = map (\<lambda>n. take n p) [0..<Suc (length p)]"

definition open_guard :: "path \<Rightarrow> path io" where
  "open_guard current =
     bindM (contextM ''WinFsp mount parent does not exist'' (symlink_metadata current)) (\<lambda>_.
     bindM (symlink_metadata current) (\<lambda>metadata.
     if metadata \<noteq> DirNode then failM [Msg ''WinFsp mount path cannot traverse a reparse point'']
     else returnM current))"

definition open_ancestor_guards :: "path \<Rightarrow> path list io" where
  "open_ancestor_guards parent = mapM open_guard (prefixes parent)"

text \<open>\<open>remove_dir\<close> removes an empty directory.\<close>

definition remove_dir :: "windows_env \<Rightarrow> path \<Rightarrow> unit io" where
  "remove_dir E p = fs_call (\<lambda>w. (case w_disk w p of
     None \<Rightarrow> (Inl not_found, w)
   | Some DirNode \<Rightarrow>
       if we_entries E (w_disk w) p \<noteq> [] then (Inl [IoError ''The directory is not empty. (os error 145)''], w)
       else (Inr (), put_node p None w)
   | Some _ \<Rightarrow> (Inl not_a_directory, w)))"

definition list_dir :: "windows_env \<Rightarrow> path \<Rightarrow> string list io" where
  "list_dir E p = fs_call (\<lambda>w. (Inr (we_entries E (w_disk w) p), w))"

record prepared_mountpoint =
  pm_original_path :: path
  pm_mount_path :: path
  pm_ancestor_guards :: "path list"

definition create_or_there :: "path \<Rightarrow> unit io" where
  "create_or_there p w = (case create_new_dir p w of
     (Inr _, w') \<Rightarrow> (Inr (), w')
   | (Inl e, w') \<Rightarrow> if e = already_exists then (Inr (), w')
                  else (context_err ''Unable to create WinFsp mount directory'' (Inl e), w'))"

definition prepare_directory :: "windows_env \<Rightarrow> path \<Rightarrow> prepared_mountpoint io" where
  "prepare_directory E absolute =
     (if absolute = [] then liftE (context_opt ''WinFsp mount directory must have a parent'' None)
      else
        bindM (open_ancestor_guards (butlast absolute)) (\<lambda>ancestor_guards.
        bindM (create_or_there absolute) (\<lambda>_.
        bindM (symlink_metadata absolute) (\<lambda>metadata.
        bindM (liftE (ensureE (\<forall>t. metadata \<noteq> LinkNode t) [Msg ''WinFsp mount directory cannot be a reparse point''])) (\<lambda>_.
        bindM (list_dir E absolute) (\<lambda>entries.
        bindM (liftE (ensureE (entries = []) [Msg ''WinFsp mount directory must be empty''])) (\<lambda>_.
        bindM (contextM ''Unable to prepare the empty WinFsp mount directory'' (remove_dir E absolute)) (\<lambda>_.
        returnM \<lparr>pm_original_path = absolute, pm_mount_path = absolute, pm_ancestor_guards = ancestor_guards\<rparr>))))))))"

definition prepare_mountpoint :: "windows_env \<Rightarrow> string \<Rightarrow> prepared_mountpoint option io" where
  "prepare_mountpoint E text =
     (if eq_ignore_ascii_case text ''auto'' \<or> is_drive_letter text then returnM None
      else bindM (liftE (we_absolute E text)) (\<lambda>absolute.
        bindM (prepare_directory E absolute) (\<lambda>p. returnM (Some p))))"

text \<open>Dropping the guard puts the directory back.\<close>

definition prepared_drop :: "prepared_mountpoint \<Rightarrow> world \<Rightarrow> world" where
  "prepared_drop p w = snd (create_new_dir (pm_original_path p) w)"

section \<open>The session\<close>

record volume_params =
  vp_filesystem_name :: string
  vp_sector_size :: u16
  vp_sectors_per_allocation_unit :: u16
  vp_max_component_length :: u16
  vp_volume_creation_time :: u64
  vp_volume_serial_number :: u32
  vp_case_sensitive_search :: bool
  vp_case_preserved_names :: bool
  vp_unicode_on_disk :: bool
  vp_read_only_volume :: bool
  vp_persistent_acls :: bool

definition volume_params_of :: "mount_identity \<Rightarrow> volume_params" where
  "volume_params_of i =
     \<lparr>vp_filesystem_name = ''CipherFS'', vp_sector_size = 4096, vp_sectors_per_allocation_unit = 1,
      vp_max_component_length = 255, vp_volume_creation_time = mi_snapshot_time i,
      vp_volume_serial_number = mi_volume_serial_number i, vp_case_sensitive_search = False,
      vp_case_preserved_names = True, vp_unicode_on_disk = True, vp_read_only_volume = True,
      vp_persistent_acls = True\<rparr>"

text \<open>A mount point as the host takes it: a drive letter or other text, or a prepared directory.\<close>

datatype mount_target = TextTarget string | DirTarget path

record 'h host_api =
  ha_new :: "volume_params \<Rightarrow> winfsp_fs \<Rightarrow> 'h result"
  ha_start :: "'h \<Rightarrow> unit result \<times> 'h"
  ha_mount :: "mount_target \<Rightarrow> 'h \<Rightarrow> unit result \<times> 'h"
  ha_unmount :: "'h \<Rightarrow> 'h"
  ha_stop :: "'h \<Rightarrow> 'h"

definition filesystem_host :: "'h host_api \<Rightarrow> winfsp_fs \<Rightarrow> 'h result" where
  "filesystem_host H filesystem = ha_new H (volume_params_of (wf_identity filesystem)) filesystem"

record 'h mount_session =
  ms_host :: 'h
  ms_prepared :: "prepared_mountpoint option"
  ms_mount_path :: string
  ms_unmounted :: bool

fun mount_first :: "'h host_api \<Rightarrow> string list \<Rightarrow> error option \<Rightarrow> 'h \<Rightarrow> string result \<times> 'h" where
  "mount_first H [] last_error h =
     (Inl (case last_error of Some e \<Rightarrow> e | None \<Rightarrow> [Msg ''No free drive letters are available'']), h)"
| "mount_first H (candidate # rest) last_error h =
     (case ha_mount H (TextTarget candidate) h of
        (Inr _, h) \<Rightarrow> (Inr candidate, h)
      | (Inl e, h) \<Rightarrow> mount_first H rest (Some e) h)"

text \<open>Mounting the started host; a mount that fails stops it, and leaving the function drops the guard
  of a prepared directory.\<close>

definition mount_started ::
  "'h host_api \<Rightarrow> windows_env \<Rightarrow> string \<Rightarrow> 'h \<Rightarrow> world \<Rightarrow> 'h mount_session result \<times> 'h \<times> world" where
  "mount_started H E mountpoint h w =
     (let automatic = eq_ignore_ascii_case mountpoint ''auto'' in
      if automatic then
        (case mount_first H (auto_drive_candidates (we_occupied E)) None h of
           (Inr letter, h) \<Rightarrow> (Inr \<lparr>ms_host = h, ms_prepared = None, ms_mount_path = letter, ms_unmounted = False\<rparr>, h, w)
         | (Inl e, h) \<Rightarrow> (context_err ''Unable to select a free drive letter'' (Inl e), ha_stop H h, w))
      else
        (case prepare_mountpoint E mountpoint w of
           (Inl e, w) \<Rightarrow> (Inl e, ha_stop H h, w)
         | (Inr (Some prepared), w) \<Rightarrow>
             (case ha_mount H (DirTarget (pm_mount_path prepared)) h of
                (Inr _, h) \<Rightarrow> (Inr \<lparr>ms_host = h, ms_prepared = Some prepared, ms_mount_path = mountpoint, ms_unmounted = False\<rparr>, h, w)
              | (Inl e, h) \<Rightarrow> (context_err ''Unable to mount WinFsp filesystem at the directory'' (Inl e), ha_stop H h,
                  prepared_drop prepared w))
         | (Inr None, w) \<Rightarrow>
             (case ha_mount H (TextTarget mountpoint) h of
                (Inr _, h) \<Rightarrow> (Inr \<lparr>ms_host = h, ms_prepared = None, ms_mount_path = mountpoint, ms_unmounted = False\<rparr>, h, w)
              | (Inl e, h) \<Rightarrow> (context_err ''Unable to mount WinFsp filesystem'' (Inl e), ha_stop H h, w))))"

text \<open>The host that is left when the function returns, if one was created, is the second component.\<close>

definition session_start ::
  "'h host_api \<Rightarrow> windows_env \<Rightarrow> 'i result \<Rightarrow> winfsp_fs io \<Rightarrow> string \<Rightarrow> world \<Rightarrow>
     'h mount_session result \<times> 'h option \<times> world" where
  "session_start H E init open_fs mountpoint w =
     (case init of
        Inl e \<Rightarrow> (Inl e, None, w)
      | Inr _ \<Rightarrow>
          (case open_fs w of
             (Inl e, w) \<Rightarrow> (Inl e, None, w)
           | (Inr filesystem, w) \<Rightarrow>
               (case context_err ''Unable to create WinFsp host'' (filesystem_host H filesystem) of
                  Inl e \<Rightarrow> (Inl e, None, w)
                | Inr h \<Rightarrow>
                    (case ha_start H h of
                       (Inl e, h) \<Rightarrow> (context_err ''Unable to start WinFsp dispatcher'' (Inl e), Some h, w)
                     | (Inr _, h) \<Rightarrow>
                         (case mount_started H E mountpoint h w of
                            (r, h, w) \<Rightarrow> (r, Some h, w))))))"

definition session_unmount :: "'h host_api \<Rightarrow> 'h mount_session \<Rightarrow> 'h mount_session" where
  "session_unmount H s =
     (if \<not> ms_unmounted s
      then s\<lparr>ms_host := ha_stop H (ha_unmount H (ms_host s)), ms_unmounted := True\<rparr>
      else s)"

definition session_drop :: "'h host_api \<Rightarrow> 'h mount_session \<Rightarrow> world \<Rightarrow> 'h mount_session \<times> world" where
  "session_drop H s w =
     (let s = session_unmount H s
      in (s, case ms_prepared s of None \<Rightarrow> w | Some p \<Rightarrow> prepared_drop p w))"

section \<open>Drive letters\<close>

text \<open>The candidates are the free letters from Z down to D.\<close>

lemma auto_drive_candidates_set:
  "c \<in> set (auto_drive_candidates occupied) \<longleftrightarrow>
     (\<exists>i. 3 \<le> i \<and> i < 26 \<and> \<not> bit occupied i \<and> c = drive_letter i)"
proof -
  have "occupied AND push_bit i 1 = 0 \<longleftrightarrow> \<not> bit occupied i" if "i < 26" for i
  proof
    assume "occupied AND push_bit i 1 = 0"
    then have "\<not> bit (occupied AND push_bit i 1) i" by simp
    then show "\<not> bit occupied i" using that by (simp add: bit_and_iff bit_push_bit_iff bit_exp_iff)
  next
    assume "\<not> bit occupied i"
    then show "occupied AND push_bit i 1 = 0"
      by (intro bit_eqI) (auto simp: bit_and_iff bit_push_bit_iff bit_exp_iff)
  qed
  then show ?thesis unfolding auto_drive_candidates_def set_map set_filter set_rev set_upt image_iff by auto
qed

lemma auto_drive_candidates_free: "c \<in> set (auto_drive_candidates occupied) \<Longrightarrow> is_drive_letter c"
proof -
  assume "c \<in> set (auto_drive_candidates occupied)"
  then obtain i where i: "3 \<le> i" "i < 26" "c = drive_letter i" unfolding auto_drive_candidates_set by blast
  have "code (char_of (65 + i)) = (65 + i) mod 256" by (rule code_char_of)
  also have "\<dots> = 65 + i" using i(2) by (intro mod_less) linarith
  finally have c: "code (char_of (65 + i)) = 65 + i" .
  have "is_ascii_alphabetic (char_of (65 + i))" unfolding is_ascii_alphabetic_def c using i(2) by simp
  then show ?thesis unfolding i(3) is_drive_letter_def drive_letter_def by simp
qed

section \<open>What preparing a mount point does to the disk\<close>

lemma prefixes_mem: "q \<in> set (prefixes p) \<longleftrightarrow> (\<exists>n \<le> length p. q = take n p)"
  unfolding prefixes_def set_map set_upt image_iff Bex_def atLeastLessThan_iff less_Suc_eq_le by auto

lemma lstat_Inr: "symlink_metadata p w = (Inr n, w') \<Longrightarrow> w_disk w p = Some n \<and> w_disk w' = w_disk w"
  by (auto simp: symlink_metadata_def fs_call_def split: option.splits)

lemma disk_frame_lstat [frame_intros]: "disk_frame S (symlink_metadata p)"
  unfolding symlink_metadata_def
  by (intro frame_intros) (auto simp: disk_frame_def split: option.splits)

lemma open_guard_Inr: "open_guard q w = (Inr g, w') \<Longrightarrow> w_disk w q = Some DirNode \<and> w_disk w' = w_disk w"
  unfolding open_guard_def
  by (auto simp: bindM_eq_Inr contextM_eq_Inr failM_def returnM_def dest!: lstat_Inr split: if_splits)

lemma disk_frame_guards: "disk_frame S (open_ancestor_guards p)"
  unfolding open_ancestor_guards_def open_guard_def
  by (intro disk_frame_mapM frame_intros)

lemma mapM_open_guard_Inr:
  "mapM open_guard qs w = (Inr gs, w') \<Longrightarrow> (\<forall>q \<in> set qs. w_disk w q = Some DirNode) \<and> w_disk w' = w_disk w"
proof (induction qs arbitrary: w gs w')
  case (Cons q qs)
  from Cons.prems obtain g w1 gs' w2 where g: "open_guard q w = (Inr g, w1)" and m: "mapM open_guard qs w1 = (Inr gs', w2)"
    and "w' = w2" by (auto simp: bindM_eq_Inr returnM_def)
  with Cons.IH [OF m] open_guard_Inr [OF g] show ?case by simp
qed (simp add: returnM_def)

lemma mkdir_Inr:
  "create_new_dir p w = (Inr u, w') \<Longrightarrow> w_disk w' = (w_disk w)(p := Some DirNode) \<and> w_disk w p = None"
  by (auto simp: create_new_dir_def fs_call_def put_node_def split: option.splits if_splits)

lemma mkdir_Inl: "create_new_dir p w = (Inl e, w') \<Longrightarrow> w_disk w' = w_disk w"
  by (auto simp: create_new_dir_def fs_call_def put_node_def split: option.splits if_splits)

lemma disk_frame_mkdir [frame_intros]: "disk_frame (\<lambda>q. q = p) (create_new_dir p)"
  unfolding disk_frame_def
proof (intro allI impI)
  fix w q assume q: "q \<noteq> p"
  obtain r w' where r: "create_new_dir p w = (r, w')" by fastforce
  with q show "w_disk (snd (create_new_dir p w)) q = w_disk w q"
    using mkdir_Inr [of p w _ w'] mkdir_Inl [of p w _ w'] by (cases r) auto
qed

lemma create_or_there_world: "snd (create_or_there p w) = snd (create_new_dir p w)"
  by (simp add: create_or_there_def split: prod.split sum.split)

lemma disk_frame_create_or_there: "disk_frame (\<lambda>q. q = p) (create_or_there p)"
  using disk_frame_mkdir [of p] by (simp add: disk_frame_def create_or_there_world)

lemma disk_frame_remove_dir: "disk_frame (\<lambda>q. q = p) (remove_dir E p)"
  unfolding remove_dir_def
  by (intro frame_intros) (auto simp: disk_frame_def put_node_def split: option.splits node.splits)

lemma disk_frame_list_dir [frame_intros]: "disk_frame S (list_dir E p)"
  unfolding list_dir_def by (intro frame_intros) (simp add: disk_frame_def)

text \<open>Whether it succeeds or not, only the mount directory itself can change.\<close>

lemma prepare_directory_frame: "disk_frame (\<lambda>q. q = absolute) (prepare_directory E absolute)"
  unfolding prepare_directory_def
  by (intro frame_intros disk_frame_guards disk_frame_create_or_there disk_frame_remove_dir)

lemma remove_dir_Inr:
  "remove_dir E p w = (Inr u, w') \<Longrightarrow> w_disk w p = Some DirNode \<and> we_entries E (w_disk w) p = [] \<and> w_disk w' = (w_disk w)(p := None)"
  by (auto simp: remove_dir_def fs_call_def put_node_def split: option.splits node.splits if_splits)

text \<open>If it succeeds, the directory was absent or empty, no ancestor was a link, and the directory is
  gone so that the mount can take its place.\<close>

lemma prepare_directory_Inr:
  assumes "prepare_directory E absolute w = (Inr p, w')"
  shows "w_disk w' = (w_disk w)(absolute := None) \<and> pm_original_path p = absolute \<and> pm_mount_path p = absolute \<and>
    (\<forall>n < length absolute. w_disk w (take n absolute) = Some DirNode) \<and>
    (w_disk w absolute = None \<or> w_disk w absolute = Some DirNode) \<and> absolute \<noteq> []"
proof -
  from assms have ne: "absolute \<noteq> []" by (auto simp: prepare_directory_def liftE_def context_opt_def)
  with assms obtain gs w1 u w2 metadata w3 entries w4 v w5 where
    g: "open_ancestor_guards (butlast absolute) w = (Inr gs, w1)"
    and c: "create_or_there absolute w1 = (Inr u, w2)"
    and m: "symlink_metadata absolute w2 = (Inr metadata, w3)"
    and l: "list_dir E absolute w3 = (Inr entries, w4)"
    and r: "remove_dir E absolute w4 = (Inr v, w5)"
    and p: "p = \<lparr>pm_original_path = absolute, pm_mount_path = absolute, pm_ancestor_guards = gs\<rparr>" "w' = w5"
    unfolding prepare_directory_def by (auto simp: bindM_eq_Inr liftE_def contextM_eq_Inr returnM_def)
  from mapM_open_guard_Inr [OF g [unfolded open_ancestor_guards_def]]
  have guards: "\<forall>q \<in> set (prefixes (butlast absolute)). w_disk w q = Some DirNode" and d1: "w_disk w1 = w_disk w" by auto
  have anc: "w_disk w (take n absolute) = Some DirNode" if "n < length absolute" for n
    using guards that prefixes_mem [of "take n absolute" "butlast absolute"]
    by (metis Suc_leI Suc_le_mono Suc_pred length_butlast length_greater_0_conv ne take_butlast diff_Suc_1 less_Suc_eq_le)
  have d3: "w_disk w3 = w_disk w2" using lstat_Inr [OF m] by simp
  have d4: "w_disk w4 = w_disk w3" using l by (auto simp: list_dir_def fs_call_def split: option.splits)
  have d5: "w_disk w5 = (w_disk w4)(absolute := None)" "w_disk w4 absolute = Some DirNode"
    using remove_dir_Inr [OF r] by auto
  have frame: "w_disk w2 q = w_disk w q" if "q \<noteq> absolute" for q
    using disk_frameD [OF disk_frame_create_or_there c, of q] that d1 by simp
  then have "w_disk w5 = (w_disk w)(absolute := None)" by (intro ext) (simp add: d5 d4 d3)
  moreover have "w_disk w absolute = None \<or> w_disk w absolute = Some DirNode"
  proof (cases "w_disk w absolute")
    case (Some n)
    obtain x w2' where x: "create_new_dir absolute w1 = (x, w2')" by fastforce
    with create_or_there_world [of absolute w1] c have "w2' = w2" by simp
    with x have x: "create_new_dir absolute w1 = (x, w2)" by simp
    have "w_disk w2 = w_disk w1"
    proof (cases x)
      case (Inl e)
      show ?thesis using x unfolding Inl by (rule mkdir_Inl)
    next
      case (Inr u)
      have "w_disk w1 absolute = None" using mkdir_Inr [OF x [unfolded Inr]] by blast
      with Some d1 show ?thesis by simp
    qed
    then show ?thesis using d5(2) d4 d3 d1 by simp
  qed simp
  ultimately show ?thesis using anc ne p by simp
qed

section \<open>A session that fails, and one that ends\<close>

text \<open>What WinFsp promises of its host: a host is not running before it starts, when its start failed,
  and after it was stopped; a successful mount is at its target until the host unmounts.\<close>

definition host_ok :: "'h host_api \<Rightarrow> ('h \<Rightarrow> bool) \<Rightarrow> ('h \<Rightarrow> mount_target option) \<Rightarrow> bool" where
  "host_ok H running at \<longleftrightarrow>
     (\<forall>h. \<not> running (ha_stop H h)) \<and> (\<forall>h e h'. ha_start H h = (Inl e, h') \<longrightarrow> \<not> running h') \<and>
     (\<forall>h u h'. ha_start H h = (Inr u, h') \<longrightarrow> running h') \<and>
     (\<forall>t h r h'. ha_mount H t h = (r, h') \<longrightarrow> running h' = running h \<and> (\<forall>u. r = Inr u \<longrightarrow> at h' = Some t)) \<and>
     (\<forall>h. at (ha_stop H (ha_unmount H h)) = None)"

lemma host_okD:
  assumes "host_ok H running at"
  shows "\<not> running (ha_stop H h)" and "ha_start H h = (Inl e, h') \<Longrightarrow> \<not> running h'" and "ha_start H h = (Inr u, h') \<Longrightarrow> running h'"
    and "at (ha_stop H (ha_unmount H h)) = None"
  using assms unfolding host_ok_def by simp_all

lemma mount_first_cases:
  "mount_first H cs last_error h = (r, h') \<Longrightarrow> host_ok H running at \<Longrightarrow>
   running h' = running h \<and> (\<forall>c. r = Inr c \<longrightarrow> c \<in> set cs \<and> at h' = Some (TextTarget c))"
proof (induction cs arbitrary: last_error h)
  case (Cons c cs)
  obtain x h1 where m: "ha_mount H (TextTarget c) h = (x, h1)" by fastforce
  with Cons.prems(2) have run: "running h1 = running h" and at: "\<forall>u. x = Inr u \<longrightarrow> at h1 = Some (TextTarget c)"
    unfolding host_ok_def by blast+
  show ?case
  proof (cases x)
    case (Inl e)
    with Cons.prems(1) m have "mount_first H cs (Some e) h1 = (r, h')" by simp
    from Cons.IH [OF this Cons.prems(2)] run show ?thesis by simp
  next
    case (Inr u)
    with Cons.prems(1) m have "r = Inr c" "h' = h1" by simp_all
    with run at Inr show ?thesis by simp
  qed
qed auto

definition mount_dir :: "windows_env \<Rightarrow> string \<Rightarrow> path \<Rightarrow> bool" where
  "mount_dir E text q \<longleftrightarrow> we_absolute E text = Inr q"

lemma disk_frame_prepare_mountpoint: "disk_frame (mount_dir E text) (prepare_mountpoint E text)"
proof -
  have "disk_frame (mount_dir E text) (prepare_directory E absolute)" if "we_absolute E text = Inr absolute" for absolute
    using prepare_directory_frame [of absolute E] that unfolding disk_frame_def mount_dir_def by auto
  moreover have "bindM (liftE (Inl e)) f = failM e" for e :: error and f :: "path \<Rightarrow> prepared_mountpoint option io"
    by (rule ext) (simp add: bindM_def liftE_def failM_def)
  ultimately show ?thesis
    unfolding prepare_mountpoint_def
    by (cases "we_absolute E text") (auto intro!: frame_intros)
qed

lemma prepare_mountpoint_Some:
  assumes "prepare_mountpoint E text w = (Inr (Some p), w')"
  shows "we_absolute E text = Inr (pm_original_path p) \<and> pm_mount_path p = pm_original_path p \<and>
    w_disk w' = (w_disk w)(pm_original_path p := None) \<and> pm_original_path p \<noteq> [] \<and>
    (\<forall>n < length (pm_original_path p). w_disk w (take n (pm_original_path p)) = Some DirNode)"
proof -
  from assms obtain absolute w1 where "we_absolute E text = Inr absolute" and "prepare_directory E absolute w1 = (Inr p, w')" "w1 = w"
    by (auto simp: prepare_mountpoint_def bindM_eq_Inr liftE_def returnM_def split: if_splits)
  with prepare_directory_Inr [of E absolute w p w'] show ?thesis by auto
qed

lemma prepared_drop_frame: "q \<noteq> pm_original_path p \<Longrightarrow> w_disk (prepared_drop p w) q = w_disk w q"
  using disk_frame_mkdir [of "pm_original_path p"] by (simp add: prepared_drop_def disk_frame_def)

lemma prepared_drop_restores:
  assumes "fault_free w" "w_disk w (pm_original_path p) = None" "pm_original_path p \<noteq> []"
    and "w_disk w (butlast (pm_original_path p)) = Some DirNode"
  shows "w_disk (prepared_drop p w) (pm_original_path p) = Some DirNode"
  using assms by (simp add: prepared_drop_def create_new_dir_def fs_call_fault_free put_node_def)

text \<open>Outcomes of mounting a started host.\<close>

lemma mount_started_Inl:
  assumes "mount_started H E mountpoint h w = (Inl e, h', w')" and H: "host_ok H running at"
  shows "\<not> running h' \<and> (\<forall>q. \<not> mount_dir E mountpoint q \<longrightarrow> w_disk w' q = w_disk w q)"
proof -
  have stop: "\<not> running (ha_stop H k)" for k using H by (simp add: host_ok_def)
  show ?thesis
  proof (cases "eq_ignore_ascii_case mountpoint ''auto''")
    case True
    with assms(1) obtain k where "h' = ha_stop H k" "w' = w"
      by (auto simp: mount_started_def Let_def split: prod.splits sum.splits)
    with stop show ?thesis by simp
  next
    case False
    obtain r w1 where p: "prepare_mountpoint E mountpoint w = (r, w1)" by fastforce
    have frame: "w_disk w1 q = w_disk w q" if "\<not> mount_dir E mountpoint q" for q
      using disk_frameD [OF disk_frame_prepare_mountpoint p that] .
    show ?thesis
    proof (cases r)
      case (Inl e')
      with assms(1) False p have "h' = ha_stop H h" "w' = w1" by (simp_all add: mount_started_def)
      with stop frame show ?thesis by simp
    next
      case (Inr po)
      show ?thesis
      proof (cases po)
        case None
        with assms(1) False p Inr obtain k where "h' = ha_stop H k" "w' = w1"
          by (auto simp: mount_started_def split: prod.splits sum.splits)
        with stop frame show ?thesis by simp
      next
        case (Some prepared)
        from assms(1) False p Inr Some obtain k where k: "h' = ha_stop H k" "w' = prepared_drop prepared w1"
          by (auto simp: mount_started_def split: prod.splits sum.splits)
        have "mount_dir E mountpoint (pm_original_path prepared)"
          using prepare_mountpoint_Some p Inr Some by (simp add: mount_dir_def)
        with k stop frame prepared_drop_frame show ?thesis by metis
      qed
    qed
  qed
qed

lemma mount_started_Inr:
  assumes "mount_started H E mountpoint h w = (Inr s, h', w')" and H: "host_ok H running at" and run: "running h"
  shows "h' = ms_host s \<and> running h' \<and> at h' \<noteq> None \<and> \<not> ms_unmounted s \<and>
    (case ms_prepared s of
       None \<Rightarrow> \<forall>q. \<not> mount_dir E mountpoint q \<longrightarrow> w_disk w' q = w_disk w q
     | Some p \<Rightarrow> mount_dir E mountpoint (pm_original_path p) \<and> w_disk w' = (w_disk w)(pm_original_path p := None) \<and>
         pm_original_path p \<noteq> [] \<and> w_disk w (butlast (pm_original_path p)) = Some DirNode)"
proof -
  have m: "ha_mount H t k = (r, k') \<Longrightarrow> running k' = running k \<and> (\<forall>u. r = Inr u \<longrightarrow> at k' = Some t)" for t k r k'
    using H unfolding host_ok_def by blast
  show ?thesis
  proof (cases "eq_ignore_ascii_case mountpoint ''auto''")
    case True
    with assms(1) obtain c where "mount_first H (auto_drive_candidates (we_occupied E)) None h = (Inr c, h')"
      "s = \<lparr>ms_host = h', ms_prepared = None, ms_mount_path = c, ms_unmounted = False\<rparr>" "w' = w"
      by (auto simp: mount_started_def Let_def split: prod.splits sum.splits)
    with mount_first_cases [OF this(1) H] run show ?thesis by simp
  next
    case False
    obtain r w1 where p: "prepare_mountpoint E mountpoint w = (r, w1)" by fastforce
    from assms(1) False p obtain po where po: "r = Inr po" by (cases r) (simp_all add: mount_started_def)
    show ?thesis
    proof (cases po)
      case None
      with assms(1) False p po obtain u where "ha_mount H (TextTarget mountpoint) h = (Inr u, h')"
        "s = \<lparr>ms_host = h', ms_prepared = None, ms_mount_path = mountpoint, ms_unmounted = False\<rparr>" "w' = w1"
        by (auto simp: mount_started_def split: prod.splits sum.splits)
      with m [OF this(1)] run disk_frameD [OF disk_frame_prepare_mountpoint p] show ?thesis by simp
    next
      case (Some prepared)
      with assms(1) False p po obtain u where "ha_mount H (DirTarget (pm_mount_path prepared)) h = (Inr u, h')"
        "s = \<lparr>ms_host = h', ms_prepared = Some prepared, ms_mount_path = mountpoint, ms_unmounted = False\<rparr>" "w' = w1"
        by (auto simp: mount_started_def split: prod.splits sum.splits)
      moreover have "we_absolute E mountpoint = Inr (pm_original_path prepared)"
        "w_disk w1 = (w_disk w)(pm_original_path prepared := None)" "pm_original_path prepared \<noteq> []"
        "\<forall>n < length (pm_original_path prepared). w_disk w (take n (pm_original_path prepared)) = Some DirNode"
        using prepare_mountpoint_Some p po Some by blast+
      moreover from this(3,4) have "w_disk w (butlast (pm_original_path prepared)) = Some DirNode"
        by (simp add: butlast_conv_take)
      ultimately show ?thesis using m [of "DirTarget (pm_mount_path prepared)" h "Inr u" h'] run by (simp add: mount_dir_def)
    qed
  qed
qed

lemma session_start_cases:
  assumes "session_start H E init open_fs mountpoint w = (r, h, w')"
  obtains (early) e where "r = Inl e" "h = None" "w' = w \<or> w' = snd (open_fs w)"
  | (unstarted) e e' h0 h1 where "r = Inl e" "h = Some h1" "ha_start H h0 = (Inl e', h1)" "w' = snd (open_fs w)"
  | (started) h0 u h1 h2 where "h = Some h2" "ha_start H h0 = (Inr u, h1)"
      "mount_started H E mountpoint h1 (snd (open_fs w)) = (r, h2, w')"
proof (cases init)
  case (Inl e)
  with assms early [of e] show thesis by (simp add: session_start_def)
next
  case init: (Inr i)
  obtain x w1 where o: "open_fs w = (x, w1)" by fastforce
  show thesis
  proof (cases x)
    case (Inl e)
    with assms early [of e] init o show thesis by (simp add: session_start_def)
  next
    case fs: (Inr fs)
    show thesis
    proof (cases "filesystem_host H fs")
      case (Inl e)
      with assms early [of "Msg ''Unable to create WinFsp host'' # e"] init o fs show thesis by (simp add: session_start_def)
    next
      case host: (Inr h0)
      obtain y h1 where st: "ha_start H h0 = (y, h1)" by fastforce
      show thesis
      proof (cases y)
        case (Inl e)
        with assms init o fs host st have "r = context_err ''Unable to start WinFsp dispatcher'' (Inl e)" "h = Some h1" "w' = w1"
          by (simp_all add: session_start_def)
        with unstarted [of "Msg ''Unable to start WinFsp dispatcher'' # e" h1 h0 e] st Inl o show thesis by simp
      next
        case y: (Inr u)
        obtain a b c where m: "mount_started H E mountpoint h1 w1 = (a, b, c)" by (metis prod_cases3)
        with assms init o fs host st y have "r = a" "h = Some b" "w' = c" by (simp_all add: session_start_def)
        with started [of b h0 u h1] st y m o show thesis by simp
      qed
    qed
  qed
qed

text \<open>A start that fails leaves no host running and changes nothing but the mount directory, besides what
  opening the container does.\<close>

lemma session_start_Inl:
  assumes "session_start H E init open_fs mountpoint w = (Inl e, h, w')" and H: "host_ok H running at"
    and S: "disk_frame S open_fs"
  shows "(\<forall>k. h = Some k \<longrightarrow> \<not> running k) \<and> (\<forall>q. \<not> S q \<and> \<not> mount_dir E mountpoint q \<longrightarrow> w_disk w' q = w_disk w q)"
proof -
  have frame: "w_disk (snd (open_fs w)) q = w_disk w q" if "\<not> S q" for q using S that by (simp add: disk_frame_def)
  from assms(1) show ?thesis
  proof (cases rule: session_start_cases)
    case (early e)
    with frame show ?thesis by auto
  next
    case (unstarted e1 e' h0 h1)
    from host_okD(2) [OF H this(3)] have "\<not> running h1" .
    with unstarted frame show ?thesis by simp
  next
    case (started h0 u h1 h2)
    from mount_started_Inl [OF started(3) H] frame started(1) show ?thesis by simp
  qed
qed

text \<open>A start that succeeds leaves the host mounted; when the session is dropped it is stopped and nothing
  is mounted, and a directory given as mount point is restored.\<close>

lemma session_start_drop:
  assumes "session_start H E init open_fs mountpoint w = (Inr s, h, w')" and H: "host_ok H running at"
    and S: "disk_frame S open_fs"
  shows "h = Some (ms_host s) \<and> running (ms_host s) \<and> at (ms_host s) \<noteq> None \<and>
    (\<forall>q. \<not> S q \<and> \<not> mount_dir E mountpoint q \<longrightarrow> w_disk (snd (session_drop H s w')) q = w_disk w q) \<and>
    \<not> running (ms_host (fst (session_drop H s w'))) \<and> at (ms_host (fst (session_drop H s w'))) = None \<and>
    (\<forall>p. ms_prepared s = Some p \<and> fault_free w' \<longrightarrow>
       w_disk (snd (session_drop H s w')) (pm_original_path p) = Some DirNode)"
proof -
  obtain h0 u h1 h2 where st: "ha_start H h0 = (Inr u, h1)"
    and m: "mount_started H E mountpoint h1 (snd (open_fs w)) = (Inr s, h2, w')" and h: "h = Some h2"
    using assms(1) by (cases rule: session_start_cases) (simp, simp, blast)
  have run: "running h1" using st by (rule host_okD(3) [OF H])
  note ms = mount_started_Inr [OF m H run]
  have frame: "w_disk (snd (open_fs w)) q = w_disk w q" if "\<not> S q" for q using S that by (simp add: disk_frame_def)
  have stop: "\<not> running (ha_stop H k)" "at (ha_stop H (ha_unmount H k)) = None" for k using H by (simp_all add: host_ok_def)
  have dropped: "fst (session_drop H s w') = s\<lparr>ms_host := ha_stop H (ha_unmount H (ms_host s)), ms_unmounted := True\<rparr>"
    "snd (session_drop H s w') = (case ms_prepared s of None \<Rightarrow> w' | Some p \<Rightarrow> prepared_drop p w')"
    using ms by (simp_all add: session_drop_def session_unmount_def Let_def)
  have host: "h = Some (ms_host s)" "running (ms_host s)" "at (ms_host s) \<noteq> None" using ms h by auto
  have over: "\<not> running (ms_host (fst (session_drop H s w')))" "at (ms_host (fst (session_drop H s w'))) = None"
    unfolding dropped(1) using stop by simp_all
  show ?thesis
  proof (cases "ms_prepared s")
    case None
    with ms have "\<forall>q. \<not> mount_dir E mountpoint q \<longrightarrow> w_disk w' q = w_disk (snd (open_fs w)) q" by simp
    with None host over frame show ?thesis unfolding dropped(2) by simp
  next
    case (Some p)
    with ms have p: "mount_dir E mountpoint (pm_original_path p)"
      "w_disk w' = (w_disk (snd (open_fs w)))(pm_original_path p := None)"
      "pm_original_path p \<noteq> []" "w_disk (snd (open_fs w)) (butlast (pm_original_path p)) = Some DirNode" by simp_all
    have "butlast (pm_original_path p) \<noteq> pm_original_path p"
      using p(3) by (metis append_butlast_last_id not_Cons_self2 self_append_conv)
    with p have "w_disk w' (butlast (pm_original_path p)) = Some DirNode" "w_disk w' (pm_original_path p) = None" by simp_all
    with prepared_drop_restores [of w' p] p(3)
    have restored: "fault_free w' \<Longrightarrow> w_disk (prepared_drop p w') (pm_original_path p) = Some DirNode" by blast
    have "w_disk (prepared_drop p w') q = w_disk w q" if "\<not> S q" "\<not> mount_dir E mountpoint q" for q
    proof -
      have "q \<noteq> pm_original_path p" using that(2) p(1) by blast
      then show ?thesis using prepared_drop_frame [of q p w'] p(2) frame [OF that(1)] by simp
    qed
    with Some host over restored show ?thesis unfolding dropped(2) by simp
  qed
qed

lemma session_unmount_idem: "session_unmount H (session_unmount H s) = session_unmount H s"
  by (simp add: session_unmount_def)

end
