(* ===== verification/DemoMounts.thy ===== *)
theory DemoMounts
  imports DemoCalm DemoNames Fuse WinFspSession
begin

text \<open>
  Concrete parameters of the mounts: reply buffers that are lists and never full, names of 16-bit units that
  are the bytes of the text, and a host that remembers whether it runs and where it is mounted.
\<close>

definition demo_api :: winfsp_api where
  "demo_api = \<lparr>wa_to_string_lossy = map (\<lambda>u. char_of (unat u)), wa_set_name = (\<lambda>s. Inr (map (\<lambda>c. of_nat (code c)) s))\<rparr>"

lemma demo_api_text: "wa_to_string_lossy demo_api (map (\<lambda>c. of_nat (code c)) s) = s"
proof -
  have "unat (of_nat (code c) :: u16) = code c" for c
    using less_trans [OF code_less, of "2 ^ 16" c] by (intro unat_of_nat_small) simp
  moreover have "char_of (code c) = c" for c using code_less [of c] by (simp add: code_inject [symmetric] code_char_of)
  ultimately show ?thesis by (simp add: demo_api_def comp_def map_idI)
qed

lemma demo_api_ok: "api_ok demo_api"
  using demo_api_text by (simp add: api_ok_def) (simp add: demo_api_def)

definition demo_store :: "'e \<Rightarrow> 'e list \<Rightarrow> bool \<times> 'e list" where
  "demo_store e b = (True, b @ [e])"

definition demo_add :: "'e \<Rightarrow> 'e list \<Rightarrow> bool \<times> 'e list" where
  "demo_add e b = (False, b @ [e])"

lemma demo_buffers: "buffer_ok (store_add demo_store) id" "buffer_ok demo_add id"
  by (simp_all add: buffer_ok_def store_add_def demo_store_def demo_add_def)

definition demo_host :: "(bool \<times> mount_target option) host_api" where
  "demo_host =
     \<lparr>ha_new = (\<lambda>_ _. Inr (False, None)), ha_start = (\<lambda>(_, at). (Inr (), (True, at))),
      ha_mount = (\<lambda>t (run, _). (Inr (), (run, Some t))), ha_unmount = (\<lambda>(run, _). (run, None)),
      ha_stop = (\<lambda>(_, at). (False, at))\<rparr>"

lemma demo_host_ok: "host_ok demo_host fst snd"
  unfolding host_ok_def demo_host_def by auto

definition demo_windows :: windows_env where
  "demo_windows = \<lparr>we_occupied = 0, we_absolute = (\<lambda>s. Inr [s]), we_entries = (\<lambda>_ _. [])\<rparr>"

definition mount_world :: world where
  "mount_world = demo_world\<lparr>w_disk := (w_disk demo_world)([''m''] := Some DirNode)\<rparr>"

lemma demo_winfsp_from:
  "\<exists>fs. winfsp_from demo_ordinal 2000 demo_opened None (Inr []) = Some (Inr fs) \<and> mounted demo_ordinal fs demo_entries"
proof -
  have "2 * length demo_entries + unat MAX_DEPTH + 2 \<le> 2000" by (simp add: demo_entries_def MAX_DEPTH_def)
  with winfsp_from_mounted [OF demo_ordinal_ok demo_opened_ok, of 2000 None "[]"] show ?thesis by auto
qed

definition demo_fs :: winfsp_fs where
  "demo_fs = projr (the (winfsp_from demo_ordinal 2000 demo_opened None (Inr [])))"

lemma demo_fs_from: "winfsp_from demo_ordinal 2000 demo_opened None (Inr []) = Some (Inr demo_fs)"
  using demo_winfsp_from by (auto simp: demo_fs_def)

lemma demo_prepared:
  "\<exists>w'. prepare_mountpoint demo_windows ''m'' mount_world =
     (Inr (Some \<lparr>pm_original_path = [''m''], pm_mount_path = [''m''], pm_ancestor_guards = [[]]\<rparr>), w') \<and> fault_free w'"
proof -
  have "\<not> eq_ignore_ascii_case ''m'' ''auto''" "\<not> is_drive_letter ''m''" by code_simp+
  moreover have "w_disk mount_world [] = Some DirNode" "w_disk mount_world [''m''] = Some DirNode" "w_fault mount_world = (\<lambda>_. None)"
    by (simp_all add: mount_world_def demo_world_def demo_disk_def)
  moreover have "prefixes [] = [[]]" by (simp add: prefixes_def)
  ultimately show ?thesis
    by (simp add: prepare_mountpoint_def prepare_directory_def demo_windows_def open_ancestor_guards_def open_guard_def
        symlink_metadata_def create_or_there_def create_new_dir_def list_dir_def remove_dir_def fs_call_def bindM_def contextM_def
        returnM_def ensureE_def put_node_def fault_free_def liftE_def)
qed

lemma demo_session_starts:
  "\<exists>s h w'. session_start demo_host demo_windows (Inr ()) (\<lambda>w. (Inr demo_fs, w)) ''m'' mount_world = (Inr s, Some h, w') \<and>
     fault_free w' \<and> (\<exists>p. ms_prepared s = Some p \<and> pm_original_path p = [''m''])"
proof -
  have "\<not> eq_ignore_ascii_case ''m'' ''auto''" by code_simp
  with demo_prepared show ?thesis
    by (auto simp: session_start_def mount_started_def filesystem_host_def demo_host_def)
qed

end
