(* ===== verification/CalmScan.thy ===== *)
theory CalmScan
  imports Calm Scan V2Chunks
begin

text \<open>
  The scan of a well-formed source on a calm world comes to its end: every check passes, the ids and
  the layout do not overflow, and the random source offers a fresh file id in time.
\<close>

section \<open>File ids\<close>

definition block_at :: "(nat \<Rightarrow> byte) \<Rightarrow> nat \<Rightarrow> bytes" where
  "block_at r n = map (\<lambda>j. r (n + j)) [0..<16]"

text \<open>Wherever the source stands, one of the next \<open>fuel\<close> blocks is not zero and not among \<open>m\<close> taken
  ones.\<close>

definition draws_ok :: "(nat \<Rightarrow> byte) \<Rightarrow> nat \<Rightarrow> nat \<Rightarrow> bool" where
  "draws_ok r fuel m \<longleftrightarrow>
     (\<forall>n taken. finite taken \<and> card taken \<le> m \<longrightarrow>
        (\<exists>k < fuel. block_at r (n + 16 * k) \<notin> insert (replicate 16 0) taken))"

lemma runs_draw_file_id:
  assumes "draws_ok r fuel m" "finite taken" "card taken \<le> m"
  shows "runs r D (draw_file_id fuel taken) (\<lambda>_ D'. D' = D)"
proof (rule runsI)
  fix w assume w: "calm r w" "w_disk w = D"
  let ?ok = "\<lambda>k. block_at r (w_drawn w + 16 * k) \<notin> insert (replicate 16 0) taken"
  obtain k0 where k0: "k0 < fuel" "?ok k0" using assms unfolding draws_ok_def by blast
  let ?k = "LEAST k. ?ok k"
  have k: "?ok ?k" using k0(2) by (rule LeastI)
  have less: "?k < fuel" using k0 Least_le [of ?ok k0] by simp
  have before: "block_at r (w_drawn w + 16 * i) \<in> insert (replicate 16 0) taken" if "i < ?k" for i
    using not_less_Least [OF that] by blast
  have block: "map (\<lambda>j. w_random w (w_drawn w + 16 * i + j)) [0..<16] = block_at r (w_drawn w + 16 * i)" for i
    using w(1) by (simp add: block_at_def calm_def)
  have "draw_file_id fuel taken w =
    (Inr (map (\<lambda>j. w_random w (w_drawn w + 16 * ?k + j)) [0..<16]), w\<lparr>w_drawn := w_drawn w + 16 * Suc ?k\<rparr>)"
  proof (rule draw_file_id_returns [OF _ _ less])
    show "map (\<lambda>j. w_random w (w_drawn w + 16 * i + j)) [0..<16] \<in> insert (replicate 16 0) taken" if "i < ?k" for i
      unfolding block by (rule before [OF that])
    show "map (\<lambda>j. w_random w (w_drawn w + 16 * ?k + j)) [0..<16] \<notin> insert (replicate 16 0) taken"
      unfolding block by (rule k)
  qed
  then show "\<exists>a w'. draw_file_id fuel taken w = (Inr a, w') \<and> calm r w' \<and> w_disk w' = D"
    using w by (simp add: calm_def fault_free_def)
qed

section \<open>Sources\<close>

text \<open>What a file takes in the data area.\<close>

definition stored_size :: "disk \<Rightarrow> path \<Rightarrow> nat" where
  "stored_size D p = (case D p of
     Some (FileNode f) \<Rightarrow> length (fd_bytes f) + 16 * chunks_for (length (fd_bytes f)) | _ \<Rightarrow> 0)"

definition source_ok :: "disk \<Rightarrow> path \<Rightarrow> path list \<Rightarrow> bool" where
  "source_ok D source rs \<longleftrightarrow>
     distinct rs \<and> Suc (length rs) < MAX_ENTRIES \<and>
     (\<forall>k < length rs. rs ! k \<noteq> [] \<and> length (rs ! k) \<le> unat MAX_DEPTH \<and> validate_name (last (rs ! k)) = Inr () \<and>
        valid_utf8 (last (rs ! k)) \<and>
        (butlast (rs ! k) = [] \<or> D (source @ butlast (rs ! k)) = Some DirNode \<and> (\<exists>j < k. rs ! j = butlast (rs ! k))) \<and>
        (D (source @ rs ! k) = Some DirNode \<or> (\<exists>f. D (source @ rs ! k) = Some (FileNode f)))) \<and>
     sum_list (map (\<lambda>x. stored_size D (source @ x)) rs) + CHUNK_SIZE < 2 ^ 64"

text \<open>Where the loop stands after some items.\<close>

definition scanned :: "disk \<Rightarrow> path \<Rightarrow> path list \<Rightarrow> scan_state \<Rightarrow> bool" where
  "scanned D source done_rs s \<longleftrightarrow>
     scan_inv done_rs s \<and>
     (\<forall>x \<in> set done_rs. D (source @ x) = Some DirNode \<longrightarrow> sc_path_ids s x \<noteq> None) \<and> sc_path_ids s [] \<noteq> None \<and>
     unat (sc_offset s) = sum_list (map (\<lambda>x. stored_size D (source @ x)) done_rs) \<and>
     unat (sc_total s) \<le> unat (sc_offset s)"

lemma scanned_start: "scanned D source [] scan_state_new"
  using scan_inv_new by (simp add: scanned_def scan_state_new_def)

lemma scanned_ids:
  assumes "scanned D source rs s"
  shows "finite (sc_file_ids s)" "card (sc_file_ids s) \<le> length rs" "length (sc_entries s) = Suc (length rs)"
    "unat (sc_next_id s) = length rs + 2"
proof -
  from assms obtain es where es: "sc_entries s = directory_entry 1 1 [] 0 # es" "unat (sc_next_id s) = length es + 2"
      "list_all2 (entry_at (sc_path_ids s)) rs es" "sc_file_ids s = set (map e_file_id (files_of es))"
    unfolding scanned_def scan_inv_def by blast
  have len: "length es = length rs" using es(3) by (simp add: list_all2_lengthD)
  show "finite (sc_file_ids s)" using es(4) by simp
  have "card (sc_file_ids s) \<le> length (files_of es)" unfolding es(4) by (metis card_length length_map)
  also have "\<dots> \<le> length rs" unfolding files_of_def len [symmetric] by simp
  finally show "card (sc_file_ids s) \<le> length rs" .
  show "length (sc_entries s) = Suc (length rs)" "unat (sc_next_id s) = length rs + 2" using es len by simp_all
qed

lemma runs_scan_file:
  assumes draws: "draws_ok r fuel m" and s: "scanned D source done_rs s" "length done_rs \<le> m"
    and f: "D (source @ x) = Some (FileNode f)"
    and fits: "unat (sc_offset s) + stored_size D (source @ x) + CHUNK_SIZE < 2 ^ 64"
  shows "runs r D (scan_file fuel (source @ x) ident pid name depth (s\<lparr>sc_next_id := nxt\<rparr>)) (\<lambda>_ D'. D' = D)"
proof -
  let ?n = "length (fd_bytes f)" and ?p = "source @ x"
  have size: "stored_size D ?p = ?n + 16 * chunks_for ?n" using f by (simp add: stored_size_def)
  have n: "unat (of_nat ?n :: u64) = ?n" using fits size by (intro unat_of_nat_small) simp
  have enc: "encrypted_file_size (of_nat ?n) = Inr (of_nat (chunks_for ?n), of_nat (stored_size D ?p))"
  proof -
    have "unat (of_nat (chunks_for ?n) :: u64) = chunks_for ?n" "unat (of_nat (stored_size D ?p) :: u64) = stored_size D ?p"
      using fits size by (intro unat_of_nat_small; simp)+
    moreover have "?n + (CHUNK_SIZE - 1) < 2 ^ 64" using fits size by linarith
    ultimately show ?thesis unfolding encrypted_file_size_eq_Inr n using size by simp
  qed
  have total: "\<exists>t. checked_add (sc_total s) (of_nat ?n) = Some t"
    using s fits size n by (cases "checked_add (sc_total s) (of_nat ?n)") (auto simp: checked_add_eq_None scanned_def)
  have off: "\<exists>t. checked_add (sc_offset s) (of_nat (stored_size D ?p)) = Some t"
    using fits by (cases "checked_add (sc_offset s) (of_nat (stored_size D ?p))") (auto simp: checked_add_eq_None unat_of_nat_small)
  have fo: "follow D ?p = ?p" using f by (simp add: follow_def)
  obtain t1 t2 where t: "checked_add (sc_total s) (of_nat ?n) = Some t1" "checked_add (sc_offset s) (of_nat (stored_size D ?p)) = Some t2"
    using total off by blast
  have draw: "runs r D (draw_file_id fuel (sc_file_ids s)) (\<lambda>_ D'. D' = D)"
    by (rule runs_draw_file_id [OF draws]) (use scanned_ids [OF s(1)] s(2) in simp_all)
  show ?thesis unfolding scan_file_def
    by (rule step_open(1), unfold fo, rule f, rule step_file_len, rule f, simp, rule runs_bindM, rule draw,
        simp add: enc, rule step_fingerprint_of, rule f) (simp add: t context_opt_simps runs_returnM)
qed

lemma runs_scan_item:
  assumes src: "source_ok D source rs" and draws: "draws_ok r fuel (length rs)" and k: "k < length rs"
    and s: "scanned D source (take k rs) s"
  shows "runs r D (scan_item fuel source (Inr (source @ rs ! k)) s)
    (\<lambda>t D'. D' = D \<and> scanned D source (take (Suc k) rs) t)"
proof -
  let ?x = "rs ! k"
  have x: "?x \<noteq> []" "length ?x \<le> unat MAX_DEPTH" "validate_name (last ?x) = Inr ()" "valid_utf8 (last ?x)"
      "butlast ?x = [] \<or> D (source @ butlast ?x) = Some DirNode \<and> (\<exists>j < k. rs ! j = butlast ?x)"
      "D (source @ ?x) = Some DirNode \<or> (\<exists>f. D (source @ ?x) = Some (FileNode f))"
    using src k unfolding source_ok_def by blast+
  have bounds: "Suc (length rs) < MAX_ENTRIES" "sum_list (map (\<lambda>x. stored_size D (source @ x)) rs) + CHUNK_SIZE < 2 ^ 64"
    using src unfolding source_ok_def by blast+
  note ids = scanned_ids [OF s]
  have split: "take (Suc k) rs = take k rs @ [?x]" using k by (rule take_Suc_conv_app_nth)
  have sum: "unat (sc_offset s) + stored_size D (source @ ?x) + CHUNK_SIZE < 2 ^ 64"
  proof -
    have "sum_list (map (\<lambda>x. stored_size D (source @ x)) rs) =
        sum_list (map (\<lambda>x. stored_size D (source @ x)) (take (Suc k) rs)) + sum_list (map (\<lambda>x. stored_size D (source @ x)) (drop (Suc k) rs))"
      by (metis append_take_drop_id map_append sum_list_append)
    with bounds(2) s show ?thesis by (simp add: split scanned_def)
  qed
  obtain pid where pid: "sc_path_ids s (butlast ?x) = Some pid"
  proof -
    consider "butlast ?x = []" | j where "D (source @ butlast ?x) = Some DirNode" "j < k" "rs ! j = butlast ?x" using x(5) by blast
    then have "sc_path_ids s (butlast ?x) \<noteq> None"
    proof cases
      case 1
      with s show ?thesis by (simp add: scanned_def)
    next
      case 2
      then have "butlast ?x \<in> set (take k rs)" using k by (metis in_set_conv_nth length_take min.absorb4 nth_take)
      with s 2(1) show ?thesis by (auto simp: scanned_def)
    qed
    then show thesis using that by auto
  qed
  obtain nxt where nxt: "checked_add (sc_next_id s) 1 = Some nxt"
    using ids(4) k bounds(1) by (cases "checked_add (sc_next_id s) 1") (auto simp: checked_add_eq_None MAX_ENTRIES_def)
  have depth: "\<not> MAX_DEPTH < of_nat (length ?x)"
  proof -
    have "unat (of_nat (length ?x) :: u32) \<le> length ?x" by (simp add: unat_of_nat)
    with x(2) show ?thesis by (simp add: word_less_nat_alt)
  qed
  have few: "\<not> MAX_ENTRIES \<le> length (sc_entries s)" using ids(3) k bounds(1) by simp
  have node: "runs r D (scan_node fuel (source @ ?x) ?x (sc_next_id s) pid (last ?x) (of_nat (length ?x)) n (s\<lparr>sc_next_id := nxt\<rparr>))
      (\<lambda>_ D'. D' = D)" if n: "D (source @ ?x) = Some n" for n
  proof (cases "n = DirNode")
    case True
    then show ?thesis by (simp add: scan_node_def runs_returnM)
  next
    case False
    with n x(6) obtain f where f: "n = FileNode f" by auto
    from runs_scan_file [OF draws s _ _ sum] f n k show ?thesis by (simp add: scan_node_def)
  qed
  obtain n where n: "D (source @ ?x) = Some n" using x(6) by blast
  have strip: "strip_prefix source (source @ ?x) = Some ?x" by (simp add: strip_prefix_def)
  have ne: "source @ ?x \<noteq> source" using x(1) by simp
  have run: "runs r D (scan_item fuel source (Inr (source @ ?x)) s) (\<lambda>_ D'. D' = D)"
    unfolding scan_item_def
    by (rule step_silent(1), simp add: ne strip path_parent_def path_file_name_def to_str_def x(1,3,4) pid context_opt_simps
        Let_def ensure_simps depth few, rule step_symlink_metadata, rule n)
      (use node [OF n] nxt in \<open>simp add: context_opt_simps\<close>)
  show ?thesis
  proof (rule runs_strengthen [OF run])
    fix t w w' assume w: "w_disk w = D" and step: "scan_item fuel source (Inr (source @ ?x)) s w = (Inr t, w')"
    have inv: "scan_inv (take k rs) s" using s by (simp add: scanned_def)
    from scan_item_appended [OF inv step] ne obtain e where app: "appended ?x e s t"
      and en: "entry_node D source (sc_sources t) ?x e" using w by auto
    have "distinct (take (Suc k) rs)" using src by (simp add: source_ok_def)
    then have "?x \<notin> set (take k rs)" by (simp add: split)
    from scan_inv_appended [OF inv this app] have "scan_inv (take (Suc k) rs) t" by (simp add: split)
    moreover have "sc_path_ids s y \<noteq> None \<Longrightarrow> sc_path_ids t y \<noteq> None" for y
      using app by (auto simp: appended_def split: entry_kind.splits)
    moreover have "D (source @ ?x) = Some DirNode \<Longrightarrow> sc_path_ids t ?x \<noteq> None"
      using app en by (auto simp: appended_def entry_node_def split: entry_kind.splits)
    moreover have "unat (e_encrypted_size e) = stored_size D (source @ ?x) \<and> unat (e_size e) \<le> stored_size D (source @ ?x)"
    proof (cases "e_kind e")
      case Directory
      have "e_size e = 0" "e_encrypted_size e = 0" using app Directory by (auto simp: appended_def entry_ok_def)
      with en Directory show ?thesis by (simp add: entry_node_def stored_size_def)
    next
      case File
      with en obtain f where f: "D (source @ ?x) = Some (FileNode f)" "e_size e = of_nat (length (fd_bytes f))"
        by (auto simp: entry_node_def)
      have "length (fd_bytes f) < 2 ^ 64" using sum f(1) by (simp add: stored_size_def)
      then have "unat (e_size e) = length (fd_bytes f)" unfolding f(2) by (intro unat_of_nat_small) simp
      moreover have "entry_ok e" using app by (simp add: appended_def)
      from file_entry_sizes(2) [OF this File] have "unat (e_encrypted_size e) = unat (e_size e) + 16 * chunks_for (unat (e_size e))" .
      ultimately show ?thesis using f(1) by (simp add: stored_size_def)
    qed
    ultimately show "scanned D source (take (Suc k) rs) t"
      using s app unfolding scanned_def split by (auto simp: appended_def)
  qed
qed

text \<open>The walk visits the source first and then every item below it.\<close>

lemma runs_scan_source:
  assumes src: "source_ok D source rs" and draws: "draws_ok r fuel (length rs)"
    and walk: "walk D source = Inr source # map (\<lambda>x. Inr (source @ x)) rs"
  shows "runs r D (scan_source walk fuel source) (\<lambda>(es, sources, tot, off) D'. D' = D \<and>
    length es = Suc (length rs) \<and> unat off = sum_list (map (\<lambda>x. stored_size D (source @ x)) rs))"
proof -
  have first: "runs r D (scan_item fuel source (Inr source) scan_state_new) (\<lambda>s D'. D' = D \<and> s = scan_state_new)"
    unfolding scan_item_def by (rule step_silent(1)) (simp add: runs_returnM)
  have loop: "runs r D (foldM (scan_item fuel source) (map (\<lambda>x. Inr (source @ x)) rs) scan_state_new)
      (\<lambda>t D'. D' = D \<and> scanned D source (take (length (map (\<lambda>x. Inr (source @ x) :: path result) rs)) rs) t)"
  proof (rule runs_foldM [where J = "\<lambda>pre t D'. D' = D \<and> scanned D source (take (length pre) rs) t"])
    fix pre x post s D'
    assume split: "map (\<lambda>x. Inr (source @ x) :: path result) rs = pre @ x # post" and J: "D' = D \<and> scanned D source (take (length pre) rs) s"
    have "length pre < length rs" using arg_cong [OF split, of length] by simp
    moreover have "x = Inr (source @ rs ! length pre)"
      using arg_cong [OF split, of "\<lambda>l. l ! length pre"] \<open>length pre < length rs\<close> by simp
    ultimately show "runs r D' (scan_item fuel source x s) (\<lambda>t D'. D' = D \<and> scanned D source (take (length (pre @ [x])) rs) t)"
      using runs_scan_item [OF src draws, of "length pre" s] J by simp
  qed (simp add: scanned_start)
  have items: "runs r D (foldM (scan_item fuel source) (walk D source) scan_state_new) (\<lambda>t D'. D' = D \<and> scanned D source rs t)"
    unfolding walk foldM.simps by (rule runs_bindM [OF first]) (use loop in \<open>auto intro: runs_mono\<close>)
  have "runs r D (bindM (foldM (scan_item fuel source) (walk D source) scan_state_new) (\<lambda>s.
      returnM (sc_entries s, sc_sources s, sc_total s, sc_offset s))) (\<lambda>(es, sources, tot, off) D'. D' = D \<and>
    length es = Suc (length rs) \<and> unat off = sum_list (map (\<lambda>x. stored_size D (source @ x)) rs))"
    by (rule runs_bindM [OF items], rule runs_returnM) (use scanned_ids(3) in \<open>auto simp: scanned_def\<close>)
  then show ?thesis unfolding runs_def scan_source_def by auto
qed

end
