(* ===== verification/CalmPack.thy ===== *)
theory CalmPack
  imports CalmScan CalmExtract ExtractSafety
begin

text \<open>
  Packing on a calm world comes to its end: the keys of the new header, the private file, the
  encryption of every source, the self-verification and the rename. With \<open>pack_publishes\<close> the output
  is a container of the scanned tree, and with \<open>runs_extract\<close> an extraction gives the tree back.
\<close>

section \<open>Keys\<close>

definition wf_duress_slot :: "duress_slot \<Rightarrow> bool" where
  "wf_duress_slot d \<longleftrightarrow> length (ds_salt d) = 16 \<and> length (ds_nonce d) = 12 \<and> length (ds_encrypted_marker d) = 48"

lemma step_random_disabled_duress:
  assumes "\<And>d. wf_duress_slot d \<Longrightarrow> \<not> ds_enabled d \<Longrightarrow> runs r D (f d) Q"
  shows "runs r D (bindM random_disabled_duress f) Q"
proof -
  have "runs r D random_disabled_duress (\<lambda>d D'. D' = D \<and> wf_duress_slot d \<and> \<not> ds_enabled d)"
    unfolding random_disabled_duress_def by (intro step_intros) (simp_all add: wf_duress_slot_def)
  then show ?thesis by (rule runs_bindM) (use assms in blast)
qed

lemma configure_duress_wf:
  assumes "configure_duress P h password params w = (Inr h', w')"
  shows "\<exists>d. h' = h\<lparr>h_duress := d\<rparr> \<and> wf_duress_slot d \<and> ds_params d = params"
  using assms
  by (auto simp: configure_duress_def random_disabled_duress_def bindM_def fill_bytes_def returnM_def liftE_def Let_def
      result_simps wf_duress_slot_def split: option.splits intro!: exI [where x = "h_duress h'"])

lemma step_configure_duress:
  assumes P: "aead_ok P" "argon_total P" "digest_ok P" and params: "argon2_within_limits params"
    and f: "\<And>d. wf_duress_slot d \<Longrightarrow> ds_params d = params \<Longrightarrow> runs r D (f (h\<lparr>h_duress := d\<rparr>)) Q"
  shows "runs r D (bindM (configure_duress P h password params) f) Q"
proof -
  have "\<forall>k n a h'. \<exists>c. encrypt_aead P k n a (duress_marker P h') = Inr c \<and> length c = 48"
    using encrypt_aead_copies [OF P(1)] P(3) by (metis duress_marker_def digest_ok_def)
  then obtain E where E: "encrypt_aead P k n a (duress_marker P h') = Inr (E k n a h')" "length (E k n a h') = 48" for k n a h'
    by metis
  have "\<forall>pw salt. \<exists>k. derive_kek P pw salt params = Inr k"
    using P(2) params unfolding argon_total_def by blast
  then obtain K where K: "derive_kek P pw salt params = Inr (K pw salt)" for pw salt
    by metis
  have "runs r D (configure_duress P h password params) (\<lambda>_ D'. D' = D)"
    unfolding configure_duress_def Let_def
    by (rule step_random_disabled_duress, cases password)
       (simp_all add: runs_returnM runs_liftE K E copy_from_slice_def)
  then have "runs r D (configure_duress P h password params)
      (\<lambda>h' D'. D' = D \<and> (\<exists>d. h' = h\<lparr>h_duress := d\<rparr> \<and> wf_duress_slot d \<and> ds_params d = params))"
    by (rule runs_strengthen) (rule configure_duress_wf)
  then show ?thesis by (rule runs_bindM) (use f in blast)
qed

lemma derive_key_total:
  assumes "hkdf_ok P"
  shows "\<exists>key. derive_index_key P dek c = Inr key" "\<exists>key. derive_file_key P dek c i = Inr key"
  using assms unfolding hkdf_ok_def derive_index_key_def derive_file_key_def hkdf_key_def
  by (metis ok_or_def option.simps(5))+

text \<open>Everything the key generation needs: lengths of the index and a password for the parameters.\<close>

definition keys_ok :: "prims \<Rightarrow> bool" where
  "keys_ok P \<longleftrightarrow> aead_ok P \<and> argon_total P \<and> digest_ok P \<and> hkdf_ok P"

definition made_header :: "prims \<Rightarrow> argon2_params \<Rightarrow> header \<Rightarrow> bool" where
  "made_header P params h \<longleftrightarrow>
     wf_header h \<and> wf_slot (fst (h_slots h)) \<and> wf_slot (snd (h_slots h)) \<and>
     h_magic h = MAGIC \<and> h_version h = VERSION \<and> unat (h_header_size h) = HEADER_SIZE \<and> unat (h_chunk_size h) = CHUNK_SIZE \<and>
     (\<forall>slot \<in> live_slots h. ks_params slot = params) \<and> (ds_enabled (h_duress h) \<longrightarrow> ds_params (h_duress h) = params)"

lemma runs_pack_keys:
  assumes P: "keys_ok P" and params: "argon2_within_limits params"
    and size: "checked_add (of_nat (length ser)) TAG_SIZE = Some isz"
  shows "runs r D (pack_keys P password duress params es ser isz dsz) (\<lambda>(h, _, _) D'. D' = D \<and> made_header P params h \<and> h_data_size h = dsz)"
proof -
  note P' = P [unfolded keys_ok_def]
  have isz: "of_nat (length ser) + 16 = isz"
    using size by (auto simp: checked_add_def TAG_SIZE_def split: if_splits)
  show ?thesis unfolding pack_keys_def
  proof (rule step_fill_bytes, rule step_fill_bytes, rule step_fill_bytes, rule step_random_disabled_slot,
      rule step_random_disabled_slot, rule step_random_disabled_duress, unfold Let_def, rule step_silent,
      rule step_configure_duress)
    fix cid nonce dek :: bytes and s0 s1 :: key_slot and d d' :: duress_slot
    assume len: "length cid = 16" "length nonce = 12" and dek: "length dek = 32" and s1: "wf_slot s1" "ks_generation s1 = 0"
      and d': "wf_duress_slot d'" "ds_params d' = params"
    let ?h = "(fresh_header cid nonce isz dsz (length es) (s0, s1) d)\<lparr>h_duress := d'\<rparr>"
    show "runs r D (bindM check_cancel (\<lambda>_. bindM (make_key_slot P ?h password dek 1 params) (\<lambda>slot.
        bindM check_cancel (\<lambda>_. bindM (liftE (derive_index_key P dek (h_container_id (set_slot 0 slot ?h)))) (\<lambda>index_key.
        bindM (liftE (encrypt_aead P index_key (h_index_nonce (set_slot 0 slot ?h)) (index_aad P (set_slot 0 slot ?h)) ser)) (\<lambda>enc.
        bindM (liftE (ensure (of_nat (length enc) = h_index_size (set_slot 0 slot ?h)) ''Internal index size mismatch'')) (\<lambda>_.
        returnM (set_slot 0 slot ?h, dek, enc)))))))) (\<lambda>(h, _, _) D'. D' = D \<and> made_header P params h \<and> h_data_size h = dsz)"
    proof (rule step_silent, rule step_make_key_slot)
      fix slot :: key_slot assume slot: "ks_generation slot = 1" "ks_params slot = params" "wf_slot slot"
      obtain key where key: "derive_index_key P dek (h_container_id (set_slot 0 slot ?h)) = Inr key"
        using derive_key_total(1) P' by blast
      obtain c where c: "encrypt_aead P key (h_index_nonce (set_slot 0 slot ?h)) (index_aad P (set_slot 0 slot ?h)) ser = Inr c"
          "length c = length ser + 16"
        using encrypt_aead_ok P' by blast
      have "h_index_size (set_slot 0 slot ?h) = isz" "h_data_size (set_slot 0 slot ?h) = dsz" by (simp_all add: set_slot_def fresh_header_def)
      moreover have "made_header P params (set_slot 0 slot ?h)"
        using len s1 d' slot
        by (simp add: made_header_def set_slot_def fresh_header_def wf_header_def wf_duress_slot_def live_slots_def)
          (auto simp: MAGIC_def HEADER_SIZE_def CHUNK_SIZE_def)
      ultimately show "runs r D (bindM check_cancel (\<lambda>_. bindM (liftE (derive_index_key P dek (h_container_id (set_slot 0 slot ?h)))) (\<lambda>index_key.
        bindM (liftE (encrypt_aead P index_key (h_index_nonce (set_slot 0 slot ?h)) (index_aad P (set_slot 0 slot ?h)) ser)) (\<lambda>enc.
        bindM (liftE (ensure (of_nat (length enc) = h_index_size (set_slot 0 slot ?h)) ''Internal index size mismatch'')) (\<lambda>_.
        returnM (set_slot 0 slot ?h, dek, enc)))))) (\<lambda>(h, _, _) D'. D' = D \<and> made_header P params h \<and> h_data_size h = dsz)"
        by (intro step_silent) (simp add: key c isz runs_returnM)
    qed (use P' params dek in simp_all)
  qed (use P' params in simp_all)
qed

section \<open>The plan\<close>

text \<open>Each snapshot holds the fingerprint of the file it names.\<close>

lemma scan_source_snapshots:
  assumes run: "scan_source walk fuel source w = (Inr (es, sources, tot, off), w')"
    and walk: "distinct (walk_items walk (w_disk w) source)" and snap: "(i, snap) \<in> set sources"
  shows "\<exists>x f. snap = \<lparr>sn_path = source @ x, sn_fingerprint = fingerprint_from_file f\<rparr> \<and>
    w_disk w (source @ x) = Some (FileNode f)"
proof -
  let ?D = "w_disk w"
  obtain rs es' where es: "es = directory_entry 1 1 [] 0 # es'" and nodes: "list_all2 (entry_node ?D source sources) rs es'"
    and files: "map fst sources = map e_id (files_of es)" and len: "length es \<le> MAX_ENTRIES"
    and ok: "\<forall>h. unat (h_entry_count h) = length es \<longrightarrow> h_data_size h = off \<longrightarrow> index_ok h es"
    using scan_source_Inr [OF run walk] by blast
  have "\<exists>h. unat (h_entry_count h) = length es \<and> h_data_size h = off"
    using len by (intro exI [of _ "undefined\<lparr>h_entry_count := of_nat (length es), h_data_size := off\<rparr>"])
      (simp add: unat_of_nat_small MAX_ENTRIES_def)
  with ok obtain h where "index_ok h es" by blast
  then have dist: "distinct (map e_id es')" by (simp add: index_ok_def es)
  have files': "map fst sources = map e_id (files_of es')" using files by (simp add: es files_of_def directory_entry_def)
  note srcs = scan_sources [OF nodes dist files']
  from srcs(2) [OF snap] obtain e where e: "e \<in> set (files_of es')" "e_id e = i" by blast
  then have eF: "e \<in> set es'" "e_kind e = File" using files_ofD by auto
  then obtain k where "k < length es'" "e = es' ! k" by (auto simp: in_set_conv_nth)
  with list_all2_nthD2 [OF nodes] obtain x where "entry_node ?D source sources x e" by blast
  from entry_node_content [OF this eF(2) srcs(1)] obtain f where f: "?D (source @ x) = Some (FileNode f)"
      "(i, \<lparr>sn_path = source @ x, sn_fingerprint = fingerprint_from_file f\<rparr>) \<in> set sources" using e(2) by blast
  then have "snap = \<lparr>sn_path = source @ x, sn_fingerprint = fingerprint_from_file f\<rparr>"
    using map_of_is_SomeI [OF srcs(1) snap] map_of_is_SomeI [OF srcs(1) f(2)] by simp
  with f(1) show ?thesis by blast
qed

text \<open>An index of \<open>n\<close> entries has an encoding within the limit.\<close>

definition index_fits :: "prims \<Rightarrow> nat \<Rightarrow> nat \<Rightarrow> bool" where
  "index_fits P n limit \<longleftrightarrow>
     (\<forall>es. length es = n \<and> (\<forall>e \<in> set es. length (e_file_id e) = 16 \<and> length (e_name e) \<le> MAX_NAME_BYTES) \<longrightarrow>
        (\<exists>bs. p_index_to_vec P es = Inr bs \<and> length bs + 16 \<le> limit))"

definition prims_ok :: "prims \<Rightarrow> bool" where
  "prims_ok P \<longleftrightarrow> keys_ok P \<and> header_codec_ok P \<and> header_encoder_ok P \<and> index_codec_ok P \<and> index_vec_bounded P"

text \<open>What a source needs to be packed: a directory whose walk is a well-formed tree within the limits.\<close>

definition pack_ready ::
  "prims \<Rightarrow> walker \<Rightarrow> nat \<Rightarrow> (nat \<Rightarrow> byte) \<Rightarrow> disk \<Rightarrow> path \<Rightarrow> path list \<Rightarrow> u64 \<Rightarrow> bool" where
  "pack_ready P walk fuel r D source rs max_index \<longleftrightarrow>
     D source = Some DirNode \<and> source_ok D source rs \<and> draws_ok r fuel (length rs) \<and>
     walk D source = Inr source # map (\<lambda>x. Inr (source @ x)) rs \<and>
     index_fits P (Suc (length rs)) (unat (min max_index MAX_INDEX_SIZE)) \<and>
     sum_list (map (\<lambda>x. stored_size D (source @ x)) rs) + 2 ^ 30 < 2 ^ 64 \<and>
     (\<forall>p f. D p = Some (FileNode f) \<longrightarrow> length (fd_bytes f) < 2 ^ 64)"

lemma walk_items_ready:
  assumes "pack_ready P walk fuel r D source rs max_index"
  shows "distinct (walk_items walk D source)"
proof -
  have rs: "distinct rs" "\<forall>x \<in> set rs. x \<noteq> []" "walk D source = Inr source # map (\<lambda>x. Inr (source @ x)) rs"
    using assms by (auto simp: pack_ready_def source_ok_def in_set_conv_nth)
  then have "walk_items walk D source = map (\<lambda>x. Inr (source @ x)) rs"
    unfolding walk_items_def rs(3) by (simp add: filter_id_conv)
  with rs(1) show ?thesis by (simp add: distinct_map inj_on_def)
qed

definition planned ::
  "prims \<Rightarrow> argon2_params \<Rightarrow> disk \<Rightarrow> path \<Rightarrow> pack_plan \<Rightarrow> bool" where
  "planned P params D source plan \<longleftrightarrow>
     made_header P params (pl_header plan) \<and> header_within_limits (pl_header plan) \<and>
     HEADER_SIZE + unat (h_index_size (pl_header plan)) + unat (h_data_size (pl_header plan)) < 2 ^ 64 \<and>
     (\<forall>src \<in> set (pl_sources plan). \<exists>x f. snd src = \<lparr>sn_path = source @ x, sn_fingerprint = fingerprint_from_file f\<rparr> \<and>
        D (source @ x) = Some (FileNode f))"

lemma header_made:
  assumes keys: "pack_keys P password duress params es ser isz dsz w = (Inr (h, dek, enc), w')"
    and P: "aead_ok P" and made: "made_header P params h" and params: "argon2_within_limits params"
    and ser: "length ser + 16 \<le> 512 * 1024 * 1024" and len: "length es \<le> MAX_ENTRIES"
    and size: "checked_add (of_nat (length ser)) TAG_SIZE = Some isz"
  shows "header_within_limits h" "unat (h_index_size h) = length ser + 16" "h_data_size h = dsz"
proof -
  note k = pack_keys_Inr [OF P keys]
  have "unat isz = length ser + 16"
    using size ser by (simp add: checked_add_eq_Some TAG_SIZE_def unat_of_nat_small)
  moreover have "unat (h_entry_count h) \<le> MAX_ENTRIES"
    unfolding k(4) using len by (subst unat_of_nat_small) (simp_all add: MAX_ENTRIES_def)
  ultimately show "header_within_limits h" using made k(2) ser params
    by (auto simp: made_header_def header_within_limits_def live_slots_def)
  show "unat (h_index_size h) = length ser + 16" using \<open>unat isz = length ser + 16\<close> k(2) by simp
  show "h_data_size h = dsz" by (rule k(3))
qed

lemma scan_source_encodable:
  assumes run: "scan_source walk fuel source w = (Inr (es, sources, tot, off), w')"
    and walk: "distinct (walk_items walk (w_disk w) source)"
  shows "length es \<le> MAX_ENTRIES" "e \<in> set es \<Longrightarrow> length (e_file_id e) = 16 \<and> length (e_name e) \<le> MAX_NAME_BYTES"
proof -
  let ?D = "w_disk w"
  obtain rs es' where es: "es = directory_entry 1 1 [] 0 # es'" and nodes: "list_all2 (entry_node ?D source sources) rs es'"
    and len: "length es \<le> MAX_ENTRIES"
    and ok: "\<forall>h. unat (h_entry_count h) = length es \<longrightarrow> h_data_size h = off \<longrightarrow> index_ok h es"
    using scan_source_Inr [OF run walk] by blast
  show "length es \<le> MAX_ENTRIES" by (rule len)
  have "\<exists>h. unat (h_entry_count h) = length es \<and> h_data_size h = off"
    using len by (intro exI [of _ "undefined\<lparr>h_entry_count := of_nat (length es), h_data_size := off\<rparr>"])
      (simp add: unat_of_nat_small MAX_ENTRIES_def)
  with ok obtain h where ok: "index_ok h es" by blast
  assume e: "e \<in> set es"
  show "length (e_file_id e) = 16 \<and> length (e_name e) \<le> MAX_NAME_BYTES"
  proof (cases "e = directory_entry 1 1 [] 0")
    case True
    then show ?thesis by (simp add: directory_entry_def)
  next
    case False
    with e have "e \<in> set es'" by (simp add: es)
    then obtain k where "k < length es'" "e = es' ! k" by (auto simp: in_set_conv_nth)
    with list_all2_nthD2 [OF nodes] obtain x where x: "entry_node ?D source sources x e" by blast
    have "entry_ok e" using ok e by (simp add: index_ok_def)
    then have "length (e_name e) \<le> MAX_NAME_BYTES" "e_kind e = Directory \<Longrightarrow> length (e_file_id e) = 16"
      by (auto simp: entry_ok_def validate_name_eq_Inr MAX_NAME_BYTES_def split: if_splits)
    with x show ?thesis by (cases "e_kind e") (auto simp: entry_node_def)
  qed
qed

lemma runs_pack_prepare:
  assumes P: "prims_ok P" and ready: "pack_ready P walk fuel r D source rs max_index"
    and params: "argon2_within_limits params" and duress: "duress \<noteq> Some password"
  shows "runs r D (pack_prepare P walk fuel source password duress params max_index)
    (\<lambda>plan D'. D' = D \<and> made_header P params (pl_header plan) \<and>
      unat (h_data_size (pl_header plan)) = sum_list (map (\<lambda>x. stored_size D (source @ x)) rs))"
proof -
  note ready' = ready [unfolded pack_ready_def]
  note walk = walk_items_ready [OF ready]
  have src: "source_ok D source rs" "draws_ok r fuel (length rs)" "walk D source = Inr source # map (\<lambda>x. Inr (source @ x)) rs"
    and D: "D source = Some DirNode" and fits: "index_fits P (Suc (length rs)) (unat (min max_index MAX_INDEX_SIZE))"
    using ready' by blast+
  have scan: "runs r D (scan_source walk fuel source) (\<lambda>(es, sources, tot, off) D'. D' = D \<and>
      length es = Suc (length rs) \<and> unat off = sum_list (map (\<lambda>x. stored_size D (source @ x)) rs) \<and> (\<forall>e \<in> set es. length (e_file_id e) = 16 \<and> length (e_name e) \<le> MAX_NAME_BYTES))"
  proof -
    have "runs r D (scan_source walk fuel source) (\<lambda>a D'. (case a of (es, sources, tot, off) \<Rightarrow> D' = D \<and>
        length es = Suc (length rs) \<and> unat off = sum_list (map (\<lambda>x. stored_size D (source @ x)) rs)) \<and>
        (case a of (es, _) \<Rightarrow> \<forall>e \<in> set es. length (e_file_id e) = 16 \<and> length (e_name e) \<le> MAX_NAME_BYTES))"
    proof (rule runs_strengthen)
      show "runs r D (scan_source walk fuel source) (\<lambda>a D'. case a of (es, sources, tot, off) \<Rightarrow> D' = D \<and>
        length es = Suc (length rs) \<and> unat off = sum_list (map (\<lambda>x. stored_size D (source @ x)) rs))"
        by (rule runs_mono [OF runs_scan_source [where walk = walk, OF src]]) auto
      fix a w w' assume w: "w_disk w = D" and run: "scan_source walk fuel source w = (Inr a, w')"
      then show "case a of (es, _) \<Rightarrow> \<forall>e \<in> set es. length (e_file_id e) = 16 \<and> length (e_name e) \<le> MAX_NAME_BYTES"
        using scan_source_encodable(2) [of walk fuel source w] walk by (cases a) auto
    qed
    then show ?thesis by (rule runs_mono) auto
  qed
  show ?thesis unfolding pack_prepare_def
  proof (rule step_silent, rule step_contextM, rule step_symlink_metadata, rule D,
      rule step_liftE [where a = "()"], simp add: ensure_simps, rule step_liftE [where a = "()"], simp add: ensure_simps duress,
      rule step_liftE [where a = "()"], simp add: validate_argon2_eq_Inr params,
      rule step_silent, rule step_silent, rule step_silent, rule runs_bindM, rule scan, clarify, rule step_silent)
    fix es :: "entry list" and sources :: "(u64 \<times> source_snapshot) list" and tot off :: u64
    assume es: "length es = Suc (length rs)" and off: "unat off = sum_list (map (\<lambda>x. stored_size D (source @ x)) rs)"
      and names: "\<forall>e \<in> set es. length (e_file_id e) = 16 \<and> length (e_name e) \<le> MAX_NAME_BYTES"
    obtain ser where ser: "p_index_to_vec P es = Inr ser" "length ser + 16 \<le> unat (min max_index MAX_INDEX_SIZE)"
      using fits es names unfolding index_fits_def by blast
    obtain isz where isz: "checked_add (of_nat (length ser)) TAG_SIZE = Some isz" "\<not> min max_index MAX_INDEX_SIZE < isz"
    proof -
      let ?m = "min max_index MAX_INDEX_SIZE" and ?n = "of_nat (length ser) :: u64"
      have small: "length ser + 16 < 2 ^ 64" using order_le_less_trans [OF ser(2) unat_u64_bound] by simp
      then have n: "unat ?n = length ser" by (intro unat_of_nat_small) simp
      with small have "checked_add ?n TAG_SIZE = Some (?n + TAG_SIZE)" by (simp add: checked_add_def TAG_SIZE_def)
      moreover from this have "unat (?n + TAG_SIZE) = length ser + 16" using n by (simp add: checked_add_eq_Some TAG_SIZE_def)
      then have "\<not> ?m < ?n + TAG_SIZE" using ser(2) by (simp add: word_less_nat_alt)
      ultimately show thesis by (rule that)
    qed
    have keys: "runs r D (pack_keys P password duress params es ser isz off) (\<lambda>(h, _, _) D'. D' = D \<and> made_header P params h \<and> h_data_size h = off)"
      by (rule runs_pack_keys [OF _ params isz(1)]) (use P in \<open>simp add: prims_ok_def\<close>)
    show "runs r D (bindM (liftE (p_index_to_vec P es)) (\<lambda>serialized_index.
         bindM (liftE (context_opt ''Index size overflow'' (checked_add (of_nat (length serialized_index)) TAG_SIZE))) (\<lambda>index_size.
         bindM (liftE (ensure (\<not> min max_index MAX_INDEX_SIZE < index_size)
           (''Encrypted index is '' @ dec_string (unat index_size) @ '' bytes, exceeding the configured/local limit of ''
             @ dec_string (unat (min max_index MAX_INDEX_SIZE)) @ '' bytes''))) (\<lambda>_.
         bindM (pack_keys P password duress params es serialized_index index_size off) (\<lambda>(h, dek, encrypted_index).
         returnM \<lparr>pl_entries = es, pl_sources = sources, pl_total = tot, pl_header = h,
           pl_dek = dek, pl_index = encrypted_index\<rparr>)))))
      (\<lambda>plan D'. D' = D \<and> made_header P params (pl_header plan) \<and>
      unat (h_data_size (pl_header plan)) = sum_list (map (\<lambda>x. stored_size D (source @ x)) rs))"
      by (simp only: ser isz bindM_liftE_Inr context_opt_simps ensure_simps simp_thms if_True)
         (rule runs_bindM [OF keys], use off in \<open>auto intro!: runs_returnM\<close>)
  qed
qed

lemma runs_prepared:
  assumes P: "prims_ok P" "schedules_ok sd" and ready: "pack_ready P walk fuel r D source rs max_index"
    and params: "argon2_within_limits params" and duress: "duress \<noteq> Some password"
  shows "runs r D (pack_prepare P walk fuel source password duress params max_index)
    (\<lambda>plan D'. D' = D \<and> plan_ok P walk D source password plan (source_content D (pl_sources plan)) \<and>
      planned P params D source plan)"
proof -
  note P' = P(1) [unfolded prims_ok_def keys_ok_def]
  note walk = walk_items_ready [OF ready]
  have fits: "\<forall>es. length es = Suc (length rs) \<and> (\<forall>e \<in> set es. length (e_file_id e) = 16 \<and> length (e_name e) \<le> MAX_NAME_BYTES) \<longrightarrow>
      (\<exists>bs. p_index_to_vec P es = Inr bs \<and> length bs + 16 \<le> unat (min max_index MAX_INDEX_SIZE))"
    and sum: "sum_list (map (\<lambda>x. stored_size D (source @ x)) rs) + 2 ^ 30 < 2 ^ 64"
    using ready by (simp_all add: pack_ready_def index_fits_def)
  have "runs r D (pack_prepare P walk fuel source password duress params max_index)
    (\<lambda>plan D'. (D' = D \<and> made_header P params (pl_header plan) \<and>
      unat (h_data_size (pl_header plan)) = sum_list (map (\<lambda>x. stored_size D (source @ x)) rs)) \<and>
      (made_header P params (pl_header plan) \<and>
        unat (h_data_size (pl_header plan)) = sum_list (map (\<lambda>x. stored_size D (source @ x)) rs) \<longrightarrow>
       plan_ok P walk D source password plan (source_content D (pl_sources plan)) \<and> planned P params D source plan))"
  proof (rule runs_strengthen [OF runs_pack_prepare [OF P(1) ready params duress]], intro impI)
    fix plan w w'
    assume w: "calm r w" "w_disk w = D" and run: "pack_prepare P walk fuel source password duress params max_index w = (Inr plan, w')"
      and made: "made_header P params (pl_header plan) \<and>
        unat (h_data_size (pl_header plan)) = sum_list (map (\<lambda>x. stored_size D (source @ x)) rs)"
    let ?h = "pl_header plan" and ?es = "pl_entries plan"
    have "pack_assumptions P sd walk source w"
      using P P' walk ready w(2) by (auto simp: pack_assumptions_def prims_ok_def pack_ready_def)
    from pack_prepare_plan(2) [OF this run] have plan: "plan_ok P walk D source password plan (source_content D (pl_sources plan))"
      by (simp add: w(2))
    obtain ws dsz ws' ser isz wk where scan: "scan_source walk fuel source ws = (Inr (?es, pl_sources plan, pl_total plan, dsz), ws')"
      and ws: "w_disk ws = D" and ser: "p_index_to_vec P ?es = Inr ser" and isz: "checked_add (of_nat (length ser)) TAG_SIZE = Some isz"
        "isz \<le> MAX_INDEX_SIZE"
      and keys: "pack_keys P password duress params ?es ser isz dsz wk = (Inr (?h, pl_dek plan, pl_index plan), w')"
      using run w(2) by (elim pack_prepare_Inr) simp
    have enc: "length ?es \<le> MAX_ENTRIES"
      using scan_source_encodable(1) [OF scan] walk ws by simp
    have len: "length ser + 16 \<le> 512 * 1024 * 1024"
    proof -
      have "length ser < 2 ^ 63" using P' ser by (simp add: index_vec_bounded_def)
      then have "unat (of_nat (length ser) :: u64) = length ser" by (intro unat_of_nat_small) simp
      then show ?thesis using isz by (simp add: checked_add_eq_Some TAG_SIZE_def MAX_INDEX_SIZE_def word_le_nat_alt)
    qed
    note hm = header_made [OF keys _ _ params len enc isz(1)]
    have "\<exists>x f. snd src = \<lparr>sn_path = source @ x, sn_fingerprint = fingerprint_from_file f\<rparr> \<and> D (source @ x) = Some (FileNode f)"
      if "src \<in> set (pl_sources plan)" for src
      using scan_source_snapshots [OF scan, of "fst src" "snd src"] walk ws that by simp
    moreover have "HEADER_SIZE + unat (h_index_size ?h) + unat (h_data_size ?h) < 2 ^ 64"
      using hm(2) P' made sum len by (simp add: HEADER_SIZE_def)
    ultimately have "planned P params D source plan" using hm(1) P' made by (simp add: planned_def)
    with plan show "plan_ok P walk D source password plan (source_content D (pl_sources plan)) \<and> planned P params D source plan" ..
  qed
  then show ?thesis by (rule runs_mono) blast
qed

section \<open>Writing\<close>

lemma runs_encrypt_source_chunk:
  assumes P: "aead_ok P" and i: "i < chunks_for (unat (e_size e))"
    and bound: "chunk_at start e i + chunk_len (unat (e_size e)) i + 16 < 2 ^ 64"
    and f: "D q = Some (FileNode f)" "length (fd_bytes f) = unat (e_size e)" and g: "D T = Some (FileNode g)"
  shows "runs r D (encrypt_source_chunk P T start snapshot q e h key (of_nat i) progress)
    (\<lambda>_ D'. \<exists>g'. D' = D(T := Some (FileNode g')))"
proof -
  let ?n = "unat (e_size e)"
  obtain ps cl rel base :: u64 where c:
    "checked_mul (of_nat i) CHUNK64 = Some ps" "min CHUNK64 (e_size e - ps) = of_nat (chunk_len ?n i)"
    "unat ps = i * CHUNK_SIZE" "checked_mul (of_nat i) (CHUNK64 + TAG_SIZE) = Some rel"
    "checked_add start (e_data_offset e) = Some base" "checked_add base rel = Some (of_nat (chunk_at start e i))"
    using chunk_words [OF i, of start] bound unfolding chunk_at_def by metis
  have len: "unat (of_nat (chunk_len ?n i) :: u64) = chunk_len ?n i"
    using bound by (intro unat_of_nat_small) simp
  have "i * CHUNK_SIZE + chunk_len ?n i \<le> ?n"
    using i by (simp add: chunk_len_def less_chunks_for)
  then obtain buffer where rd: "content_reader (fd_bytes f) ps (chunk_len ?n i) = Inr buffer"
    by (cases "chunk_len ?n i = 0") (simp_all add: content_reader_def f(2) c(3))
  obtain ct where ct: "encrypt_aead P key (chunk_nonce (of_nat i)) (chunk_aad h e (of_nat i) (of_nat (chunk_len ?n i))) buffer = Inr ct"
    using encrypt_aead_ok [OF P] by metis
  show ?thesis unfolding encrypt_source_chunk_def
    by (rule step_silent, simp add: c(1,2,4,5,6) len context_opt_simps Let_def, rule step_contextM, rule step_read_exact_file,
        rule f(1), rule rd, simp add: ct, rule step_writes(1), rule g)
      (auto simp: split_beta intro!: step_silent runs_returnM)
qed

lemma runs_encrypt_source_file:
  assumes P: "keys_ok P" and sd: "schedules_ok sd" and ctx: "pack_ctx P h es start N" and e: "e \<in> set (files_of es)"
    and f: "D q = Some (FileNode f)" "length (fd_bytes f) = unat (e_size e)" and T: "D T = Some (FileNode g)" "T \<noteq> q"
  shows "runs r D (encrypt_source_file P sd T start \<lparr>sn_path = q, sn_fingerprint = fingerprint_from_file f\<rparr> e h dek progress)
    (\<lambda>_ D'. \<exists>g'. D' = D(T := Some (FileNode g')))"
proof -
  let ?snap = "\<lparr>sn_path = q, sn_fingerprint = fingerprint_from_file f\<rparr>"
  let ?chunks = "sd_chunks sd (map of_nat [0..<unat (e_chunk_count e)]) :: u64 list"
  let ?Q = "\<lambda>_ D'. \<exists>g'. D' = D(T := Some (FileNode g'))"
  note P' = P [unfolded keys_ok_def]
  have follow: "follow D q = q" using f(1) by (simp add: follow_def)
  have same: "runs r D' (ensure_unchanged ?snap q) (\<lambda>_ D''. D'' = D')" if "D' q = Some (FileNode f)" for D'
    unfolding ensure_unchanged_def by (rule step_fingerprint_of, rule that) (simp add: ensure_simps runs_liftE)
  obtain key where key: "derive_file_key P dek (h_container_id h) (e_file_id e) = Inr key"
    using derive_key_total(2) P' by blast
  have loop: "runs r D (foldM (encrypt_source_chunk P T start ?snap q e h key) ?chunks progress) ?Q"
  proof (rule runs_foldM [where J = "\<lambda>_. ?Q"])
    fix pre x post s D'
    assume split: "?chunks = pre @ x # post" and J: "\<exists>g'. D' = D(T := Some (FileNode g'))"
    have "x \<in> set ?chunks" unfolding split by simp
    then obtain i where i: "i < unat (e_chunk_count e)" "x = of_nat i" using sd by (auto simp: schedules_ok_def)
    obtain g' where g': "D' = D(T := Some (FileNode g'))" using J by blast
    have "i < chunks_for (unat (e_size e))" using i(1) pack_ctx_entry(1) [OF ctx e] by simp
    moreover have "chunk_at start e i + chunk_len (unat (e_size e)) i + 16 < 2 ^ 64"
      using chunk_place(2) [OF ctx e i(1)] ctx by (simp add: pack_ctx_def)
    moreover have "D' q = Some (FileNode f)" "D' T = Some (FileNode g')" using T(2) f(1) by (simp_all add: g')
    ultimately have "runs r D' (encrypt_source_chunk P T start ?snap q e h key (of_nat i) s) (\<lambda>_ D''. \<exists>g''. D'' = D'(T := Some (FileNode g'')))"
      using runs_encrypt_source_chunk f(2) P' by blast
    then show "runs r D' (encrypt_source_chunk P T start ?snap q e h key x s) ?Q"
      unfolding i(2) by (rule runs_mono) (auto simp: g')
  qed (use T in \<open>metis fun_upd_triv\<close>)
  show ?thesis unfolding encrypt_source_file_def
    by (rule step_contextM, simp, rule step_open(1), unfold follow, rule f(1), rule runs_bindM, rule same, rule f(1),
        simp add: key, rule runs_bindM, rule loop, rule runs_bindM, rule same)
      (use f(1) T(2) in \<open>auto intro!: runs_returnM\<close>)
qed

text \<open>What the writing part needs of a plan: it fits, and every source is a file of the disk, unchanged.\<close>

definition writable :: "prims \<Rightarrow> disk \<Rightarrow> pack_plan \<Rightarrow> bool" where
  "writable P D plan \<longleftrightarrow>
     index_ok (pl_header plan) (pl_entries plan) \<and>
     HEADER_SIZE + unat (h_index_size (pl_header plan)) + unat (h_data_size (pl_header plan)) < 2 ^ 64 \<and>
     (\<exists>hb. serialize_header P (pl_header plan) = Inr hb) \<and>
     (\<forall>src \<in> set (pl_sources plan). \<exists>q f. snd src = \<lparr>sn_path = q, sn_fingerprint = fingerprint_from_file f\<rparr> \<and>
        D q = Some (FileNode f) \<and>
        (\<exists>e \<in> set (files_of (pl_entries plan)). e_id e = fst src \<and> length (fd_bytes f) = unat (e_size e)))"

lemma planned_writable:
  assumes P: "prims_ok P" and plan: "plan_ok P walk D source password plan content" and planned: "planned P params D source plan"
  shows "writable P D plan"
proof -
  have "\<exists>q f. snd src = \<lparr>sn_path = q, sn_fingerprint = fingerprint_from_file f\<rparr> \<and> D q = Some (FileNode f) \<and>
        (\<exists>e \<in> set (files_of (pl_entries plan)). e_id e = fst src \<and> length (fd_bytes f) = unat (e_size e))"
    if src: "src \<in> set (pl_sources plan)" for src
  proof -
    obtain x f where f: "snd src = \<lparr>sn_path = source @ x, sn_fingerprint = fingerprint_from_file f\<rparr>" "D (source @ x) = Some (FileNode f)"
      using planned src unfolding planned_def by blast
    moreover obtain e f' where "e \<in> set (files_of (pl_entries plan))" "e_id e = fst src" "D (sn_path (snd src)) = Some (FileNode f')"
        "fd_bytes f' = content e"
      using plan src unfolding plan_ok_def by blast
    moreover have "length (content e) = unat (e_size e)" if "e \<in> set (files_of (pl_entries plan))" for e
      using plan that by (simp add: plan_ok_def)
    ultimately show ?thesis by fastforce
  qed
  moreover have "\<exists>hb. serialize_header P (pl_header plan) = Inr hb"
    using P planned by (auto simp: prims_ok_def header_encoder_ok_def planned_def made_header_def)
  ultimately show ?thesis using plan planned unfolding writable_def plan_ok_def planned_def by blast
qed

lemma runs_encrypt_source:
  assumes P: "keys_ok P" and sd: "schedules_ok sd" and ctx: "pack_ctx P (pl_header plan) (pl_entries plan) start N"
    and ok: "writable P D plan" and src: "src \<in> set (pl_sources plan)" and T: "D T = None" "D' = D(T := Some (FileNode g))"
  shows "runs r D' (encrypt_source P sd T start (pl_entries plan) (pl_header plan) dek src progress)
    (\<lambda>_ D''. \<exists>g'. D'' = D(T := Some (FileNode g')))"
proof -
  let ?es = "pl_entries plan"
  obtain q f e where q: "snd src = \<lparr>sn_path = q, sn_fingerprint = fingerprint_from_file f\<rparr>" "D q = Some (FileNode f)"
    and e: "e \<in> set (files_of ?es)" "e_id e = fst src" "length (fd_bytes f) = unat (e_size e)"
    using ok src unfolding writable_def by blast
  have "distinct (map e_id ?es)" using ok by (simp add: writable_def index_ok_def)
  then have "map_of (rev (map (\<lambda>e. (e_id e, e)) ?es)) (fst src) = Some e"
    using e(1,2) by (intro map_of_is_SomeI) (auto simp: rev_map [symmetric] comp_def files_of_def intro!: image_eqI [where x = e])
  moreover have "T \<noteq> q" using q(2) T(1) by auto
  then have "D' q = Some (FileNode f)" "D' T = Some (FileNode g)" "T \<noteq> q" using q(2) T by simp_all
  from runs_encrypt_source_file [OF P sd ctx e(1) this(1) e(3) this(2,3)]
  have "runs r D' (encrypt_source_file P sd T start (snd src) e (pl_header plan) dek progress)
      (\<lambda>_ D''. \<exists>g'. D'' = D(T := Some (FileNode g')))"
    unfolding q(1) by (rule runs_mono) (unfold T(2) fun_upd_upd, blast)
  ultimately show ?thesis unfolding encrypt_source_def
    by (intro step_silent) (simp add: context_opt_simps)
qed

lemma runs_pack_write:
  assumes P: "keys_ok P" and sd: "schedules_ok sd" and ok: "writable P D plan" and T: "D T = None"
  shows "runs r (D(T := Some (FileNode g))) (pack_write P sd NoFault plan T) (\<lambda>_ D'. \<exists>g'. D' = D(T := Some (FileNode g')))"
proof -
  let ?h = "pl_header plan" and ?Q = "\<lambda>_ D'. \<exists>g'. D' = D(T := Some (FileNode g'))"
  have size: "HEADER_SIZE + unat (h_index_size ?h) + unat (h_data_size ?h) < 2 ^ 64" using ok by (simp add: writable_def)
  obtain start where start: "checked_add HEADER64 (h_index_size ?h) = Some start"
    using size by (cases "checked_add HEADER64 (h_index_size ?h)") (auto simp: checked_add_eq_None)
  then have ustart: "unat start = HEADER_SIZE + unat (h_index_size ?h)" by (simp add: checked_add_eq_Some)
  then obtain total where total: "checked_add start (h_data_size ?h) = Some total"
    using size by (cases "checked_add start (h_data_size ?h)") (auto simp: checked_add_eq_None)
  obtain hb where hb: "serialize_header P ?h = Inr hb" using ok by (auto simp: writable_def)
  have ctx: "pack_ctx P ?h (pl_entries plan) start (unat start + unat (h_data_size ?h))"
    using P ok size ustart by (simp add: pack_ctx_def keys_ok_def writable_def)
  have loop: "runs r (D(T := Some (FileNode g))) (foldM (encrypt_source P sd T start (pl_entries plan) ?h (pl_dek plan))
      (sd_sources sd (pl_sources plan)) progress) ?Q" for g progress
  proof (rule runs_foldM [where J = "\<lambda>_. ?Q"])
    fix pre x post s D'
    assume split: "sd_sources sd (pl_sources plan) = pre @ x # post" and J: "\<exists>g'. D' = D(T := Some (FileNode g'))"
    have "x \<in> set (sd_sources sd (pl_sources plan))" unfolding split by simp
    then have "x \<in> set (pl_sources plan)" using sd by (simp add: schedules_ok_def)
    then show "runs r D' (encrypt_source P sd T start (pl_entries plan) ?h (pl_dek plan) x s) ?Q"
      using J runs_encrypt_source [OF P sd ctx ok _ T] by blast
  qed blast
  obtain p evs where new: "tracker_new Encrypt (pl_total plan) = (p, evs)" by (cases "tracker_new Encrypt (pl_total plan)")
  have rest: "runs r (D(T := Some (FileNode g))) (bindM (emit_all evs) (\<lambda>_.
     bindM (foldM (encrypt_source P sd T start (pl_entries plan) ?h (pl_dek plan)) (sd_sources sd (pl_sources plan)) p) (\<lambda>_.
     sync_file T))) ?Q" for g
    by (rule step_silent, rule runs_bindM, rule loop, rule runs_mono, rule runs_reads(7)) auto
  show ?thesis unfolding pack_write_def
    by (simp add: start total hb new context_opt_simps Let_def, rule step_writes(2), simp, rule step_writes(1), simp, rule step_writes(1), simp,
        unfold fun_upd_upd, rule rest)
qed

section \<open>Self-verification\<close>

lemma runs_verify_all:
  assumes st: "content_stored P opened es content"
    and sched: "set (schedule (chunk_tasks (file_entries (oc_index opened)))) = set (chunk_tasks (file_entries (oc_index opened)))"
  shows "runs r D (verify_all_with_control P schedule opened) (\<lambda>_ D'. D' = D)"
proof -
  have ok: "opened_ok opened es" using st by (simp add: content_stored_def)
  then have files: "set (file_entries (oc_index opened)) = set (files_of es)"
    by (simp add: opened_ok_def file_entries_index_tables)
  obtain tot where tot: "total_size ''Total verification size overflow'' (file_entries (oc_index opened)) = Inr tot"
    using total_size_fits [OF ok] by blast
  obtain p evs where new: "tracker_new Verify tot = (p, evs)" by (cases "tracker_new Verify tot")
  have loop: "runs r D (foldM (verify_chunk P opened) (schedule (chunk_tasks (file_entries (oc_index opened)))) p) (\<lambda>_ D'. D' = D)"
  proof (rule runs_foldM [where J = "\<lambda>_ _ D'. D' = D"])
    fix pre x post s D'
    assume split: "schedule (chunk_tasks (file_entries (oc_index opened))) = pre @ x # post" and D': "D' = D"
    have "x \<in> set (chunk_tasks (file_entries (oc_index opened)))" unfolding sched [symmetric] split by simp
    then obtain e i where x: "x = (e, of_nat i)" "e \<in> set (files_of es)" "i < unat (e_chunk_count e)"
      by (auto simp: set_chunk_tasks files)
    obtain plain where dec: "decrypt_chunk P opened e (of_nat i) = Inr plain"
      using st x(2,3) decrypt_chunk_stored [of P opened es e i] files_ofD [OF x(2)]
      unfolding content_stored_def file_stored_def by fastforce
    then obtain m where "checked_mul (of_nat i) CHUNK64 = Some m" by (auto simp: decrypt_chunk_def result_simps)
    with dec show "runs r D' (verify_chunk P opened x s) (\<lambda>_ D''. D'' = D)"
      by (auto simp: verify_chunk_def x(1) D' context_opt_simps split_beta intro!: step_silent runs_returnM)
  qed simp
  show ?thesis unfolding verify_all_with_control_def Let_def
    by (simp add: tot new, rule step_silent, rule runs_bindM, rule loop) (simp add: runs_returnM)
qed

lemma runs_reporting:
  assumes "runs r D m Q"
  shows "runs r D (reporting f m) Q"
proof (rule runsI)
  fix w assume w: "calm r w" "w_disk w = D"
  have "calm r (w\<lparr>w_events := []\<rparr>)" "w_disk (w\<lparr>w_events := []\<rparr>) = D" using w by (simp_all add: calm_def fault_free_def)
  from assms this obtain a w' where "m (w\<lparr>w_events := []\<rparr>) = (Inr a, w')" "calm r w'" "Q a (w_disk w')" by (rule runsD)
  then show "\<exists>a w'. reporting f m w = (Inr a, w') \<and> calm r w' \<and> Q a (w_disk w')"
    by (simp add: reporting_def calm_def fault_free_def)
qed

lemma runs_pack_self_verify:
  assumes holds: "container_holds P D temp password es content" and sd: "schedules_ok sd"
  shows "runs r D (pack_self_verify P sd plan temp password) (\<lambda>_ D'. D' = D)"
  unfolding pack_self_verify_def
  by (rule step_silent, rule step_silent, rule step_contextM, rule runs_bindM, rule runs_holds_open, rule holds,
      rule step_silent, rule step_silent, rule step_silent, rule step_contextM, rule runs_bindM, rule runs_reporting,
      rule runs_verify_all)
    (use sd in \<open>auto simp: schedules_ok_def intro: runs_check_cancel\<close>)

section \<open>The published container\<close>

lemma container_bytes_holds:
  assumes P: "prims_ok P" and plan: "plan_ok P walk D0 source password plan content" and planned: "planned P params D0 source plan"
    and bs: "container_bytes P plan content (fd_bytes g)" and q: "D q = Some (FileNode g)"
  shows "container_holds P D q password (pl_entries plan) content"
proof -
  let ?h = "pl_header plan" and ?body = "drop HEADER_SIZE (fd_bytes g)"
  have codec: "header_codec_ok P" using P by (simp add: prims_ok_def)
  have lim: "header_within_limits ?h" using planned by (simp add: planned_def)
  from bs obtain start hb where start: "checked_add HEADER64 (h_index_size ?h) = Some start"
    and ctx: "pack_ctx P ?h (pl_entries plan) start (length (fd_bytes g))" and hb: "serialize_header P ?h = Inr hb"
    and front: "take HEADER_SIZE (fd_bytes g) = hb" "slice HEADER_SIZE (unat (h_index_size ?h)) (fd_bytes g) = pl_index plan"
    unfolding container_bytes_def by blast
  have len: "length (fd_bytes g) = HEADER_SIZE + unat (h_index_size ?h) + unat (h_data_size ?h)"
    using ctx start by (simp add: pack_ctx_def checked_add_eq_Some)
  have follow: "follow D q = q" using q by (simp add: follow_def)
  have "container_ready P D q ?h ?body"
    using planned lim len header_from_serialized [OF codec hb] front(1) q
    by (simp add: container_ready_def container_at_def follow planned_def made_header_def)
  moreover have "take (unat (h_index_size ?h)) ?body = pl_index plan" using front(2) by (simp add: slice_def)
  then have "open_index P ?h (pl_dek plan) (take (unat (h_index_size ?h)) ?body) = Inr (index_tables (pl_entries plan))"
    using plan by (simp add: plan_ok_def)
  moreover have "unlock P ?h password = Inr (Unlocked (pl_dek plan))" using plan lim by (simp add: plan_ok_def)
  moreover have "content_stored P opened (pl_entries plan) content"
    if v: "w_disk v = D" and run: "open_container P q password v = (Inr opened, v')" for v opened v'
  proof -
    let ?calm = "v\<lparr>w_fault := \<lambda>_. None\<rparr>"
    have "fault_free ?calm" "w_disk ?calm q = Some (FileNode g)" using v q by (simp_all add: fault_free_def)
    from container_bytes_open [OF plan codec bs lim this] obtain o' u where
      o': "open_container P q password ?calm = (Inr o', u)" "content_stored P o' (pl_entries plan) content" by blast
    have "opened = o'" by (rule open_container_deterministic [OF run o'(1)]) simp
    with o'(2) show ?thesis by simp
  qed
  ultimately show ?thesis unfolding container_holds_def by blast
qed

section \<open>The whole run\<close>

definition temporary_stem :: "path \<Rightarrow> string" where
  "temporary_stem output =
     (case Option.bind (path_file_name output) to_str of Some name \<Rightarrow> name | None \<Rightarrow> ''vault.cfs'')"

text \<open>A place for the output: nothing there, in an existing directory, and a temporary name is free,
  the requested one or every name of the pattern.\<close>

definition output_free :: "disk \<Rightarrow> path \<Rightarrow> path option \<Rightarrow> bool" where
  "output_free D output requested \<longleftrightarrow>
     output \<noteq> [] \<and> D output = None \<and> D (butlast output) = Some DirNode \<and>
     (case requested of
        None \<Rightarrow> (\<forall>s. starts_with (''.'' @ temporary_stem output @ ''.'') s \<longrightarrow> D (butlast output @ [s]) = None) \<and>
          (\<forall>s. last output \<noteq> ''.'' @ temporary_stem output @ ''.'' @ s @ ''.tmp'')
      | Some temp \<Rightarrow> temp \<noteq> [] \<and> butlast temp = butlast output \<and> temp \<noteq> output \<and> D temp = None)"

lemma runs_temporary_name:
  assumes free: "output_free D output requested"
  shows "runs r D (case requested of Some path \<Rightarrow> validate_requested_temporary_path output path
      | None \<Rightarrow> temporary_path output)
    (\<lambda>T D'. D' = D \<and> D T = None \<and> T \<noteq> output \<and> T \<noteq> [] \<and> butlast T = butlast output)"
proof (cases requested)
  case None
  have out: "output \<noteq> []" using free by (simp add: output_free_def)
  have parent: "output_parent output = butlast output" using out by (simp add: output_parent_def path_parent_def)
  have name: "D (butlast output @ [''.'' @ temporary_stem output @ ''.'' @ s]) = None" for s
    using free None by (simp add: output_free_def starts_with_def)
  have fresh: "butlast output @ [''.'' @ temporary_stem output @ ''.'' @ s @ ''.tmp''] \<noteq> output" for s
  proof
    assume "butlast output @ [''.'' @ temporary_stem output @ ''.'' @ s @ ''.tmp''] = output"
    then have "last output = ''.'' @ temporary_stem output @ ''.'' @ s @ ''.tmp''" by (metis last_snoc)
    moreover have "\<forall>s. last output \<noteq> ''.'' @ temporary_stem output @ ''.'' @ s @ ''.tmp''"
      using free None by (simp add: output_free_def)
    ultimately show False by blast
  qed
  have "runs r D (temporary_path_loop (Suc n) (butlast output) (temporary_stem output))
      (\<lambda>T D'. D' = D \<and> D T = None \<and> T \<noteq> output \<and> T \<noteq> [] \<and> butlast T = butlast output)" for n
    unfolding temporary_path_loop.simps Let_def
    by (rule step_fill_bytes, rule step_absent(2), rule name) (use name fresh in \<open>simp add: runs_returnM\<close>)
  from this [of 31] None show ?thesis by (simp add: temporary_path_def parent temporary_stem_def)
next
  case (Some temp)
  then have t: "temp \<noteq> []" "butlast temp = butlast output" "temp \<noteq> output" "D temp = None" "output \<noteq> []"
    using free by (simp_all add: output_free_def)
  then show ?thesis unfolding Some validate_requested_temporary_path_def
    by (simp add: ensure_simps path_parent_def path_file_name_def, intro step_absent(1))
      (simp_all add: ensure_simps runs_returnM)
qed

lemma runs_pack_commit:
  assumes T: "D T = Some (FileNode g)" "T \<noteq> output" "butlast T = butlast output" and out: "output \<noteq> []" "D output = None"
    and par: "D (butlast output) = Some DirNode"
  shows "runs r D (pack_commit T output) (\<lambda>_ D'. D' = moved_disk T output D)"
proof -
  let ?D = "moved_disk T output D"
  have ne: "T \<noteq> []" using T(2,3) out(1) par T(1) by auto
  have T': "T = butlast output @ [last T]" using ne T(3) by (metis append_butlast_last_id)
  have "last T \<noteq> last output"
  proof
    assume "last T = last output"
    then have "T = butlast output @ [last output]" using T' by simp
    with out(1) T(2) show False by simp
  qed
  note below = sibling_apart [OF out(1) this, folded T']
  have apart: "\<not> below T output" by (rule below(1))
  have "\<not> below output (butlast output)" 
  proof
    assume "below output (butlast output)"
    then obtain t where "butlast output = output @ t" by (auto simp: below_def starts_with_iff)
    then have "length output - 1 = length output + length t" by (metis length_append length_butlast)
    moreover have "0 < length output" using out(1) by simp
    ultimately show False by linarith
  qed
  then have p: "?D (butlast output) = Some DirNode"
    using par below(2) by (simp add: moved_disk_def)
  then have fo: "follow ?D (output_parent output) = butlast output"
    by (simp add: output_parent_def path_parent_def out(1) follow_def)
  have sync: "runs r ?D (sync_parent (output_parent output)) (\<lambda>_ D'. D' = ?D)"
    unfolding sync_parent_def by (rule step_open(1), unfold fo, rule p, rule runs_reads(7))
  have report: "runs r ?D (\<lambda>w. case sync_parent (output_parent output) w of (Inr _, w') \<Rightarrow> (Inr (), w')
       | (Inl e, w') \<Rightarrow> emit (Warning (''Unable to sync output parent after commit: '' @ display_chain e)) w') (\<lambda>_ D'. D' = ?D)"
    using sync unfolding runs_def by (metis (no_types, lifting) case_prod_conv sum.case(2))
  show ?thesis unfolding pack_commit_def
    by (intro step_silent, rule step_contextM, rule step_rename)
      (use T out par apart in \<open>auto intro!: runs_bindM [OF report] runs_emit intro: runs_mono [OF runs_emit(1)]\<close>)
qed

lemma runs_with_temp_output: "runs r D body Q \<Longrightarrow> runs r D (with_temp_output T body) Q"
  unfolding runs_def with_temp_output_def by (metis (no_types, lifting) case_prod_conv sum.case(2))

text \<open>The run ends, and the only change on disk is the new container at the output.\<close>

lemma runs_pack:
  assumes P: "prims_ok P" "schedules_ok sd" and ready: "pack_ready P walk fuel r D source rs max_index"
    and params: "argon2_within_limits params" and duress: "duress \<noteq> Some password"
    and D: "disk_ok D" and out: "output_free D output requested"
  shows "runs r D (pack_inner P walk fuel sd source output password duress params max_index NoFault requested)
    (\<lambda>_ D'. \<exists>g es content. D' = D(output := Some (FileNode g)) \<and> packed_tree walk D source es content \<and>
       container_holds P D' output password es content)" (is "runs r D _ ?Q")
proof -
  have P': "keys_ok P" "aead_ok P" using P(1) by (simp_all add: prims_ok_def keys_ok_def)
  have o': "output \<noteq> []" "D output = None" "D (butlast output) = Some DirNode" using out by (simp_all add: output_free_def)
  show ?thesis unfolding pack_inner_def
  proof (rule runs_bindM, rule runs_prepared [OF P ready params duress], elim conjE, hypsubst, rule runs_bindM,
      rule runs_temporary_name [OF out], elim conjE, hypsubst)
    fix plan :: pack_plan and T :: path
    let ?content = "source_content D (pl_sources plan)"
    assume plan: "plan_ok P walk D source password plan ?content" and planned: "planned P params D source plan"
      and T: "D T = None" "T \<noteq> output" "T \<noteq> []" "butlast T = butlast output"
    have par: "D (butlast T) = Some DirNode" using o'(3) T(4) by simp
    have wrote: "runs r (D(T := Some (FileNode g0))) (pack_write P sd NoFault plan T)
        (\<lambda>_ D'. \<exists>g. D' = D(T := Some (FileNode g)) \<and> container_bytes P plan ?content (fd_bytes g))" for g0
    proof -
      have "runs r (D(T := Some (FileNode g0))) (pack_write P sd NoFault plan T)
          (\<lambda>_ D'. (\<exists>g. D' = D(T := Some (FileNode g))) \<and>
             (\<exists>g. D' = D(T := Some (FileNode g)) \<and> container_bytes P plan ?content (fd_bytes g)))"
        by (rule runs_strengthen, rule runs_pack_write [OF P'(1) P(2) planned_writable [OF P(1) plan planned] T(1)])
          (use pack_write_container [OF P'(2) P(2) plan T(1)] in fastforce)
      then show ?thesis by (rule runs_mono) blast
    qed
    have finish: "runs r (D(T := Some (FileNode g))) (bindM (pack_self_verify P sd plan T password) (\<lambda>_. pack_commit T output)) ?Q"
      if bs: "container_bytes P plan ?content (fd_bytes g)" for g
    proof -
      let ?D = "D(T := Some (FileNode g))"
      have moved: "moved_disk T output ?D = D(output := Some (FileNode g))"
      proof
        fix p
        have gone: "below T p \<Longrightarrow> D p = None" "below output p \<Longrightarrow> D p = None"
          using disk_ok_below [OF D] T(1) o'(2) by blast+
        show "moved_disk T output ?D p = (D(output := Some (FileNode g))) p"
        proof (cases "below output p")
          case True
          then obtain ys where ys: "p = output @ ys" by (auto simp: below_def starts_with_iff)
          have "below T (T @ ys)" by (auto simp: below_def starts_with_iff)
          then have "D (T @ ys) = None" using disk_ok_below [OF D T(1)] by blast
          with gone(2) [OF True] True show ?thesis by (auto simp: moved_disk_def ys)
        next
          case False
          then have "p \<noteq> output" by (auto simp: below_def starts_with_iff)
          moreover have "p \<noteq> T" if "\<not> below T p" using that by (auto simp: below_def starts_with_iff)
          ultimately show ?thesis using False gone(1) by (simp add: moved_disk_def)
        qed
      qed
      have "container_holds P (D(output := Some (FileNode g))) output password (pl_entries plan) ?content"
        by (rule container_bytes_holds [OF P(1) plan planned bs]) simp
      with moved have goal: "?Q () (moved_disk T output ?D)" using plan unfolding plan_ok_def by auto
      have commit: "runs r ?D (pack_commit T output) ?Q"
        by (rule runs_mono, rule runs_pack_commit [of _ _ g]) (use T o' goal in auto)
      have "container_holds P ?D T password (pl_entries plan) ?content"
        by (rule container_bytes_holds [OF P(1) plan planned bs]) simp
      from runs_pack_self_verify [OF this P(2)] show ?thesis by (rule runs_bindM) (hypsubst, rule commit)
    qed
    show "runs r D (pack_output P sd NoFault plan T output password) ?Q"
      unfolding pack_output_def
      by (rule runs_with_temp_output, rule step_contextM, rule step_create_new_file, rule T(1), rule T(3), rule par,
          rule step_silent, rule runs_bindM, rule wrote) (use finish in blast)
  qed
qed

lemma container_holds_index_ok:
  assumes "container_holds P D path password es content"
  shows "\<exists>h. index_ok h es"
proof -
  obtain w :: world where "calm (\<lambda>_. 0) w" "w_disk w = D"
    by (rule that [of "\<lparr>w_disk = D, w_random = (\<lambda>_. 0), w_drawn = 0, w_calls = 0, w_fault = (\<lambda>_. None),
      w_polls = 0, w_cancelled = (\<lambda>_. False), w_now = 0, w_events = []\<rparr>"]) (simp_all add: calm_def fault_free_def)
  from runs_holds_open [OF assms] this obtain opened where "content_stored P opened es content" by (rule runsD) blast
  then show ?thesis by (auto simp: content_stored_def opened_ok_def)
qed

text \<open>Packing and then extracting elsewhere both come to their end, and the source tree is back.\<close>

lemma place_free_published:
  assumes place: "place_free D out" and D: "D output = None" and ne: "out \<noteq> output"
    and stage: "\<forall>s. starts_with (''.'' @ last out @ ''.cipherfs-stage-'') s \<longrightarrow> butlast out @ [s] \<noteq> output"
  shows "place_free (D(output := Some (FileNode g))) out"
proof -
  have "take k out \<noteq> output" if "k < length out" for k
    using place D that by (metis option.distinct(1) place_free_def)
  then show ?thesis using place ne stage unfolding place_free_def by auto
qed

lemma disk_ok_published:
  assumes "disk_ok D" "D output = None" "output \<noteq> []" "D (butlast output) = Some DirNode"
  shows "disk_ok (D(output := Some (FileNode g)))"
  using assms unfolding disk_ok_def by (metis butlast_snoc fun_upd_apply option.distinct(1))

lemma runs_extract_packed:
  assumes tree: "packed_tree walk D source es content" and holds: "container_holds P D1 container password es content"
    and D1: "D1 = D(container := Some (FileNode g))"
    and D: "disk_ok D" and out: "output_free D container requested" and plain: "walk_plain walk D source"
    and place: "place_free D target" and ne: "target \<noteq> container"
    and stage: "\<forall>s. starts_with (''.'' @ last target @ ''.cipherfs-stage-'') s \<longrightarrow> butlast target @ [s] \<noteq> container"
    and order: "\<forall>xs. set (order xs) \<subseteq> set xs"
  shows "runs r D1 (extract_v2_inner P threads order container target password None None)
    (\<lambda>_ D'. same_tree walk D source D' target \<and> (\<forall>q. \<not> below target q \<longrightarrow> q \<noteq> container \<longrightarrow> D' q = D q))"
proof -
  have o': "container \<noteq> []" "D container = None" "D (butlast container) = Some DirNode" using out by (simp_all add: output_free_def)
  obtain h where ok: "index_ok h es" using container_holds_index_ok [OF holds] by blast
  have names: "\<forall>e \<in> set es. e_id e \<noteq> 1 \<longrightarrow> plain_name (e_name e)"
    by (rule packed_tree_plain [OF ok tree plain])
  have "runs r D1 (extract_v2_inner P threads order container target password None None) (\<lambda>_ D'. extracted es content target D1 D')"
    by (rule runs_extract [OF holds names _ _ order])
      (use D1 disk_ok_published [OF D o'(2,1,3)] place_free_published [OF place o'(2) ne stage] in simp_all)
  then show ?thesis
  proof (rule runs_mono)
    fix D' assume ex: "extracted es content target D1 D'"
    show "same_tree walk D source D' target \<and> (\<forall>q. \<not> below target q \<longrightarrow> q \<noteq> container \<longrightarrow> D' q = D q)"
      using extracted_same_tree [OF ok tree ex] ex D1 by (simp add: extracted_def)
  qed
qed

lemma runs_pack_extract:
  assumes P: "prims_ok P" "schedules_ok sd" and ready: "pack_ready P walk fuel r D source rs max_index"
    and params: "argon2_within_limits params" and duress: "duress \<noteq> Some password"
    and D: "disk_ok D" and out: "output_free D output requested" and plain: "walk_plain walk D source"
    and place: "place_free D target" and ne: "target \<noteq> output"
    and stage: "\<forall>s. starts_with (''.'' @ last target @ ''.cipherfs-stage-'') s \<longrightarrow> butlast target @ [s] \<noteq> output"
    and order: "\<forall>xs. set (order xs) \<subseteq> set xs"
  shows "runs r D (bindM (pack_inner P walk fuel sd source output password duress params max_index NoFault requested) (\<lambda>_.
      extract_v2_inner P threads order output target password None None))
    (\<lambda>_ D'. same_tree walk D source D' target \<and>
      (\<forall>q. \<not> below target q \<longrightarrow> q \<noteq> output \<longrightarrow> D' q = D q))"
proof (rule runs_bindM, rule runs_pack [OF P ready params duress D out], elim exE conjE)
  fix D1 g es content
  assume D1: "D1 = D(output := Some (FileNode g))" and tree: "packed_tree walk D source es content"
    and holds: "container_holds P D1 output password es content"
  show "runs r D1 (extract_v2_inner P threads order output target password None None)
    (\<lambda>_ D'. same_tree walk D source D' target \<and> (\<forall>q. \<not> below target q \<longrightarrow> q \<noteq> output \<longrightarrow> D' q = D q))"
    by (rule runs_extract_packed [OF tree holds D1 D out plain place ne stage order])
qed

end
