(* ===== verification/DemoPack.thy ===== *)
theory DemoPack
  imports Demo CalmPack
begin

text \<open>
  A source directory with one file on a calm world with the demo packages: the hypotheses of packing
  and extracting hold together.
\<close>

definition demo_source_file :: file_data where
  "demo_source_file = \<lparr>fd_bytes = [10, 20, 30], fd_modified = 0, fd_identity = Some (0, 2)\<rparr>"

definition source_disk :: disk where
  "source_disk = [[] \<mapsto> DirNode, [''s''] \<mapsto> DirNode, [''s'', ''a''] \<mapsto> FileNode demo_source_file]"

definition source_world :: world where
  "source_world = demo_world\<lparr>w_disk := source_disk\<rparr>"

definition demo_walk :: walker where
  "demo_walk D source = [Inr source, Inr (source @ [''a''])]"

definition demo_schedules :: schedules where
  "demo_schedules = \<lparr>sd_sources = (\<lambda>xs. xs), sd_chunks = (\<lambda>xs. xs), sd_verify = (\<lambda>xs. xs)\<rparr>"

lemma source_calm: "calm (w_random demo_world) source_world" "w_disk source_world = source_disk"
  by (simp_all add: calm_def fault_free_def source_world_def demo_world_def)

lemma demo_schedules_ok: "schedules_ok demo_schedules"
  by (simp add: schedules_ok_def demo_schedules_def)

lemma source_disk_ok: "disk_ok source_disk"
  by (auto simp: disk_ok_def source_disk_def split: if_splits)

lemma length_encode_entry: "length (encode_entry e) = 57 + length (e_file_id e) + length (e_name e)"
  by (simp add: encode_entry_def)

lemma demo_index_bounded: "index_vec_bounded demo"
proof -
  have "length (concat (map encode_entry es)) \<le> length es * 65608" if "list_all entry_encodable es" for es
    using that by (induction es) (auto simp: entry_encodable_def length_encode_entry)
  then show ?thesis
    unfolding index_vec_bounded_def by (fastforce simp: encode_index_def split: if_splits)
qed

lemma demo_prims_ok: "prims_ok demo"
  using demo_ok demo_index_bounded by (simp add: prims_ok_def keys_ok_def)

lemma demo_index_fits: "index_fits demo 2 (unat (min MAX_INDEX_SIZE MAX_INDEX_SIZE))"
  unfolding index_fits_def
proof (intro allI impI)
  fix es :: "entry list"
  assume es: "length es = 2 \<and> (\<forall>e \<in> set es. length (e_file_id e) = 16 \<and> length (e_name e) \<le> MAX_NAME_BYTES)"
  then obtain a b where "es = [a, b]" by (metis (no_types, lifting) One_nat_def Suc_1 length_0_conv length_Suc_conv)
  with es show "\<exists>bs. p_index_to_vec demo es = Inr bs \<and> length bs + 16 \<le> unat (min MAX_INDEX_SIZE MAX_INDEX_SIZE)"
    by (auto simp: encode_index_def entry_encodable_def length_encode_entry MAX_INDEX_SIZE_def MAX_NAME_BYTES_def)
qed

text \<open>The bytes of the random source count upwards, so that consecutive blocks differ.\<close>

lemma demo_draws: "draws_ok (w_random demo_world) 3 1"
  unfolding draws_ok_def
proof (intro allI impI)
  fix n :: nat and taken :: "bytes set"
  assume taken: "finite taken \<and> card taken \<le> 1"
  let ?b = "\<lambda>k. block_at (w_random demo_world) (n + 16 * k)" and ?bad = "insert (replicate 16 0) taken"
  have entry: "?b k ! j = of_nat (n + 16 * k + j + 17)" if "j < 16" for k j
    using that by (simp add: block_at_def demo_world_def)
  have nonzero: "?b k \<noteq> replicate 16 0" for k
  proof
    assume "?b k = replicate 16 0"
    then have "(of_nat (n + 16 * k + 17) :: byte) = 0" "(of_nat (Suc (n + 16 * k + 17)) :: byte) = 0"
      using entry [of 0 k] entry [of 1 k] by simp_all
    then show False unfolding of_nat_Suc by (metis add.right_neutral one_neq_zero)
  qed
  have first: "?b k ! 0 = of_nat n + 16 * of_nat k + 17" for k
    using entry [of 0 k] by simp
  have "?b 0 \<noteq> ?b 1" "?b 0 \<noteq> ?b 2" "?b 1 \<noteq> ?b 2"
    using first [of 0] first [of 1] first [of 2] by (auto dest: arg_cong [of _ _ "\<lambda>xs. xs ! 0"])
  then have card: "card {?b 0, ?b 1, ?b 2} = 3" by simp
  have "\<not> {?b 0, ?b 1, ?b 2} \<subseteq> taken"
    using card_mono [of taken "{?b 0, ?b 1, ?b 2}"] taken card by linarith
  then obtain k where "k < 3" "?b k \<notin> taken" by (metis empty_subsetI insert_subset lessI less_Suc_eq numeral_2_eq_2 numeral_3_eq_3 One_nat_def zero_less_Suc)
  with nonzero show "\<exists>k < 3. ?b k \<notin> ?bad" by blast
qed

lemma demo_source_ok: "source_ok source_disk [''s''] [[''a'']]"
proof -
  have "validate_name ''a'' = Inr ()" by (rule demo_name)
  then show ?thesis
    by (simp add: source_ok_def source_disk_def valid_utf8_ascii code_def stored_size_def demo_source_file_def
        MAX_DEPTH_def MAX_ENTRIES_def) (simp add: CHUNK_SIZE_def chunks_for_def)
qed

lemma demo_pack_ready: "pack_ready demo demo_walk 3 (w_random demo_world) source_disk [''s''] [[''a'']] MAX_INDEX_SIZE"
  using demo_source_ok demo_draws demo_index_fits
  by (auto simp: pack_ready_def demo_walk_def numeral_2_eq_2 [symmetric])
    (auto simp: source_disk_def stored_size_def demo_source_file_def CHUNK_SIZE_def chunks_for_def split: if_splits)

lemma demo_output_free: "output_free source_disk [''v''] None"
  by (auto simp: output_free_def source_disk_def starts_with_iff)

lemma demo_target_free: "place_free source_disk [''o'']"
  by (auto simp: place_free_def source_disk_def starts_with_iff valid_utf8_ascii code_def)

lemma demo_walk_plain: "walk_plain demo_walk source_disk [''s'']"
  by (simp add: walk_plain_def walk_items_def demo_walk_def plain_name_def temp_prefix_def starts_with_def)

text \<open>Equal passwords are refused.\<close>

lemma demo_pack_refused:
  "\<exists>e w'. pack_inner demo demo_walk 3 demo_schedules [''s''] [''v''] ''pw'' (Some ''pw'') argon2_default MAX_INDEX_SIZE
     NoFault None source_world = (Inl e, w')"
proof -
  obtain x w' where run: "pack_inner demo demo_walk 3 demo_schedules [''s''] [''v''] ''pw'' (Some ''pw'') argon2_default
      MAX_INDEX_SIZE NoFault None source_world = (x, w')" by force
  have "x \<noteq> Inr ()"
  proof
    assume "x = Inr ()"
    with run obtain plan wp where "pack_prepare demo demo_walk 3 [''s''] ''pw'' (Some ''pw'') argon2_default MAX_INDEX_SIZE source_world
        = (Inr plan, wp)" by (auto simp: pack_inner_def bindM_eq_Inr)
    then show False by (rule pack_prepare_Inr) simp
  qed
  with run show ?thesis by (cases x) auto
qed

lemma demo_params: "argon2_within_limits argon2_default"
  by (simp add: argon2_within_limits_def argon2_default_def)

lemma demo_pack_assumptions: "pack_assumptions demo demo_schedules demo_walk [''s''] source_world"
  using demo_prims_ok demo_schedules_ok walk_items_ready [OF demo_pack_ready] demo_pack_ready source_calm(2)
  by (auto simp: pack_assumptions_def prims_ok_def keys_ok_def pack_ready_def)

lemma demo_stage_free: "starts_with ''.o.cipherfs-stage-'' s \<Longrightarrow> s \<noteq> ''v''"
  by (auto simp: starts_with_iff)

lemma demo_pack_runs:
  "\<exists>w'. pack_inner demo demo_walk 3 demo_schedules [''s''] [''v''] ''pw'' None argon2_default MAX_INDEX_SIZE NoFault None
     source_world = (Inr (), w')"
  using runsD [OF runs_pack [OF demo_prims_ok demo_schedules_ok demo_pack_ready demo_params _ source_disk_ok demo_output_free,
        of None "''pw''"] source_calm] by (metis (full_types) old.unit.exhaust option.distinct(1))

end
