(* ===== verification/Update.thy ===== *)
theory Update
  imports Operation
begin

text \<open>
  The updater (\<open>cipherfs-update/src/lib.rs\<close>): a release is offered only with a manifest signed by a
  trusted key that names this release, this target and the digest of the binary. The network, the
  versions, the signatures and SHA-256 are parameters; a request is numbered, so that the network may
  answer the same address differently each time.
\<close>

section \<open>Text\<close>

definition text_of :: "bytes \<Rightarrow> string option" where
  "text_of bs = to_str (map (\<lambda>b. char_of (unat b)) bs)"

text \<open>\<open>str::lines\<close>: a line ends with a newline, an optional carriage return before it goes too.\<close>

definition strip_cr :: "string \<Rightarrow> string" where
  "strip_cr s = (if s \<noteq> [] \<and> last s = CHR 0x0D then butlast s else s)"

fun lines_from :: "string \<Rightarrow> string \<Rightarrow> string list" where
  "lines_from current [] = (if current = [] then [] else [current])"
| "lines_from current (c # cs) =
     (if c = CHR 0x0A then strip_cr current # lines_from [] cs else lines_from (current @ [c]) cs)"

definition lines_of :: "string \<Rightarrow> string list" where
  "lines_of s = lines_from [] s"

definition split_once :: "char \<Rightarrow> string \<Rightarrow> (string \<times> string) option" where
  "split_once d s = (if d \<in> set s then Some (takeWhile (\<lambda>c. c \<noteq> d) s, tl (dropWhile (\<lambda>c. c \<noteq> d) s)) else None)"

fun split_on :: "char \<Rightarrow> string \<Rightarrow> string list" where
  "split_on d [] = [[]]"
| "split_on d (c # cs) =
     (if c = d then [] # split_on d cs
      else (case split_on d cs of [] \<Rightarrow> [[c]] | p # ps \<Rightarrow> (c # p) # ps))"

text \<open>\<open>str::trim\<close> removes white space of Unicode, as UTF-8.\<close>

definition whitespace :: "string list" where
  "whitespace =
     map (\<lambda>n. [char_of n]) [9 :: nat, 10, 11, 12, 13, 32] @
     map (\<lambda>bs. map char_of bs)
       ([[194 :: nat, 133], [194, 160], [225, 154, 128], [226, 128, 168], [226, 128, 169], [226, 128, 175], [226, 129, 159],
         [227, 128, 128]] @ map (\<lambda>n. [226, 128, n]) [128..<139])"

function trim_start_of :: "string list \<Rightarrow> string \<Rightarrow> string" where
  "trim_start_of ws s =
     (case List.find (\<lambda>p. p \<noteq> [] \<and> starts_with p s) ws of
        None \<Rightarrow> s
      | Some p \<Rightarrow> trim_start_of ws (drop (length p) s))"
  by pat_completeness auto
termination
proof (relation "measure (\<lambda>(ws, s). length s)", simp)
  fix ws s p assume "List.find (\<lambda>p. p \<noteq> [] \<and> starts_with p s) ws = Some p"
  then have "p \<noteq> []" "starts_with p s" by (auto simp: find_Some_iff)
  then have "0 < length p" "length p \<le> length s" by (auto simp: starts_with_iff)
  then have "length s - length p < length s" by linarith
  then show "((ws, drop (length p) s), ws, s) \<in> measure (\<lambda>(ws, s). length s)" by simp
qed

declare trim_start_of.simps [simp del]

definition trim :: "string \<Rightarrow> string" where
  "trim s = rev (trim_start_of (map rev whitespace) (rev (trim_start_of whitespace s)))"

section \<open>Parameters\<close>

record github_asset =
  ga_name :: string
  ga_browser_download_url :: string

record github_release =
  gr_tag_name :: string
  gr_body :: "string option"
  gr_assets :: "github_asset list"

text \<open>A response has the length its header announces and a body that may fail to arrive.\<close>

record response =
  rs_content_length :: "u64 option"
  rs_body :: "bytes result"

record ('v, 'k, 's) update_env =
  ue_windows :: bool
  ue_public_key :: "string option"
  ue_package_version :: string
  ue_client :: "unit result"
  ue_release :: "nat \<Rightarrow> string \<Rightarrow> github_release result"
  ue_get :: "nat \<Rightarrow> string \<Rightarrow> response result"
  ue_parse_version :: "string \<Rightarrow> 'v result"
  ue_version_le :: "'v \<Rightarrow> 'v \<Rightarrow> bool"
  ue_version_text :: "'v \<Rightarrow> string"
  ue_decode_signature :: "string \<Rightarrow> 's result"
  ue_public_key_of :: "string \<Rightarrow> 'k result"
  ue_verify :: "'k \<Rightarrow> bytes \<Rightarrow> 's \<Rightarrow> bool"
  ue_sha256 :: "bytes \<Rightarrow> bytes"

definition OWNER :: string where "OWNER = ''TW-RF54732''"
definition REPOSITORY :: string where "REPOSITORY = ''CipherFS''"
definition MANIFEST_ASSET :: "bool \<Rightarrow> string" where
  "MANIFEST_ASSET windows = (if windows then ''cipherfs-windows-amd64.manifest'' else ''cipherfs-linux-amd64.manifest'')"
definition SIGNATURE_ASSET :: "bool \<Rightarrow> string" where
  "SIGNATURE_ASSET windows = (if windows then ''cipherfs-windows-amd64.manifest.minisig'' else ''cipherfs-linux-amd64.manifest.minisig'')"
definition TARGET :: "bool \<Rightarrow> string" where
  "TARGET windows = (if windows then ''x86_64-pc-windows-msvc'' else ''x86_64-unknown-linux-musl'')"
definition BINARY_ASSET :: "bool \<Rightarrow> string" where
  "BINARY_ASSET windows = (if windows then ''cipherfs.exe'' else ''cipherfs'')"
definition INTEGRATION_MANIFEST_ASSET :: string where
  "INTEGRATION_MANIFEST_ASSET = ''cipherfs-windows-integration.manifest''"
definition INTEGRATION_SIGNATURE_ASSET :: string where
  "INTEGRATION_SIGNATURE_ASSET = ''cipherfs-windows-integration.manifest.minisig''"
definition DOWNLOAD_LIMIT :: nat where "DOWNLOAD_LIMIT = 512 * 1024 * 1024"

section \<open>Manifests\<close>

record 'v manifest =
  mf_version :: 'v
  mf_target :: string
  mf_asset :: string
  mf_size :: u64
  mf_sha256 :: string

text \<open>The map of the fields, built line by line.\<close>

fun manifest_fields :: "string \<Rightarrow> string list \<Rightarrow> (string \<times> string) list \<Rightarrow> (string \<times> string) list result" where
  "manifest_fields what [] values = Inr values"
| "manifest_fields what (line # lines) values =
     bindE (context_opt (''Malformed signed '' @ what @ '' manifest'') (split_once (CHR ''='') line)) (\<lambda>(key, v).
     if map_of values key \<noteq> None then bail (''Duplicate field in signed '' @ what @ '' manifest'')
     else manifest_fields what lines ((key, v) # values))"

definition parse_u64 :: "string \<Rightarrow> u64 result" where
  "parse_u64 s = (case parse_unsigned (2 ^ 64) s of
     Some n \<Rightarrow> Inr (of_nat n) | None \<Rightarrow> Inl [Foreign ''invalid digit found in string''])"

definition hex_digest :: "string \<Rightarrow> bool" where
  "hex_digest s \<longleftrightarrow> length s = 64 \<and> list_all is_ascii_hexdigit s"

definition parse_manifest :: "('v, 'k, 's) update_env \<Rightarrow> string \<Rightarrow> 'v manifest result" where
  "parse_manifest U text =
     bindE (manifest_fields ''update'' (lines_of text) []) (\<lambda>values.
     bindE (ensure (length values = 5) ''Unexpected fields in signed update manifest'') (\<lambda>_.
     bindE (context_opt ''Manifest has no sha256'' (map_of values ''sha256'')) (\<lambda>sha256.
     bindE (ensure (hex_digest sha256) ''Manifest sha256 is invalid'') (\<lambda>_.
     bindE (context_opt ''Manifest has no version'' (map_of values ''version'')) (\<lambda>v.
     bindE (ue_parse_version U v) (\<lambda>version.
     bindE (context_opt ''Manifest has no target'' (map_of values ''target'')) (\<lambda>target.
     bindE (context_opt ''Manifest has no asset'' (map_of values ''asset'')) (\<lambda>asset.
     bindE (context_opt ''Manifest has no size'' (map_of values ''size'')) (\<lambda>sz.
     bindE (parse_u64 sz) (\<lambda>size.
     Inr \<lparr>mf_version = version, mf_target = target, mf_asset = asset, mf_size = size, mf_sha256 = sha256\<rparr>))))))))))"

record 'v integration_manifest =
  im_version :: 'v
  im_target :: string
  im_cli :: "'v manifest"
  im_shell :: "'v manifest"

definition integration_binary :: "(string \<times> string) list \<Rightarrow> 'v \<Rightarrow> string \<Rightarrow> string \<Rightarrow> 'v manifest result" where
  "integration_binary values version target prefix' =
     bindE (context_opt ''Integration manifest has no asset'' (map_of values (prefix' @ ''_asset''))) (\<lambda>asset.
     bindE (context_opt ''Integration manifest has no size'' (map_of values (prefix' @ ''_size''))) (\<lambda>sz.
     bindE (parse_u64 sz) (\<lambda>size.
     bindE (context_opt ''Integration manifest has no sha256'' (map_of values (prefix' @ ''_sha256''))) (\<lambda>sha256.
     bindE (ensure (hex_digest sha256) ''Integration manifest sha256 is invalid'') (\<lambda>_.
     Inr \<lparr>mf_version = version, mf_target = target, mf_asset = asset, mf_size = size, mf_sha256 = sha256\<rparr>)))))"

definition parse_integration_manifest :: "('v, 'k, 's) update_env \<Rightarrow> string \<Rightarrow> 'v integration_manifest result" where
  "parse_integration_manifest U text =
     bindE (manifest_fields ''integration'' (lines_of text) []) (\<lambda>values.
     bindE (ensure (length values = 8) ''Unexpected fields in signed integration manifest'') (\<lambda>_.
     bindE (context_opt ''Integration manifest has no version'' (map_of values ''version'')) (\<lambda>v.
     bindE (ue_parse_version U v) (\<lambda>version.
     bindE (context_opt ''Integration manifest has no target'' (map_of values ''target'')) (\<lambda>target.
     bindE (integration_binary values version target ''cli'') (\<lambda>cli.
     bindE (integration_binary values version target ''shell'') (\<lambda>shell.
     Inr \<lparr>im_version = version, im_target = target, im_cli = cli, im_shell = shell\<rparr>)))))))"

section \<open>Checks\<close>

definition validate_manifest_for_update ::
  "('v, 'k, 's) update_env \<Rightarrow> 'v manifest \<Rightarrow> 'v \<Rightarrow> 'v \<Rightarrow> string \<Rightarrow> string \<Rightarrow> unit result" where
  "validate_manifest_for_update U m latest current target binary_asset =
     (if ue_version_le U latest current then bail ''Refusing a non-upgrade release''
      else if mf_version m \<noteq> latest \<or> mf_target m \<noteq> target \<or> mf_asset m \<noteq> binary_asset \<or> mf_size m = 0
      then bail ''Signed update manifest does not match this release/target''
      else Inr ())"

definition validate_downloaded_binary :: "('v, 'k, 's) update_env \<Rightarrow> bytes \<Rightarrow> 'v manifest \<Rightarrow> unit result" where
  "validate_downloaded_binary U binary m =
     (if of_nat (length binary) \<noteq> mf_size m then bail ''Downloaded binary size does not match signed manifest''
      else if \<not> eq_ignore_ascii_case (hex_encode (ue_sha256 U binary)) (mf_sha256 m)
      then bail ''Downloaded binary hash does not match signed manifest''
      else Inr ())"

definition trusted_keys_of :: "string \<Rightarrow> string list" where
  "trusted_keys_of trusted_keys = filter (\<lambda>v. v \<noteq> []) (map trim (split_on (CHR '','') trusted_keys))"

definition key_accepts :: "('v, 'k, 's) update_env \<Rightarrow> bytes \<Rightarrow> 's \<Rightarrow> string \<Rightarrow> bool" where
  "key_accepts U manifest_bytes signature encoded =
     (case ue_public_key_of U encoded of Inr k \<Rightarrow> ue_verify U k manifest_bytes signature | Inl _ \<Rightarrow> False)"

definition verify_manifest_signature :: "('v, 'k, 's) update_env \<Rightarrow> string \<Rightarrow> bytes \<Rightarrow> string \<Rightarrow> unit result" where
  "verify_manifest_signature U trusted_keys manifest_bytes signature =
     bindE (context_err ''Malformed update signature'' (ue_decode_signature U signature)) (\<lambda>signature.
     if list_ex (key_accepts U manifest_bytes signature) (trusted_keys_of trusted_keys) then Inr ()
     else bail ''Update manifest signature verification failed'')"

definition asset_url :: "github_release \<Rightarrow> string \<Rightarrow> string result" where
  "asset_url release name =
     context_opt (''Release is missing required signed asset '' @ name)
       (map_option ga_browser_download_url (List.find (\<lambda>asset. ga_name asset = name) (gr_assets release)))"

section \<open>Downloads\<close>

definition download :: "('v, 'k, 's) update_env \<Rightarrow> nat \<Rightarrow> string \<Rightarrow> bytes result" where
  "download U n url =
     bindE (ue_get U n url) (\<lambda>response.
     if (case rs_content_length response of None \<Rightarrow> False | Some len \<Rightarrow> DOWNLOAD_LIMIT < unat len)
     then bail ''Update asset exceeds download safety limit''
     else bindE (rs_body response) (\<lambda>body.
       let bytes = take (DOWNLOAD_LIMIT + 1) body in
       if DOWNLOAD_LIMIT < length bytes then bail ''Update asset exceeds download safety limit'' else Inr bytes))"

record portable_update =
  pu_version :: string
  pu_current_version :: string
  pu_release_notes :: "string option"
  pu_bytes :: bytes

text \<open>The release, its version and the current one; both updaters begin so.\<close>

definition no_key_message :: string where
  "no_key_message = ''This build has no trusted update signing key; download releases manually from GitHub''"

definition trim_v :: "string \<Rightarrow> string" where
  "trim_v s = dropWhile (\<lambda>c. c = CHR ''v'') s"

definition latest_release :: "('v, 'k, 's) update_env \<Rightarrow> (github_release \<times> 'v \<times> 'v) result" where
  "latest_release U =
     bindE (ue_client U) (\<lambda>_.
     bindE (ue_release U 0 (''https://api.github.com/repos/'' @ OWNER @ ''/'' @ REPOSITORY @ ''/releases/latest'')) (\<lambda>release.
     bindE (context_err ''Latest release tag is not a semantic version'' (ue_parse_version U (trim_v (gr_tag_name release)))) (\<lambda>latest.
     bindE (ue_parse_version U (ue_package_version U)) (\<lambda>current.
     Inr (release, latest, current)))))"

definition download_portable_update :: "('v, 'k, 's) update_env \<Rightarrow> portable_update option result" where
  "download_portable_update U =
     (let public_key_b64 = (case ue_public_key U of None \<Rightarrow> [] | Some k \<Rightarrow> k) in
      if public_key_b64 = [] then bail no_key_message
      else
        bindE (latest_release U) (\<lambda>(release, latest, current).
        if ue_version_le U latest current then Inr None
        else
          bindE (asset_url release (MANIFEST_ASSET (ue_windows U))) (\<lambda>manifest_url.
          bindE (asset_url release (SIGNATURE_ASSET (ue_windows U))) (\<lambda>signature_url.
          bindE (download U 1 manifest_url) (\<lambda>manifest_bytes.
          bindE (bindE (download U 2 signature_url) (\<lambda>bs. context_opt ''Update signature is not UTF-8'' (text_of bs))) (\<lambda>signature_text.
          bindE (verify_manifest_signature U public_key_b64 manifest_bytes signature_text) (\<lambda>_.
          bindE (context_opt ''Update manifest is not UTF-8'' (text_of manifest_bytes)) (\<lambda>manifest_text.
          bindE (parse_manifest U manifest_text) (\<lambda>m.
          bindE (validate_manifest_for_update U m latest current (TARGET (ue_windows U)) (BINARY_ASSET (ue_windows U))) (\<lambda>_.
          bindE (asset_url release (mf_asset m)) (\<lambda>binary_url.
          bindE (download U 3 binary_url) (\<lambda>binary.
          bindE (validate_downloaded_binary U binary m) (\<lambda>_.
          Inr (Some \<lparr>pu_version = ue_version_text U latest, pu_current_version = ue_version_text U current,
                     pu_release_notes = gr_body release, pu_bytes = binary\<rparr>)))))))))))))) "

record windows_integration =
  wi_version :: string
  wi_cli :: bytes
  wi_shell :: bytes

definition download_windows_integration :: "('v, 'k, 's) update_env \<Rightarrow> windows_integration result" where
  "download_windows_integration U =
     (let public_key_b64 = (case ue_public_key U of None \<Rightarrow> [] | Some k \<Rightarrow> k) in
      if public_key_b64 = [] then bail no_key_message
      else
        bindE (latest_release U) (\<lambda>(release, latest, current).
        if ue_version_le U latest current then bail ''Already up to date''
        else
          bindE (bindE (asset_url release INTEGRATION_MANIFEST_ASSET) (download U 1)) (\<lambda>manifest_bytes.
          bindE (bindE (bindE (asset_url release INTEGRATION_SIGNATURE_ASSET) (download U 2))
            (\<lambda>bs. context_opt ''Integration manifest signature is not UTF-8'' (text_of bs))) (\<lambda>signature.
          bindE (verify_manifest_signature U public_key_b64 manifest_bytes signature) (\<lambda>_.
          bindE (context_opt ''Integration manifest is not UTF-8'' (text_of manifest_bytes)) (\<lambda>text.
          bindE (parse_integration_manifest U text) (\<lambda>m.
          if im_version m \<noteq> latest \<or> im_target m \<noteq> TARGET True
          then bail ''Signed integration manifest does not match the latest Windows release''
          else
            bindE (validate_manifest_for_update U (im_cli m) latest current (TARGET True) ''cipherfs.exe'') (\<lambda>_.
            bindE (validate_manifest_for_update U (im_shell m) latest current (TARGET True) ''cipherfs-shell.exe'') (\<lambda>_.
            bindE (bindE (asset_url release (mf_asset (im_cli m))) (download U 3)) (\<lambda>cli.
            bindE (bindE (asset_url release (mf_asset (im_shell m))) (download U 4)) (\<lambda>shell.
            bindE (validate_downloaded_binary U cli (im_cli m)) (\<lambda>_.
            bindE (validate_downloaded_binary U shell (im_shell m)) (\<lambda>_.
            Inr \<lparr>wi_version = ue_version_text U latest, wi_cli = cli, wi_shell = shell\<rparr>)))))))))))))"

section \<open>What the checks guarantee\<close>

lemma download_limit: "download U n url = Inr bytes \<Longrightarrow> length bytes \<le> DOWNLOAD_LIMIT"
  by (auto simp: download_def result_simps Let_def split: if_splits)

lemma download_body:
  assumes "download U n url = Inr bytes"
  shows "\<exists>response. ue_get U n url = Inr response \<and> rs_body response = Inr bytes"
proof -
  from assms obtain response body where r: "ue_get U n url = Inr response" "rs_body response = Inr body"
    and b: "bytes = take (DOWNLOAD_LIMIT + 1) body" "\<not> DOWNLOAD_LIMIT < length bytes"
    by (auto simp: download_def result_simps Let_def split: if_splits)
  have "bytes = body"
  proof (cases "length body \<le> DOWNLOAD_LIMIT + 1")
    case True
    with b(1) show ?thesis by simp
  next
    case False
    with b have "length bytes = DOWNLOAD_LIMIT + 1" by simp
    with b(2) show ?thesis by simp
  qed
  with r show ?thesis by blast
qed

text \<open>A signature passes exactly if some trusted key accepts it.\<close>

lemma verify_manifest_signature_iff:
  "verify_manifest_signature U trusted_keys manifest_bytes signature = Inr () \<longleftrightarrow>
     (\<exists>s encoded k. ue_decode_signature U signature = Inr s \<and> encoded \<in> set (trusted_keys_of trusted_keys) \<and>
        ue_public_key_of U encoded = Inr k \<and> ue_verify U k manifest_bytes s)"
  by (auto simp: verify_manifest_signature_def result_simps list_ex_iff key_accepts_def split: if_splits sum.splits)

lemma validate_manifest_iff:
  "validate_manifest_for_update U m latest current target binary_asset = Inr () \<longleftrightarrow>
     \<not> ue_version_le U latest current \<and> mf_version m = latest \<and> mf_target m = target \<and> mf_asset m = binary_asset \<and> mf_size m \<noteq> 0"
  by (auto simp: validate_manifest_for_update_def)

lemma validate_downloaded_binary_iff:
  assumes "length binary \<le> DOWNLOAD_LIMIT"
  shows "validate_downloaded_binary U binary m = Inr () \<longleftrightarrow>
     length binary = unat (mf_size m) \<and> to_ascii_lowercase (hex_encode (ue_sha256 U binary)) = to_ascii_lowercase (mf_sha256 m)"
proof -
  have "unat (of_nat (length binary) :: u64) = length binary"
    using assms by (intro unat_of_nat_small) (simp add: DOWNLOAD_LIMIT_def)
  then have "of_nat (length binary) = mf_size m \<longleftrightarrow> length binary = unat (mf_size m)" by (metis word_unat_eq_iff)
  then show ?thesis by (auto simp: validate_downloaded_binary_def eq_ignore_ascii_case_def)
qed

text \<open>The signed statement behind an update: a manifest that a trusted key accepts, for this target,
  of a version above the current one, with the size and the digest of what was downloaded.\<close>

definition trusted_statement :: "('v, 'k, 's) update_env \<Rightarrow> bytes \<Rightarrow> string \<Rightarrow> bool" where
  "trusted_statement U manifest_bytes signature \<longleftrightarrow>
     (\<exists>keys s encoded k. ue_public_key U = Some keys \<and> ue_decode_signature U signature = Inr s \<and>
        encoded \<in> set (trusted_keys_of keys) \<and> ue_public_key_of U encoded = Inr k \<and> ue_verify U k manifest_bytes s)"

definition names_binary :: "('v, 'k, 's) update_env \<Rightarrow> 'v manifest \<Rightarrow> string \<Rightarrow> string \<Rightarrow> bytes \<Rightarrow> bool" where
  "names_binary U m target asset binary \<longleftrightarrow>
     mf_target m = target \<and> mf_asset m = asset \<and> binary \<noteq> [] \<and> length binary = unat (mf_size m) \<and>
     to_ascii_lowercase (hex_encode (ue_sha256 U binary)) = to_ascii_lowercase (mf_sha256 m)"

lemma names_binaryI:
  assumes "validate_manifest_for_update U m latest current target asset = Inr ()"
    and "download U n url = Inr binary" "validate_downloaded_binary U binary m = Inr ()"
  shows "names_binary U m target asset binary \<and> mf_version m = latest \<and> length binary \<le> DOWNLOAD_LIMIT"
proof -
  note v = assms(1) [unfolded validate_manifest_iff]
  note b = assms(3) [unfolded validate_downloaded_binary_iff [OF download_limit [OF assms(2)]]]
  have "unat (mf_size m) \<noteq> 0" using v by (simp add: unat_eq_0)
  with v b download_limit [OF assms(2)] show ?thesis by (auto simp: names_binary_def)
qed

lemma portable_update_trusted:
  assumes "download_portable_update U = Inr (Some u)"
  shows "\<exists>manifest_bytes signature mt m current.
    trusted_statement U manifest_bytes signature \<and> text_of manifest_bytes = Some mt \<and> parse_manifest U mt = Inr m \<and>
    ue_parse_version U (ue_package_version U) = Inr current \<and> \<not> ue_version_le U (mf_version m) current \<and>
    pu_version u = ue_version_text U (mf_version m) \<and>
    names_binary U m (TARGET (ue_windows U)) (BINARY_ASSET (ue_windows U)) (pu_bytes u) \<and> length (pu_bytes u) \<le> DOWNLOAD_LIMIT"
proof -
  from assms obtain keys release latest current murl surl mb sb sig mt m url binary where
    key: "ue_public_key U = Some keys"
    and rel: "latest_release U = Inr (release, latest, current)"
    and mb: "verify_manifest_signature U keys mb sig = Inr ()" "text_of mb = Some mt" "parse_manifest U mt = Inr m"
    and val: "validate_manifest_for_update U m latest current (TARGET (ue_windows U)) (BINARY_ASSET (ue_windows U)) = Inr ()"
    and bin: "download U 3 url = Inr binary" "validate_downloaded_binary U binary m = Inr ()"
    and u: "u = \<lparr>pu_version = ue_version_text U latest, pu_current_version = ue_version_text U current,
      pu_release_notes = gr_body release, pu_bytes = binary\<rparr>"
    by (auto simp: download_portable_update_def Let_def result_simps split: if_splits option.splits prod.splits)
  from rel have cur: "ue_parse_version U (ue_package_version U) = Inr current"
    by (auto simp: latest_release_def result_simps)
  have "trusted_statement U mb sig" using key mb(1) unfolding trusted_statement_def verify_manifest_signature_iff by blast
  moreover have "\<not> ue_version_le U latest current" using val by (simp add: validate_manifest_iff)
  moreover note names_binaryI [OF val bin]
  ultimately show ?thesis using mb cur u by (intro exI [of _ mb] exI [of _ sig] exI [of _ mt] exI [of _ m] exI [of _ current]) auto
qed

text \<open>Bytes that some trusted key has signed for as a newer version of this program.\<close>

definition signed_update :: "('v, 'k, 's) update_env \<Rightarrow> bytes \<Rightarrow> bool" where
  "signed_update U binary \<longleftrightarrow>
     (\<exists>manifest_bytes signature mt m current.
        trusted_statement U manifest_bytes signature \<and> text_of manifest_bytes = Some mt \<and> parse_manifest U mt = Inr m \<and>
        ue_parse_version U (ue_package_version U) = Inr current \<and> \<not> ue_version_le U (mf_version m) current \<and>
        names_binary U m (TARGET (ue_windows U)) (BINARY_ASSET (ue_windows U)) binary)"

lemma portable_update_signed: "download_portable_update U = Inr (Some u) \<Longrightarrow> signed_update U (pu_bytes u)"
  unfolding signed_update_def using portable_update_trusted [of U u] by blast

lemma windows_integration_trusted:
  assumes "download_windows_integration U = Inr u"
  shows "\<exists>manifest_bytes signature mt m current.
    trusted_statement U manifest_bytes signature \<and> text_of manifest_bytes = Some mt \<and> parse_integration_manifest U mt = Inr m \<and>
    ue_parse_version U (ue_package_version U) = Inr current \<and> \<not> ue_version_le U (im_version m) current \<and>
    wi_version u = ue_version_text U (im_version m) \<and>
    names_binary U (im_cli m) (TARGET True) ''cipherfs.exe'' (wi_cli u) \<and>
    names_binary U (im_shell m) (TARGET True) ''cipherfs-shell.exe'' (wi_shell u)"
proof -
  from assms obtain keys release latest current mb sig mt m curl surl cli shell where
    key: "ue_public_key U = Some keys"
    and rel: "latest_release U = Inr (release, latest, current)" "\<not> ue_version_le U latest current"
    and mb: "verify_manifest_signature U keys mb sig = Inr ()" "text_of mb = Some mt" "parse_integration_manifest U mt = Inr m"
    and ver: "im_version m = latest"
    and val: "validate_manifest_for_update U (im_cli m) latest current (TARGET True) ''cipherfs.exe'' = Inr ()"
      "validate_manifest_for_update U (im_shell m) latest current (TARGET True) ''cipherfs-shell.exe'' = Inr ()"
    and bin: "download U 3 curl = Inr cli" "validate_downloaded_binary U cli (im_cli m) = Inr ()"
      "download U 4 surl = Inr shell" "validate_downloaded_binary U shell (im_shell m) = Inr ()"
    and u: "u = \<lparr>wi_version = ue_version_text U latest, wi_cli = cli, wi_shell = shell\<rparr>"
    by (auto simp: download_windows_integration_def Let_def result_simps split: if_splits option.splits prod.splits)
  from rel(1) have cur: "ue_parse_version U (ue_package_version U) = Inr current"
    by (auto simp: latest_release_def result_simps)
  have "trusted_statement U mb sig" using key mb(1) unfolding trusted_statement_def verify_manifest_signature_iff by blast
  moreover note names_binaryI [OF val(1) bin(1,2)] names_binaryI [OF val(2) bin(3,4)]
  ultimately show ?thesis using mb cur u ver rel(2)
    by (intro exI [of _ mb] exI [of _ sig] exI [of _ mt] exI [of _ m] exI [of _ current]) auto
qed

section \<open>Which texts are manifests\<close>

lemma manifest_fields_iff:
  "manifest_fields what lines vals = Inr vs \<longleftrightarrow>
     (\<exists>kvs. map (split_once (CHR ''='')) lines = map Some kvs \<and> distinct (map fst kvs) \<and>
        fst ` set kvs \<inter> fst ` set vals = {} \<and> vs = rev kvs @ vals)"
proof (induction lines arbitrary: vals)
  case (Cons line lines)
  show ?case
  proof (cases "split_once (CHR ''='') line")
    case None
    then show ?thesis by (auto simp: result_simps)
  next
    case (Some kv)
    obtain k v where kv: "kv = (k, v)" by (cases kv)
    have key: "map_of vals k \<noteq> None \<longleftrightarrow> k \<in> fst ` set vals" by (simp add: map_of_eq_None_iff)
    have "manifest_fields what (line # lines) vals = Inr vs \<longleftrightarrow>
        k \<notin> fst ` set vals \<and> manifest_fields what lines ((k, v) # vals) = Inr vs"
      using Some kv key by (auto simp: context_opt_def)
    also have "\<dots> \<longleftrightarrow> (\<exists>kvs. map (split_once (CHR ''='')) lines = map Some kvs \<and> distinct (map fst ((k, v) # kvs)) \<and>
        fst ` set ((k, v) # kvs) \<inter> fst ` set vals = {} \<and> vs = rev ((k, v) # kvs) @ vals)"
      unfolding Cons.IH by auto
    also have "\<dots> \<longleftrightarrow> (\<exists>kvs. map (split_once (CHR ''='')) (line # lines) = map Some kvs \<and> distinct (map fst kvs) \<and>
        fst ` set kvs \<inter> fst ` set vals = {} \<and> vs = rev kvs @ vals)" (is "?L \<longleftrightarrow> ?R")
    proof
      assume ?L
      then obtain kvs where "map (split_once (CHR ''='')) lines = map Some kvs" "distinct (map fst ((k, v) # kvs))"
        "fst ` set ((k, v) # kvs) \<inter> fst ` set vals = {}" "vs = rev ((k, v) # kvs) @ vals" by blast
      then show ?R using Some kv by (intro exI [of _ "(k, v) # kvs"]) simp
    next
      assume ?R
      then obtain kvs where r: "map (split_once (CHR ''='')) (line # lines) = map Some kvs" "distinct (map fst kvs)"
        "fst ` set kvs \<inter> fst ` set vals = {}" "vs = rev kvs @ vals" by blast
      then obtain kvs' where "kvs = (k, v) # kvs'" "map (split_once (CHR ''='')) lines = map Some kvs'"
        using Some kv by (cases kvs) auto
      with r show ?L by (intro exI [of _ kvs']) simp
    qed
    finally show ?thesis .
  qed
qed auto

definition manifest_keys :: "string set" where
  "manifest_keys = {''version'', ''target'', ''asset'', ''size'', ''sha256''}"

lemma card_manifest_keys: "card manifest_keys = 5"
  by (simp add: manifest_keys_def)

text \<open>A manifest is five lines \<open>key=value\<close>, in any order, one for each key.\<close>

lemma parse_manifest_iff:
  "parse_manifest U mt = Inr m \<longleftrightarrow>
     (\<exists>kvs v sz. map (split_once (CHR ''='')) (lines_of mt) = map Some kvs \<and> distinct (map fst kvs) \<and>
        fst ` set kvs = manifest_keys \<and> (''version'', v) \<in> set kvs \<and> ue_parse_version U v = Inr (mf_version m) \<and>
        (''target'', mf_target m) \<in> set kvs \<and> (''asset'', mf_asset m) \<in> set kvs \<and>
        (''size'', sz) \<in> set kvs \<and> parse_u64 sz = Inr (mf_size m) \<and>
        (''sha256'', mf_sha256 m) \<in> set kvs \<and> hex_digest (mf_sha256 m))" (is "?L \<longleftrightarrow> ?R")
proof
  assume ?L
  then obtain vals v sz where
    f: "manifest_fields ''update'' (lines_of mt) [] = Inr vals" and n: "length vals = 5"
    and k: "map_of vals ''sha256'' = Some (mf_sha256 m)" "map_of vals ''version'' = Some v"
      "map_of vals ''target'' = Some (mf_target m)" "map_of vals ''asset'' = Some (mf_asset m)" "map_of vals ''size'' = Some sz"
    and p: "ue_parse_version U v = Inr (mf_version m)" "parse_u64 sz = Inr (mf_size m)" "hex_digest (mf_sha256 m)"
    by (auto simp: parse_manifest_def result_simps ensure_def)
  from f obtain kvs where kvs: "map (split_once (CHR ''='')) (lines_of mt) = map Some kvs" "distinct (map fst kvs)" "vals = rev kvs"
    unfolding manifest_fields_iff by auto
  note mem = k [THEN map_of_SomeD, unfolded kvs(3) set_rev]
  have "manifest_keys \<subseteq> fst ` set kvs" using mem by (force simp: manifest_keys_def)
  moreover have "card (fst ` set kvs) = 5" using kvs(2,3) n by (metis distinct_card length_map length_rev set_map)
  ultimately have "fst ` set kvs = manifest_keys" using card_manifest_keys by (metis List.finite_set card_subset_eq finite_imageI)
  with kvs mem p show ?R by blast
next
  assume ?R
  then obtain kvs v sz where kvs: "map (split_once (CHR ''='')) (lines_of mt) = map Some kvs" "distinct (map fst kvs)"
      "fst ` set kvs = manifest_keys"
    and mem: "(''version'', v) \<in> set kvs" "(''target'', mf_target m) \<in> set kvs" "(''asset'', mf_asset m) \<in> set kvs"
      "(''size'', sz) \<in> set kvs" "(''sha256'', mf_sha256 m) \<in> set kvs"
    and p: "ue_parse_version U v = Inr (mf_version m)" "parse_u64 sz = Inr (mf_size m)" "hex_digest (mf_sha256 m)" by blast
  have f: "manifest_fields ''update'' (lines_of mt) [] = Inr (rev kvs)" using kvs(1,2) unfolding manifest_fields_iff by simp
  have n: "length kvs = 5" using kvs(2,3) card_manifest_keys by (metis distinct_card length_map set_map)
  have look: "map_of (rev kvs) a = Some b" if "(a, b) \<in> set kvs" for a b
    using that kvs(2) by (simp add: rev_map [symmetric])
  show ?L using f n look [OF mem(1)] look [OF mem(2)] look [OF mem(3)] look [OF mem(4)] look [OF mem(5)] p
    by (simp add: parse_manifest_def context_opt_def ensure_def)
qed

end
