(* ===== verification/Cli.thy ===== *)
theory Cli
  imports Update PackProofs Extract V2Container Fuse
begin

text \<open>
  The command line (\<open>cipherfs-cli/src/main.rs\<close>): the commands as the parser hands them over, the
  prompts and messages of a terminal, the progress bar, and the operations of the core they start.
  Parsing of arguments, the terminal's widgets, the signal handler, the spawned FUSE session and the
  replacement of the running executable are parameters. The model follows the Unix build.
\<close>

section \<open>Commands and the terminal\<close>

datatype cli_command =
    CmdPack path "path option" u32 u32 u32 u64 nat
  | CmdExtract path path nat
  | CmdMount path path u64
  | CmdPasswd path
  | CmdVerify path nat
  | CmdUpdate
  | CmdLicenses

text \<open>What the user will type, what was asked, and what was printed.\<close>

record terminal =
  tm_answers :: "string result list"
  tm_prompts :: "string list"
  tm_output :: "string list"

type_synonym 'a cmd = "terminal \<Rightarrow> world \<Rightarrow> 'a result \<times> terminal \<times> world"

definition bindC :: "'a cmd \<Rightarrow> ('a \<Rightarrow> 'b cmd) \<Rightarrow> 'b cmd" where
  "bindC m f t w = (case m t w of (Inl e, t, w) \<Rightarrow> (Inl e, t, w) | (Inr a, t, w) \<Rightarrow> f a t w)"

definition pureC :: "'a result \<Rightarrow> 'a cmd" where
  "pureC r t w = (r, t, w)"

definition ioC :: "'a io \<Rightarrow> 'a cmd" where
  "ioC m t w = (case m w of (r, w) \<Rightarrow> (r, t, w))"

definition outputC :: "string \<Rightarrow> unit cmd" where
  "outputC message t w = (Inr (), t\<lparr>tm_output := tm_output t @ [message]\<rparr>, w)"

definition read_lineC :: "string cmd" where
  "read_lineC t w =
     (case tm_answers t of
        [] \<Rightarrow> (Inr [], t, w)
      | a # as \<Rightarrow> (a, t\<lparr>tm_answers := as\<rparr>, w))"

definition passwordC :: "string \<Rightarrow> string cmd" where
  "passwordC prompt t w =
     (let t = t\<lparr>tm_prompts := tm_prompts t @ [prompt]\<rparr> in
      case tm_answers t of
        [] \<Rightarrow> (Inl [IoError ''unexpected end of file''], t, w)
      | a # as \<Rightarrow> (a, t\<lparr>tm_answers := as\<rparr>, w))"

definition parse_threads :: "string \<Rightarrow> string + nat" where
  "parse_threads s =
     (case parse_unsigned (2 ^ 64) s of
        None \<Rightarrow> Inl ''threads must be an integer from 0 through 256''
      | Some threads \<Rightarrow>
          if 256 < threads then Inl ''threads must be an integer from 0 through 256'' else Inr threads)"

section \<open>Progress\<close>

record progress_bar =
  pb_length :: u64
  pb_position :: u64

record cli_progress =
  cp_active :: "(operation_phase \<times> progress_bar) option"
  cp_finished :: "string list"

definition cli_progress_new :: cli_progress where
  "cli_progress_new = \<lparr>cp_active = None, cp_finished = []\<rparr>"

definition finish_active :: "cli_progress \<Rightarrow> cli_progress" where
  "finish_active p =
     (case cp_active p of
        None \<Rightarrow> p
      | Some (ph, bar) \<Rightarrow>
          p\<lparr>cp_active := None,
            cp_finished := cp_finished p @ [case ph of
              Encrypt \<Rightarrow> ''Encrypted'' | SelfVerify \<Rightarrow> ''Verified'' | Verify \<Rightarrow> ''Verified''
            | Extract \<Rightarrow> ''Verified and extracted'' | _ \<Rightarrow> ''Complete'']\<rparr>)"

definition cli_report :: "operation_progress \<Rightarrow> cli_progress \<Rightarrow> cli_progress" where
  "cli_report progress p =
     (if pr_phase progress \<in> {Scan, KeyDerivation, Commit} then p
      else
        let replace = (case cp_active p of
              None \<Rightarrow> True | Some (ph, bar) \<Rightarrow> ph \<noteq> pr_phase progress \<or> pb_length bar \<noteq> pr_total progress);
            active = (if replace then Some (pr_phase progress, \<lparr>pb_length = pr_total progress, pb_position = 0\<rparr>) else cp_active p)
         in p\<lparr>cp_active := map_option (\<lambda>(ph, bar). (ph, bar\<lparr>pb_position := pr_completed progress\<rparr>)) active\<rparr>)"

definition cli_event :: "operation_event \<Rightarrow> cli_progress \<times> string list \<Rightarrow> cli_progress \<times> string list" where
  "cli_event ev = (\<lambda>(p, printed).
     (case ev of
        Progress progress \<Rightarrow> (cli_report progress p, printed)
      | ScanCompleted entries bytes \<Rightarrow>
          (p, printed @ [''[Info] Found '' @ dec_string entries @ '' entries and '' @ dec_string (unat bytes) @ '' bytes.''])
      | PhaseStarted ph \<Rightarrow>
          if ph = SelfVerify then (finish_active p, printed @ [''[Info] Verifying completed container...''])
          else if ph = Commit then (finish_active p, printed)
          else (p, printed)
      | Warning message \<Rightarrow> (p, printed @ [''[Warning] '' @ message])
      | Committed \<Rightarrow> (finish_active p, printed)
      | _ \<Rightarrow> (p, printed)))"

text \<open>Running an operation with a fresh reporter; its bar is gone after the operation, what it printed stays.\<close>

definition with_progress :: "unit io \<Rightarrow> unit cmd" where
  "with_progress m t w =
     (case m (w\<lparr>w_events := []\<rparr>) of
        (r, w') \<Rightarrow>
          (case fold cli_event (w_events w') (cli_progress_new, []) of
             (p, printed) \<Rightarrow>
               (r, t\<lparr>tm_output := tm_output t @ printed\<rparr>, w'\<lparr>w_events := w_events w @ w_events w'\<rparr>)))"

section \<open>Parameters\<close>

record ('v, 'k, 's, 'm) cli_env =
  ce_prims :: prims
  ce_legacy :: "bytes \<Rightarrow> v1_header result"
  ce_walk :: walker
  ce_fuel :: nat
  ce_schedules :: schedules
  ce_order :: "path list \<Rightarrow> path list"
  ce_pool :: "nat \<Rightarrow> nat result"
  ce_handler :: "unit result"
  ce_cwd :: path
  ce_notices :: string
  ce_dependencies :: string
  ce_gpl :: string
  ce_spawn :: "opened_container \<times> cache \<Rightarrow> path \<Rightarrow> mount_option list \<Rightarrow> 'm io"
  ce_detach :: "'m \<Rightarrow> unit io"
  ce_running :: "nat \<Rightarrow> bool"
  ce_update :: "('v, 'k, 's) update_env"
  ce_package_version :: string
  ce_current_exe :: "path result"
  ce_self_replace :: "path \<Rightarrow> unit io"

definition install_signal_handler :: "('v, 'k, 's, 'm) cli_env \<Rightarrow> unit cmd" where
  "install_signal_handler E = pureC (context_err ''Unable to install Ctrl+C handler'' (ce_handler E))"

definition operation_token :: "('v, 'k, 's, 'm) cli_env \<Rightarrow> unit cmd" where
  "operation_token E = install_signal_handler E"

section \<open>Mounting\<close>

text \<open>The poll of the flag the handler clears: at the \<open>n\<close>-th look.\<close>

partial_function (option) wait_for_unmount :: "(nat \<Rightarrow> bool) \<Rightarrow> nat \<Rightarrow> nat option" where
  "wait_for_unmount running n = (if running n then wait_for_unmount running (n + 1) else Some n)"

definition mount_filesystem ::
  "('v, 'k, 's, 'm) cli_env \<Rightarrow> path \<Rightarrow> path \<Rightarrow> string \<Rightarrow> u64 \<Rightarrow> terminal \<Rightarrow> world \<Rightarrow> (unit result \<times> terminal \<times> world) option" where
  "mount_filesystem E container mountpoint password cache_mib t w =
     (case bindC (install_signal_handler E) (\<lambda>_.
           ioC (fuse_start (ce_prims E) (ce_legacy E) (ce_spawn E) container mountpoint password cache_mib)) t w of
        (Inl e, t, w) \<Rightarrow> Some (Inl e, t, w)
      | (Inr session, t, w) \<Rightarrow>
          Option.bind (wait_for_unmount (ce_running E) 0) (\<lambda>_.
          Some (bindC (outputC ''[Success] CipherFS is mounted read-only.'') (\<lambda>_.
                bindC (outputC ''[Info] Press Ctrl+C to unmount.'') (\<lambda>_.
                bindC (outputC (CHR 0x0A # ''[Info] Unmounting...'')) (\<lambda>_.
                ioC (\<lambda>w. (Inr (), snd (ce_detach E session w)))))) t w)))"

section \<open>Updating\<close>

text \<open>Control characters are dropped, except newline and tab; in UTF-8 those above ASCII are two bytes.\<close>

definition hidden_char :: "char \<Rightarrow> bool" where
  "hidden_char c \<longleftrightarrow> (code c < 32 \<and> c \<noteq> CHR 0x0A \<and> c \<noteq> CHR 0x09) \<or> code c = 127"

fun terminal_safe :: "string \<Rightarrow> string" where
  "terminal_safe [] = []"
| "terminal_safe [c] = (if hidden_char c then [] else [c])"
| "terminal_safe (c # d # cs) =
     (if code c = 194 \<and> 128 \<le> code d \<and> code d < 160 then terminal_safe cs
      else if hidden_char c then terminal_safe (d # cs)
      else c # terminal_safe (d # cs))"

definition set_executable :: "path \<Rightarrow> unit io" where
  "set_executable p = fs_call (\<lambda>w. (case w_disk w p of None \<Rightarrow> (Inl not_found, w) | Some _ \<Rightarrow> (Inr (), w)))"

definition sync_update_parent :: "path \<Rightarrow> unit io" where
  "sync_update_parent p = bindM (open_file p) sync_file"

definition temp_update_drop :: "path \<Rightarrow> unit io" where
  "temp_update_drop p = remove_one_file p"

definition update_temp_path :: "path \<Rightarrow> bytes \<Rightarrow> path" where
  "update_temp_path parent random = parent @ [''.cipherfs-update-'' @ hex_encode random]"

definition install_update :: "('v, 'k, 's, 'm) cli_env \<Rightarrow> bytes \<Rightarrow> unit io" where
  "install_update E bytes =
     bindM (liftE (ce_current_exe E)) (\<lambda>current_exe.
     bindM (liftE (context_opt ''Current executable has no parent directory'' (path_parent current_exe))) (\<lambda>parent.
     bindM (fill_bytes 8) (\<lambda>random.
     let temp_path = update_temp_path parent random in
     finallyM
       (bindM (create_new_file temp_path) (\<lambda>_.
        bindM (write_file_at temp_path 0 bytes) (\<lambda>_.
        bindM (sync_file temp_path) (\<lambda>_.
        bindM (set_executable temp_path) (\<lambda>_.
        bindM (open_file temp_path) (\<lambda>f.
        bindM (sync_file f) (\<lambda>_.
        bindM (ce_self_replace E temp_path) (\<lambda>_.
        sync_update_parent parent))))))))
       (temp_update_drop temp_path))))"

definition notes_message :: "string \<Rightarrow> string" where
  "notes_message notes =
     ''--- Release Notes ---'' @ [CHR 0x0A] @ terminal_safe notes @ [CHR 0x0A] @ ''---------------------''"

definition update_interactive :: "('v, 'k, 's, 'm) cli_env \<Rightarrow> unit cmd" where
  "update_interactive E =
     bindC (pureC (download_portable_update (ce_update E))) (\<lambda>update.
     (case update of
        None \<Rightarrow> outputC (''[Info] Already up to date (Version: '' @ ce_package_version E @ '').'')
      | Some u \<Rightarrow>
          bindC (outputC (''[Info] Signed update available: '' @ pu_version u @ '' (Current: '' @ pu_current_version u @ '')'')) (\<lambda>_.
          bindC (case pu_release_notes u of None \<Rightarrow> pureC (Inr ()) | Some notes \<Rightarrow> outputC (notes_message notes)) (\<lambda>_.
          bindC (outputC (''Install verified update '' @ pu_version u @ ''? [y/N]: '')) (\<lambda>_.
          bindC read_lineC (\<lambda>input.
          if \<not> eq_ignore_ascii_case (trim input) ''y'' then outputC ''[Info] Update cancelled.''
          else
            bindC (ioC (install_update E (pu_bytes u))) (\<lambda>_.
            outputC (''[Success] Updated to '' @ pu_version u @ ''.''))))))))"

section \<open>Commands\<close>

text \<open>A relative name is taken in the working directory.\<close>

definition default_container :: "path \<Rightarrow> path \<Rightarrow> path" where
  "default_container cwd source =
     (case Option.bind (path_file_name source) to_str of
        Some name \<Rightarrow> cwd @ [name @ ''.cfs''] | None \<Rightarrow> cwd @ [''vault.cfs''])"

definition run_pack ::
  "('v, 'k, 's, 'm) cli_env \<Rightarrow> path \<Rightarrow> path option \<Rightarrow> u32 \<Rightarrow> u32 \<Rightarrow> u32 \<Rightarrow> u64 \<Rightarrow> nat \<Rightarrow> unit cmd" where
  "run_pack E source output m_cost' t_cost' p_cost' max_index threads =
     (let output = (case output of Some p \<Rightarrow> p | None \<Rightarrow> default_container (ce_cwd E) source) in
      bindC (passwordC ''Set Master Password: '') (\<lambda>password.
      bindC (passwordC ''Verify Master Password: '') (\<lambda>verify.
      if password \<noteq> verify then pureC (bail ''Passwords do not match'')
      else
        bindC (passwordC ''Set Duress Password (optional): '') (\<lambda>duress.
        let duress = (if duress \<noteq> [] then Some duress else None) in
        bindC (pureC (context_opt ''Index limit overflow'' (checked_mul max_index (1024 * 1024)))) (\<lambda>max_index_size.
        bindC (outputC (''[Info] Scanning '' @ display_path source @ ''...'')) (\<lambda>_.
        bindC (operation_token E) (\<lambda>_.
        bindC (with_progress (pack_execute (ce_prims E) (ce_walk E) (ce_fuel E) (ce_schedules E)
            (\<lambda>n. bindE (ce_pool E n) (\<lambda>_. Inr ()))
            \<lparr>pq_source = source, pq_output = output, pq_password = password, pq_duress_password = duress,
             pq_options = \<lparr>po_argon2_m_cost = m_cost', po_argon2_t_cost = t_cost', po_argon2_p_cost = p_cost',
               po_max_index_size = max_index_size, po_threads = threads, po_temporary_path = None\<rparr>\<rparr>)) (\<lambda>_.
        outputC (''[Success] '' @ display_path output @ '' created and verified.'')))))))))"

definition run_extract :: "('v, 'k, 's, 'm) cli_env \<Rightarrow> path \<Rightarrow> path \<Rightarrow> nat \<Rightarrow> unit cmd" where
  "run_extract E container output threads =
     bindC (ioC (require_v2 (ce_prims E) (ce_legacy E) container)) (\<lambda>_.
     bindC (passwordC ''Enter Password: '') (\<lambda>password.
     bindC (operation_token E) (\<lambda>_.
     bindC (with_progress (extract_execute (ce_prims E) (ce_pool E) (ce_order E)
         \<lparr>xq_container = container, xq_output = output, xq_password = password,
          xq_options = \<lparr>xo_threads = threads, xo_staging_path = None\<rparr>\<rparr>)) (\<lambda>_.
     outputC ''[Success] Extraction complete.''))))"

definition run_passwd :: "('v, 'k, 's, 'm) cli_env \<Rightarrow> path \<Rightarrow> unit cmd" where
  "run_passwd E container =
     bindC (ioC (require_v2 (ce_prims E) (ce_legacy E) container)) (\<lambda>_.
     bindC (passwordC ''Enter Current Password: '') (\<lambda>old.
     bindC (passwordC ''Set New Master Password: '') (\<lambda>new.
     bindC (passwordC ''Verify New Master Password: '') (\<lambda>verify.
     if new \<noteq> verify then pureC (bail ''Passwords do not match'')
     else
       bindC (operation_token E) (\<lambda>_.
       bindC (with_progress (change_password_with_control (ce_prims E) container old new)) (\<lambda>_.
       outputC ''[Success] Password keyslot updated.''))))))"

definition run_verify :: "('v, 'k, 's, 'm) cli_env \<Rightarrow> path \<Rightarrow> nat \<Rightarrow> unit cmd" where
  "run_verify E container threads =
     bindC (ioC (require_v2 (ce_prims E) (ce_legacy E) container)) (\<lambda>_.
     bindC (passwordC ''Enter Password: '') (\<lambda>password.
     bindC (operation_token E) (\<lambda>_.
     bindC (with_progress (verify (ce_prims E) (sd_verify (ce_schedules E)) container password)) (\<lambda>_.
     outputC ''[Success] Header, index, and all encrypted chunks are valid.''))))"

definition print_licenses :: "('v, 'k, 's, 'm) cli_env \<Rightarrow> unit cmd" where
  "print_licenses E =
     bindC (outputC (ce_notices E)) (\<lambda>_.
     bindC (outputC ([CHR 0x0A] @ ''--- Locked Rust dependencies ---'' @ [CHR 0x0A])) (\<lambda>_.
     bindC (outputC (ce_dependencies E)) (\<lambda>_.
     bindC (outputC ([CHR 0x0A] @ ''--- GNU GPL version 3 ---'' @ [CHR 0x0A])) (\<lambda>_.
     outputC (ce_gpl E)))))"

text \<open>A mount ends when the flag is cleared; the command has no result before.\<close>

definition execute_command ::
  "('v, 'k, 's, 'm) cli_env \<Rightarrow> cli_command \<Rightarrow> terminal \<Rightarrow> world \<Rightarrow> (unit result \<times> terminal \<times> world) option" where
  "execute_command E command t w =
     (case command of
        CmdUpdate \<Rightarrow> Some (update_interactive E t w)
      | CmdLicenses \<Rightarrow> Some (print_licenses E t w)
      | CmdPack source output m_cost' t_cost' p_cost' max_index threads \<Rightarrow>
          Some (run_pack E source output m_cost' t_cost' p_cost' max_index threads t w)
      | CmdExtract container output threads \<Rightarrow> Some (run_extract E container output threads t w)
      | CmdMount container mountpoint cache_mib \<Rightarrow>
          (case bindC (ioC (require_v2 (ce_prims E) (ce_legacy E) container)) (\<lambda>_. passwordC ''Enter Password: '') t w of
             (Inl e, t, w) \<Rightarrow> Some (Inl e, t, w)
           | (Inr password, t, w) \<Rightarrow> mount_filesystem E container mountpoint password cache_mib t w)
      | CmdPasswd container \<Rightarrow> Some (run_passwd E container t w)
      | CmdVerify container threads \<Rightarrow> Some (run_verify E container threads t w))"

section \<open>Steps of a command\<close>

named_theorems cmd_simps

lemma bindC_simps [cmd_simps]:
  "m t w = (Inl e, t', w') \<Longrightarrow> bindC m f t w = (Inl e, t', w')"
  "m t w = (Inr a, t', w') \<Longrightarrow> bindC m f t w = f a t' w'"
  by (simp_all add: bindC_def)

lemma output_simps [cmd_simps]:
  "bindC (outputC s) f t w = f () (t\<lparr>tm_output := tm_output t @ [s]\<rparr>) w"
  by (simp add: bindC_def outputC_def)

lemma pureC_simps [cmd_simps]:
  "bindC (pureC (Inr a)) f t w = f a t w" "bindC (pureC (Inl e)) f t w = (Inl e, t, w)"
  by (simp_all add: bindC_def pureC_def)

text \<open>A command that is one call before its prompt.\<close>

lemma ioC_refused [cmd_simps]: "m w = (Inl e, w') \<Longrightarrow> bindC (ioC m) f t w = (Inl e, t, w')"
  by (simp add: bindC_def ioC_def)

lemma ioC_run [cmd_simps]: "m w = (Inr a, w') \<Longrightarrow> bindC (ioC m) f t w = f a t w'"
  by (simp add: bindC_def ioC_def)

lemma read_lineC_run [cmd_simps]:
  "tm_answers t = Inr a # as \<Longrightarrow> bindC read_lineC f t w = f a (t\<lparr>tm_answers := as\<rparr>) w"
  by (simp add: bindC_def read_lineC_def)

lemma parse_threads_iff: "parse_threads s = Inr n \<longleftrightarrow> parse_unsigned (2 ^ 64) s = Some n \<and> n \<le> 256"
  by (auto simp: parse_threads_def split: option.splits)

section \<open>What a terminal is shown\<close>

lemma terminal_safe_chars: "c \<in> set (terminal_safe s) \<Longrightarrow> c \<in> set s \<and> \<not> hidden_char c"
  by (induction s rule: terminal_safe.induct) (auto split: if_splits)

lemma terminal_safe_plain:
  "\<forall>c \<in> set s. \<not> hidden_char c \<and> code c \<noteq> 194 \<Longrightarrow> terminal_safe s = s"
  by (induction s rule: terminal_safe.induct) auto

section \<open>Waiting\<close>

lemma wait_for_unmount_returns:
  assumes "\<not> running m" "n \<le> m"
  shows "\<exists>k. wait_for_unmount running n = Some k \<and> n \<le> k \<and> \<not> running k"
  using assms
proof (induction "m - n" arbitrary: n)
  case 0
  then show ?case by (intro exI [of _ n]) (simp add: wait_for_unmount.simps)
next
  case (Suc d)
  show ?case
  proof (cases "running n")
    case True
    have "n \<noteq> m" using True Suc.prems by auto
    with Suc.hyps(2) Suc.prems have "d = m - (n + 1)" "n + 1 \<le> m" by auto
    from Suc.hyps(1) [OF this(1) Suc.prems(1) this(2)] True show ?thesis
      by (subst wait_for_unmount.simps) auto
  qed (intro exI [of _ n], simp add: wait_for_unmount.simps)
qed

section \<open>Refusals\<close>

lemma pack_mismatch:
  assumes "tm_answers t = Inr password # Inr again # rest" "password \<noteq> again"
  shows "\<exists>t'. run_pack E source output' m_cost' t_cost' p_cost' max_index threads t w =
    (Inl [Msg ''Passwords do not match''], t', w)"
  using assms by (simp add: run_pack_def Let_def bindC_def passwordC_def pureC_def bail_def)

text \<open>The commands on an existing container look at its format before they ask for a password.\<close>

definition opens_container :: "cli_command \<Rightarrow> path option" where
  "opens_container command = (case command of
     CmdExtract container output threads \<Rightarrow> Some container
   | CmdMount container mountpoint cache_mib \<Rightarrow> Some container
   | CmdPasswd container \<Rightarrow> Some container
   | CmdVerify container threads \<Rightarrow> Some container
   | _ \<Rightarrow> None)"

lemma refused_format:
  assumes "opens_container command = Some container" "require_v2 (ce_prims E) (ce_legacy E) container w = (Inl e, w')"
  shows "execute_command E command t w = Some (Inl e, t, w')"
  using assms
  by (cases command) (simp_all add: opens_container_def execute_command_def run_extract_def run_passwd_def run_verify_def cmd_simps)

lemma refused_format_frame:
  assumes "opens_container command = Some container" "require_v2 (ce_prims E) (ce_legacy E) container w = (Inl e, w')"
  shows "\<exists>w'. execute_command E command t w = Some (Inl e, t, w') \<and> w_disk w' = w_disk w"
  using refused_format [OF assms, of t] pure_disk [OF require_v2_frame assms(2)] by auto

section \<open>The update\<close>

text \<open>Nothing is touched before an update passed every check and the user typed \<open>y\<close>.\<close>

lemma trim_Nil [simp]: "trim [] = []"
proof -
  have "List.find (\<lambda>p. p \<noteq> [] \<and> starts_with p []) ws = None" for ws :: "string list"
    by (auto simp: find_None_iff starts_with_iff)
  then have "trim_start_of ws [] = []" for ws by (subst trim_start_of.simps) simp
  then show ?thesis by (simp add: trim_def)
qed

lemma update_installs:
  assumes "update_interactive E t w = (r, t', w')" "w' \<noteq> w"
  shows "\<exists>u input rest. download_portable_update (ce_update E) = Inr (Some u) \<and> tm_answers t = Inr input # rest \<and>
    to_ascii_lowercase (trim input) = ''y'' \<and> w' = snd (install_update E (pu_bytes u) w) \<and>
    (r = Inr () \<longrightarrow> fst (install_update E (pu_bytes u) w) = Inr ())"
proof (cases "download_portable_update (ce_update E)")
  case (Inl e)
  with assms show ?thesis by (simp add: update_interactive_def cmd_simps)
next
  case (Inr o')
  show ?thesis
  proof (cases o')
    case None
    with Inr assms show ?thesis by (simp add: update_interactive_def cmd_simps outputC_def)
  next
    case (Some u)
    have y: "to_ascii_lowercase ''y'' = ''y''" by code_simp
    define ask where "ask = (\<lambda>input.
        if \<not> eq_ignore_ascii_case (trim input) ''y'' then outputC ''[Info] Update cancelled.''
        else bindC (ioC (install_update E (pu_bytes u))) (\<lambda>_. outputC (''[Success] Updated to '' @ pu_version u @ ''.'')))"
    have "\<exists>t2. tm_answers t2 = tm_answers t \<and> update_interactive E t w = bindC read_lineC ask t2 w"
    proof (cases "pu_release_notes u")
      case None
      show ?thesis unfolding ask_def
        by (rule exI, rule conjI [rotated]) (simp add: update_interactive_def cmd_simps Inr Some None, simp)
    next
      case noted: (Some noted)
      show ?thesis unfolding ask_def
        by (rule exI, rule conjI [rotated]) (simp add: update_interactive_def cmd_simps Inr Some noted, simp)
    qed
    then obtain t2 where t2: "tm_answers t2 = tm_answers t" "bindC read_lineC ask t2 w = (r, t', w')"
      using assms(1) by auto
    have "w' = w" if "tm_answers t = []"
      using that t2 by (simp add: bindC_def read_lineC_def ask_def y eq_ignore_ascii_case_def to_ascii_lowercase_def outputC_def)
    with assms(2) obtain a rest where a: "tm_answers t = a # rest" by (cases "tm_answers t") auto
    show ?thesis
    proof (cases a)
      case (Inl e)
      with a t2 assms(2) show ?thesis by (simp add: bindC_def read_lineC_def)
    next
      case input: (Inr input)
      have "ask input (t2\<lparr>tm_answers := rest\<rparr>) w = (r, t', w')"
        using a t2 input by (simp add: bindC_def read_lineC_def)
      with assms(2) have "to_ascii_lowercase (trim input) = ''y'' \<and> w' = snd (install_update E (pu_bytes u) w) \<and>
          (r = Inr () \<longrightarrow> fst (install_update E (pu_bytes u) w) = Inr ())"
        by (auto simp: ask_def eq_ignore_ascii_case_def y outputC_def bindC_def ioC_def split: if_splits prod.splits sum.splits)
      then show ?thesis using Inr Some a input by blast
    qed
  qed
qed

section \<open>Installing\<close>

lemma fill_bytes_disk: "fill_bytes n w = (Inr bs, w') \<Longrightarrow> w_disk w' = w_disk w \<and> length bs = n"
  by (auto simp: fill_bytes_def)

lemma finallyM_Inr: "finallyM m d w = (Inr a, w') \<longleftrightarrow> (\<exists>w1. m w = (Inr a, w1) \<and> w' = snd (d w1))"
  by (auto simp: finallyM_def split: prod.splits)

lemma liftE_run: "liftE x w = (Inr a, w') \<longleftrightarrow> x = Inr a \<and> w' = w"
  by (auto simp: liftE_def)

lemma context_opt_run: "context_opt msg x = Inr a \<longleftrightarrow> x = Some a"
  by (cases x) (simp_all add: context_opt_def ok_or_def)

text \<open>The file that replaces the executable holds the verified bytes.\<close>

lemma install_update_bytes:
  assumes "install_update E bytes w = (Inr (), w')"
  shows "\<exists>current_exe parent random w1 w2 f. ce_current_exe E = Inr current_exe \<and> path_parent current_exe = Some parent \<and>
    w_disk w (update_temp_path parent random) = None \<and>
    ce_self_replace E (update_temp_path parent random) w1 = (Inr (), w2) \<and>
    w_disk w1 (update_temp_path parent random) = Some (FileNode f) \<and> fd_bytes f = bytes"
proof -
  obtain current_exe parent random w0 wa where exe: "ce_current_exe E = Inr current_exe" "path_parent current_exe = Some parent"
    and fill: "fill_bytes 8 w = (Inr random, w0)"
    and m: "bindM (create_new_file (update_temp_path parent random)) (\<lambda>_.
        bindM (write_file_at (update_temp_path parent random) 0 bytes) (\<lambda>_.
        bindM (sync_file (update_temp_path parent random)) (\<lambda>_.
        bindM (set_executable (update_temp_path parent random)) (\<lambda>_.
        bindM (open_file (update_temp_path parent random)) (\<lambda>f.
        bindM (sync_file f) (\<lambda>_.
        bindM (ce_self_replace E (update_temp_path parent random)) (\<lambda>_.
        sync_update_parent parent))))))) w0 = (Inr (), wa)"
    using assms
    unfolding install_update_def Let_def
    by (auto simp only: bindM_eq_Inr [of _ _ w] bindM_eq_Inr [of "fill_bytes 8"] liftE_run context_opt_run finallyM_Inr)
  let ?T = "update_temp_path parent random"
  obtain q w1 w2 w3 w4 q' w5 w6 w7 where
    c: "create_new_file ?T w0 = (Inr q, w1)" and wr: "write_file_at ?T 0 bytes w1 = (Inr (), w2)"
    and s: "sync_file ?T w2 = (Inr (), w3)" "set_executable ?T w3 = (Inr (), w4)" "open_file ?T w4 = (Inr q', w5)"
      "sync_file q' w5 = (Inr (), w6)" and rep: "ce_self_replace E ?T w6 = (Inr (), w7)"
    using m by (auto simp: bindM_eq_Inr)
  have free: "w_disk w ?T = None" using create_new_file_Inr [OF c] fill_bytes_disk [OF fill] by auto
  obtain f where f: "w_disk w1 ?T = Some (FileNode f)" "fd_bytes f = []"
    using c by (auto simp: create_new_file_def fs_call_eq_Inr put_node_def split: option.splits if_splits)
  obtain g where g: "w_disk w2 ?T = Some (FileNode g)" "fd_bytes g = bytes"
    using wr f by (auto simp: write_file_at_def fs_call_eq_Inr put_node_def write_bytes_def)
  have "w_disk w6 = w_disk w2"
    using s by (auto simp: sync_file_def set_executable_def open_file_def fs_call_eq_Inr returnM_def Let_def split: option.splits)
  then have "w_disk w6 ?T = Some (FileNode g)" using g by simp
  with g(2) exe free rep show ?thesis by blast
qed

text \<open>The guard is armed before the file exists: a file that bears the drawn name is removed by a
  run that did not create it.\<close>

lemma install_update_removes_foreign:
  assumes "ce_current_exe E = Inr current_exe" "path_parent current_exe = Some parent" "fill_bytes 8 w = (Inr random, w0)"
    and "w_disk w (update_temp_path parent random) = Some (FileNode f)" "fault_free w"
  shows "\<exists>e w'. install_update E bytes w = (Inl e, w') \<and> w_disk w' (update_temp_path parent random) = None"
proof -
  have w0: "fault_free w0" "w_disk w0 = w_disk w"
    using assms(3,5) by (auto simp: fill_bytes_def fault_free_def)
  let ?T = "update_temp_path parent random"
  have "\<exists>rest. install_update E bytes w = finallyM (bindM (create_new_file ?T) rest) (temp_update_drop ?T) w0"
    using assms(1,2) by (simp add: install_update_def context_opt_def ok_or_def bindM_run [where m = "fill_bytes 8" and w = w, OF assms(3)] Let_def) blast
  then obtain rest where run: "install_update E bytes w = finallyM (bindM (create_new_file ?T) rest) (temp_update_drop ?T) w0" by blast
  let ?w1 = "w0\<lparr>w_calls := Suc (w_calls w0)\<rparr>"
  have "create_new_file ?T w0 = (Inl already_exists, ?w1)"
    using w0 assms(4) by (simp add: create_new_file_def fs_call_fault_free)
  then have "install_update E bytes w = (Inl already_exists, snd (temp_update_drop ?T ?w1))"
    by (simp add: run finallyM_def bindM_def)
  moreover have "w_disk (snd (temp_update_drop ?T ?w1)) ?T = None"
  proof -
    have "fault_free ?w1" using w0 by (simp add: fault_free_def)
    then show ?thesis using w0 assms(4) by (simp add: temp_update_drop_def remove_one_file_def fs_call_fault_free put_node_def)
  qed
  ultimately show ?thesis by blast
qed

end
