(* ===== verification/CliRuns.thy ===== *)
theory CliRuns
  imports Cli CalmPack
begin

text \<open>
  The commands of the command line in a world without faults and cancellation: packing from the
  prompt and extracting from the prompt come to their end, and the tree comes back.
\<close>

lemma runs_require_v2:
  assumes "container_ready P D path h body" "header_within_limits h"
  shows "runs r D (require_v2 P L path) (\<lambda>_ D'. D' = D)"
proof -
  let ?q = "follow D path"
  have at: "container_at P D ?q h body" and small: "HEADER_SIZE + length body < 2 ^ 64"
    using assms(1) by (simp_all add: container_ready_def)
  obtain g where g: "D ?q = Some (FileNode g)" "HEADER_SIZE \<le> length (fd_bytes g)"
      "p_header_from P (take HEADER_SIZE (fd_bytes g)) = Inr h" "drop HEADER_SIZE (fd_bytes g) = body"
    using container_at_file [OF at] by blast
  have glen: "length (fd_bytes g) = HEADER_SIZE + length body" using g(2,4) by auto
  have ulen: "unat (of_nat (length (fd_bytes g)) :: u64) = HEADER_SIZE + length body"
    unfolding glen using small by (intro unat_of_nat_small) simp
  have le: "HEADER64 \<le> (of_nat (length (fd_bytes g)) :: u64)"
    unfolding word_le_nat_alt ulen by (simp add: HEADER_SIZE_def)
  have magic: "h_magic h = MAGIC" using assms(2) by (simp add: header_within_limits_def)
  have rd: "content_reader (fd_bytes g) 0 HEADER_SIZE = Inr (take HEADER_SIZE (fd_bytes g))"
    using g(2) by (simp add: content_reader_def slice_def HEADER_SIZE_def)
  have probe: "runs r D (probe_v2 P ?q (of_nat (length (fd_bytes g)))) (\<lambda>b D'. D' = D \<and> b)"
    unfolding probe_v2_def
    by (simp add: le, rule step_contextM, rule step_read_exact_file, rule g(1), rule rd, rule runs_returnM) (simp add: g(3) magic)
  have "runs r D (detect P L path) (\<lambda>fmt D'. D' = D \<and> fmt = V2)"
    unfolding detect_def
    by (rule step_open(1), rule g(1), rule step_file_len, rule g(1), rule runs_bindM, rule probe) (auto intro: runs_returnM)
  then show ?thesis unfolding require_v2_def by (rule runs_bindM) (auto intro: runs_returnM)
qed

section \<open>Commands that come to their end\<close>

definition ends :: "'a cmd \<Rightarrow> terminal \<Rightarrow> world \<Rightarrow> (terminal \<Rightarrow> world \<Rightarrow> bool) \<Rightarrow> bool" where
  "ends m t w Q \<longleftrightarrow> (\<exists>a t' w'. m t w = (Inr a, t', w') \<and> Q t' w')"

lemma ends_bindC: "m t w = (Inr a, t', w') \<Longrightarrow> ends (f a) t' w' Q \<Longrightarrow> ends (bindC m f) t w Q"
  by (simp add: ends_def bindC_def)

named_theorems ends_intros

lemma ends_password [ends_intros]:
  "tm_answers t = Inr a # as \<Longrightarrow> (\<And>t'. tm_answers t' = as \<Longrightarrow> ends (f a) t' w Q) \<Longrightarrow> ends (bindC (passwordC prompt) f) t w Q"
  by (simp add: ends_def bindC_def passwordC_def Let_def)

lemma ends_output [ends_intros]:
  "(\<And>t'. tm_answers t' = tm_answers t \<Longrightarrow> ends (f ()) t' w Q) \<Longrightarrow> ends (bindC (outputC s) f) t w Q"
  by (simp add: ends_def bindC_def outputC_def)

lemma ends_last [ends_intros]: "(\<And>t'. tm_answers t' = tm_answers t \<Longrightarrow> Q t' w) \<Longrightarrow> ends (outputC s) t w Q"
  by (simp add: ends_def outputC_def)

lemma ends_pure [ends_intros]: "x = Inr a \<Longrightarrow> ends (f a) t w Q \<Longrightarrow> ends (bindC (pureC x) f) t w Q"
  by (simp add: ends_def cmd_simps)

lemma ends_token [ends_intros]: "ce_handler E = Inr () \<Longrightarrow> ends (f ()) t w Q \<Longrightarrow> ends (bindC (operation_token E) f) t w Q"
  by (simp add: operation_token_def install_signal_handler_def ends_pure)

lemma ends_io:
  assumes "runs r D m R" "calm r w" "w_disk w = D"
    and "\<And>a w'. calm r w' \<Longrightarrow> R a (w_disk w') \<Longrightarrow> ends (f a) t w' Q"
  shows "ends (bindC (ioC m) f) t w Q"
proof -
  obtain a w' where "m w = (Inr a, w')" "calm r w'" "R a (w_disk w')" using assms(1-3) unfolding runs_def by blast
  then show ?thesis by (intro ends_bindC [of _ _ _ a]) (auto simp: ioC_def intro: assms(4))
qed

lemma ends_progress:
  assumes "runs r D m R" "calm r w" "w_disk w = D"
    and "\<And>t' w'. tm_answers t' = tm_answers t \<Longrightarrow> calm r w' \<Longrightarrow> R () (w_disk w') \<Longrightarrow> ends (f ()) t' w' Q"
  shows "ends (bindC (with_progress m) f) t w Q"
proof -
  have "calm r (w\<lparr>w_events := []\<rparr>)" "w_disk (w\<lparr>w_events := []\<rparr>) = D"
    using assms(2,3) by (simp_all add: calm_def fault_free_def)
  with assms(1) obtain a w' where m: "m (w\<lparr>w_events := []\<rparr>) = (Inr a, w')" "calm r w'" "R a (w_disk w')"
    unfolding runs_def by blast
  obtain p printed where p: "fold cli_event (w_events w') (cli_progress_new, []) = (p, printed)" by fastforce
  show ?thesis
    by (rule ends_bindC, simp add: with_progress_def m(1) p, rule assms(4))
      (use m in \<open>simp_all add: calm_def fault_free_def\<close>)
qed

section \<open>Packing and extracting from the prompt\<close>

lemma ends_pack:
  assumes run: "runs r D (pack_inner (ce_prims E) (ce_walk E) (ce_fuel E) (ce_schedules E) source output' password
      (if duress \<noteq> [] then Some duress else None) \<lparr>m_cost = mc, t_cost = tc, p_cost = pc\<rparr> max_index_size NoFault None) R"
    and w: "calm r w" "w_disk w = D" and E: "ce_handler E = Inr ()" "ce_pool E threads = Inr n"
    and lim: "checked_mul max_index (1024 * 1024) = Some max_index_size"
    and answers: "tm_answers t = Inr password # Inr password # Inr duress # rest"
    and Q: "\<And>t' w'. tm_answers t' = rest \<Longrightarrow> calm r w' \<Longrightarrow> R () (w_disk w') \<Longrightarrow> Q t' w'"
  shows "ends (run_pack E source (Some output') mc tc pc max_index threads) t w Q"
proof -
  have lim': "context_opt ''Index limit overflow'' (checked_mul max_index (1024 * 1024)) = Inr max_index_size"
    unfolding lim by (simp add: context_opt_def ok_or_def)
  let ?duress = "if duress \<noteq> [] then Some duress else None"
  have m: "runs r D (pack_execute (ce_prims E) (ce_walk E) (ce_fuel E) (ce_schedules E) (\<lambda>n. bindE (ce_pool E n) (\<lambda>_. Inr ()))
      \<lparr>pq_source = source, pq_output = output', pq_password = password, pq_duress_password = ?duress,
       pq_options = \<lparr>po_argon2_m_cost = mc, po_argon2_t_cost = tc, po_argon2_p_cost = pc,
         po_max_index_size = max_index_size, po_threads = threads, po_temporary_path = None\<rparr>\<rparr>) R"
    unfolding pack_execute_def pack_with_control_and_temp_def Let_def
    by (rule runs_map_errM, rule step_liftE, simp add: E) (use run in simp)
  show ?thesis
    unfolding run_pack_def Let_def option.case
    apply (rule ends_password, rule answers)
    apply (rule ends_password, assumption)
    apply (simp only: not_True_eq_False simp_thms if_False)
    apply (rule ends_password, assumption)
    apply (rule ends_pure, rule lim')
    apply (rule ends_output)
    apply (rule ends_token, rule E)
    apply (rule ends_progress [OF m w])
    apply (rule ends_last)
    apply (rule Q; simp)
    done
qed

lemma ends_extract:
  assumes ready: "container_ready (ce_prims E) D container h body" "header_within_limits h"
    and run: "runs r D (extract_v2_inner (ce_prims E) n (ce_order E) container output' password None None) R"
    and w: "calm r w" "w_disk w = D" and E: "ce_handler E = Inr ()" "ce_pool E threads = Inr n"
    and answers: "tm_answers t = Inr password # rest"
    and Q: "\<And>t' w'. tm_answers t' = rest \<Longrightarrow> calm r w' \<Longrightarrow> R () (w_disk w') \<Longrightarrow> Q t' w'"
  shows "ends (run_extract E container output' threads) t w Q"
proof -
  have m: "runs r D (extract_execute (ce_prims E) (ce_pool E) (ce_order E)
      \<lparr>xq_container = container, xq_output = output', xq_password = password,
       xq_options = \<lparr>xo_threads = threads, xo_staging_path = None\<rparr>\<rparr>) R"
    unfolding extract_execute_def by (rule runs_map_errM) (simp add: E run)
  show ?thesis
    unfolding run_extract_def
    apply (rule ends_io [OF runs_require_v2 [OF ready] w])
    apply (rule ends_password, rule answers)
    apply (rule ends_token, rule E)
    apply (rule ends_progress [OF m], assumption, assumption)
    apply (rule ends_last)
    apply (rule Q; simp)
    done
qed

text \<open>Packing and then extracting, both from the prompt, gives the tree back.\<close>

lemma cli_round_trip:
  assumes P: "prims_ok (ce_prims E)" "schedules_ok (ce_schedules E)"
    and ready: "pack_ready (ce_prims E) (ce_walk E) (ce_fuel E) r (w_disk w) source rs max_index_size"
    and params: "argon2_within_limits \<lparr>m_cost = mc, t_cost = tc, p_cost = pc\<rparr>" and duress: "duress \<noteq> password"
    and D: "disk_ok (w_disk w)" and out: "output_free (w_disk w) container None" and plain: "walk_plain (ce_walk E) (w_disk w) source"
    and place: "place_free (w_disk w) target" and ne: "target \<noteq> container"
    and stage: "\<forall>s. starts_with (''.'' @ last target @ ''.cipherfs-stage-'') s \<longrightarrow> butlast target @ [s] \<noteq> container"
    and order: "\<forall>xs. set (ce_order E xs) \<subseteq> set xs"
    and w: "calm r w" and E: "ce_handler E = Inr ()" "ce_pool E threads = Inr n"
    and lim: "checked_mul max_index (1024 * 1024) = Some max_index_size"
    and answers: "tm_answers t = Inr password # Inr password # Inr duress # Inr password # rest"
  shows "\<exists>t1 w1 t2 w2. execute_command E (CmdPack source (Some container) mc tc pc max_index threads) t w = Some (Inr (), t1, w1) \<and>
    execute_command E (CmdExtract container target threads) t1 w1 = Some (Inr (), t2, w2) \<and>
    same_tree (ce_walk E) (w_disk w) source (w_disk w2) target \<and>
    (\<forall>q. \<not> below target q \<longrightarrow> q \<noteq> container \<longrightarrow> w_disk w2 q = w_disk w q)"
proof -
  let ?D = "w_disk w"
  let ?R = "\<lambda>_ D'. \<exists>g es content. D' = ?D(container := Some (FileNode g)) \<and> packed_tree (ce_walk E) ?D source es content \<and>
       container_holds (ce_prims E) D' container password es content"
  have "runs r ?D (pack_inner (ce_prims E) (ce_walk E) (ce_fuel E) (ce_schedules E) source container password
      (if duress \<noteq> [] then Some duress else None) \<lparr>m_cost = mc, t_cost = tc, p_cost = pc\<rparr> max_index_size NoFault None) ?R"
    by (rule runs_pack [OF P ready params _ D out]) (use duress in simp)
  from ends_pack [OF this w refl E lim answers, where Q = "\<lambda>t' w'. tm_answers t' = Inr password # rest \<and> calm r w' \<and> ?R () (w_disk w')"]
  obtain t1 w1 where pack: "run_pack E source (Some container) mc tc pc max_index threads t w = (Inr (), t1, w1)"
    and t1: "tm_answers t1 = Inr password # rest" "calm r w1" "?R () (w_disk w1)"
    by (auto simp: ends_def)
  then obtain g es content where D1: "w_disk w1 = ?D(container := Some (FileNode g))" and tree: "packed_tree (ce_walk E) ?D source es content"
    and holds: "container_holds (ce_prims E) (w_disk w1) container password es content" by blast
  obtain h body where h: "container_ready (ce_prims E) (w_disk w1) container h body" "header_within_limits h"
    using holds by (auto simp: container_holds_def container_ready_def)
  have "runs r (w_disk w1) (extract_v2_inner (ce_prims E) n (ce_order E) container target password None None)
      (\<lambda>_ D'. same_tree (ce_walk E) ?D source D' target \<and> (\<forall>q. \<not> below target q \<longrightarrow> q \<noteq> container \<longrightarrow> D' q = ?D q))"
    by (rule runs_extract_packed [OF tree holds D1 D out plain place ne stage order])
  from ends_extract [OF h this t1(2) refl E t1(1), where Q = "\<lambda>t' w'. same_tree (ce_walk E) ?D source (w_disk w') target \<and>
      (\<forall>q. \<not> below target q \<longrightarrow> q \<noteq> container \<longrightarrow> w_disk w' q = ?D q)"]
  obtain t2 w2 where "run_extract E container target threads t1 w1 = (Inr (), t2, w2)"
    "same_tree (ce_walk E) ?D source (w_disk w2) target" "\<forall>q. \<not> below target q \<longrightarrow> q \<noteq> container \<longrightarrow> w_disk w2 q = ?D q"
    by (auto simp: ends_def)
  with pack show ?thesis by (auto simp: execute_command_def)
qed

end
