(* ===== verification/DemoCli.thy ===== *)
theory DemoCli
  imports DemoPack CliRuns
begin

text \<open>
  A command line with concrete parameters: a release of version 2 with one signed manifest, whose
  signature is its first letters, and an executable below a directory that can be written.
\<close>

definition demo_manifest :: string where
  "demo_manifest = ''version=2'' @ [CHR 0x0A] @ ''target=x86_64-unknown-linux-musl'' @ [CHR 0x0A] @ ''asset=cipherfs'' @ [CHR 0x0A] @
     ''size=3'' @ [CHR 0x0A] @ ''sha256='' @ replicate 64 (CHR ''0'')"

definition demo_update :: "(int, string, string) update_env" where
  "demo_update =
     \<lparr>ue_windows = False, ue_public_key = Some ''k'', ue_package_version = ''1'', ue_client = Inr (),
      ue_release = (\<lambda>_ _. Inr \<lparr>gr_tag_name = ''v2'', gr_body = None,
        gr_assets = [\<lparr>ga_name = ''cipherfs-linux-amd64.manifest'', ga_browser_download_url = ''m''\<rparr>,
          \<lparr>ga_name = ''cipherfs-linux-amd64.manifest.minisig'', ga_browser_download_url = ''s''\<rparr>,
          \<lparr>ga_name = ''cipherfs'', ga_browser_download_url = ''b''\<rparr>]\<rparr>),
      ue_get = (\<lambda>_ url. Inr \<lparr>rs_content_length = None,
        rs_body = Inr (if url = ''m'' then bytes_of demo_manifest else if url = ''s'' then bytes_of ''version'' else [1, 2, 3])\<rparr>),
      ue_parse_version = (\<lambda>s. if s = ''2'' then Inr 2 else if s = ''1'' then Inr 1 else Inl []),
      ue_version_le = (\<le>), ue_version_text = (\<lambda>v. if v = 2 then ''2'' else ''1''),
      ue_decode_signature = Inr, ue_public_key_of = Inr,
      ue_verify = (\<lambda>k bs s. k = ''k'' \<and> take 7 bs = bytes_of s),
      ue_sha256 = (\<lambda>_. replicate 32 0)\<rparr>"

lemma demo_download: "length bs \<le> 600 \<Longrightarrow> ue_get demo_update n url = Inr \<lparr>rs_content_length = None, rs_body = Inr bs\<rparr> \<Longrightarrow>
    download demo_update n url = Inr bs"
  by (simp add: download_def DOWNLOAD_LIMIT_def Let_def)

lemma demo_fields: "manifest_fields ''update'' (lines_of demo_manifest) [] =
    Inr [(''sha256'', replicate 64 (CHR ''0'')), (''size'', ''3''), (''asset'', ''cipherfs''), (''target'', ''x86_64-unknown-linux-musl''),
      (''version'', ''2'')]"
  by code_simp

lemma ascii_text: "list_all (\<lambda>c. code c < 128) s \<Longrightarrow> text_of (bytes_of s) = Some s"
  using valid_utf8_ascii [of s] string_of_bytes_of [of s] by (simp add: text_of_def to_str_def string_of_def list_all_iff)

lemma demo_text: "text_of (bytes_of demo_manifest) = Some demo_manifest" "text_of (bytes_of ''version'') = Some ''version''"
  by (rule ascii_text, code_simp)+

lemma demo_size: "parse_u64 ''3'' = Inr 3"
proof -
  have "parse_digits 0 ''3'' = Some 3" by code_simp
  then show ?thesis by (simp add: parse_u64_def parse_unsigned_def)
qed

lemma demo_digest: "hex_digest (replicate 64 (CHR ''0''))"
  by code_simp

lemma demo_manifest_parses:
  "parse_manifest demo_update demo_manifest =
     Inr \<lparr>mf_version = 2, mf_target = TARGET False, mf_asset = ''cipherfs'', mf_size = 3, mf_sha256 = replicate 64 (CHR ''0'')\<rparr>"
proof -
  have "ue_parse_version demo_update ''2'' = Inr 2" by (simp add: demo_update_def)
  then show ?thesis
    unfolding parse_manifest_def demo_fields
    by (simp add: context_opt_def ok_or_def ensure_def demo_size demo_digest TARGET_def)
qed

lemma trim_start_plain:
  assumes "\<forall>p \<in> set ws. p = [] \<or> hd p \<noteq> c"
  shows "trim_start_of ws (c # s) = c # s"
proof -
  have "List.find (\<lambda>p. p \<noteq> [] \<and> starts_with p (c # s)) ws = None"
    using assms by (auto simp: find_None_iff starts_with_iff neq_Nil_conv)
  then show ?thesis by (subst trim_start_of.simps) simp
qed

lemma demo_keys: "trusted_keys_of ''k'' = [''k'']"
proof -
  have "list_all (\<lambda>p. p = [] \<or> hd p \<noteq> CHR ''k'' \<and> last p \<noteq> CHR ''k'') whitespace" by code_simp
  then have "\<forall>p \<in> set whitespace. p = [] \<or> hd p \<noteq> CHR ''k''" "\<forall>p \<in> set (map rev whitespace). p = [] \<or> hd p \<noteq> CHR ''k''"
    by (auto simp: list_all_iff hd_rev)
  from this [THEN trim_start_plain, of "[]"] have "trim ''k'' = ''k''" unfolding trim_def by simp
  then show ?thesis by (simp add: trusted_keys_of_def)
qed

lemma demo_portable_update:
  "download_portable_update demo_update =
     Inr (Some \<lparr>pu_version = ''2'', pu_current_version = ''1'', pu_release_notes = None, pu_bytes = [1, 2, 3]\<rparr>)"
proof -
  have d: "download demo_update n ''m'' = Inr (bytes_of demo_manifest)" "download demo_update n ''s'' = Inr (bytes_of ''version'')"
    "download demo_update n ''b'' = Inr [1, 2, 3]" for n
    by (rule demo_download; simp add: demo_update_def demo_manifest_def bytes_of_def)+
  have "take 7 demo_manifest = ''version''" by code_simp
  with demo_keys have sig: "verify_manifest_signature demo_update ''k'' (bytes_of demo_manifest) ''version'' = Inr ()"
    by (simp add: verify_manifest_signature_def key_accepts_def demo_update_def bytes_of_def take_map context_err_def map_err_def)
  have rel: "latest_release demo_update = Inr (\<lparr>gr_tag_name = ''v2'', gr_body = None,
        gr_assets = [\<lparr>ga_name = ''cipherfs-linux-amd64.manifest'', ga_browser_download_url = ''m''\<rparr>,
          \<lparr>ga_name = ''cipherfs-linux-amd64.manifest.minisig'', ga_browser_download_url = ''s''\<rparr>,
          \<lparr>ga_name = ''cipherfs'', ga_browser_download_url = ''b''\<rparr>]\<rparr>, 2, 1)"
    by (simp add: latest_release_def demo_update_def trim_v_def context_err_def map_err_def)
  have val: "validate_manifest_for_update demo_update \<lparr>mf_version = 2, mf_target = TARGET False, mf_asset = ''cipherfs'', mf_size = 3,
      mf_sha256 = replicate 64 (CHR ''0'')\<rparr> 2 1 (TARGET False) (BINARY_ASSET False) = Inr ()"
    by (simp add: validate_manifest_for_update_def demo_update_def BINARY_ASSET_def)
  have bin: "validate_downloaded_binary demo_update [1, 2, 3] \<lparr>mf_version = 2, mf_target = TARGET False, mf_asset = ''cipherfs'', mf_size = 3,
      mf_sha256 = replicate 64 (CHR ''0'')\<rparr> = Inr ()"
  proof -
    have "eq_ignore_ascii_case (hex_encode (replicate 32 0)) (replicate 64 (CHR ''0''))" by code_simp
    then show ?thesis by (simp add: validate_downloaded_binary_def demo_update_def)
  qed
  have env: "ue_public_key demo_update = Some ''k''" "ue_windows demo_update = False" "ue_version_le demo_update = (\<le>)"
    "ue_version_text demo_update 2 = ''2''" "ue_version_text demo_update 1 = ''1''" by (simp_all add: demo_update_def)
  show ?thesis
    unfolding download_portable_update_def Let_def
    by (simp add: env rel d sig val bin demo_manifest_parses demo_text asset_url_def MANIFEST_ASSET_def SIGNATURE_ASSET_def context_opt_def ok_or_def)
qed

definition demo_cli :: "(int, string, string, unit) cli_env" where
  "demo_cli =
     \<lparr>ce_prims = demo, ce_legacy = (\<lambda>_. Inl []), ce_walk = demo_walk, ce_fuel = 3, ce_schedules = demo_schedules,
      ce_order = (\<lambda>xs. xs), ce_pool = (\<lambda>_. Inr 1), ce_handler = Inr (), ce_cwd = [], ce_notices = ''notices'',
      ce_dependencies = ''dependencies'', ce_gpl = ''gpl'', ce_spawn = (\<lambda>_ _ _. returnM ()), ce_detach = (\<lambda>_. returnM ()),
      ce_running = (\<lambda>n. n < 3), ce_update = demo_update, ce_package_version = ''1'',
      ce_current_exe = Inr [''bin'', ''cipherfs''], ce_self_replace = (\<lambda>_. bindM (create_new_file [''bin'', ''cipherfs'']) (\<lambda>_. returnM ()))\<rparr>"

definition demo_terminal :: "string list \<Rightarrow> terminal" where
  "demo_terminal answers = \<lparr>tm_answers = map Inr answers, tm_prompts = [], tm_output = []\<rparr>"

definition update_world :: world where
  "update_world = demo_world\<lparr>w_disk := [[] \<mapsto> DirNode, [''bin''] \<mapsto> DirNode]\<rparr>"

lemma update_world_facts:
  "fault_free update_world" "w_disk update_world = [[] \<mapsto> DirNode, [''bin''] \<mapsto> DirNode]"
  by (simp_all add: update_world_def demo_world_def fault_free_def)

lemma step_set_executable:
  "D p = Some n \<Longrightarrow> runs r D (f ()) Q \<Longrightarrow> runs r D (bindM (set_executable p) f) Q"
  unfolding set_executable_def
  by (rule runs_bindM [where R = "\<lambda>_ D'. D' = D"], rule runs_fs_call) auto

lemma runs_sync: "runs r D (sync_file p) (\<lambda>_ D'. D' = D)"
  unfolding sync_file_def by (rule runs_fs_call) (simp add: returnM_def)

lemma step_make_file:
  assumes "D p = None" "p \<noteq> []" "D (butlast p) = Some DirNode" "\<And>g. runs r (D(p := Some (FileNode g))) (f ()) Q"
  shows "runs r D (bindM (bindM (create_new_file p) (\<lambda>_. returnM ())) f) Q"
proof (rule runs_bindM)
  show "runs r D (bindM (create_new_file p) (\<lambda>_. returnM ())) (\<lambda>_ D'. \<exists>g. D' = D(p := Some (FileNode g)))"
    by (rule step_create_new_file [OF assms(1-3)], rule runs_returnM) blast
qed (use assms(4) in auto)

lemma demo_installs:
  "\<exists>w'. install_update demo_cli [1, 2, 3] update_world = (Inr (), w') \<and> w_disk w' [''bin'', ''cipherfs''] \<noteq> None"
proof -
  let ?D = "w_disk update_world" and ?exe = "[''bin'', ''cipherfs'']"
  have parent: "path_parent ?exe = Some [''bin'']" by code_simp
  have exe: "ce_current_exe demo_cli = Inr ?exe" "ce_self_replace demo_cli p = bindM (create_new_file ?exe) (\<lambda>_. returnM ())" for p
    by (simp_all add: demo_cli_def)
  have T: "update_temp_path [''bin''] random \<noteq> []" "butlast (update_temp_path [''bin''] random) = [''bin'']"
    "update_temp_path [''bin''] random \<noteq> [''bin'']" "update_temp_path [''bin''] random \<noteq> ?exe"
    "[''bin''] \<noteq> update_temp_path [''bin''] random" "?exe \<noteq> update_temp_path [''bin''] random" for random
    by (simp_all add: update_temp_path_def)
  have D: "?D [''bin''] = Some DirNode" "?D (update_temp_path [''bin''] random) = None" "?D ?exe = None" "?D [] = Some DirNode" for random
    using T [of random] by (simp_all add: update_world_facts)
  have body: "runs r ?D (let T = update_temp_path [''bin''] random in
      bindM (create_new_file T) (\<lambda>_. bindM (write_file_at T 0 [1, 2, 3]) (\<lambda>_. bindM (sync_file T) (\<lambda>_. bindM (set_executable T) (\<lambda>_.
      bindM (open_file T) (\<lambda>f. bindM (sync_file f) (\<lambda>_. bindM (ce_self_replace demo_cli T) (\<lambda>_. sync_update_parent [''bin'']))))))))
      (\<lambda>_ D'. D' ?exe \<noteq> None \<and> (\<exists>f. D' (update_temp_path [''bin''] random) = Some (FileNode f)))" for r random
    unfolding Let_def exe
    apply (rule step_create_new_file, rule D, rule T, simp add: T D)
    apply (rule step_writes(1), simp)
    apply (rule step_unit(1))
    apply (rule step_set_executable, simp)
    apply (rule step_open(1), simp add: follow_def)
    apply (rule step_unit(1))
    apply (rule step_make_file)
       apply (simp add: T D)
      apply simp
     apply (simp add: T D)
    apply (unfold sync_update_parent_def)
    apply (rule step_open(1))
     apply (simp add: follow_def T D)
    apply (rule runs_mono [OF runs_sync])
    apply (simp add: T D)
    done
  have "runs r ?D (install_update demo_cli [1, 2, 3]) (\<lambda>_ D'. D' ?exe \<noteq> None)" for r
    unfolding install_update_def exe parent
    apply (rule step_liftE, rule refl, rule step_liftE, simp add: parent context_opt_def ok_or_def)
    apply (rule step_fill_bytes, simp only: Let_def)
    apply (rule runs_finallyM)
     apply (rule body [unfolded exe Let_def])
    apply (elim conjE exE)
    apply (unfold temp_update_drop_def)
    apply (rule runs_mono, rule runs_writes(5), assumption, simp)
    apply (simp add: T)
    done
  moreover have "calm (w_random update_world) update_world"
    by (simp add: calm_def update_world_facts) (simp add: update_world_def demo_world_def)
  ultimately show ?thesis unfolding runs_def by (metis old.unit.exhaust)
qed

lemma demo_update_runs:
  "\<exists>t' w'. update_interactive demo_cli (demo_terminal [''y'']) update_world = (Inr (), t', w') \<and> w' \<noteq> update_world"
proof -
  have "list_all (\<lambda>p. p = [] \<or> hd p \<noteq> CHR ''y'' \<and> last p \<noteq> CHR ''y'') whitespace" by code_simp
  then have "\<forall>p \<in> set whitespace. p = [] \<or> hd p \<noteq> CHR ''y''" "\<forall>p \<in> set (map rev whitespace). p = [] \<or> hd p \<noteq> CHR ''y''"
    by (auto simp: list_all_iff hd_rev)
  from this [THEN trim_start_plain, of "[]"] have y: "trim ''y'' = ''y''" unfolding trim_def by simp
  obtain w' where w': "install_update demo_cli [1, 2, 3] update_world = (Inr (), w')" "w_disk w' [''bin'', ''cipherfs''] \<noteq> None"
    using demo_installs by blast
  then have "w' \<noteq> update_world" by (auto simp: update_world_facts)
  moreover have "ce_update demo_cli = demo_update" by (simp add: demo_cli_def)
  ultimately show ?thesis
    by (simp add: update_interactive_def demo_portable_update cmd_simps demo_terminal_def y w'(1)
        eq_ignore_ascii_case_def outputC_def)
qed

end
