(* ===== verification/OperationController.thy ===== *)
theory OperationController
  imports Protocol World
begin

text \<open>
  \<open>operation_controller.rs\<close> and \<open>mount_controller.rs\<close> of the Windows shell: the parent's side of a
  worker process. The event loop reads the worker's events one by one; the window asks to cancel
  or to force the worker at any time between them. The process itself is the flag whether it was
  killed, its input pipe the list of commands written to it.
\<close>

section \<open>State\<close>

datatype controller_event =
    CtlPhase phase
  | CtlProgress phase u64 u64
  | CtlWarning string
  | CtlProtected
  | CtlFinished "string + unit"

record op_handle =
  oh_has_child :: bool
  oh_killed :: bool
  oh_input :: "parent_command list option"
  oh_expected_artifact :: "path option"
  oh_cancelling :: bool
  oh_protected :: bool

definition op_handle_start :: "path option \<Rightarrow> op_handle" where
  "op_handle_start expected =
     \<lparr>oh_has_child = True, oh_killed = False, oh_input = Some [], oh_expected_artifact = expected,
      oh_cancelling = False, oh_protected = False\<rparr>"

text \<open>\<open>spawn_worker\<close>: the program itself in its hidden mode, its two pipes, and the request as the
  first frame; a worker that cannot be told what to do is killed (the flag of the result).
  \<open>spawned\<close> is the operating system's answer, \<open>has_stdin\<close> and \<open>has_stdout\<close> whether the pipes
  are there, \<open>send\<close> the answer of the input pipe to a request.\<close>

definition spawn_worker ::
  "unit result \<Rightarrow> bool \<Rightarrow> bool \<Rightarrow> (worker_request \<Rightarrow> unit result) \<Rightarrow> worker_operation \<Rightarrow> worker_request result \<times> bool" where
  "spawn_worker spawned has_stdin has_stdout send operation =
     (case bindE (context_err ''Unable to start isolated CipherFS operation worker'' spawned) (\<lambda>_.
           bindE (ensure has_stdin ''Worker stdin pipe is unavailable'') (\<lambda>_.
           ensure has_stdout ''Worker stdout pipe is unavailable'')) of
        Inl e \<Rightarrow> (Inl e, False)
      | Inr _ \<Rightarrow>
          let request = \<lparr>rq_version = PROTOCOL_VERSION, rq_operation = operation\<rparr> in
          (case send request of Inl e \<Rightarrow> (Inl e, True) | Inr _ \<Rightarrow> (Inr request, False)))"

text \<open>\<open>OperationHandle::start\<close>; \<open>run_events\<close> below is the thread it leaves running.\<close>

definition operation_start :: "worker_request result \<times> bool \<Rightarrow> path option \<Rightarrow> op_handle result" where
  "operation_start spawn expected = bindE (fst spawn) (\<lambda>_. Inr (op_handle_start expected))"

section \<open>Cancelling\<close>

text \<open>\<open>written\<close> is the answer of the pipe to the frame.\<close>

definition request_cancel :: "unit result \<Rightarrow> op_handle \<Rightarrow> bool result \<times> op_handle" where
  "request_cancel written h =
     (if oh_protected h then (Inr False, h)
      else if oh_cancelling h then (Inr True, h)
      else
        let h = h\<lparr>oh_cancelling := True\<rparr> in
        (case oh_input h of
           None \<Rightarrow> (Inl [Msg ''Worker input pipe is closed''], h)
         | Some sent \<Rightarrow>
             (case written of
                Inl e \<Rightarrow> (Inl e, h)
              | Inr _ \<Rightarrow> (Inr False, h\<lparr>oh_input := Some (sent @ [Cancel])\<rparr>))))"

definition force_close :: "op_handle \<Rightarrow> op_handle" where
  "force_close h = (if oh_has_child h then h\<lparr>oh_killed := True\<rparr> else h)"

text \<open>\<open>confirm_overlay\<close> of \<open>app.rs\<close> while an operation runs: the button's label decides.\<close>

definition confirm_overlay_operation :: "string \<Rightarrow> unit result \<Rightarrow> op_handle \<Rightarrow> op_handle" where
  "confirm_overlay_operation label written h =
     (if label = ''Force close'' then force_close h else snd (request_cancel written h))"

section \<open>The event loop\<close>

text \<open>One turn of the loop: the events emitted, the result if the loop ends, whether a commit was
  seen, and the handle.\<close>

definition event_turn ::
  "worker_event option result \<Rightarrow> bool \<Rightarrow> op_handle \<Rightarrow> controller_event list \<times> (string + unit) option \<times> bool \<times> op_handle" where
  "event_turn read committed h =
     (case read of
        Inr (Some ev) \<Rightarrow>
          (case ev of
             EvPhaseStarted p \<Rightarrow> ([CtlPhase p], None, committed, h)
           | EvProgress p done_bytes all_bytes \<Rightarrow> ([CtlProgress p done_bytes all_bytes], None, committed, h)
           | EvTemporaryArtifact _ p \<Rightarrow>
               if oh_expected_artifact h = Some p then ([], None, committed, h)
               else ([], Some (Inl ''Worker reported an unexpected temporary artifact''), committed, h)
           | EvCommitStarted \<Rightarrow> ([CtlProtected], None, committed, h\<lparr>oh_protected := True\<rparr>)
           | EvMutationStarted \<Rightarrow> ([CtlProtected], None, committed, h\<lparr>oh_protected := True\<rparr>)
           | EvCommitted \<Rightarrow> ([], None, True, h)
           | EvWarning message \<Rightarrow> ([CtlWarning message], None, committed, h)
           | EvSucceeded \<Rightarrow> ([], Some (Inr ()), committed, h)
           | EvFailed kind message \<Rightarrow>
               ([], Some (Inl (if kind = DCancelled then ''Operation cancelled'' else message)), committed, h)
           | EvMounted _ \<Rightarrow>
               ([], Some (Inl ''Operation worker returned an unexpected mount event''), committed, h))
      | Inr None \<Rightarrow>
          ([], Some (if committed then Inr () else Inl ''CipherFS worker pipe closed before completion''), committed, h)
      | Inl e \<Rightarrow> ([], Some (Inl (''Invalid CipherFS worker response: '' @ display_chain e)), committed, h))"

text \<open>The reads of the whole session; after the last one the pipe is at its end.\<close>

fun event_loop ::
  "worker_event option result list \<Rightarrow> bool \<Rightarrow> op_handle \<Rightarrow> controller_event list \<times> (string + unit) \<times> op_handle" where
  "event_loop [] committed h =
     (case event_turn (Inr None) committed h of (evs, r, _, h) \<Rightarrow>
        (evs, (case r of Some r \<Rightarrow> r | None \<Rightarrow> Inr ()), h))"
| "event_loop (read # reads) committed h =
     (case event_turn read committed h of
        (evs, Some r, _, h) \<Rightarrow> (evs, r, h)
      | (evs, None, committed, h) \<Rightarrow>
          (case event_loop reads committed h of (evs', r, h) \<Rightarrow> (evs @ evs', r, h)))"

text \<open>\<open>cleanup_path\<close> removes a file or a directory tree, never what a link points to, and ignores
  failures.\<close>

definition ignoring :: "'a io \<Rightarrow> unit io" where
  "ignoring m w = (Inr (), snd (m w))"

definition cleanup_path :: "path \<Rightarrow> unit io" where
  "cleanup_path p w =
     (case symlink_metadata p w of
        (Inr (FileNode _), w) \<Rightarrow> ignoring (remove_one_file p) w
      | (Inr DirNode, w) \<Rightarrow> ignoring (remove_tree p) w
      | (_, w) \<Rightarrow> (Inr (), w))"

definition cleanup_expected :: "op_handle \<Rightarrow> unit io" where
  "cleanup_expected h =
     (case oh_expected_artifact h of Some p \<Rightarrow> cleanup_path p | None \<Rightarrow> returnM ())"

definition run_events ::
  "worker_event option result list \<Rightarrow> op_handle \<Rightarrow> world \<Rightarrow> controller_event list \<times> op_handle \<times> world" where
  "run_events reads h w =
     (case event_loop reads False h of (evs, r, h) \<Rightarrow>
        let (h, w) = (case r of
              Inl _ \<Rightarrow> (if oh_has_child h then h\<lparr>oh_killed := True\<rparr> else h, snd (cleanup_expected h w))
            | Inr _ \<Rightarrow> (h, w))
         in (evs @ [CtlFinished r], h\<lparr>oh_input := None, oh_has_child := False\<rparr>, w))"

section \<open>Private names\<close>

text \<open>At most 32 random names beside the final path; a name is taken as free when its metadata
  cannot be read.\<close>

fun random_sibling_loop :: "nat \<Rightarrow> path \<Rightarrow> bool \<Rightarrow> path io" where
  "random_sibling_loop 0 parent directory = liftE (bail ''Unable to allocate a private worker artifact name'')"
| "random_sibling_loop (Suc n) parent directory =
     bindM (fill_bytes 16) (\<lambda>random.
     let suffix = (if directory then ''stage'' else ''tmp'');
         candidate = parent @ [''.cipherfs-'' @ hex_encode random @ ''.'' @ suffix]
      in (\<lambda>w. case symlink_metadata candidate w of
            (Inl _, w) \<Rightarrow> (Inr candidate, w)
          | (Inr _, w) \<Rightarrow> random_sibling_loop n parent directory w))"

definition random_sibling :: "path \<Rightarrow> bool \<Rightarrow> path io" where
  "random_sibling final_path directory =
     bindM (liftE (context_opt ''Output path must have a parent directory'' (path_parent final_path))) (\<lambda>parent.
     random_sibling_loop 32 parent directory)"

section \<open>The mount worker\<close>

record mount_worker =
  mw_path :: path
  mw_active :: bool

fun mount_start :: "worker_event option result list \<Rightarrow> (mount_worker \<times> worker_event option result list) result" where
  "mount_start [] = bail ''Mount worker exited before returning a mount path''"
| "mount_start (Inl e # reads) = Inl e"
| "mount_start (Inr None # reads) = bail ''Mount worker exited before returning a mount path''"
| "mount_start (Inr (Some ev) # reads) =
     (case ev of
        EvMounted p \<Rightarrow> Inr (\<lparr>mw_path = p, mw_active = True\<rparr>, reads)
      | EvFailed _ message \<Rightarrow> bail message
      | EvWarning _ \<Rightarrow> mount_start reads
      | EvPhaseStarted _ \<Rightarrow> mount_start reads
      | EvProgress _ _ _ \<Rightarrow> mount_start reads
      | _ \<Rightarrow> bail ''Mount worker returned an unexpected event'')"

fun mount_unmount_wait :: "worker_event option result list \<Rightarrow> unit result" where
  "mount_unmount_wait [] = bail ''Mount worker pipe closed during unmount''"
| "mount_unmount_wait (Inl e # reads) = Inl e"
| "mount_unmount_wait (Inr None # reads) = bail ''Mount worker pipe closed during unmount''"
| "mount_unmount_wait (Inr (Some ev) # reads) =
     (case ev of
        EvSucceeded \<Rightarrow> Inr ()
      | EvFailed _ message \<Rightarrow> bail message
      | _ \<Rightarrow> mount_unmount_wait reads)"

text \<open>\<open>status\<close> is the exit status of the worker and its text, \<open>written\<close> the answer of its pipe.\<close>

definition mount_unmount ::
  "unit result \<Rightarrow> worker_event option result list \<Rightarrow> (bool \<times> string) result \<Rightarrow> mount_worker \<Rightarrow> unit result \<times> mount_worker" where
  "mount_unmount written reads status m =
     (case bindE written (\<lambda>_. bindE (mount_unmount_wait reads) (\<lambda>_. status)) of
        Inl e \<Rightarrow> (Inl e, m)
      | Inr (success, text) \<Rightarrow>
          (ensure success (''Mount worker exited with '' @ text), m\<lparr>mw_active := False\<rparr>))"

text \<open>A worker that is dropped while it may still be mounted is told to unmount and gets twenty polls,
  50 milliseconds apart, to end; then it is killed. \<open>exited i\<close> is what the \<open>i\<close>th poll sees. The
  result is the commands sent, whether it was killed, and the worker.\<close>

definition mount_drop :: "(nat \<Rightarrow> bool) \<Rightarrow> mount_worker \<Rightarrow> parent_command list \<times> bool \<times> mount_worker" where
  "mount_drop exited m =
     (if mw_active m then
        if list_ex exited [0..<20] then ([Unmount], False, m\<lparr>mw_active := False\<rparr>) else ([Unmount], True, m)
      else ([], False, m))"

section \<open>The loop\<close>

text \<open>The result by what the worker said: the first event that decides.\<close>

definition decisive :: "path option \<Rightarrow> worker_event option result \<Rightarrow> bool" where
  "decisive expected read \<longleftrightarrow>
     (case read of
        Inr (Some ev) \<Rightarrow>
          (case ev of
             EvTemporaryArtifact _ p \<Rightarrow> expected \<noteq> Some p
           | EvSucceeded \<Rightarrow> True | EvFailed _ _ \<Rightarrow> True | EvMounted _ \<Rightarrow> True | _ \<Rightarrow> False)
      | _ \<Rightarrow> True)"

lemma event_turn_result:
  "event_turn read committed h = (evs, r, committed', h') \<Longrightarrow>
   (r \<noteq> None \<longleftrightarrow> decisive (oh_expected_artifact h) read) \<and>
   oh_expected_artifact h' = oh_expected_artifact h \<and> oh_has_child h' = oh_has_child h \<and>
   (r = Some (Inr ()) \<longleftrightarrow> read = Inr (Some EvSucceeded) \<or> read = Inr None \<and> committed) \<and>
   (committed' \<longleftrightarrow> committed \<or> read = Inr (Some EvCommitted)) \<and>
   (oh_protected h' \<longleftrightarrow> oh_protected h \<or> read \<in> {Inr (Some EvCommitStarted), Inr (Some EvMutationStarted)})"
  by (auto simp: event_turn_def decisive_def split: sum.splits option.splits worker_event.splits if_splits)

text \<open>The loop stops at the first deciding read and ends well exactly when that read is success, or
  the end of the pipe after a commit.\<close>

lemma event_loop_result:
  assumes "\<forall>read \<in> set before. \<not> decisive (oh_expected_artifact h) read"
    and "decisive (oh_expected_artifact h) read"
    and "event_loop (before @ read # rest) committed h = (evs, r, h')"
  shows "(r = Inr () \<longleftrightarrow> read = Inr (Some EvSucceeded) \<or>
      read = Inr None \<and> (committed \<or> Inr (Some EvCommitted) \<in> set before))"
  using assms
proof (induction before arbitrary: committed h evs)
  case Nil
  obtain evs1 r1 c1 h1 where t: "event_turn read committed h = (evs1, r1, c1, h1)"
    by (cases "event_turn read committed h") auto
  from event_turn_result [OF t] Nil t show ?case by (cases r1) auto
next
  case (Cons x before)
  obtain evs1 r1 c1 h1 where t: "event_turn x committed h = (evs1, r1, c1, h1)"
    by (cases "event_turn x committed h") auto
  note f = event_turn_result [OF t]
  have "r1 = None" using f Cons.prems(1) by auto
  with Cons.prems(3) t obtain evs2 where "event_loop (before @ read # rest) c1 h1 = (evs2, r, h')"
    by (auto split: prod.splits)
  from Cons.IH [OF _ _ this] Cons.prems(1,2) f show ?case by auto
qed

section \<open>Cleaning up\<close>

lemma disk_frame_ignoring [frame_intros]: "disk_frame S m \<Longrightarrow> disk_frame S (ignoring m)"
  by (auto simp: disk_frame_def ignoring_def)

lemma cleanup_path_frame: "disk_frame (below p) (cleanup_path p)"
proof -
  have p: "below p p" by (simp add: below_def starts_with_def)
  have "w_disk (snd (cleanup_path p w)) q = w_disk w q" if "\<not> below p q" for w q
  proof -
    obtain r w1 where s: "symlink_metadata p w = (r, w1)" by (cases "symlink_metadata p w")
    have d1: "w_disk w1 = w_disk w"
      using s by (auto intro: pure_disk frame_intros)
    have f: "disk_frame (below p) (ignoring (remove_one_file p))" "disk_frame (below p) (ignoring (remove_tree p))"
      using p by (auto intro!: frame_intros)
    show ?thesis
      using s d1 that f unfolding cleanup_path_def disk_frame_def
      by (auto split: sum.splits node.splits)
  qed
  then show ?thesis by (simp add: disk_frame_def)
qed

text \<open>Whatever the worker reports, only the artifact the parent expected is removed, and only when
  the operation failed.\<close>

lemma run_events_disk:
  assumes run: "run_events reads h w = (evs, h', w')"
  shows "oh_expected_artifact h = None \<Longrightarrow> w_disk w' = w_disk w"
    and "oh_expected_artifact h = Some p \<Longrightarrow> \<not> below p q \<Longrightarrow> w_disk w' q = w_disk w q"
    and "last evs = CtlFinished (Inr ()) \<Longrightarrow> w_disk w' = w_disk w"
proof -
  obtain evs1 r h1 where l: "event_loop reads False h = (evs1, r, h1)" by (cases "event_loop reads False h") auto
  have exp: "event_loop reads c h = (evs, r, h1) \<Longrightarrow> oh_expected_artifact h1 = oh_expected_artifact h" for reads c h evs r h1
  proof (induction reads arbitrary: c h evs)
    case Nil
    then show ?case by (auto simp: event_turn_def)
  next
    case (Cons x reads)
    obtain evs2 r2 c2 h2 where t: "event_turn x c h = (evs2, r2, c2, h2)" by (cases "event_turn x c h") auto
    from event_turn_result [OF t] t Cons show ?case by (cases r2) (auto split: prod.splits)
  qed
  have w': "w' = (case r of Inl _ \<Rightarrow> snd (cleanup_expected h1 w) | Inr _ \<Rightarrow> w)"
    and evs: "evs = evs1 @ [CtlFinished r]"
    using run l by (auto simp: run_events_def split: sum.splits)
  show "oh_expected_artifact h = None \<Longrightarrow> w_disk w' = w_disk w"
    using w' exp [OF l] by (auto simp: cleanup_expected_def returnM_def split: sum.splits)
  show "oh_expected_artifact h = Some p \<Longrightarrow> \<not> below p q \<Longrightarrow> w_disk w' q = w_disk w q"
    using w' exp [OF l] cleanup_path_frame [of p]
    by (auto simp: cleanup_expected_def disk_frame_def split: sum.splits)
  show "last evs = CtlFinished (Inr ()) \<Longrightarrow> w_disk w' = w_disk w"
    using w' evs by auto
qed

section \<open>Interleaving with the window\<close>

text \<open>The handle is shared: between two turns of the event loop the window may ask to cancel, or
  confirm an overlay it opened earlier.\<close>

datatype handle_action =
    WorkerSays "worker_event option result"
  | AskCancel "unit result"
  | ConfirmOverlay string "unit result"

inductive handle_step :: "op_handle \<Rightarrow> handle_action \<Rightarrow> op_handle \<Rightarrow> bool" where
  says: "event_turn read committed h = (evs, r, committed', h') \<Longrightarrow> handle_step h (WorkerSays read) h'"
| ask: "request_cancel written h = (r, h') \<Longrightarrow> handle_step h (AskCancel written) h'"
| confirm: "confirm_overlay_operation label written h = h' \<Longrightarrow> handle_step h (ConfirmOverlay label written) h'"

inductive_cases handle_step_cases: "handle_step h a h'"

inductive handle_run :: "op_handle \<Rightarrow> handle_action list \<Rightarrow> op_handle \<Rightarrow> bool" where
  finished: "handle_run h [] h"
| more: "handle_step h a h1 \<Longrightarrow> handle_run h1 as h2 \<Longrightarrow> handle_run h (a # as) h2"

inductive_cases handle_run_ConsE: "handle_run h (a # as) h'"

text \<open>The worker is asked to stop at most once, and the flag records it.\<close>

definition handle_inv :: "op_handle \<Rightarrow> bool" where
  "handle_inv h \<longleftrightarrow>
     oh_input h = None \<or> oh_input h = Some [] \<or> oh_input h = Some [Cancel] \<and> oh_cancelling h"

lemma request_cancel_facts:
  assumes "request_cancel written h = (r, h')"
  shows "handle_inv h \<Longrightarrow> handle_inv h'" "oh_protected h' = oh_protected h"
    "oh_protected h \<Longrightarrow> h' = h \<and> r = Inr False" "oh_killed h' = oh_killed h"
  using assms by (auto simp: request_cancel_def handle_inv_def Let_def split: if_splits option.splits sum.splits)

lemma event_turn_handle:
  "event_turn read committed h = (evs, r, committed', h') \<Longrightarrow>
   oh_input h' = oh_input h \<and> oh_cancelling h' = oh_cancelling h \<and> (oh_protected h \<longrightarrow> oh_protected h')"
  by (auto simp: event_turn_def split: sum.splits option.splits worker_event.splits if_splits)

lemma force_close_fields [simp]:
  "oh_input (force_close h) = oh_input h" "oh_cancelling (force_close h) = oh_cancelling h"
  "oh_protected (force_close h) = oh_protected h"
  by (simp_all add: force_close_def)

lemma confirm_overlay_facts:
  "handle_inv h \<Longrightarrow> handle_inv (confirm_overlay_operation label written h)"
  "oh_protected h \<Longrightarrow> oh_protected (confirm_overlay_operation label written h) \<and>
     oh_input (confirm_overlay_operation label written h) = oh_input h"
proof -
  obtain r h' where r: "request_cancel written h = (r, h')" by (cases "request_cancel written h")
  show "handle_inv h \<Longrightarrow> handle_inv (confirm_overlay_operation label written h)"
    using request_cancel_facts(1) [OF r] r
    by (cases "label = ''Force close''") (simp_all add: confirm_overlay_operation_def handle_inv_def)
  show "oh_protected h \<Longrightarrow> oh_protected (confirm_overlay_operation label written h) \<and>
     oh_input (confirm_overlay_operation label written h) = oh_input h"
    using request_cancel_facts(3) [OF r] r
    by (cases "label = ''Force close''") (simp_all add: confirm_overlay_operation_def)
qed

lemma handle_step_facts:
  "handle_step h a h' \<Longrightarrow>
   (handle_inv h \<longrightarrow> handle_inv h') \<and> (oh_protected h \<longrightarrow> oh_protected h' \<and> oh_input h' = oh_input h)"
proof (induction rule: handle_step.induct)
  case (says read committed h evs r committed' h')
  from event_turn_handle [OF this] show ?case by (auto simp: handle_inv_def split: option.splits)
next
  case (ask written h r h')
  from request_cancel_facts [OF this] show ?case by auto
next
  case (confirm label written h h')
  then show ?case using confirm_overlay_facts by auto
qed

lemma handle_run_inv: "handle_run h as h' \<Longrightarrow> handle_inv h \<Longrightarrow> handle_inv h'"
  by (induction rule: handle_run.induct) (auto dest: handle_step_facts)

text \<open>Once the worker has announced its commit, no cancel command reaches it any more.\<close>

lemma handle_run_protected:
  "handle_run h as h' \<Longrightarrow> oh_protected h \<Longrightarrow> oh_protected h' \<and> oh_input h' = oh_input h"
  by (induction rule: handle_run.induct) (auto dest: handle_step_facts)

text \<open>Forcing is not guarded in the same way: an overlay opened before the commit still kills the
  worker after it.\<close>

lemma force_close_ignores_protection:
  "handle_run (op_handle_start p)
     [AskCancel (Inr ()), AskCancel (Inr ()), WorkerSays (Inr (Some EvMutationStarted)),
      ConfirmOverlay ''Force close'' (Inr ())] h \<Longrightarrow>
   oh_protected h \<and> oh_killed h"
  by (auto elim!: handle_run_ConsE handle_run.cases [of _ "[]"] handle_step_cases
      simp: request_cancel_def event_turn_def confirm_overlay_operation_def force_close_def
        op_handle_start_def Let_def)

section \<open>Names\<close>

lemma random_sibling_beside:
  assumes "random_sibling final_path directory w = (Inr p, w')"
  shows "\<exists>name. p = butlast final_path @ [name] \<and> final_path \<noteq> []"
proof -
  have loop: "random_sibling_loop n parent directory w = (Inr p, w') \<Longrightarrow> \<exists>name. p = parent @ [name]" for n parent w w'
  proof (induction n arbitrary: w)
    case (Suc n)
    obtain random w1 where r: "fill_bytes 16 w = (Inr random, w1)"
      by (simp add: fill_bytes_def)
    let ?c = "parent @ [''.cipherfs-'' @ hex_encode random @ ''.'' @ (if directory then ''stage'' else ''tmp'')]"
    obtain m w2 where m: "symlink_metadata ?c w1 = (m, w2)" by (cases "symlink_metadata ?c w1")
    have "random_sibling_loop (Suc n) parent directory w =
        (case m of Inl _ \<Rightarrow> (Inr ?c, w2) | Inr _ \<Rightarrow> random_sibling_loop n parent directory w2)"
      unfolding random_sibling_loop.simps bindM_run [of "fill_bytes 16", OF r] Let_def m by simp
    with Suc.prems Suc.IH [of w2] show ?case by (cases m) auto
  qed (simp add: bail_def)
  show ?thesis
    using assms loop by (auto simp: random_sibling_def bindM_eq_Inr result_simps path_parent_def split: if_splits)
qed

end
