(* ===== verification/Worker.thy ===== *)
theory Worker
  imports Protocol OperationController Pack Extract V2Container WinFspSession
begin

text \<open>
  The worker process of the Windows shell (\<open>worker.rs\<close>): it reads one request, runs the operation of
  the core library or a mount, reports every event as a frame, and ends with one terminal event. A
  second thread reads the commands of the parent. What rayon, WinFsp and the system contribute is
  gathered in one record of parameters.
\<close>

section \<open>Events on the pipe\<close>

definition dto_phase :: "operation_phase \<Rightarrow> phase" where
  "dto_phase value = (case value of
     Scan \<Rightarrow> PScan | KeyDerivation \<Rightarrow> PKeyDerivation | Encrypt \<Rightarrow> PEncrypt | SelfVerify \<Rightarrow> PSelfVerify
   | Extract \<Rightarrow> PExtract | Verify \<Rightarrow> PVerify | Commit \<Rightarrow> PCommit)"

definition dto_error_kind :: "core_error_kind \<Rightarrow> error_kind_dto" where
  "dto_error_kind value = (case value of
     KCancelled \<Rightarrow> DCancelled | Authentication \<Rightarrow> DAuthentication | Integrity \<Rightarrow> DIntegrity
   | InvalidFormat \<Rightarrow> DInvalidFormat | UnsafePath \<Rightarrow> DUnsafePath | DestinationExists \<Rightarrow> DDestinationExists
   | SourceChanged \<Rightarrow> DSourceChanged | Io \<Rightarrow> DIo | Internal \<Rightarrow> DInternal)"

definition pipe_report :: "operation_progress \<Rightarrow> worker_event list" where
  "pipe_report progress = [EvProgress (dto_phase (pr_phase progress)) (pr_completed progress) (pr_total progress)]"

definition pipe_event :: "operation_event \<Rightarrow> worker_event list" where
  "pipe_event ev = (case ev of
     PhaseStarted value \<Rightarrow> [EvPhaseStarted (dto_phase value)]
   | Progress value \<Rightarrow> pipe_report value
   | Warning value \<Rightarrow> [EvWarning value]
   | TemporaryArtifact kind p \<Rightarrow>
       [EvTemporaryArtifact (case kind of PackContainer \<Rightarrow> ArtifactPack | ExtractionTree \<Rightarrow> ArtifactTree) p]
   | CommitStarted \<Rightarrow> [EvCommitStarted]
   | Committed \<Rightarrow> [EvCommitted]
   | MutationStarted \<Rightarrow> [EvMutationStarted]
   | ScanCompleted _ _ \<Rightarrow> [])"

text \<open>Running an operation of the core with the pipe as its reporter.\<close>

definition piping :: "unit io \<Rightarrow> world \<Rightarrow> unit result \<times> worker_event list \<times> world" where
  "piping m w = (case m (w\<lparr>w_events := []\<rparr>) of
     (r, w') \<Rightarrow> (r, concat (map pipe_event (w_events w')), w'\<lparr>w_events := w_events w\<rparr>))"

section \<open>The operation\<close>

record 'h worker_env =
  wk_prims :: prims
  wk_walk :: walker
  wk_fuel :: nat
  wk_schedules :: schedules
  wk_order :: "path list \<Rightarrow> path list"
  wk_parallelism :: "nat option"
  wk_pool :: "nat \<Rightarrow> nat result"
  wk_host :: "'h host_api"
  wk_windows :: windows_env
  wk_init :: "unit result"
  wk_open_fs :: "path \<Rightarrow> string \<Rightarrow> u64 \<Rightarrow> winfsp_fs io"

text \<open>The mount waits for \<open>Unmount\<close>, or for the end of the commands; a \<open>Cancel\<close> is ignored.\<close>

fun wait_unmount :: "parent_command list \<Rightarrow> parent_command list" where
  "wait_unmount [] = []"
| "wait_unmount (Unmount # commands) = commands"
| "wait_unmount (Cancel # commands) = wait_unmount commands"

definition execute_mount ::
  "'h worker_env \<Rightarrow> parent_command list \<Rightarrow> path \<Rightarrow> string \<Rightarrow> world \<Rightarrow> unit result \<times> worker_event list \<times> world" where
  "execute_mount V commands container password w =
     (case session_start (wk_host V) (wk_windows V) (wk_init V) (wk_open_fs V container password 64) ''auto'' w of
        (Inl e, _, w) \<Rightarrow> (Inl e, [], w)
      | (Inr session, _, w) \<Rightarrow>
          let events = [EvMounted [ms_mount_path session]];
              rest = wait_unmount commands;
              session = session_unmount (wk_host V) session
           in (Inr (), events, snd (session_drop (wk_host V) session w)))"

definition execute ::
  "'h worker_env \<Rightarrow> parent_command list \<Rightarrow> worker_operation \<Rightarrow> world \<Rightarrow> unit result \<times> worker_event list \<times> world" where
  "execute V commands operation =
     (case operation of
        OpPack source output temporary password duress_password \<Rightarrow>
          piping (pack_execute (wk_prims V) (wk_walk V) (wk_fuel V) (wk_schedules V) (\<lambda>n. bindE (wk_pool V n) (\<lambda>_. Inr ()))
            \<lparr>pq_source = source, pq_output = output, pq_password = password, pq_duress_password = duress_password,
             pq_options = (pack_options_default (wk_parallelism V))\<lparr>po_temporary_path := Some temporary\<rparr>\<rparr>)
      | OpExtract container output staging password \<Rightarrow>
          piping (extract_execute (wk_prims V) (wk_pool V) (wk_order V)
            \<lparr>xq_container = container, xq_output = output, xq_password = password,
             xq_options = (extract_options_default (wk_parallelism V))\<lparr>xo_staging_path := Some staging\<rparr>\<rparr>)
      | OpVerify container password \<Rightarrow>
          piping (verify (wk_prims V) (sd_verify (wk_schedules V)) container password)
      | OpMount container password \<Rightarrow> execute_mount V commands container password
      | OpChangePassword container old_password new_password \<Rightarrow>
          piping (change_password_with_control (wk_prims V) container old_password new_password))"

section \<open>The commands of the parent\<close>

lemma pipe_read_exact_shorter: "pipe_read_exact n p = (r, p') \<Longrightarrow> length p' \<le> length p"
  by (induction n p arbitrary: r p' rule: pipe_read_exact.induct) (auto split: prod.splits sum.splits intro: le_SucI)

lemma read_frame_shorter: "read_frame dec p = (Inr (Some v), p') \<Longrightarrow> length p' < length p"
proof (induction dec p rule: read_frame.induct)
  case (4 dec b p)
  from 4 show ?case
    by (auto simp: Let_def split: prod.splits sum.splits if_splits dest!: pipe_read_exact_shorter)
qed auto

text \<open>Whether cancellation was requested, and what reaches the channel.\<close>

function command_loop :: "(bytes \<Rightarrow> parent_command result) \<Rightarrow> pipe \<Rightarrow> bool \<times> parent_command list" where
  "command_loop dec p =
     (case read_frame dec p of
        (Inr (Some command), p') \<Rightarrow>
          (case command of
             Cancel \<Rightarrow> (True, snd (command_loop dec p'))
           | Unmount \<Rightarrow> (case command_loop dec p' of (cancelled, commands) \<Rightarrow> (cancelled, Unmount # commands)))
      | (_, _) \<Rightarrow> (True, [Unmount]))"
  by pat_completeness auto
termination
  by (relation "measure (\<lambda>(dec, p). length p)") (auto dest!: read_frame_shorter [OF sym])

declare command_loop.simps [simp del]

section \<open>The process\<close>

definition terminal_event :: "unit result \<Rightarrow> worker_event" where
  "terminal_event r = (case r of
     Inr _ \<Rightarrow> EvSucceeded
   | Inl e \<Rightarrow> EvFailed (dto_error_kind (error_kind e)) (display_chain e))"

text \<open>\<open>PipeReporter::send\<close> ignores a failed write.\<close>

definition send :: "(worker_event \<Rightarrow> bytes result) \<Rightarrow> 's sink \<Rightarrow> ('s \<Rightarrow> unit result \<times> 's) \<Rightarrow> worker_event \<Rightarrow> 's \<Rightarrow> 's" where
  "send enc put flush ev s = snd (write_frame enc put flush ev s)"

definition run_stdio ::
  "'h worker_env \<Rightarrow> (bytes \<Rightarrow> worker_request result) \<Rightarrow> (bytes \<Rightarrow> parent_command result) \<Rightarrow> (worker_event \<Rightarrow> bytes result) \<Rightarrow>
     's sink \<Rightarrow> ('s \<Rightarrow> unit result \<times> 's) \<Rightarrow> pipe \<Rightarrow> 's \<Rightarrow> world \<Rightarrow> unit result \<times> 's \<times> world" where
  "run_stdio V dec_request dec_command enc put flush stdin s w =
     (case read_frame dec_request stdin of
        (Inl e, _) \<Rightarrow> (Inl e, s, w)
      | (Inr None, _) \<Rightarrow> (Inl [Msg ''Worker stdin closed before the operation request''], s, w)
      | (Inr (Some request), stdin) \<Rightarrow>
          if rq_version request \<noteq> PROTOCOL_VERSION
          then (Inl [Msg (''Unsupported CipherFS worker protocol version '' @ dec_string (unat (rq_version request)))], s, w)
          else
            (case execute V (snd (command_loop dec_command stdin)) (rq_operation request) w of
               (r, events, w) \<Rightarrow>
                 (case write_frame enc put flush (terminal_event r) (fold (send enc put flush) events s) of
                    (written, s) \<Rightarrow> (written, s, w))))"

section \<open>The worker follows its parent\<close>

text \<open>Whatever the parent sends, and when its end of the pipe closes, the reader has asked for
  cancellation and the channel ends with \<open>Unmount\<close>: a mount never waits for ever.\<close>

lemma command_loop_ends: "fst (command_loop dec p) \<and> snd (command_loop dec p) \<noteq> [] \<and> last (snd (command_loop dec p)) = Unmount"
proof (induction dec p rule: command_loop.induct)
  case (1 dec p)
  obtain r p' where rf: "read_frame dec p = (r, p')" by fastforce
  consider "\<exists>e. r = Inl e" | "r = Inr None" | "r = Inr (Some Cancel)" | "r = Inr (Some Unmount)"
    by (cases r; cases "projr r"; cases "the (projr r)") auto
  then show ?case
  proof cases
    case 3
    have "fst (command_loop dec p') \<and> snd (command_loop dec p') \<noteq> [] \<and> last (snd (command_loop dec p')) = Unmount"
      using 1(1) [OF rf [symmetric] 3 refl refl] .
    with rf 3 show ?thesis by (simp add: command_loop.simps [of dec p])
  next
    case 4
    have "fst (command_loop dec p') \<and> snd (command_loop dec p') \<noteq> [] \<and> last (snd (command_loop dec p')) = Unmount"
      using 1(2) [OF rf [symmetric] 4 refl refl] .
    with rf 4 show ?thesis by (cases "command_loop dec p'") (simp add: command_loop.simps [of dec p])
  qed (auto simp: command_loop.simps [of dec p] rf)
qed

section \<open>What the parent reads\<close>

lemma pipe_event_not_terminal:
  "ev \<in> set (pipe_event x) \<Longrightarrow> ev \<noteq> EvSucceeded \<and> (\<forall>k m. ev \<noteq> EvFailed k m) \<and> (\<forall>p. ev \<noteq> EvMounted p)"
  by (auto simp: pipe_event_def pipe_report_def split: operation_event.splits)

lemma execute_events:
  assumes "execute V commands operation w = (r, events, w')" "ev \<in> set events"
  shows "ev \<noteq> EvSucceeded" "ev \<noteq> EvFailed k m"
    and "(\<And>c p. operation \<noteq> OpMount c p) \<Longrightarrow> ev \<noteq> EvMounted q"
proof -
  show "ev \<noteq> EvSucceeded" "ev \<noteq> EvFailed k m" "(\<And>c p. operation \<noteq> OpMount c p) \<Longrightarrow> ev \<noteq> EvMounted q"
    using assms pipe_event_not_terminal [of ev]
    by (auto simp: execute_def piping_def execute_mount_def Let_def split: worker_operation.splits prod.splits sum.splits)
qed

text \<open>A pipe that carries every frame the worker writes.\<close>

definition carried :: "(worker_event \<Rightarrow> bytes result) \<Rightarrow> (bytes \<Rightarrow> worker_event result) \<Rightarrow> worker_event \<Rightarrow> bool" where
  "carried enc dec ev \<longleftrightarrow>
     (\<exists>payload. enc ev = Inr payload \<and> payload \<noteq> [] \<and> length payload \<le> MAX_FRAME_SIZE \<and> dec payload = Inr ev)"

abbreviation put_bytes :: "bytes sink" where
  "put_bytes \<equiv> \<lambda>bs out. (Inr (), out @ bs)"

abbreviation flush_bytes :: "bytes \<Rightarrow> unit result \<times> bytes" where
  "flush_bytes \<equiv> \<lambda>out. (Inr (), out)"

lemma fold_send:
  "(\<And>ev. ev \<in> set events \<Longrightarrow> carried enc dec ev) \<Longrightarrow>
   fold (send enc put_bytes flush_bytes) events out = out @ concat (map (\<lambda>ev. frame_of (projr (enc ev))) events)"
proof (induction events arbitrary: out)
  case (Cons ev events)
  then obtain payload where "enc ev = Inr payload" "length payload \<le> MAX_FRAME_SIZE" unfolding carried_def by fastforce
  with Cons show ?case by (simp add: send_def write_frame_eq)
qed simp

lemma event_loop_tail:
  assumes "event_loop (map (\<lambda>v. Inr (Some v)) events @ Inr (Some t) # rest) False h = (evs, r, h')"
    and "decisive (oh_expected_artifact h) (Inr (Some t))"
    and "\<And>ev. ev \<in> set events \<Longrightarrow> ev \<noteq> EvSucceeded"
  shows "r = Inr () \<longleftrightarrow> t = EvSucceeded \<and> (\<forall>ev \<in> set events. \<not> decisive (oh_expected_artifact h) (Inr (Some ev)))"
proof (cases "\<forall>ev \<in> set events. \<not> decisive (oh_expected_artifact h) (Inr (Some ev))")
  case True
  with event_loop_result [OF _ assms(2,1)] show ?thesis by auto
next
  case False
  then obtain a ev b where e: "events = a @ ev # b" "decisive (oh_expected_artifact h) (Inr (Some ev))"
    "\<forall>x \<in> set a. \<not> decisive (oh_expected_artifact h) (Inr (Some x))"
    using split_list_first_prop [of events "\<lambda>ev. decisive (oh_expected_artifact h) (Inr (Some ev))"] by auto
  have "event_loop (map (\<lambda>v. Inr (Some v)) a @ Inr (Some ev) # (map (\<lambda>v. Inr (Some v)) b @ Inr (Some t) # rest)) False h = (evs, r, h')"
    using assms(1) e(1) by simp
  from event_loop_result [OF _ e(2) this] e(3) assms(3) [of ev] e(1) False show ?thesis by auto
qed

text \<open>The parent is told the truth: if every frame arrives, its operation succeeds exactly when the
  operation of the worker did and every temporary artifact the worker reported is the one expected.\<close>

lemma worker_told_parent:
  assumes req: "read_frame dec_request stdin = (Inr (Some request), rest)" "rq_version request = PROTOCOL_VERSION"
    and ex: "execute V (snd (command_loop dec_command rest)) (rq_operation request) w = (r, events, w1)"
    and no_mount: "\<And>c p. rq_operation request \<noteq> OpMount c p"
    and carried: "\<And>ev. ev \<in> set (events @ [terminal_event r]) \<Longrightarrow> carried enc dec ev"
    and run: "run_stdio V dec_request dec_command enc put_bytes flush_bytes stdin [] w = (r', out, w')"
    and pipe: "pipe_clean p" "pipe_bytes p = out"
    and parent: "event_loop (read_frames dec (Suc (Suc (length events))) p) False h = (evs, result, h')"
  shows "r' = Inr () \<and> w' = w1 \<and>
    (result = Inr () \<longleftrightarrow> r = Inr () \<and> (\<forall>k q. EvTemporaryArtifact k q \<in> set events \<longrightarrow> oh_expected_artifact h = Some q))"
proof -
  let ?t = "terminal_event r"
  from carried [of ?t] obtain payload where t: "enc ?t = Inr payload" "length payload \<le> MAX_FRAME_SIZE" by (auto simp: carried_def)
  have all: "fold (send enc put_bytes flush_bytes) events [] = concat (map (\<lambda>ev. frame_of (projr (enc ev))) events)"
    using fold_send [of events enc dec "[]"] carried by simp
  from run have res: "r' = Inr ()" "w' = w1" "out = concat (map (\<lambda>ev. frame_of (projr (enc ev))) (events @ [?t]))"
    using req ex all t by (simp_all add: run_stdio_def write_frame_eq split: prod.splits)
  have "read_frames dec (Suc (length (events @ [?t]))) p = map (\<lambda>v. Inr (Some v)) (events @ [?t]) @ [Inr None]"
  proof (rule read_frames_written)
    show "\<exists>payload. enc v = Inr payload \<and> payload \<noteq> [] \<and> length payload \<le> MAX_FRAME_SIZE \<and> dec payload = Inr v"
      if "v \<in> set (events @ [?t])" for v using carried [OF that] by (simp only: carried_def)
    show "pipe_bytes p = concat (map (\<lambda>v. frame_of (projr (enc v))) (events @ [?t]))" using pipe(2) res(3) by simp
  qed (rule pipe(1))
  then have reads: "read_frames dec (Suc (Suc (length events))) p = map (\<lambda>v. Inr (Some v)) events @ Inr (Some ?t) # [Inr None]"
    by simp
  have dec: "decisive (oh_expected_artifact h) (Inr (Some ?t))"
    by (cases r) (simp_all add: terminal_event_def decisive_def)
  have "result = Inr () \<longleftrightarrow> ?t = EvSucceeded \<and> (\<forall>ev \<in> set events. \<not> decisive (oh_expected_artifact h) (Inr (Some ev)))"
    using event_loop_tail [OF parent [unfolded reads] dec execute_events(1) [OF ex]] by blast
  moreover have "?t = EvSucceeded \<longleftrightarrow> r = Inr ()" by (cases r) (simp_all add: terminal_event_def)
  moreover have "(\<forall>ev \<in> set events. \<not> decisive (oh_expected_artifact h) (Inr (Some ev))) \<longleftrightarrow>
      (\<forall>k q. EvTemporaryArtifact k q \<in> set events \<longrightarrow> oh_expected_artifact h = Some q)"
  proof -
    have "decisive (oh_expected_artifact h) (Inr (Some ev)) \<longleftrightarrow> (\<exists>k q. ev = EvTemporaryArtifact k q \<and> oh_expected_artifact h \<noteq> Some q)"
      if "ev \<in> set events" for ev
      using execute_events [OF ex that] no_mount by (cases ev) (auto simp: decisive_def)
    then show ?thesis by blast
  qed
  ultimately show ?thesis using res by blast
qed

end
