(* ===== verification/DemoWorker.thy ===== *)
theory DemoWorker
  imports DemoMounts DemoPack Worker
begin

text \<open>
  A worker with concrete parameters that is asked to verify a file that does not exist, and a codec
  that carries the two events of that run.
\<close>

definition demo_worker :: "(bool \<times> mount_target option) worker_env" where
  "demo_worker =
     \<lparr>wk_prims = demo, wk_walk = demo_walk, wk_fuel = 3, wk_schedules = demo_schedules, wk_order = (\<lambda>xs. xs),
      wk_parallelism = Some 2, wk_pool = (\<lambda>_. Inr 1), wk_host = demo_host, wk_windows = demo_windows, wk_init = Inr (),
      wk_open_fs = (\<lambda>_ _ _. returnM demo_fs)\<rparr>"

definition demo_request :: worker_request where
  "demo_request = \<lparr>rq_version = PROTOCOL_VERSION, rq_operation = OpVerify [''x''] ''pw''\<rparr>"

definition demo_enc :: "worker_event \<Rightarrow> bytes result" where
  "demo_enc ev = (case ev of EvPhaseStarted _ \<Rightarrow> Inr [1] | _ \<Rightarrow> Inr [2])"

definition demo_dec :: "worker_event \<Rightarrow> bytes \<Rightarrow> worker_event result" where
  "demo_dec last_event bs = (if bs = [1] then Inr (EvPhaseStarted PKeyDerivation) else Inr last_event)"

lemma demo_stdin:
  "\<exists>rest. read_frame (\<lambda>_. Inr demo_request) (map Data (frame_of [7])) = (Inr (Some demo_request), rest)"
  using read_frame_frame [of "map Data (frame_of [7])" "[7]" "[]" "\<lambda>_. Inr demo_request" demo_request]
    pipe_of_data [of "frame_of [7]"]
  by (auto simp: MAX_FRAME_SIZE_def)

lemma demo_execute:
  "\<exists>e w'. execute demo_worker commands (OpVerify [''x''] ''pw'') demo_world = (Inl e, [EvPhaseStarted PKeyDerivation], w')"
proof -
  have "check_cancel w = (Inr (), w\<lparr>w_polls := Suc (w_polls w)\<rparr>)" if "w_cancelled w = (\<lambda>_. False)" for w
    using that by (simp add: check_cancel_def check_def is_cancelled_def)
  moreover have "follow (w_disk demo_world) [''x''] = [''x'']" "w_disk demo_world [''x''] = None"
    by (simp_all add: follow_def demo_world_def demo_disk_def)
  ultimately show ?thesis
    by (simp add: execute_def piping_def verify_def map_errM_def verify_inner_def bindM_def emit_def open_container_def
        open_file_def fs_call_def demo_world_def pipe_event_def dto_phase_def map_err_simps Let_def contextM_def)
qed

lemma demo_carried:
  "carried demo_enc (demo_dec (terminal_event r)) (EvPhaseStarted PKeyDerivation)"
  "carried demo_enc (demo_dec (terminal_event r)) (terminal_event r)"
  by (cases r; simp add: carried_def demo_enc_def demo_dec_def terminal_event_def MAX_FRAME_SIZE_def)+

end
