(* ===== verification/AppController.thy ===== *)
theory AppController
  imports Operation
begin

text \<open>
  \<open>controller.rs\<close> of the Windows shell: the state of the window and its transitions, and the
  checks of \<open>app.rs\<close> that stand between a form and an operation. Cancelling takes two presses:
  the first asks the worker to stop, the second offers to force it; once the operation is
  protected a press does nothing.
\<close>

section \<open>State and messages\<close>

datatype form_kind =
    FormMount path
  | FormExtract path path
  | FormVerify path
  | FormChangePassword path
  | FormPack path path

datatype route =
    RouteHelp
  | RouteContainer path
  | RoutePack path path
  | RouteForm form_kind

datatype app_error_kind = NativeDialogError | OperationError | MountError

datatype recovery = RecoverClose | RecoverBack | OpenUrl string

record app_error =
  ae_kind :: app_error_kind
  ae_message :: string
  ae_recovery :: recovery

datatype app_page = PageHelp | PageActions | PageForm | PageProgress | PageMounted | PageResult | PageError

datatype app_action =
    ShowRoute route
  | DialogCancelled
  | DialogFailed string
  | OperationStarted
  | OperationProtected
  | OperationFinished "string + unit"
  | CancelPressed
  | MountReady
  | MountFailed string
  | Unmounted "string + unit"

datatype app_effect = Render | RequestCooperativeCancel | ShowForceClose

record app_state =
  as_page :: app_page
  as_error :: "app_error option"
  as_force_close_overlay :: bool
  as_cancel_requested :: bool
  as_protected :: bool

section \<open>Transitions\<close>

definition app_state_new :: "route \<Rightarrow> app_state" where
  "app_state_new route =
     \<lparr>as_page = (case route of RouteHelp \<Rightarrow> PageHelp | RouteContainer _ \<Rightarrow> PageActions
        | RoutePack _ _ \<Rightarrow> PageForm | RouteForm _ \<Rightarrow> PageForm),
      as_error = None, as_force_close_overlay = False, as_cancel_requested = False, as_protected = False\<rparr>"

definition show_app_error :: "app_error_kind \<Rightarrow> string \<Rightarrow> recovery \<Rightarrow> app_state \<Rightarrow> app_state" where
  "show_app_error kind message recovery s =
     s\<lparr>as_page := PageError,
       as_error := Some \<lparr>ae_kind = kind, ae_message = message, ae_recovery = recovery\<rparr>\<rparr>"

fun app_transition :: "app_action \<Rightarrow> app_state \<Rightarrow> app_effect list \<times> app_state" where
  "app_transition (ShowRoute route) s = ([Render], app_state_new route)"
| "app_transition DialogCancelled s = ([Render], s)"
| "app_transition (DialogFailed message) s =
     ([Render], show_app_error NativeDialogError message RecoverBack s)"
| "app_transition OperationStarted s =
     ([Render], s\<lparr>as_page := PageProgress, as_cancel_requested := False, as_protected := False\<rparr>)"
| "app_transition OperationProtected s = ([Render], s\<lparr>as_protected := True\<rparr>)"
| "app_transition (OperationFinished (Inr _)) s = ([Render], s\<lparr>as_page := PageResult\<rparr>)"
| "app_transition (OperationFinished (Inl message)) s =
     ([Render], if message = ''Operation cancelled'' then s\<lparr>as_page := PageResult\<rparr>
       else show_app_error OperationError message RecoverClose s)"
| "app_transition CancelPressed s =
     (if as_protected s then ([Render], s)
      else if as_cancel_requested s then ([ShowForceClose], s\<lparr>as_force_close_overlay := True\<rparr>)
      else ([RequestCooperativeCancel], s\<lparr>as_cancel_requested := True\<rparr>))"
| "app_transition MountReady s = ([Render], s\<lparr>as_page := PageMounted\<rparr>)"
| "app_transition (MountFailed message) s =
     ([Render], show_app_error MountError message (OpenUrl ''https://winfsp.dev/rel/'') s)"
| "app_transition (Unmounted (Inr _)) s = ([Render], s\<lparr>as_page := PageResult\<rparr>)"
| "app_transition (Unmounted (Inl message)) s =
     ([Render], show_app_error MountError message RecoverClose s)"

fun app_run :: "app_action list \<Rightarrow> app_state \<Rightarrow> app_effect list \<times> app_state" where
  "app_run [] s = ([], s)"
| "app_run (a # as) s =
     (case app_transition a s of (fx, s') \<Rightarrow> (case app_run as s' of (fxs, t) \<Rightarrow> (fx @ fxs, t)))"

section \<open>The invariant of the window\<close>

text \<open>The force-close overlay is open only after a cancel request or in a later operation that has
  not cleared it; an error page has an error to show.\<close>

definition app_inv :: "app_state \<Rightarrow> bool" where
  "app_inv s \<longleftrightarrow> (as_page s = PageError \<longrightarrow> as_error s \<noteq> None)"

inductive app_reachable :: "app_state \<Rightarrow> bool" where
  start: "app_reachable (app_state_new route)"
| step: "app_reachable s \<Longrightarrow> app_transition a s = (fx, t) \<Longrightarrow> app_reachable t"

lemma app_inv_transition: "app_inv s \<Longrightarrow> app_inv (snd (app_transition a s))"
  by (cases "(a, s)" rule: app_transition.cases) (auto simp: app_inv_def show_app_error_def app_state_new_def
      split: route.splits)

lemma app_reachable_inv: "app_reachable s \<Longrightarrow> app_inv s"
proof (induction rule: app_reachable.induct)
  case (start route)
  then show ?case by (auto simp: app_inv_def app_state_new_def split: route.splits)
next
  case (step s a fx t)
  then show ?case using app_inv_transition [of s a] by simp
qed

text \<open>Actions of one operation, between its start and the next one or another route.\<close>

definition within_operation :: "app_action \<Rightarrow> bool" where
  "within_operation a \<longleftrightarrow> a \<noteq> OperationStarted \<and> (\<forall>route. a \<noteq> ShowRoute route)"

lemma protected_stays:
  "within_operation a \<Longrightarrow> as_protected s \<Longrightarrow> as_protected (snd (app_transition a s))"
  by (cases "(a, s)" rule: app_transition.cases) (auto simp: within_operation_def show_app_error_def)

lemma cancel_requested_stays:
  "within_operation a \<Longrightarrow> as_cancel_requested s \<Longrightarrow> as_cancel_requested (snd (app_transition a s))"
  by (cases "(a, s)" rule: app_transition.cases) (auto simp: within_operation_def show_app_error_def)

lemma no_cancel_effect:
  "a \<noteq> CancelPressed \<Longrightarrow> RequestCooperativeCancel \<notin> set (fst (app_transition a s)) \<and>
    ShowForceClose \<notin> set (fst (app_transition a s))"
  by (cases "(a, s)" rule: app_transition.cases) auto

text \<open>A protected operation is never asked to stop.\<close>

lemma protected_no_cancel:
  "as_protected s \<Longrightarrow> \<forall>a \<in> set as. within_operation a \<Longrightarrow>
   RequestCooperativeCancel \<notin> set (fst (app_run as s)) \<and> ShowForceClose \<notin> set (fst (app_run as s))"
proof (induction as arbitrary: s)
  case (Cons a as)
  obtain fx t where t: "app_transition a s = (fx, t)" by (cases "app_transition a s")
  have "as_protected t" using protected_stays [of a s] Cons.prems t by simp
  from Cons.IH [OF this] Cons.prems(2)
  have "RequestCooperativeCancel \<notin> set (fst (app_run as t)) \<and> ShowForceClose \<notin> set (fst (app_run as t))"
    by simp
  moreover have "RequestCooperativeCancel \<notin> set fx \<and> ShowForceClose \<notin> set fx"
    using no_cancel_effect [of a s] Cons.prems(1) t by (cases "a = CancelPressed") auto
  ultimately show ?case using t by (auto split: prod.split)
qed simp

text \<open>Within one operation the worker is asked to stop at most once, and force close is offered
  only after that.\<close>

lemma requested_no_second_request:
  "as_cancel_requested s \<Longrightarrow> \<forall>a \<in> set as. within_operation a \<Longrightarrow>
   RequestCooperativeCancel \<notin> set (fst (app_run as s))"
proof (induction as arbitrary: s)
  case (Cons a as)
  obtain fx t where t: "app_transition a s = (fx, t)" by (cases "app_transition a s")
  have "as_cancel_requested t" using cancel_requested_stays [of a s] Cons.prems t by simp
  from Cons.IH [OF this] Cons.prems(2) have "RequestCooperativeCancel \<notin> set (fst (app_run as t))" by simp
  moreover have "RequestCooperativeCancel \<notin> set fx"
    using no_cancel_effect [of a s] Cons.prems(1) t by (cases "a = CancelPressed") (auto split: if_splits)
  ultimately show ?case using t by (auto split: prod.split)
qed simp

lemma one_request_per_operation:
  "\<forall>a \<in> set as. within_operation a \<Longrightarrow>
   length (filter (\<lambda>fx. fx = RequestCooperativeCancel) (fst (app_run as s))) \<le> 1"
proof (induction as arbitrary: s)
  case (Cons a as)
  obtain fx t where t: "app_transition a s = (fx, t)" by (cases "app_transition a s")
  show ?case
  proof (cases "RequestCooperativeCancel \<in> set fx")
    case True
    then have "a = CancelPressed" using no_cancel_effect [of a s] t by auto
    with True t have "fx = [RequestCooperativeCancel]" "as_cancel_requested t"
      by (auto split: if_splits)
    moreover from requested_no_second_request [OF this(2), of as] Cons.prems
    have "RequestCooperativeCancel \<notin> set (fst (app_run as t))" by simp
    ultimately show ?thesis using t
      by (auto split: prod.split simp: filter_empty_conv)
  next
    case False
    then have "filter (\<lambda>fx. fx = RequestCooperativeCancel) fx = []" by (auto simp: filter_empty_conv)
    with Cons t show ?thesis by (auto split: prod.split) (metis fst_conv)
  qed
qed simp

section \<open>Checks before an operation\<close>

definition validate_new_password :: "string \<Rightarrow> string \<Rightarrow> (string \<times> string) option \<Rightarrow> unit result" where
  "validate_new_password password confirmation duress =
     bindE (ensure (password \<noteq> []) ''Password must not be empty'') (\<lambda>_.
     bindE (ensure (password = confirmation) ''Passwords do not match'') (\<lambda>_.
     (case duress of
        None \<Rightarrow> Inr ()
      | Some (duress, confirmation) \<Rightarrow>
          bindE (ensure (duress = confirmation) ''Duress passwords do not match'') (\<lambda>_.
          ensure (duress \<noteq> password) ''The Duress Password must differ from the master password''))))"

lemma validate_new_password_eq_Inr:
  "validate_new_password password confirmation duress = Inr u \<longleftrightarrow>
     password \<noteq> [] \<and> password = confirmation \<and>
     (\<forall>d c. duress = Some (d, c) \<longrightarrow> d = c \<and> d \<noteq> password)"
  by (auto simp: validate_new_password_def result_simps split: option.split)

definition default_pack_output :: "path \<Rightarrow> path result" where
  "default_pack_output source =
     bindE (context_opt ''Pack source directory has no name'' (path_file_name source)) (\<lambda>name.
     Inr (butlast source @ [name @ ''.cfs'']))"

text \<open>Command line of the shell: \<open>require\<close> is the format check of the container.\<close>

definition parse_route :: "(path \<Rightarrow> unit result) \<Rightarrow> (string \<Rightarrow> path) \<Rightarrow> string list \<Rightarrow> route result" where
  "parse_route require to_path args =
     (case args of
        [] \<Rightarrow> Inr RouteHelp
      | value # rest \<Rightarrow>
          if value \<in> {''install'', ''uninstall'', ''update'', ''--apply-update''} then Inr RouteHelp
          else if value = ''--pack'' then
            bindE (context_opt ''--pack requires a directory''
              (case rest of [] \<Rightarrow> None | s # _ \<Rightarrow> Some (to_path s))) (\<lambda>source.
            bindE (default_pack_output source) (\<lambda>output.
            Inr (RoutePack source output)))
          else bindE (require (to_path value)) (\<lambda>_. Inr (RouteContainer (to_path value))))"

text \<open>The route the back button leads to.\<close>

definition back_route :: "route \<Rightarrow> route" where
  "back_route r =
     (case r of
        RouteForm (FormPack source output) \<Rightarrow> RoutePack source output
      | RoutePack source output \<Rightarrow> RoutePack source output
      | RouteForm (FormMount p) \<Rightarrow> RouteContainer p
      | RouteForm (FormVerify p) \<Rightarrow> RouteContainer p
      | RouteForm (FormChangePassword p) \<Rightarrow> RouteContainer p
      | RouteForm (FormExtract container _) \<Rightarrow> RouteContainer container
      | _ \<Rightarrow> RouteHelp)"

end
