(* ===== verification/Window.thy ===== *)
theory Window
  imports AppController OperationController SafeFs
begin

text \<open>
  The window of the Windows shell (\<open>app.rs\<close>): the state it shares between callbacks, what it shows,
  the callbacks of its buttons, the events of a worker, and the threads that mount and unmount. The
  native dialogs, the shell, the start of a process and the owner window are parameters. Which buttons
  a page has is read from \<open>ui/app-window.slint\<close>.
\<close>

section \<open>What the window shows\<close>

definition HELP :: int where "HELP = 0"
definition ACTIONS :: int where "ACTIONS = 1"
definition FORM :: int where "FORM = 2"
definition PROGRESS :: int where "PROGRESS = 3"
definition MOUNTED :: int where "MOUNTED = 4"
definition RESULT :: int where "RESULT = 5"
definition ERROR :: int where "ERROR = 7"

lemmas page_defs = HELP_def ACTIONS_def FORM_def PROGRESS_def MOUNTED_def RESULT_def ERROR_def

text \<open>The progress value is kept as the completed and the total amount; \<open>None\<close> is 0.\<close>

record ui =
  ui_page :: int
  ui_heading :: string
  ui_detail :: string
  ui_path_text :: string
  ui_primary_label :: string
  ui_secondary_label :: string
  ui_tertiary_label :: string
  ui_quaternary_label :: string
  ui_password :: string
  ui_password_confirm :: string
  ui_old_password :: string
  ui_duress_password :: string
  ui_duress_confirm :: string
  ui_show_duress :: bool
  ui_cancel_enabled :: bool
  ui_progress_value :: "(u64 \<times> u64) option"
  ui_overlay_visible :: bool
  ui_overlay_title :: string
  ui_overlay_detail :: string
  ui_overlay_confirm_label :: string

record runtime_state =
  rt_route :: "route option"
  rt_controller :: app_state
  rt_operation :: "op_handle option"
  rt_mount :: "mount_worker option"

definition runtime_state_new :: "route \<Rightarrow> runtime_state" where
  "runtime_state_new route =
     \<lparr>rt_route = Some route, rt_controller = app_state_new route, rt_operation = None, rt_mount = None\<rparr>"

text \<open>A closure a thread posted to the event loop, and a thread that runs.\<close>

datatype posted = ShowMounted path | ShowResult string | ShowError string
datatype thread = Mounting | Unmounting mount_worker

record window =
  wn_ui :: ui
  wn_state :: runtime_state
  wn_success :: string
  wn_requests :: "worker_operation list"
  wn_thread :: "thread option"
  wn_posted :: "posted list"
  wn_opened :: "string list"
  wn_quit :: bool

abbreviation on_ui :: "(ui \<Rightarrow> ui) \<Rightarrow> window \<Rightarrow> window" where
  "on_ui f n \<equiv> n\<lparr>wn_ui := f (wn_ui n)\<rparr>"

abbreviation on_state :: "(runtime_state \<Rightarrow> runtime_state) \<Rightarrow> window \<Rightarrow> window" where
  "on_state f n \<equiv> n\<lparr>wn_state := f (wn_state n)\<rparr>"

definition act :: "app_action \<Rightarrow> window \<Rightarrow> window" where
  "act a = on_state (\<lambda>s. s\<lparr>rt_controller := snd (app_transition a (rt_controller s))\<rparr>)"

definition clear_secrets :: "ui \<Rightarrow> ui" where
  "clear_secrets u =
     u\<lparr>ui_password := [], ui_password_confirm := [], ui_old_password := [], ui_duress_password := [], ui_duress_confirm := []\<rparr>"

definition show_result :: "string \<Rightarrow> ui \<Rightarrow> ui" where
  "show_result message u =
     u\<lparr>ui_page := RESULT, ui_heading := ''Completed'', ui_detail := message, ui_path_text := [],
       ui_primary_label := ''Close'', ui_secondary_label := []\<rparr>"

definition show_error :: "string \<Rightarrow> ui \<Rightarrow> ui" where
  "show_error message u =
     u\<lparr>ui_page := ERROR, ui_heading := ''CipherFS error'', ui_detail := message, ui_path_text := [],
       ui_primary_label := if contains ''WinFsp'' message then ''Open WinFsp download page'' else ''Close'',
       ui_secondary_label := []\<rparr>"

definition show_overlay :: "string \<Rightarrow> string \<Rightarrow> string \<Rightarrow> ui \<Rightarrow> ui" where
  "show_overlay title detail label u =
     u\<lparr>ui_overlay_title := title, ui_overlay_detail := detail, ui_overlay_confirm_label := label, ui_overlay_visible := True\<rparr>"

definition phase_text :: "phase \<Rightarrow> string" where
  "phase_text p = (case p of
     PScan \<Rightarrow> ''Scanning...'' | PKeyDerivation \<Rightarrow> ''Deriving key...'' | PEncrypt \<Rightarrow> ''Encrypting...''
   | PSelfVerify \<Rightarrow> ''Verifying new container...'' | PExtract \<Rightarrow> ''Extracting...'' | PVerify \<Rightarrow> ''Verifying...''
   | PCommit \<Rightarrow> ''Committing...'')"

text \<open>Every text of a phase ends with one ellipsis, which \<open>trim_end_matches\<close> removes.\<close>

definition progress_text :: "phase \<Rightarrow> u64 \<Rightarrow> u64 \<Rightarrow> string" where
  "progress_text p c t =
     (if t = 0 then phase_text p
      else take (length (phase_text p) - 3) (phase_text p) @ '': '' @ dec_string (unat (c div (1024 * 1024))) @ '' / '' @
        dec_string (unat (t div (1024 * 1024))) @ '' MiB'')"

section \<open>Routes and forms\<close>

definition show_form :: "form_kind \<Rightarrow> ui \<Rightarrow> ui" where
  "show_form kind u =
     (let u = u\<lparr>ui_page := FORM, ui_old_password := ''__unused__'', ui_password_confirm := ''__unused__'',
            ui_show_duress := False, ui_tertiary_label := []\<rparr> in
      case kind of
        FormMount p \<Rightarrow>
          u\<lparr>ui_heading := ''Mount CipherFS container'', ui_detail := ''The password is used only for this operation.'',
            ui_path_text := display_path p, ui_primary_label := ''Mount''\<rparr>
      | FormVerify p \<Rightarrow>
          u\<lparr>ui_heading := ''Verify CipherFS container'',
            ui_detail := ''Authenticates the header, index, and every encrypted chunk.'',
            ui_path_text := display_path p, ui_primary_label := ''Verify''\<rparr>
      | FormExtract container output \<Rightarrow>
          u\<lparr>ui_heading := ''Extract CipherFS container'', ui_detail := ''The destination must not already exist.'',
            ui_path_text := display_path output, ui_primary_label := ''Extract''\<rparr>
      | FormChangePassword p \<Rightarrow>
          u\<lparr>ui_heading := ''Change CipherFS password'',
            ui_detail := ''Updates the encrypted keyslot without re-encrypting file data.'',
            ui_path_text := display_path p, ui_old_password := [], ui_password_confirm := [],
            ui_primary_label := ''Change password''\<rparr>
      | FormPack source output \<Rightarrow>
          u\<lparr>ui_heading := ''Create CipherFS container'', ui_detail := ''Source: '' @ display_path source,
            ui_path_text := display_path output, ui_password_confirm := [], ui_tertiary_label := ''duress'',
            ui_primary_label := ''Create container''\<rparr>)"

definition show_route :: "route \<Rightarrow> ui \<Rightarrow> ui" where
  "show_route route u =
     (let u = clear_secrets u in
      case route of
        RouteHelp \<Rightarrow>
          u\<lparr>ui_page := HELP, ui_heading := ''CipherFS Shell'',
            ui_detail := ''Open a .cfs container or use Pack with CipherFS in Explorer. Windows installation, repair, updates, and removal are managed by CipherFS Setup.'',
            ui_primary_label := ''Close'', ui_secondary_label := [], ui_tertiary_label := [], ui_quaternary_label := []\<rparr>
      | RouteContainer p \<Rightarrow>
          u\<lparr>ui_page := ACTIONS, ui_heading := (case path_file_name p of Some name \<Rightarrow> utf8_lossy name | None \<Rightarrow> []),
            ui_detail := ''Choose an operation. Verify authenticates the complete encrypted container.'',
            ui_primary_label := ''Mount'', ui_secondary_label := ''Extract'', ui_tertiary_label := ''Verify'',
            ui_quaternary_label := ''Change password''\<rparr>
      | RoutePack source output \<Rightarrow> show_form (FormPack source output) u
      | RouteForm kind \<Rightarrow> show_form kind u)"

definition set_form :: "form_kind \<Rightarrow> window \<Rightarrow> window" where
  "set_form kind n =
     (let route = RouteForm kind;
          n = on_state (\<lambda>s. s\<lparr>rt_route := Some route\<rparr>) n;
          n = act (ShowRoute route) n
       in on_ui (show_route route) n)"

section \<open>Callbacks\<close>

datatype 'a dialog_outcome = Selected 'a | Dismissed

record window_env =
  wv_owner :: "unit result"
  wv_extract_dialog :: "string \<Rightarrow> path dialog_outcome result"
  wv_pack_dialog :: "path \<Rightarrow> path dialog_outcome result"
  wv_shell_open :: "string \<Rightarrow> unit result"
  wv_spawn :: "worker_operation \<Rightarrow> worker_request result \<times> bool"
  wv_quit :: "unit result"

text \<open>A callback may fail; what it did before stays done.\<close>

type_synonym callback = "window \<Rightarrow> world \<Rightarrow> unit result \<times> window \<times> world"

definition shell_open :: "window_env \<Rightarrow> string \<Rightarrow> window \<Rightarrow> unit result \<times> window" where
  "shell_open V target n =
     (case wv_shell_open V target of
        Inl e \<Rightarrow> (Inl e, n)
      | Inr _ \<Rightarrow> (Inr (), n\<lparr>wn_opened := wn_opened n @ [target]\<rparr>))"

definition quit_event_loop :: "window_env \<Rightarrow> window \<Rightarrow> unit result \<times> window" where
  "quit_event_loop V n = (case wv_quit V of Inl e \<Rightarrow> (Inl e, n) | Inr _ \<Rightarrow> (Inr (), n\<lparr>wn_quit := True\<rparr>))"

definition start_operation ::
  "window_env \<Rightarrow> worker_operation \<Rightarrow> path option \<Rightarrow> string \<Rightarrow> string \<Rightarrow> window \<Rightarrow> unit result \<times> window" where
  "start_operation V operation artifact title success n =
     (let n = act OperationStarted n;
          n = on_ui (\<lambda>u. u\<lparr>ui_page := PROGRESS, ui_heading := title, ui_detail := ''Starting isolated operation...'',
                ui_progress_value := None, ui_cancel_enabled := True\<rparr>) n;
          n = n\<lparr>wn_requests := wn_requests n @ [operation]\<rparr>
       in case operation_start (wv_spawn V operation) artifact of
            Inl e \<Rightarrow> (Inl e, n)
          | Inr handle \<Rightarrow> (Inr (), (on_state (\<lambda>s. s\<lparr>rt_operation := Some handle\<rparr>) n)\<lparr>wn_success := success\<rparr>))"

text \<open>The thread is started; what it does is below.\<close>

definition start_mount :: "path \<Rightarrow> secret \<Rightarrow> window \<Rightarrow> unit result \<times> window" where
  "start_mount container password n =
     (Inr (),
      (on_ui (\<lambda>u. u\<lparr>ui_page := PROGRESS, ui_heading := ''Mounting CipherFS container'',
         ui_detail := ''Starting isolated mount worker...'', ui_cancel_enabled := False\<rparr>) n)
      \<lparr>wn_requests := wn_requests n @ [OpMount container password], wn_thread := Some Mounting\<rparr>)"

text \<open>What \<open>submit\<close> makes of a form: the operation, its private artifact, a title and the message of
  success. \<open>u\<close> is the window before the secrets were cleared.\<close>

definition plan_operation ::
  "form_kind \<Rightarrow> ui \<Rightarrow> (worker_operation \<times> path option \<times> string \<times> string) io" where
  "plan_operation kind u =
     (let password = ui_password u; confirm = ui_password_confirm u; old = ui_old_password u;
          duress = ui_duress_password u; duress_confirm = ui_duress_confirm u in
      case kind of
        FormMount container \<Rightarrow> returnM (OpMount container password, None, [], [])
      | FormVerify container \<Rightarrow>
          returnM (OpVerify container password, None, ''Verifying CipherFS container'', ''Container verification completed.'')
      | FormExtract container output \<Rightarrow>
          bindM (path_exists output) (\<lambda>there.
          bindM (liftE (ensure (\<not> there) (''The extraction destination already exists: '' @ display_path output))) (\<lambda>_.
          bindM (random_sibling output True) (\<lambda>staging.
          returnM (OpExtract container output staging password, Some staging, ''Extracting CipherFS container'',
            ''Extracted to '' @ display_path output))))
      | FormChangePassword container \<Rightarrow>
          bindM (liftE (ensure (old \<noteq> []) ''Current password must not be empty'')) (\<lambda>_.
          bindM (liftE (validate_new_password password confirm None)) (\<lambda>_.
          returnM (OpChangePassword container old password, None, ''Changing CipherFS password'', ''Password keyslot updated.'')))
      | FormPack source output \<Rightarrow>
          bindM (path_exists output) (\<lambda>there.
          bindM (liftE (ensure (\<not> there) (''The output container already exists: '' @ display_path output))) (\<lambda>_.
          bindM (liftE (if ui_show_duress u
              then bindE (validate_new_password password confirm (Some (duress, duress_confirm))) (\<lambda>_. Inr (Some duress))
              else bindE (validate_new_password password confirm None) (\<lambda>_. Inr None))) (\<lambda>d.
          bindM (random_sibling output False) (\<lambda>temporary.
          returnM (OpPack source output temporary password d, Some temporary, ''Creating CipherFS container'',
            ''Created and verified '' @ display_path output))))))"

definition submit :: "window_env \<Rightarrow> form_kind \<Rightarrow> callback" where
  "submit V kind n w =
     (let u = wn_ui n; n = on_ui clear_secrets n in
      case ensure (ui_password u \<noteq> []) ''Password must not be empty'' of
        Inl e \<Rightarrow> (Inl e, n, w)
      | Inr _ \<Rightarrow>
          (case plan_operation kind u w of
             (Inl e, w) \<Rightarrow> (Inl e, n, w)
           | (Inr (operation, artifact, title, success), w) \<Rightarrow>
               (case kind of
                  FormMount container \<Rightarrow> (case start_mount container (ui_password u) n of (r, n) \<Rightarrow> (r, n, w))
                | _ \<Rightarrow> (case start_operation V operation artifact title success n of (r, n) \<Rightarrow> (r, n, w)))))"

definition primary :: "window_env \<Rightarrow> callback" where
  "primary V n w =
     (let u = wn_ui n; mount = rt_mount (wn_state n) in
      if ui_page u = MOUNTED \<and> mount \<noteq> None
      then (case shell_open V (display_path (mw_path (the mount))) n of (r, n) \<Rightarrow> (r, n, w))
      else if ui_page u = RESULT \<or> ui_page u = HELP then (case quit_event_loop V n of (r, n) \<Rightarrow> (r, n, w))
      else if ui_page u = ERROR then
        (if contains ''WinFsp'' (ui_primary_label u)
         then (case shell_open V ''https://winfsp.dev/rel/'' n of (r, n) \<Rightarrow> (r, n, w))
         else (case quit_event_loop V n of (r, n) \<Rightarrow> (r, n, w)))
      else
        (case rt_route (wn_state n) of
           None \<Rightarrow> (Inl [Msg ''route missing''], n, w)
         | Some route \<Rightarrow>
             (case route of
                RouteHelp \<Rightarrow> (Inr (), n, w)
              | RouteContainer p \<Rightarrow> (Inr (), set_form (FormMount p) n, w)
              | RoutePack source output \<Rightarrow> submit V (FormPack source output) n w
              | RouteForm kind \<Rightarrow> submit V kind n w)))"

text \<open>\<open>Path::file_stem\<close>: the name before its last dot, unless that would be empty.\<close>

definition file_stem :: "string \<Rightarrow> string" where
  "file_stem name =
     (let before = rev (drop 1 (dropWhile (\<lambda>c. c \<noteq> CHR ''.'') (rev name))) in
      if name = ''..'' \<or> CHR ''.'' \<notin> set name \<or> before = [] then name else before)"

definition secondary :: "window_env \<Rightarrow> callback" where
  "secondary V n w =
     (if ui_page (wn_ui n) = MOUNTED
      then (Inr (), on_ui (show_overlay ''Unmount CipherFS?'' ''Explorer access to the read-only drive will end.'' ''Unmount'') n, w)
      else if ui_page (wn_ui n) = RESULT then (case quit_event_loop V n of (r, n) \<Rightarrow> (r, n, w))
      else
        (case rt_route (wn_state n) of
           None \<Rightarrow> (Inl [Msg ''route missing''], n, w)
         | Some route \<Rightarrow>
             (case route of
                RouteHelp \<Rightarrow> (Inr (), n, w)
              | RouteContainer p \<Rightarrow>
                  (let name = (case Option.bind (map_option file_stem (path_file_name p)) to_str of
                        Some name \<Rightarrow> name | None \<Rightarrow> ''extracted'') in
                   case wv_owner V of
                     Inl e \<Rightarrow> (Inl e, n, w)
                   | Inr _ \<Rightarrow>
                       (case wv_extract_dialog V name of
                          Inr (Selected output) \<Rightarrow> (Inr (), set_form (FormExtract p output) n, w)
                        | Inr Dismissed \<Rightarrow> (Inr (), act DialogCancelled n, w)
                        | Inl e \<Rightarrow> (Inl e, act (DialogFailed (display_chain e)) n, w)))
              | _ \<Rightarrow>
                  (let back = back_route route
                    in (Inr (), on_ui (show_route back) (on_state (\<lambda>s. s\<lparr>rt_route := Some back\<rparr>) n), w)))))"

definition tertiary :: callback where
  "tertiary n w =
     (case rt_route (wn_state n) of
        None \<Rightarrow> (Inl [Msg ''route missing''], n, w)
      | Some (RouteContainer p) \<Rightarrow> (Inr (), set_form (FormVerify p) n, w)
      | Some _ \<Rightarrow> (Inr (), n, w))"

definition quaternary :: callback where
  "quaternary n w =
     (case rt_route (wn_state n) of
        None \<Rightarrow> (Inl [Msg ''route missing''], n, w)
      | Some (RouteContainer p) \<Rightarrow> (Inr (), set_form (FormChangePassword p) n, w)
      | Some _ \<Rightarrow> (Inr (), n, w))"

definition choose_output :: "window_env \<Rightarrow> path \<Rightarrow> path \<Rightarrow> callback" where
  "choose_output V source output n w =
     (case bindE (wv_owner V) (\<lambda>_. wv_pack_dialog V output) of
        Inl e \<Rightarrow> (Inl e, n, w)
      | Inr (Selected chosen) \<Rightarrow> (Inr (), set_form (FormPack source chosen) n, w)
      | Inr Dismissed \<Rightarrow> (Inr (), n, w))"

definition choose_path :: "window_env \<Rightarrow> callback" where
  "choose_path V n w =
     (case rt_route (wn_state n) of
        None \<Rightarrow> (Inl [Msg ''route missing''], n, w)
      | Some (RouteForm (FormPack source output)) \<Rightarrow> choose_output V source output n w
      | Some (RoutePack source output) \<Rightarrow> choose_output V source output n w
      | Some _ \<Rightarrow> (Inr (), n, w))"

text \<open>\<open>configure_callbacks\<close>: an error of a callback is shown.\<close>

definition reporting_errors :: "callback \<Rightarrow> window \<Rightarrow> world \<Rightarrow> window \<times> world" where
  "reporting_errors f n w =
     (case f n w of
        (Inl e, n, w) \<Rightarrow> (on_ui (show_error (display_chain e)) n, w)
      | (Inr _, n, w) \<Rightarrow> (n, w))"

text \<open>\<open>written\<close> is the answer of the worker's pipe to a \<open>Cancel\<close> frame.\<close>

definition cancel_pressed :: "unit result \<Rightarrow> window \<Rightarrow> window" where
  "cancel_pressed written n =
     (let n = act CancelPressed n in
      case rt_operation (wn_state n) of
        None \<Rightarrow> n
      | Some op \<Rightarrow>
          (case request_cancel written op of
             (r, op) \<Rightarrow>
               let n = on_state (\<lambda>s. s\<lparr>rt_operation := Some op\<rparr>) n in
               (case r of
                  Inr True \<Rightarrow>
                    on_ui (show_overlay ''Force close operation worker?''
                      ''The worker is still waiting for a safe boundary. Only its exact recorded temporary artifact will be removed.''
                      ''Force close'') n
                | Inr False \<Rightarrow>
                    on_ui (\<lambda>u. u\<lparr>ui_detail := ''Cancelling safely... Click Cancel again to request force close.''\<rparr>) n
                | Inl e \<Rightarrow> on_ui (show_error (display_chain e)) n)))"

definition confirm_overlay :: "unit result \<Rightarrow> window \<Rightarrow> window" where
  "confirm_overlay written n =
     (let n = on_ui (\<lambda>u. u\<lparr>ui_overlay_visible := False\<rparr>) n in
      case rt_operation (wn_state n) of
        Some op \<Rightarrow>
          on_state (\<lambda>s. s\<lparr>rt_operation := Some (confirm_overlay_operation (ui_overlay_confirm_label (wn_ui n)) written op)\<rparr>) n
      | None \<Rightarrow>
          (case rt_mount (wn_state n) of
             None \<Rightarrow> n
           | Some mount \<Rightarrow>
               (on_ui (\<lambda>u. u\<lparr>ui_page := PROGRESS, ui_heading := ''Unmounting CipherFS'', ui_cancel_enabled := False\<rparr>)
                 (on_state (\<lambda>s. s\<lparr>rt_mount := None\<rparr>) n))\<lparr>wn_thread := Some (Unmounting mount)\<rparr>))"

text \<open>A request to close the window, by the window's own button or by the system: whether it stays open.\<close>

definition close_requested :: "window \<Rightarrow> bool \<times> window" where
  "close_requested n =
     (if rt_mount (wn_state n) \<noteq> None
      then (True, on_ui (show_overlay ''Unmount CipherFS?'' ''Explorer access to the read-only drive will end.'' ''Unmount'') n)
      else
        (case rt_operation (wn_state n) of
           Some op \<Rightarrow>
             (True,
              if oh_protected op
              then on_ui (show_overlay ''CipherFS is finishing''
                ''The completed result is being committed and cannot be cancelled safely.'' ''Keep open'') n
              else on_ui (show_overlay ''Cancel operation?''
                ''Request safe cancellation before closing CipherFS.'' ''Cancel operation'') n)
         | None \<Rightarrow> (False, n)))"

definition toggle_duress :: "ui \<Rightarrow> ui" where
  "toggle_duress u = u\<lparr>ui_show_duress := \<not> ui_show_duress u\<rparr>"

section \<open>Events and threads\<close>

definition window_event :: "controller_event \<Rightarrow> window \<Rightarrow> window" where
  "window_event ev n = (case ev of
     CtlPhase p \<Rightarrow> on_ui (\<lambda>u. u\<lparr>ui_detail := phase_text p\<rparr>) n
   | CtlProgress p completed all_bytes \<Rightarrow>
       on_ui (\<lambda>u. u\<lparr>ui_detail := progress_text p completed all_bytes,
         ui_progress_value := if all_bytes = 0 then None else Some (completed, all_bytes)\<rparr>) n
   | CtlWarning message \<Rightarrow> on_ui (\<lambda>u. u\<lparr>ui_detail := ''Warning: '' @ message\<rparr>) n
   | CtlProtected \<Rightarrow>
       on_ui (\<lambda>u. u\<lparr>ui_cancel_enabled := False,
           ui_detail := ''Committing the completed result. This short step cannot be cancelled safely.''\<rparr>)
         (act OperationProtected n)
   | CtlFinished r \<Rightarrow>
       (let n = on_state (\<lambda>s. s\<lparr>rt_operation := None\<rparr>) (act (OperationFinished r) n) in
        case r of
          Inr _ \<Rightarrow> on_ui (show_result (wn_success n)) n
        | Inl e \<Rightarrow>
            if e = ''Operation cancelled'' then on_ui (show_result ''Operation cancelled safely.'') n
            else on_ui (show_error e) n))"

text \<open>The mounting thread, then the closure it posts; the failure to open Explorer is ignored.\<close>

definition mount_finished :: "window_env \<Rightarrow> mount_worker result \<Rightarrow> window \<Rightarrow> window" where
  "mount_finished V r n =
     (case r of
        Inr mount \<Rightarrow>
          (snd (shell_open V (display_path (mw_path mount)) (on_state (\<lambda>s. s\<lparr>rt_mount := Some mount\<rparr>) (act MountReady n))))
            \<lparr>wn_thread := None, wn_posted := wn_posted n @ [ShowMounted (mw_path mount)]\<rparr>
      | Inl e \<Rightarrow>
          (let message = ''Mount failed: '' @ display_chain e in
           (act (MountFailed message) n)\<lparr>wn_thread := None, wn_posted := wn_posted n @ [ShowError message]\<rparr>))"

definition unmount_finished :: "unit result \<Rightarrow> window \<Rightarrow> window" where
  "unmount_finished r n =
     (case r of
        Inr _ \<Rightarrow> (act (Unmounted (Inr ())) n)\<lparr>wn_thread := None, wn_posted := wn_posted n @ [ShowResult ''Container unmounted.'']\<rparr>
      | Inl e \<Rightarrow> (act (Unmounted (Inl (display_chain e))) n)
          \<lparr>wn_thread := None, wn_posted := wn_posted n @ [ShowError (display_chain e)]\<rparr>)"

definition show_posted :: "posted \<Rightarrow> ui \<Rightarrow> ui" where
  "show_posted p u = (case p of
     ShowMounted path \<Rightarrow>
       u\<lparr>ui_page := MOUNTED, ui_heading := ''CipherFS mounted'',
         ui_detail := ''The read-only drive remains mounted while this window is open.'',
         ui_path_text := display_path path, ui_primary_label := ''Open in Explorer'', ui_secondary_label := ''Unmount''\<rparr>
   | ShowResult message \<Rightarrow> show_result message u
   | ShowError message \<Rightarrow> show_error message u)"

section \<open>The window as a state machine\<close>

definition window_start :: "route \<Rightarrow> ui \<Rightarrow> window" where
  "window_start route u =
     \<lparr>wn_ui = show_route route u, wn_state = runtime_state_new route, wn_success = [], wn_requests = [],
      wn_thread = None, wn_posted = [], wn_opened = [], wn_quit = False\<rparr>"

text \<open>The buttons of each page.\<close>

definition has_primary :: "ui \<Rightarrow> bool" where
  "has_primary u \<longleftrightarrow> ui_page u \<in> {HELP, ACTIONS, FORM, MOUNTED, RESULT, ERROR}"

definition has_secondary :: "ui \<Rightarrow> bool" where
  "has_secondary u \<longleftrightarrow> ui_page u \<in> {HELP, ACTIONS, FORM} \<or> ui_page u \<in> {MOUNTED, RESULT, ERROR} \<and> ui_secondary_label u \<noteq> []"

text \<open>Typing reaches the fields of the form only.\<close>

definition typed_in :: "ui \<Rightarrow> ui \<Rightarrow> bool" where
  "typed_in u u' \<longleftrightarrow>
     (\<exists>a b c d e. u' = u\<lparr>ui_password := a, ui_password_confirm := b, ui_old_password := c, ui_duress_password := d, ui_duress_confirm := e\<rparr>)"

inductive window_step :: "window_env \<Rightarrow> window \<Rightarrow> world \<Rightarrow> window \<Rightarrow> world \<Rightarrow> bool" for V :: window_env where
  press_primary: "has_primary (wn_ui n) \<Longrightarrow> reporting_errors (primary V) n w = (n', w') \<Longrightarrow> window_step V n w n' w'"
| press_secondary: "has_secondary (wn_ui n) \<Longrightarrow> reporting_errors (secondary V) n w = (n', w') \<Longrightarrow> window_step V n w n' w'"
| press_tertiary: "ui_page (wn_ui n) \<in> {HELP, ACTIONS} \<Longrightarrow> reporting_errors tertiary n w = (n', w') \<Longrightarrow> window_step V n w n' w'"
| press_quaternary: "ui_page (wn_ui n) \<in> {HELP, ACTIONS} \<Longrightarrow> reporting_errors quaternary n w = (n', w') \<Longrightarrow> window_step V n w n' w'"
| press_browse: "ui_page (wn_ui n) = FORM \<Longrightarrow> reporting_errors (choose_path V) n w = (n', w') \<Longrightarrow> window_step V n w n' w'"
| press_duress: "ui_page (wn_ui n) = FORM \<Longrightarrow> window_step V n w (on_ui toggle_duress n) w"
| typing: "ui_page (wn_ui n) = FORM \<Longrightarrow> typed_in (wn_ui n) u \<Longrightarrow> window_step V n w (n\<lparr>wn_ui := u\<rparr>) w"
| press_cancel: "ui_page (wn_ui n) = PROGRESS \<Longrightarrow> ui_cancel_enabled (wn_ui n) \<Longrightarrow> window_step V n w (cancel_pressed written n) w"
| overlay_confirm: "ui_overlay_visible (wn_ui n) \<Longrightarrow> window_step V n w (confirm_overlay written n) w"
| overlay_cancel: "ui_overlay_visible (wn_ui n) \<Longrightarrow> window_step V n w (on_ui (\<lambda>u. u\<lparr>ui_overlay_visible := False\<rparr>) n) w"
| closing: "window_step V n w (snd (close_requested n)) w"
| worker_says: "rt_operation (wn_state n) = Some op \<Longrightarrow> handle_step op (WorkerSays read) op' \<Longrightarrow>
    window_step V n w (on_state (\<lambda>s. s\<lparr>rt_operation := Some op'\<rparr>) n) w"
| event: "rt_operation (wn_state n) \<noteq> None \<Longrightarrow> window_step V n w (window_event ev n) w"
| mounted: "wn_thread n = Some Mounting \<Longrightarrow> window_step V n w (mount_finished V r n) w"
| unmounted: "wn_thread n = Some (Unmounting m) \<Longrightarrow> window_step V n w (unmount_finished r' n) w"
| posted: "wn_posted n = p # ps \<Longrightarrow> window_step V n w ((on_ui (show_posted p) n)\<lparr>wn_posted := ps\<rparr>) w"

inductive window_reachable :: "window_env \<Rightarrow> window \<Rightarrow> world \<Rightarrow> bool" for V :: window_env where
  start: "window_reachable V (window_start route u) w"
| step: "window_reachable V n w \<Longrightarrow> window_step V n w n' w' \<Longrightarrow> window_reachable V n' w'"

section \<open>One worker for each window, and no secrets after the form\<close>

definition no_secrets :: "ui \<Rightarrow> bool" where
  "no_secrets u \<longleftrightarrow>
     ui_password u = [] \<and> ui_password_confirm u = [] \<and> ui_old_password u = [] \<and> ui_duress_password u = [] \<and> ui_duress_confirm u = []"

definition form_route :: "route option \<Rightarrow> bool" where
  "form_route r = (case r of Some (RouteForm kind) \<Rightarrow> True | Some (RoutePack source output) \<Rightarrow> True | _ \<Rightarrow> False)"

text \<open>What holds on every page, and what a page adds.\<close>

definition core_inv :: "window \<Rightarrow> bool" where
  "core_inv n \<longleftrightarrow>
     length (wn_requests n) \<le> 1 \<and>
     (wn_requests n \<noteq> [] \<longrightarrow> no_secrets (wn_ui n) \<and> form_route (rt_route (wn_state n))) \<and>
     (wn_requests n = [] \<longrightarrow>
        rt_operation (wn_state n) = None \<and> rt_mount (wn_state n) = None \<and> wn_thread n = None \<and> wn_posted n = [])"

definition page_inv :: "window \<Rightarrow> bool" where
  "page_inv n \<longleftrightarrow>
     (ui_page (wn_ui n) \<in> {HELP, ACTIONS, FORM} \<longrightarrow> wn_requests n = []) \<and>
     (ui_page (wn_ui n) \<in> {MOUNTED, PROGRESS} \<longrightarrow> wn_requests n \<noteq> []) \<and>
     (ui_page (wn_ui n) \<notin> {FORM, ERROR} \<longrightarrow> no_secrets (wn_ui n)) \<and>
     (ui_page (wn_ui n) \<in> {RESULT, ERROR} \<longrightarrow> ui_secondary_label (wn_ui n) = [])"

definition window_inv :: "window \<Rightarrow> bool" where
  "window_inv n \<longleftrightarrow> core_inv n \<and> page_inv n \<and> app_reachable (rt_controller (wn_state n))"

text \<open>The parts of the window a callback reads.\<close>

lemma act_simps [simp]:
  "wn_ui (act a n) = wn_ui n" "wn_requests (act a n) = wn_requests n" "wn_thread (act a n) = wn_thread n"
  "wn_posted (act a n) = wn_posted n" "wn_success (act a n) = wn_success n" "rt_route (wn_state (act a n)) = rt_route (wn_state n)"
  "rt_operation (wn_state (act a n)) = rt_operation (wn_state n)" "rt_mount (wn_state (act a n)) = rt_mount (wn_state n)"
  by (simp_all add: act_def)

lemma act_controller [simp]: "app_reachable (rt_controller (wn_state n)) \<Longrightarrow> app_reachable (rt_controller (wn_state (act a n)))"
  by (simp add: act_def) (meson app_reachable.step surjective_pairing)

lemma no_secrets_simps [simp]:
  "no_secrets (clear_secrets u)" "no_secrets (show_result m u) = no_secrets u" "no_secrets (show_error m u) = no_secrets u"
  "no_secrets (show_overlay a b c u) = no_secrets u"
  by (simp_all add: no_secrets_def clear_secrets_def show_result_def show_error_def show_overlay_def)

lemma page_simps [simp]:
  "ui_page (clear_secrets u) = ui_page u" "ui_page (show_result m u) = RESULT" "ui_page (show_error m u) = ERROR"
  "ui_page (show_overlay a b c u) = ui_page u" "ui_page (show_form kind u) = FORM"
  "ui_secondary_label (show_result m u) = []" "ui_secondary_label (show_error m u) = []"
  "ui_secondary_label (show_overlay a b c u) = ui_secondary_label u"
  by (simp_all add: clear_secrets_def show_result_def show_error_def show_overlay_def show_form_def Let_def split: form_kind.split)

lemma show_route_page:
  "ui_page (show_route route u) \<in> {HELP, ACTIONS, FORM} \<and> (ui_page (show_route route u) \<noteq> FORM \<longrightarrow> no_secrets (show_route route u))"
  by (cases route) (simp_all add: show_route_def Let_def no_secrets_def clear_secrets_def)

text \<open>An idle window stays idle when it shows another route.\<close>

lemma show_route_inv:
  assumes "core_inv n" "wn_requests n = []" "app_reachable (rt_controller (wn_state n))"
    and "wn_requests n' = []" "wn_ui n' = show_route route (wn_ui n)" "rt_operation (wn_state n') = None"
    and "rt_mount (wn_state n') = None" "wn_thread n' = None" "wn_posted n' = []" "app_reachable (rt_controller (wn_state n'))"
  shows "window_inv n'"
proof -
  have "core_inv n'" using assms by (simp add: core_inv_def)
  moreover have "page_inv n'"
    using show_route_page [of route "wn_ui n"] assms(4,5) by (auto simp: page_inv_def page_defs)
  ultimately show ?thesis using assms(10) by (simp add: window_inv_def)
qed

lemma set_form_inv:
  assumes "core_inv n" "wn_requests n = []" "app_reachable (rt_controller (wn_state n))"
  shows "window_inv (set_form kind n)"
  by (rule show_route_inv [OF assms, of _ "RouteForm kind"])
    (use assms in \<open>simp_all add: set_form_def Let_def core_inv_def\<close>)

section \<open>Each callback\<close>

text \<open>A callback keeps the invariant; when it fails, what it leaves keeps the part that holds on every page.\<close>

definition callback_ok :: "callback \<Rightarrow> window \<Rightarrow> bool" where
  "callback_ok f n \<longleftrightarrow>
     (\<forall>w r n' w'. f n w = (r, n', w') \<longrightarrow> core_inv n' \<and> app_reachable (rt_controller (wn_state n')) \<and> (\<forall>u. r = Inr u \<longrightarrow> window_inv n'))"

lemma show_error_inv:
  "core_inv n \<Longrightarrow> app_reachable (rt_controller (wn_state n)) \<Longrightarrow> window_inv (on_ui (show_error m) n)"
  by (simp add: window_inv_def core_inv_def page_inv_def page_defs)

lemma reporting_errors_inv:
  assumes "callback_ok f n" "reporting_errors f n w = (n', w')"
  shows "window_inv n'"
proof -
  obtain r n1 w1 where f: "f n w = (r, n1, w1)" by (metis prod_cases3)
  with assms(1) have "core_inv n1" "app_reachable (rt_controller (wn_state n1))" "\<forall>u. r = Inr u \<longrightarrow> window_inv n1"
    by (auto simp: callback_ok_def)
  with assms(2) f show ?thesis by (cases r) (auto simp: reporting_errors_def intro: show_error_inv)
qed

lemma window_invD:
  assumes "window_inv n"
  shows "core_inv n" "page_inv n" "app_reachable (rt_controller (wn_state n))"
  using assms by (simp_all add: window_inv_def)

text \<open>Opening something and quitting change neither page nor state.\<close>

lemma window_inv_outside [simp]:
  "window_inv (n\<lparr>wn_opened := xs\<rparr>) = window_inv n" "window_inv (n\<lparr>wn_quit := b\<rparr>) = window_inv n"
  by (simp_all add: window_inv_def core_inv_def page_inv_def)

lemma shell_open_inv:
  assumes "shell_open V target n = (r, n')" "window_inv n" shows "window_inv n'"
  using assms by (cases "wv_shell_open V target") (simp_all add: shell_open_def, metis window_inv_outside(1))

lemma quit_inv:
  assumes "quit_event_loop V n = (r, n')" "window_inv n" shows "window_inv n'"
  using assms by (cases "wv_quit V") (simp_all add: quit_event_loop_def, metis window_inv_outside(2))

text \<open>An operation is started from a cleared form only, and then there is one request.\<close>

lemma started_inv:
  assumes "wn_requests n = []" "form_route (rt_route (wn_state n))" "no_secrets (wn_ui n)" "core_inv n"
    and "app_reachable (rt_controller (wn_state n))"
  shows "start_operation V operation artifact title success n = (r, n') \<Longrightarrow>
      core_inv n' \<and> app_reachable (rt_controller (wn_state n')) \<and> (\<forall>u. r = Inr u \<longrightarrow> window_inv n')"
    and "start_mount container password n = (r, n') \<Longrightarrow> window_inv n'"
proof -
  show "start_operation V operation artifact title success n = (r, n') \<Longrightarrow>
      core_inv n' \<and> app_reachable (rt_controller (wn_state n')) \<and> (\<forall>u. r = Inr u \<longrightarrow> window_inv n')"
    using assms
    by (cases "operation_start (wv_spawn V operation) artifact")
      (auto simp: start_operation_def Let_def window_inv_def core_inv_def page_inv_def page_defs no_secrets_def)
  show "start_mount container password n = (r, n') \<Longrightarrow> window_inv n'"
    using assms by (auto simp: start_mount_def window_inv_def core_inv_def page_inv_def page_defs no_secrets_def)
qed

lemma submit_fields:
  assumes "submit V kind n w = (r, n', w')"
  shows "no_secrets (wn_ui n')"
proof -
  have s: "no_secrets (wn_ui n2)" if "start_operation V a b c d m = (r2, n2)" "no_secrets (wn_ui m)" for a b c d m r2 n2
    using that by (auto simp: start_operation_def Let_def no_secrets_def split: sum.splits)
  have m: "no_secrets (wn_ui n2)" if "start_mount a b m = (r2, n2)" "no_secrets (wn_ui m)" for a b m r2 n2
    using that by (auto simp: start_mount_def no_secrets_def)
  show ?thesis
    using assms unfolding submit_def Let_def
    by (auto split: sum.splits prod.splits form_kind.splits dest!: s m)
qed

lemma submit_ok:
  assumes "window_inv n" "form_route (rt_route (wn_state n))"
    and "ui_page (wn_ui n) = FORM \<or> wn_requests n \<noteq> []"
  shows "callback_ok (submit V kind) n"
  unfolding callback_ok_def
proof (intro allI impI)
  fix w r n' w' assume run: "submit V kind n w = (r, n', w')"
  let ?n = "on_ui clear_secrets n"
  have core: "core_inv ?n" and app: "app_reachable (rt_controller (wn_state ?n))"
    using assms by (auto simp: window_inv_def core_inv_def)
  show "core_inv n' \<and> app_reachable (rt_controller (wn_state n')) \<and> (\<forall>u. r = Inr u \<longrightarrow> window_inv n')"
  proof (cases "ui_password (wn_ui n) = []")
    case True
    with run core app show ?thesis by (auto simp: submit_def Let_def ensure_def ensureE_def)
  next
    case False
    then have req: "wn_requests ?n = []" using assms(1,3) by (auto simp: window_inv_def core_inv_def page_inv_def no_secrets_def)
    have pre: "form_route (rt_route (wn_state ?n))" "no_secrets (wn_ui ?n)" using assms(2) by simp_all
    obtain x w1 where plan: "plan_operation kind (wn_ui n) w = (x, w1)" by fastforce
    show ?thesis
    proof (cases x)
      case (Inl e)
      with run False core app plan show ?thesis by (auto simp: submit_def Let_def ensure_def ensureE_def)
    next
      case (Inr y)
      obtain operation artifact title success where y: "y = (operation, artifact, title, success)" by (metis prod_cases4)
      show ?thesis
      proof (cases "\<exists>container. kind = FormMount container")
        case True
        with run False plan Inr y obtain container where "start_mount container (ui_password (wn_ui n)) ?n = (r, n')"
          by (auto simp: submit_def Let_def ensure_def ensureE_def split: prod.splits)
        from started_inv(2) [OF req pre core app this] show ?thesis by (simp add: window_inv_def)
      next
        case other: False
        with run False plan Inr y have "start_operation V operation artifact title success ?n = (r, n')"
          by (cases kind) (auto simp: submit_def Let_def ensure_def ensureE_def split: prod.splits)
        from started_inv(1) [OF req pre core app this] show ?thesis .
      qed
    qed
  qed
qed

text \<open>Pages that are not a form, actions or help have left their route behind.\<close>

lemma callback_okI:
  assumes "window_inv n" "\<And>w r n' w'. f n w = (r, n', w') \<Longrightarrow> window_inv n'"
  shows "callback_ok f n"
  using assms unfolding callback_ok_def window_inv_def by blast

lemma idle_requests: "page_inv n \<Longrightarrow> ui_page (wn_ui n) \<in> {HELP, ACTIONS, FORM} \<Longrightarrow> wn_requests n = []"
  by (auto simp: page_inv_def)

lemma primary_ok:
  assumes inv: "window_inv n" and page: "has_primary (wn_ui n)"
  shows "callback_ok (primary V) n"
proof -
  note i = window_invD [OF inv]
  let ?u = "wn_ui n"
  have open_ok: "callback_ok (\<lambda>n w. case shell_open V target n of (r, n) \<Rightarrow> (r, n, w)) n" for target
    by (rule callback_okI [OF inv]) (auto split: prod.splits intro: shell_open_inv [OF _ inv])
  have quit_ok: "callback_ok (\<lambda>n w. case quit_event_loop V n of (r, n) \<Rightarrow> (r, n, w)) n"
    by (rule callback_okI [OF inv]) (auto split: prod.splits intro: quit_inv [OF _ inv])
  consider (explorer) "ui_page ?u = MOUNTED \<and> rt_mount (wn_state n) \<noteq> None"
    | (ends) "ui_page ?u = RESULT \<or> ui_page ?u = HELP" | (err) "ui_page ?u = ERROR"
    | (form) "\<not> (ui_page ?u = MOUNTED \<and> rt_mount (wn_state n) \<noteq> None)" "ui_page ?u \<in> {ACTIONS, FORM, MOUNTED}"
    using page by (cases "rt_mount (wn_state n)") (auto simp: has_primary_def page_defs)
  then show ?thesis
  proof cases
    case explorer
    with open_ok show ?thesis unfolding callback_ok_def primary_def Let_def by simp
  next
    case ends
    with quit_ok show ?thesis unfolding callback_ok_def primary_def Let_def by (auto simp: page_defs)
  next
    case err
    with open_ok quit_ok show ?thesis unfolding callback_ok_def primary_def Let_def by (auto simp: page_defs)
  next
    case form
    then have run: "primary V n w = (case rt_route (wn_state n) of
           None \<Rightarrow> (Inl [Msg ''route missing''], n, w)
         | Some route \<Rightarrow>
             (case route of
                RouteHelp \<Rightarrow> (Inr (), n, w)
              | RouteContainer p \<Rightarrow> (Inr (), set_form (FormMount p) n, w)
              | RoutePack source output \<Rightarrow> submit V (FormPack source output) n w
              | RouteForm kind \<Rightarrow> submit V kind n w))" for w
      by (auto simp: primary_def Let_def page_defs)
    have req: "wn_requests n = []" if "\<not> form_route (rt_route (wn_state n))"
      using that i(1) by (auto simp: core_inv_def)
    have sub: "callback_ok (submit V kind) n" if "form_route (rt_route (wn_state n))" for kind
    proof (cases "ui_page ?u = ACTIONS")
      case True
      then have "no_secrets ?u" using i(2) by (auto simp: page_inv_def page_defs)
      then show ?thesis using i by (intro callback_okI [OF inv]) (auto simp: submit_def Let_def no_secrets_def ensure_def ensureE_def
            window_inv_def core_inv_def page_inv_def clear_secrets_def)
    next
      case False
      then show ?thesis using submit_ok [OF inv that] form(2) i(2) by (auto simp: page_inv_def)
    qed
    show ?thesis
    proof (cases "rt_route (wn_state n)")
      case None
      with run i inv show ?thesis by (simp add: callback_ok_def)
    next
      case (Some route)
      show ?thesis
      proof (cases route)
        case RouteHelp
        with run Some i inv show ?thesis by (simp add: callback_ok_def)
      next
        case (RouteContainer p)
        then have "window_inv (set_form (FormMount p) n)" using req Some i by (intro set_form_inv) (simp_all add: form_route_def)
        with run Some RouteContainer show ?thesis by (intro callback_okI [OF inv]) auto
      next
        case (RoutePack source output')
        with sub [of "FormPack source output'"] run Some show ?thesis by (simp add: form_route_def callback_ok_def)
      next
        case (RouteForm kind)
        with sub [of kind] run Some show ?thesis by (simp add: form_route_def callback_ok_def)
      qed
    qed
  qed
qed

lemma act_inv:
  assumes "window_inv n" shows "window_inv (act a n)"
  using assms act_controller [of n a] by (simp add: window_inv_def core_inv_def page_inv_def)

lemma secondary_ok:
  assumes inv: "window_inv n" and page: "has_secondary (wn_ui n)"
  shows "callback_ok (secondary V) n"
proof -
  note i = window_invD [OF inv]
  have overlay: "window_inv (on_ui (show_overlay a b c) n)" for a b c
    using i by (simp add: window_inv_def core_inv_def page_inv_def)
  show ?thesis
  proof (cases "ui_page (wn_ui n) = MOUNTED")
    case True
    with overlay show ?thesis by (intro callback_okI [OF inv]) (auto simp: secondary_def)
  next
    case False
    then have "ui_page (wn_ui n) \<in> {HELP, ACTIONS, FORM}"
      using page i(2) by (auto simp: has_secondary_def page_inv_def)
    then have req: "wn_requests n = []" and notres: "ui_page (wn_ui n) \<noteq> RESULT"
      using idle_requests [OF i(2)] by (auto simp: page_defs)
    show ?thesis
    proof (cases "rt_route (wn_state n)")
      case None
      with False notres inv show ?thesis by (intro callback_okI [OF inv]) (auto simp: secondary_def)
    next
      case (Some route)
      show ?thesis
      proof (cases route)
        case RouteHelp
        with Some False notres inv show ?thesis by (intro callback_okI [OF inv]) (auto simp: secondary_def)
      next
        case (RouteContainer p)
        with Some False notres inv show ?thesis
          by (intro callback_okI [OF inv])
            (auto simp: secondary_def Let_def split: sum.splits dialog_outcome.splits
              intro: set_form_inv [OF i(1) req i(3)] act_inv [OF inv])
      next
        case (RoutePack source output')
        have "window_inv (on_ui (show_route (back_route route)) (on_state (\<lambda>s. s\<lparr>rt_route := Some (back_route route)\<rparr>) n))"
          by (rule show_route_inv [OF i(1) req i(3), of _ "back_route route"]) (use i req in \<open>simp_all add: core_inv_def\<close>)
        with Some False notres RoutePack show ?thesis by (intro callback_okI [OF inv]) (auto simp: secondary_def Let_def)
      next
        case (RouteForm kind)
        have "window_inv (on_ui (show_route (back_route route)) (on_state (\<lambda>s. s\<lparr>rt_route := Some (back_route route)\<rparr>) n))"
          by (rule show_route_inv [OF i(1) req i(3), of _ "back_route route"]) (use i req in \<open>simp_all add: core_inv_def\<close>)
        with Some False notres RouteForm show ?thesis by (intro callback_okI [OF inv]) (auto simp: secondary_def Let_def)
      qed
    qed
  qed
qed

lemma other_callbacks_ok:
  assumes inv: "window_inv n" and page: "ui_page (wn_ui n) \<in> {HELP, ACTIONS, FORM}"
  shows "callback_ok tertiary n" "callback_ok quaternary n" "callback_ok (choose_path V) n"
proof -
  note i = window_invD [OF inv]
  note form = set_form_inv [OF i(1) idle_requests [OF i(2) page] i(3)]
  show "callback_ok tertiary n" "callback_ok quaternary n"
    by (rule callback_okI [OF inv];
        auto simp: tertiary_def quaternary_def inv form split: option.splits route.splits)+
  have "callback_ok (choose_output V source output') n" for source output'
    by (rule callback_okI [OF inv])
      (auto simp: choose_output_def inv form split: sum.splits dialog_outcome.splits)
  then show "callback_ok (choose_path V) n"
    unfolding callback_ok_def choose_path_def
    using i inv by (auto split: option.splits route.splits form_kind.splits)
qed

section \<open>Every reachable window\<close>

lemma operation_requests: "core_inv n \<Longrightarrow> rt_operation (wn_state n) \<noteq> None \<Longrightarrow> wn_requests n \<noteq> []"
  "core_inv n \<Longrightarrow> wn_thread n \<noteq> None \<Longrightarrow> wn_requests n \<noteq> []"
  "core_inv n \<Longrightarrow> wn_posted n \<noteq> [] \<Longrightarrow> wn_requests n \<noteq> []"
  by (auto simp: core_inv_def)

text \<open>Steps that change neither the page nor the fields of the form, and steps to a page of a running operation.\<close>

definition same_face :: "ui \<Rightarrow> ui \<Rightarrow> bool" where
  "same_face u u' \<longleftrightarrow> ui_page u' = ui_page u \<and> (no_secrets u \<longrightarrow> no_secrets u') \<and> ui_secondary_label u' = ui_secondary_label u"

lemma same_face_inv:
  assumes "window_inv n" "same_face (wn_ui n) u"
  shows "window_inv (n\<lparr>wn_ui := u\<rparr>)"
  using assms by (auto simp: window_inv_def core_inv_def page_inv_def same_face_def)

lemma busy_face_inv:
  assumes "core_inv n" "app_reachable (rt_controller (wn_state n))" "wn_requests n \<noteq> []"
    and "ui_page u \<notin> {HELP, ACTIONS, FORM}" "no_secrets u" "ui_page u \<in> {RESULT, ERROR} \<Longrightarrow> ui_secondary_label u = []"
  shows "window_inv (n\<lparr>wn_ui := u\<rparr>)"
  using assms by (auto simp: window_inv_def core_inv_def page_inv_def page_defs)

lemma busy_state_inv:
  assumes "window_inv n" "wn_requests n \<noteq> []"
  shows "window_inv (on_state (\<lambda>s. s\<lparr>rt_operation := x\<rparr>) n)" "window_inv (on_state (\<lambda>s. s\<lparr>rt_mount := y\<rparr>) n)"
    "window_inv (n\<lparr>wn_thread := z\<rparr>)" "window_inv (n\<lparr>wn_posted := ps\<rparr>)"
  using assms by (simp_all add: window_inv_def core_inv_def page_inv_def)

lemma close_requested_inv: "window_inv n \<Longrightarrow> window_inv (snd (close_requested n))"
  by (auto simp: close_requested_def same_face_def show_overlay_def no_secrets_def intro!: same_face_inv split: option.split)

lemma cancel_inv:
  assumes inv: "window_inv n"
  shows "window_inv (cancel_pressed written n)"
proof (cases "rt_operation (wn_state n)")
  case None
  with act_inv [OF inv] show ?thesis by (simp add: cancel_pressed_def Let_def)
next
  case (Some op)
  let ?n = "act CancelPressed n"
  obtain r op' where r: "request_cancel written op = (r, op')" by fastforce
  let ?m = "on_state (\<lambda>s. s\<lparr>rt_operation := Some op'\<rparr>) ?n"
  have m: "window_inv ?m"
    using busy_state_inv(1) [OF act_inv [OF inv]] operation_requests(1) window_invD(1) [OF inv] Some by simp
  show ?thesis
  proof (cases r)
    case (Inl e)
    with Some r show_error_inv [OF window_invD(1) [OF m] window_invD(3) [OF m]] show ?thesis by (simp add: cancel_pressed_def Let_def)
  next
    case (Inr b)
    have "window_inv (on_ui (show_overlay a c d) ?m)" "window_inv (on_ui (\<lambda>u. u\<lparr>ui_detail := t\<rparr>) ?m)" for a c d t
      by (rule same_face_inv [OF m]; simp add: same_face_def show_overlay_def no_secrets_def)+
    with Some r Inr show ?thesis by (cases b) (simp_all add: cancel_pressed_def Let_def)
  qed
qed

lemma confirm_overlay_inv:
  assumes inv: "window_inv n"
  shows "window_inv (confirm_overlay written n)"
proof -
  let ?n = "on_ui (\<lambda>u. u\<lparr>ui_overlay_visible := False\<rparr>) n"
  have n: "window_inv ?n" by (rule same_face_inv [OF inv]) (simp add: same_face_def no_secrets_def)
  show ?thesis
  proof (cases "rt_operation (wn_state n)")
    case (Some op)
    then have "wn_requests ?n \<noteq> []" using operation_requests(1) window_invD(1) [OF inv] by simp
    from busy_state_inv(1) [OF n this] Some show ?thesis by (simp add: confirm_overlay_def Let_def)
  next
    case None
    show ?thesis
    proof (cases "rt_mount (wn_state n)")
      case None': None
      with None n show ?thesis by (simp add: confirm_overlay_def Let_def)
    next
      case (Some mount)
      then have req: "wn_requests ?n \<noteq> []" using window_invD(1) [OF inv] by (auto simp: core_inv_def)
      let ?m = "on_state (\<lambda>s. s\<lparr>rt_mount := None\<rparr>) ?n"
      have m: "window_inv ?m" by (rule busy_state_inv(2) [OF n req])
      have "no_secrets (wn_ui ?m)" using window_invD(1) [OF m] req by (simp add: core_inv_def)
      then have "window_inv (on_ui (\<lambda>u. u\<lparr>ui_page := PROGRESS, ui_heading := ''Unmounting CipherFS'', ui_cancel_enabled := False\<rparr>) ?m)"
        using req by (intro busy_face_inv window_invD [OF m]) (simp_all add: page_defs no_secrets_def)
      from busy_state_inv(3) [OF this] req None Some show ?thesis by (simp add: confirm_overlay_def Let_def)
    qed
  qed
qed

lemma window_event_inv:
  assumes inv: "window_inv n" and op: "rt_operation (wn_state n) \<noteq> None"
  shows "window_inv (window_event ev n)"
proof -
  have req: "wn_requests n \<noteq> []" using operation_requests(1) window_invD(1) [OF inv] op by simp
  have detail: "window_inv (on_ui (\<lambda>u. u\<lparr>ui_detail := t\<rparr>) m)" "window_inv (on_ui (\<lambda>u. u\<lparr>ui_detail := t, ui_progress_value := v\<rparr>) m)"
    "window_inv (on_ui (\<lambda>u. u\<lparr>ui_cancel_enabled := b, ui_detail := t\<rparr>) m)" if "window_inv m" for t v b m
    by (rule same_face_inv [OF that]; simp add: same_face_def no_secrets_def)+
  have fin: "window_inv (on_ui (show_result t) (on_state (\<lambda>s. s\<lparr>rt_operation := None\<rparr>) (act a n)))"
    "window_inv (on_ui (show_error t) (on_state (\<lambda>s. s\<lparr>rt_operation := None\<rparr>) (act a n)))" for t a
  proof -
    have m: "window_inv (on_state (\<lambda>s. s\<lparr>rt_operation := None\<rparr>) (act a n))"
      using busy_state_inv(1) [OF act_inv [OF inv]] req by simp
    have "no_secrets (wn_ui n)" using window_invD(1) [OF inv] req by (simp add: core_inv_def)
    then show "window_inv (on_ui (show_result t) (on_state (\<lambda>s. s\<lparr>rt_operation := None\<rparr>) (act a n)))"
      using req by (intro busy_face_inv window_invD [OF m]) (simp_all add: page_defs)
    show "window_inv (on_ui (show_error t) (on_state (\<lambda>s. s\<lparr>rt_operation := None\<rparr>) (act a n)))"
      by (rule show_error_inv; rule window_invD [OF m])
  qed
  show ?thesis
    using detail(3) [OF act_inv [OF inv], simplified] fin [simplified]
    by (cases ev) (simp_all add: window_event_def Let_def detail inv split: sum.split)
qed

lemma mount_finished_inv:
  assumes inv: "window_inv n" and req: "wn_requests n \<noteq> []"
  shows "window_inv (mount_finished V r n)"
proof (cases r)
  case (Inl e)
  have "window_inv ((act a n)\<lparr>wn_thread := None, wn_posted := ps\<rparr>)" for a ps
    using busy_state_inv(3,4) [OF act_inv [OF inv]] req busy_state_inv(4) [OF busy_state_inv(3) [OF act_inv [OF inv]]] by simp
  with Inl show ?thesis by (simp add: mount_finished_def Let_def)
next
  case (Inr mount)
  let ?m = "on_state (\<lambda>s. s\<lparr>rt_mount := Some mount\<rparr>) (act MountReady n)"
  have m: "window_inv ?m" using busy_state_inv(2) [OF act_inv [OF inv]] req by simp
  obtain x n1 where o: "shell_open V (display_path (mw_path mount)) ?m = (x, n1)" by fastforce
  have n1: "window_inv n1" by (rule shell_open_inv [OF o m])
  have "wn_requests n1 \<noteq> []" using o req by (auto simp: shell_open_def split: sum.splits)
  from busy_state_inv(4) [OF busy_state_inv(3) [OF n1 this]] this Inr o show ?thesis by (simp add: mount_finished_def)
qed

lemma unmount_finished_inv:
  assumes inv: "window_inv n" and req: "wn_requests n \<noteq> []"
  shows "window_inv (unmount_finished r n)"
proof -
  have "window_inv ((act a n)\<lparr>wn_thread := None, wn_posted := ps\<rparr>)" for a ps
    using req busy_state_inv(4) [OF busy_state_inv(3) [OF act_inv [OF inv]]] by simp
  then show ?thesis by (simp add: unmount_finished_def split: sum.split)
qed

lemma show_posted_inv:
  assumes inv: "window_inv n" and req: "wn_requests n \<noteq> []"
  shows "window_inv ((on_ui (show_posted p) n)\<lparr>wn_posted := ps\<rparr>)"
proof -
  have "no_secrets (wn_ui n)" using window_invD(1) [OF inv] req by (simp add: core_inv_def)
  then have "window_inv (on_ui (show_posted p) n)"
    using req by (intro busy_face_inv window_invD [OF inv])
      (cases p; auto simp: show_posted_def page_defs no_secrets_def show_result_def show_error_def)+
  from busy_state_inv(4) [OF this] req show ?thesis by simp
qed

lemma window_step_inv: "window_step V n w n' w' \<Longrightarrow> window_inv n \<Longrightarrow> window_inv n'"
proof (induction rule: window_step.induct)
  case (press_primary n w n' w')
  then show ?case using reporting_errors_inv [OF primary_ok] by blast
next
  case (press_secondary n w n' w')
  then show ?case using reporting_errors_inv [OF secondary_ok] by blast
next
  case (press_tertiary n w n' w')
  then show ?case using reporting_errors_inv [OF other_callbacks_ok(1)] by blast
next
  case (press_quaternary n w n' w')
  then show ?case using reporting_errors_inv [OF other_callbacks_ok(2)] by blast
next
  case (press_browse n w n' w')
  then show ?case using reporting_errors_inv [OF other_callbacks_ok(3)] by blast
next
  case (press_duress n w)
  then show ?case by (intro same_face_inv) (simp_all add: same_face_def toggle_duress_def no_secrets_def)
next
  case (typing n u w)
  then have "ui_page u = FORM" "ui_secondary_label u = ui_secondary_label (wn_ui n)" by (auto simp: typed_in_def)
  moreover have "wn_requests n = []" using typing idle_requests window_invD(2) by auto
  ultimately show ?case using typing by (simp add: window_inv_def core_inv_def page_inv_def page_defs)
next
  case (press_cancel n w written)
  then show ?case by (intro cancel_inv)
next
  case (overlay_confirm n w written)
  then show ?case by (intro confirm_overlay_inv)
next
  case (overlay_cancel n w)
  then show ?case by (intro same_face_inv) (simp_all add: same_face_def no_secrets_def)
next
  case (closing n w)
  then show ?case by (intro close_requested_inv)
next
  case (worker_says n op read op' w)
  then show ?case using busy_state_inv(1) operation_requests(1) window_invD(1) by simp
next
  case (event n w ev)
  then show ?case by (intro window_event_inv)
next
  case (mounted n w r)
  then show ?case using mount_finished_inv operation_requests(2) window_invD(1) by simp
next
  case (unmounted n m w r')
  then show ?case using unmount_finished_inv operation_requests(2) window_invD(1) by simp
next
  case (posted n p ps w)
  then show ?case using show_posted_inv operation_requests(3) window_invD(1) by simp
qed

lemma window_start_inv: "window_inv (window_start route u)"
proof -
  have "core_inv (window_start route u)" by (simp add: core_inv_def window_start_def runtime_state_new_def)
  moreover have "page_inv (window_start route u)"
    using show_route_page [of route u] by (auto simp: page_inv_def window_start_def page_defs)
  ultimately show ?thesis
    using app_reachable.start [of route] by (simp add: window_inv_def window_start_def runtime_state_new_def)
qed

lemma window_reachable_inv: "window_reachable V n w \<Longrightarrow> window_inv n"
  by (induction rule: window_reachable.induct) (auto intro: window_start_inv window_step_inv)

section \<open>What the form lets through\<close>

definition artifact_of :: "worker_operation \<Rightarrow> path option" where
  "artifact_of operation = (case operation of
     OpPack source output temporary password d \<Rightarrow> Some temporary
   | OpExtract container output staging password \<Rightarrow> Some staging
   | _ \<Rightarrow> None)"

text \<open>The operation is the one of the form, its passwords are the typed ones and pass the checks, and
  its private file lies beside the output.\<close>

definition operation_checked :: "form_kind \<Rightarrow> ui \<Rightarrow> worker_operation \<Rightarrow> bool" where
  "operation_checked kind u operation \<longleftrightarrow>
     ui_password u \<noteq> [] \<and>
     (case operation of
        OpPack source output temporary password d \<Rightarrow>
          kind = FormPack source output \<and> password = ui_password u \<and> password = ui_password_confirm u \<and>
          d = (if ui_show_duress u then Some (ui_duress_password u) else None) \<and> d \<noteq> Some password \<and>
          (ui_show_duress u \<longrightarrow> ui_duress_password u = ui_duress_confirm u) \<and> path_parent temporary = path_parent output
      | OpExtract container output staging password \<Rightarrow>
          kind = FormExtract container output \<and> password = ui_password u \<and> path_parent staging = path_parent output
      | OpVerify container password \<Rightarrow> kind = FormVerify container \<and> password = ui_password u
      | OpMount container password \<Rightarrow> kind = FormMount container \<and> password = ui_password u
      | OpChangePassword container old new \<Rightarrow>
          kind = FormChangePassword container \<and> old = ui_old_password u \<and> old \<noteq> [] \<and> new = ui_password u \<and>
          new = ui_password_confirm u)"

lemma plan_checked:
  assumes "plan_operation kind u w = (Inr (operation, artifact, title, success), w')" "ui_password u \<noteq> []"
  shows "operation_checked kind u operation \<and> artifact = artifact_of operation"
proof -
  have beside: "path_parent p = path_parent q" if "random_sibling q b v = (Inr p, v')" for p q b v v'
    using random_sibling_beside [OF that] by (auto simp: path_parent_def)
  show ?thesis
  proof (cases kind)
    case (FormMount c)
    with assms show ?thesis by (auto simp: plan_operation_def Let_def operation_checked_def artifact_of_def returnM_def)
  next
    case (FormVerify c)
    with assms show ?thesis by (auto simp: plan_operation_def Let_def operation_checked_def artifact_of_def returnM_def)
  next
    case (FormChangePassword c)
    with assms show ?thesis
      by (auto simp: plan_operation_def Let_def operation_checked_def artifact_of_def returnM_def bindM_eq_Inr
          validate_new_password_eq_Inr result_simps)
  next
    case (FormExtract c out)
    with assms obtain staging v v' where s: "random_sibling out True v = (Inr staging, v')"
      and op: "operation = OpExtract c out staging (ui_password u)" "artifact = Some staging"
      by (auto simp: plan_operation_def Let_def bindM_eq_Inr returnM_def)
    with FormExtract beside [OF s] assms(2) show ?thesis by (simp add: operation_checked_def artifact_of_def)
  next
    case (FormPack source out)
    with assms obtain d temporary v v' where s: "random_sibling out False v = (Inr temporary, v')"
      and d: "(if ui_show_duress u
              then bindE (validate_new_password (ui_password u) (ui_password_confirm u) (Some (ui_duress_password u, ui_duress_confirm u)))
                (\<lambda>_. Inr (Some (ui_duress_password u)))
              else bindE (validate_new_password (ui_password u) (ui_password_confirm u) None) (\<lambda>_. Inr None)) = Inr d"
      and op: "operation = OpPack source out temporary (ui_password u) d" "artifact = Some temporary"
      by (auto simp: plan_operation_def Let_def bindM_eq_Inr returnM_def)
    from d have "ui_password u = ui_password_confirm u" "d = (if ui_show_duress u then Some (ui_duress_password u) else None)"
      "d \<noteq> Some (ui_password u)" "ui_show_duress u \<longrightarrow> ui_duress_password u = ui_duress_confirm u"
      by (auto simp: result_simps validate_new_password_eq_Inr split: if_splits)
    with FormPack op beside [OF s] assms(2) show ?thesis by (simp add: operation_checked_def artifact_of_def)
  qed
qed

text \<open>Whatever a form ends with, its secrets are gone from the window; a request that was made is checked,
  and the handle of the worker expects exactly the private file of that request.\<close>

lemma submit_checked:
  assumes run: "submit V kind n w = (r, n', w')"
  shows "no_secrets (wn_ui n') \<and>
    (wn_requests n' = wn_requests n \<or>
     (\<exists>operation. wn_requests n' = wn_requests n @ [operation] \<and> operation_checked kind (wn_ui n) operation \<and>
        (rt_operation (wn_state n') = rt_operation (wn_state n) \<or>
         rt_operation (wn_state n') = Some (op_handle_start (artifact_of operation)))))"
proof (cases "ui_password (wn_ui n) = []")
  case True
  with run have "wn_requests n' = wn_requests n" by (auto simp: submit_def Let_def ensure_def ensureE_def)
  with submit_fields [OF run] show ?thesis by blast
next
  case False
  obtain x w1 where plan: "plan_operation kind (wn_ui n) w = (x, w1)" by fastforce
  show ?thesis
  proof (cases x)
    case (Inl e)
    with run False plan have "wn_requests n' = wn_requests n" by (auto simp: submit_def Let_def ensure_def ensureE_def)
    with submit_fields [OF run] show ?thesis by blast
  next
    case (Inr y)
    obtain operation artifact title success where y: "y = (operation, artifact, title, success)" by (metis prod_cases4)
    note c = plan_checked [OF plan [unfolded Inr y] False]
    let ?n = "on_ui clear_secrets n"
    have "wn_requests n' = wn_requests n @ [operation] \<and>
      (rt_operation (wn_state n') = rt_operation (wn_state n) \<or> rt_operation (wn_state n') = Some (op_handle_start (artifact_of operation)))"
    proof (cases "\<exists>container. kind = FormMount container")
      case True
      then obtain container where k: "kind = FormMount container" by blast
      with plan Inr y have "operation = OpMount container (ui_password (wn_ui n))" by (simp add: plan_operation_def Let_def returnM_def)
      moreover from run False plan Inr y k have "start_mount container (ui_password (wn_ui n)) ?n = (r, n')"
        by (auto simp: submit_def Let_def ensure_def ensureE_def split: prod.splits)
      ultimately show ?thesis by (auto simp: start_mount_def)
    next
      case other: False
      with run False plan Inr y have "start_operation V operation artifact title success ?n = (r, n')"
        by (cases kind) (auto simp: submit_def Let_def ensure_def ensureE_def split: prod.splits)
      then show ?thesis using c
        by (cases "fst (wv_spawn V operation)") (auto simp: start_operation_def operation_start_def Let_def)
    qed
    with submit_fields [OF run] c show ?thesis by blast
  qed
qed

section \<open>What goes wrong\<close>

text \<open>A dialog that fails on the form shows the error page and leaves what was typed in the window.\<close>

lemma failed_dialog_keeps_secrets:
  assumes "rt_route (wn_state n) = Some (RoutePack source output')" "wv_owner V = Inr ()" "wv_pack_dialog V output' = Inl e"
    and "reporting_errors (choose_path V) n w = (n', w')"
  shows "ui_page (wn_ui n') = ERROR \<and> ui_password (wn_ui n') = ui_password (wn_ui n)"
  using assms by (auto simp: reporting_errors_def choose_path_def choose_output_def show_error_def)

text \<open>An Explorer that does not open replaces the mounted page by the error page, which has no button to
  unmount, while the mount goes on.\<close>

lemma failed_explorer_hides_mount:
  assumes "ui_page (wn_ui n) = MOUNTED" "rt_mount (wn_state n) = Some m" "wv_shell_open V (display_path (mw_path m)) = Inl e"
    and "reporting_errors (primary V) n w = (n', w')"
  shows "ui_page (wn_ui n') = ERROR \<and> \<not> has_secondary (wn_ui n') \<and> rt_mount (wn_state n') = Some m"
  using assms by (auto simp: reporting_errors_def primary_def shell_open_def show_error_def has_secondary_def page_defs)

end
