(* ===== verification/DemoWindow.thy ===== *)
theory DemoWindow
  imports Demo Window
begin

text \<open>
  A window opened on a container: the user chooses to mount, types a password and submits.
\<close>

definition demo_window_env :: window_env where
  "demo_window_env =
     \<lparr>wv_owner = Inr (), wv_extract_dialog = (\<lambda>_. Inr Dismissed), wv_pack_dialog = (\<lambda>_. Inr Dismissed),
      wv_shell_open = (\<lambda>_. Inr ()), wv_spawn = spawn_worker (Inr ()) True True (\<lambda>_. Inr ()), wv_quit = Inr ()\<rparr>"

definition blank_ui :: ui where
  "blank_ui =
     \<lparr>ui_page = 0, ui_heading = ''CipherFS'', ui_detail = [], ui_path_text = [], ui_primary_label = ''Continue'',
      ui_secondary_label = ''Back'', ui_tertiary_label = [], ui_quaternary_label = [], ui_password = [],
      ui_password_confirm = [], ui_old_password = [], ui_duress_password = [], ui_duress_confirm = [],
      ui_show_duress = False, ui_cancel_enabled = True, ui_progress_value = None, ui_overlay_visible = False,
      ui_overlay_title = [], ui_overlay_detail = [], ui_overlay_confirm_label = ''Confirm''\<rparr>"

definition mount_form :: window where
  "mount_form = set_form (FormMount [''c'']) (window_start (RouteContainer [''c'']) blank_ui)"

definition filled_form :: window where
  "filled_form = mount_form\<lparr>wn_ui := (wn_ui mount_form)\<lparr>ui_password := ''pw''\<rparr>\<rparr>"

lemma demo_start_page: "ui_page (wn_ui (window_start (RouteContainer p) u)) = ACTIONS"
  by (simp add: window_start_def show_route_def Let_def)

lemma demo_form_fields:
  "ui_page (wn_ui mount_form) = FORM" "rt_route (wn_state mount_form) = Some (RouteForm (FormMount [''c'']))"
  "wn_requests mount_form = []"
  by (simp_all add: mount_form_def set_form_def Let_def act_def show_route_def window_start_def)

lemma demo_filled:
  "ui_page (wn_ui filled_form) = FORM" "rt_route (wn_state filled_form) = Some (RouteForm (FormMount [''c'']))"
  "wn_requests filled_form = []" "ui_password (wn_ui filled_form) = ''pw''"
  using demo_form_fields by (simp_all add: filled_form_def)

lemma demo_submit:
  "\<exists>n'. submit demo_window_env (FormMount [''c'']) filled_form demo_world = (Inr (), n', demo_world) \<and>
     wn_requests n' = [OpMount [''c''] ''pw''] \<and> ui_page (wn_ui n') = PROGRESS"
  using demo_filled
  by (simp add: submit_def Let_def ensure_def ensureE_def plan_operation_def returnM_def start_mount_def)

lemma demo_window_reached:
  "\<exists>n. window_reachable demo_window_env n demo_world \<and> wn_requests n = [OpMount [''c''] ''pw''] \<and> ui_page (wn_ui n) = PROGRESS"
proof -
  let ?n0 = "window_start (RouteContainer [''c'']) blank_ui"
  have "primary demo_window_env ?n0 demo_world = (Inr (), mount_form, demo_world)"
    using demo_start_page [of "[''c'']" blank_ui]
    by (simp add: primary_def Let_def page_defs mount_form_def) (simp add: window_start_def runtime_state_new_def)
  then have "window_step demo_window_env ?n0 demo_world mount_form demo_world"
    by (intro window_step.press_primary) (simp_all add: has_primary_def demo_start_page reporting_errors_def)
  from window_reachable.step [OF window_reachable.start this] have 1: "window_reachable demo_window_env mount_form demo_world" .
  have "typed_in (wn_ui mount_form) ((wn_ui mount_form)\<lparr>ui_password := ''pw''\<rparr>)"
    unfolding typed_in_def
    by (rule exI [of _ "''pw''"], rule exI [of _ "ui_password_confirm (wn_ui mount_form)"], rule exI [of _ "ui_old_password (wn_ui mount_form)"],
        rule exI [of _ "ui_duress_password (wn_ui mount_form)"], rule exI [of _ "ui_duress_confirm (wn_ui mount_form)"]) simp
  from window_step.typing [OF demo_form_fields(1) this] have "window_step demo_window_env mount_form demo_world filled_form demo_world"
    by (simp add: filled_form_def)
  from window_reachable.step [OF 1 this] have 2: "window_reachable demo_window_env filled_form demo_world" .
  obtain n' where n': "submit demo_window_env (FormMount [''c'']) filled_form demo_world = (Inr (), n', demo_world)"
    "wn_requests n' = [OpMount [''c''] ''pw'']" "ui_page (wn_ui n') = PROGRESS" using demo_submit by blast
  have "primary demo_window_env filled_form demo_world = submit demo_window_env (FormMount [''c'']) filled_form demo_world"
    using demo_filled by (simp add: primary_def Let_def page_defs)
  with n'(1) have "window_step demo_window_env filled_form demo_world n' demo_world"
    using demo_filled(1) by (intro window_step.press_primary) (simp_all add: has_primary_def reporting_errors_def)
  from window_reachable.step [OF 2 this] n'(2,3) show ?thesis by blast
qed

end
