(* ===== verification/Spec2Isabelle.thy ===== *)
theory Spec2Isabelle
  imports ExtractSafety DemoMounts DemoCli DemoWorker DemoWindow
begin

text \<open>
  CipherFS packs a directory into one encrypted file, mounts it read-only, extracts it, and changes
  its password. The program is the Rust workspace under \<open>src/\<close>: the core library
  (\<open>crates/cipherfs-core\<close>), the mounts (\<open>crates/cipherfs-fuse\<close>, \<open>crates/cipherfs-winfsp\<close>), the updater
  (\<open>crates/cipherfs-update\<close>), the command line (\<open>apps/cipherfs-cli\<close>) and the Windows shell
  (\<open>apps/cipherfs-windows-shell\<close>), a window that runs every operation in a worker process.

  The parts and how they meet. A container is a fixed header, the encrypted index, and the encrypted
  chunks of the files (\<open>v2.rs\<close>). Packing (\<open>pack.rs\<close>) scans a source tree, writes a container under a
  private name, verifies it and renames it. Opening reads and checks the header, unlocks the data key
  through one of two key slots or meets the duress slot, and decrypts and checks the index. Reading
  (\<open>readonly_fs.rs\<close>) serves ranges of files through a chunk cache; extraction (\<open>extract.rs\<close>) writes the
  tree through directory handles (\<open>safe_fs.rs\<close>) into a staging directory and renames it. The shell
  sends an operation to its worker as a frame (\<open>protocol.rs\<close>), reads its events
  (\<open>operation_controller.rs\<close>) and drives the window (\<open>controller.rs\<close>).

  Conventions. A fallible function returns \<open>Inl\<close> of a chain of causes (\<open>anyhow::Error\<close>, its contexts
  outermost first) or \<open>Inr\<close> of its value. Code that touches the disk, the random source, the
  cancellation token or the reporter is a state transformer on the \<open>world\<close> of theory World: the disk
  maps absolute paths to nodes, \<open>w_fault\<close> decides which system call fails, \<open>w_cancelled\<close> when the token
  is set, \<open>w_random\<close> the random bytes, and the events reported so far are kept in order. So a theorem
  over all worlds covers every failing call and every moment of cancellation. Machine integers are
  words, with the checked and saturating arithmetic of the source written out; a byte of text is a
  \<open>char\<close>. Cryptography (XChaCha20-Poly1305, Argon2id, HKDF, SHA-256), the postcard codec of header and
  index, and the codec of the worker messages are not under \<open>src/\<close>: the record \<open>prims\<close> has them as
  parameters, and \<open>aead_ok\<close>, \<open>argon_total\<close>, \<open>hkdf_ok\<close>, \<open>digest_ok\<close>, \<open>header_codec_ok\<close>, \<open>header_encoder_ok\<close>
  and \<open>index_codec_ok\<close> state what the code relies on (decryption inverts encryption and accepts nothing
  else, lengths, totality, round trips). Theory Instance has concrete functions that satisfy all of
  them. Demo, DemoCalm, DemoPack, DemoNames, DemoMounts, DemoWorker, DemoCli and DemoWindow have the
  containers, worlds, hosts and windows on which every property is applied. The kernel's reply
  buffers, the WinFsp host, the HTTP client, minisign, semantic versions, the terminal and the native
  dialogs are parameters too, each a record with the laws a theorem needs written in its hypotheses.

  Theories, in the order they build on each other.
  \<^item> Prelude, Text: option, list and word lemmas; errors; the text functions of the standard library.
  \<^item> Operation (\<open>operation.rs\<close>, \<open>parallel.rs\<close>): events, error kinds, the progress tracker. PlatformIo
    (\<open>platform_io.rs\<close>): the retry loops of positional reads and writes, as locales over any platform
    that may transfer less than asked, interpreted on file contents.
  \<^item> World: the disk, the system calls of the standard library and of cap-std the code uses, and the
    state transformers. Calm, CalmContainer, CalmScan, CalmExtract: a calculus for total correctness on
    worlds where no call fails and nobody cancels, with one rule per call.
  \<^item> V2Format, V2Keys, V2Unlock, V2Index, V2Chunks, V2Container (\<open>v2.rs\<close>), FormatDetect (\<open>format.rs\<close>):
    constants and header check; key derivation and associated data; unlocking; the index check and the
    well-formed trees it accepts (\<open>index_ok\<close>); chunks and verification; opening, password change, wipe.
  \<^item> ReadOnlyFs (\<open>readonly_fs.rs\<close>): lookups, listings, range reads, and the cache, whose two critical
    sections are separate steps so that racing readers interleave.
  \<^item> SafeFs, Extract, ExtractProofs, ExtractSafety (\<open>safe_fs.rs\<close>, \<open>extract.rs\<close>): the staging directory,
    pending files and their destructors, the loop over the tree; what a successful run leaves on disk
    and what a failing one can have touched.
  \<^item> Scan, Pack, PackProofs (\<open>pack.rs\<close>): the walk and the layout it assigns, keys, the parallel
    encryption (rayon is an order of the sources and of the chunks, an argument of the model),
    self-verification and commit.
  \<^item> WindowsNames, WindowsNamesMap (\<open>windows_names.rs\<close>): display names that Windows accepts, and the map
    that gives every entry of a directory one of its own.
  \<^item> Mounted: what both mounts show of the file system, and paging through a listing. Fuse
    (\<open>cipherfs-fuse\<close>): every callback. WinFsp, WinFspProofs, WinFspSession (\<open>cipherfs-winfsp\<close>: \<open>lib.rs\<close>,
    \<open>mountpoint.rs\<close>, \<open>runtime.rs\<close>): opening and every callback, paths and listings, and a session with its
    mount directory, drive letter and destructors.
  \<^item> Protocol, AppController, OperationController (\<open>protocol.rs\<close>, \<open>controller.rs\<close>, \<open>app.rs\<close>,
    \<open>operation_controller.rs\<close>, \<open>mount_controller.rs\<close>): frames over a pipe that may interrupt or split
    reads, the pages of the window as a transition function with its reachable states, the parent of a
    worker. Worker (\<open>worker.rs\<close>): the process at the other end of the pipe.
  \<^item> Window (\<open>app.rs\<close>, the shell calls of \<open>dialogs.rs\<close>): what the window shows, every callback, the
    events of the worker and the threads that mount and unmount, as a step relation over whatever the
    user presses and types.
  \<^item> Update (\<open>cipherfs-update\<close>): the release, its signed manifests and the checks of the download. Cli,
    CalmPack, CliRuns (\<open>cipherfs-cli\<close>): the commands with their prompts and messages, the progress bar,
    the mount and the installation of an update; packing and extracting from the prompt come to an end.

  What the theorems show. The properties below are the contract of the program; the lemmas of each
  theory are the ones they rest on: exact characterisations of every check (\<open>validate_index\<close> accepts
  exactly \<open>index_ok\<close>, the header check, sizes and layout), uniqueness of nonces and injectivity of
  associated data, correctness of reads against the stored content, crash safety of the password
  change at every failing call, effect and limits of the duress wipe, liveness of packing and
  extraction on a calm world and confinement of failing ones; for the mounts, that every listed name
  resolves to its node, that paging lists a directory once and completely, and that a session leaves
  no directory behind; for the command line, that what was packed comes back, that a refused format
  asks for no password, and that only a signed and confirmed update is installed; for the shell, that
  both ends of the pipe agree on the outcome, that a window asks for one worker at most and keeps no
  password outside of its form and the error page after it, and that a form is checked before it runs.

  Bounds and fuel. Retry loops over random names take 32 attempts as in the source. The draw of a
  fresh file id may repeat for ever on a constant random source, so the model has a number of attempts,
  and \<open>draws_ok\<close> states that the source offers a fresh id in time. The search for a free display name
  and the walk to the root of a display path are bounded likewise and answer \<open>None\<close> beyond the bound;
  the walk over the tree of the WinFsp mount takes one step for each node, so twice the number of entries
  and the greatest depth suffice for it and its names; paging takes one page for each entry and two more.

  Not modelled: the kernel and driver side of both mounts, the Win32 calls that fetch the user and build
  a security descriptor, and the save dialog (parameters); the smoke-test entry points of the shell and
  the dispatch of its first argument; the generated WinFsp bindings, build scripts and the markup of the
  window, from which only the buttons of each page are read; the serialised v1 index, which no code
  reads; zeroization of secrets, which has no effect on results; memory limits and panics of
  allocation; file metadata other than length and identity; the Windows branches of \<open>safe_fs.rs\<close> and
  \<open>platform_io.rs\<close> and the rename of \<open>windows_fs.rs\<close>; wall-clock time and threads other than through
  schedules and steps.
\<close>

section \<open>Extraction\<close>

text \<open>C1: On a world where no file system call fails and nobody cancels, the extraction of a container
  that holds a tree, with the right password, to a free place comes to its end; the destination then
  has exactly the tree of the index with the content of every file, and nothing else on disk changed.\<close>

theorem extraction_succeeds:
  assumes "container_holds P (w_disk w) container password es content"
    and "\<forall>e \<in> set es. e_id e \<noteq> 1 \<longrightarrow> plain_name (e_name e)"
    and "disk_ok (w_disk w)" "place_free (w_disk w) out" "\<forall>xs. set (order xs) \<subseteq> set xs"
    and "calm (w_random w) w"
  shows "\<exists>w'. extract_v2_inner P threads order container out password None None w = (Inr (), w') \<and>
    extracted es content out (w_disk w) (w_disk w')"
  using runsD [OF runs_extract [OF assms(1-5)] assms(6) refl] by (metis (full_types) old.unit.exhaust)

theorem extraction_succeeds_witness:
  "\<exists>w' f. extract_v2_inner demo 2 (\<lambda>x. x) [''c''] [''out''] ''pw'' None None demo_world = (Inr (), w') \<and>
     w_disk w' [''out'', ''a''] = Some (FileNode f) \<and> fd_bytes f = [10, 20, 30]"
proof -
  obtain w' where w': "extract_v2_inner demo 2 (\<lambda>x. x) [''c''] [''out''] ''pw'' None None demo_world = (Inr (), w')"
    and ex: "extracted demo_entries (\<lambda>_. demo_content) [''out''] (w_disk demo_world) (w_disk w')"
    using extraction_succeeds [OF demo_holds demo_plain demo_disk_ok demo_place _ demo_calm, of "\<lambda>x. x" 2] by auto
  have "demo_file \<in> set demo_entries" "e_kind demo_file = File" by (simp add: demo_entries_def, simp add: demo_file_def)
  with ex have "\<exists>f. w_disk w' ([''out''] @ rel_path demo_entries demo_file) = Some (FileNode f) \<and> fd_bytes f = demo_content"
    unfolding extracted_def by fastforce
  with w' show ?thesis by (simp add: demo_rel_path demo_content_def)
qed



section \<open>Packing\<close>

text \<open>C3: On a world where no call fails and nobody cancels, packing a well-formed source within the limits
  comes to its end: the only change on disk is a container at the output, which holds one entry for
  every item of the source with the content of every file and opens with the password.\<close>

theorem pack_succeeds:
  assumes "prims_ok P" "schedules_ok sd" "pack_ready P walk fuel (w_random w) (w_disk w) source rs max_index"
    and "argon2_within_limits params" "duress \<noteq> Some password" "disk_ok (w_disk w)"
    and "output_free (w_disk w) output requested" "calm (w_random w) w"
  shows "\<exists>w' g es content.
    pack_inner P walk fuel sd source output password duress params max_index NoFault requested w = (Inr (), w') \<and>
    w_disk w' = (w_disk w)(output := Some (FileNode g)) \<and> packed_tree walk (w_disk w) source es content \<and>
    container_holds P (w_disk w') output password es content"
  using runsD [OF runs_pack [OF assms(1-7)] assms(8) refl] by (metis (full_types) old.unit.exhaust)

theorem pack_succeeds_witness:
  "\<exists>w' g. pack_inner demo demo_walk 3 demo_schedules [''s''] [''v''] ''pw'' (Some ''duress'') argon2_default MAX_INDEX_SIZE
     NoFault None source_world = (Inr (), w') \<and> w_disk w' = source_disk([''v''] := Some (FileNode g))"
  using pack_succeeds [of demo demo_schedules demo_walk 3 source_world "[''s'']" "[[''a'']]" MAX_INDEX_SIZE argon2_default
      "Some ''duress''" "''pw''" "[''v'']" None]
    demo_prims_ok demo_schedules_ok demo_pack_ready demo_params source_disk_ok demo_output_free source_calm
  by (simp add: calm_def) blast

text \<open>C4: Packing a directory and extracting the container to another place gives the source tree back,
  every directory and every file with its bytes and nothing else, and changes nothing outside of the
  container and the destination; both runs come to their end.\<close>

theorem packed_tree_comes_back:
  assumes "prims_ok P" "schedules_ok sd" "pack_ready P walk fuel (w_random w) (w_disk w) source rs max_index"
    and "argon2_within_limits params" "duress \<noteq> Some password" "disk_ok (w_disk w)"
    and "output_free (w_disk w) output requested" "walk_plain walk (w_disk w) source"
    and "place_free (w_disk w) target" "target \<noteq> output"
    and "\<forall>s. starts_with (''.'' @ last target @ ''.cipherfs-stage-'') s \<longrightarrow> butlast target @ [s] \<noteq> output"
    and "\<forall>xs. set (order xs) \<subseteq> set xs" "calm (w_random w) w"
  shows "\<exists>w1 w2. pack_inner P walk fuel sd source output password duress params max_index NoFault requested w = (Inr (), w1) \<and>
    extract_v2_inner P threads order output target password None None w1 = (Inr (), w2) \<and>
    same_tree walk (w_disk w) source (w_disk w2) target \<and>
    (\<forall>q. \<not> below target q \<longrightarrow> q \<noteq> output \<longrightarrow> w_disk w2 q = w_disk w q)"
  using runsD [OF runs_pack_extract [OF assms(1-12)] assms(13) refl] by (simp add: bindM_eq_Inr) metis

theorem packed_tree_comes_back_witness:
  "\<exists>w1 w2 f. pack_inner demo demo_walk 3 demo_schedules [''s''] [''v''] ''pw'' None argon2_default MAX_INDEX_SIZE
     NoFault None source_world = (Inr (), w1) \<and>
     extract_v2_inner demo 2 (\<lambda>x. x) [''v''] [''o''] ''pw'' None None w1 = (Inr (), w2) \<and>
     w_disk w2 [''o'', ''a''] = Some (FileNode f) \<and> fd_bytes f = [10, 20, 30]"
proof -
  obtain w1 w2 where runs: "pack_inner demo demo_walk 3 demo_schedules [''s''] [''v''] ''pw'' None argon2_default MAX_INDEX_SIZE
     NoFault None source_world = (Inr (), w1)" "extract_v2_inner demo 2 (\<lambda>x. x) [''v''] [''o''] ''pw'' None None w1 = (Inr (), w2)"
    and same: "same_tree demo_walk source_disk [''s''] (w_disk w2) [''o'']"
    using packed_tree_comes_back [of demo demo_schedules demo_walk 3 source_world "[''s'']" "[[''a'']]" MAX_INDEX_SIZE argon2_default
        None "''pw''" "[''v'']" None "[''o'']" "\<lambda>x. x" 2]
      demo_prims_ok demo_schedules_ok demo_pack_ready demo_params source_disk_ok demo_output_free source_calm
      demo_walk_plain demo_target_free demo_stage_free by (auto simp: calm_def)
  have "\<exists>f. w_disk w2 [''o'', ''a''] = Some (FileNode f) \<and> fd_bytes f = [10, 20, 30]"
    using same by (auto simp: same_tree_def walk_items_def demo_walk_def source_disk_def demo_source_file_def)
  with runs show ?thesis by blast
qed

text \<open>C5: Packing a directory and extracting the container, both typed at the prompt of the command line with
  the same password, come to their end and give the source tree back; nothing else on disk changes but the
  container and the destination.\<close>

theorem command_line_round_trip:
  assumes "prims_ok (ce_prims E)" "schedules_ok (ce_schedules E)"
    and "pack_ready (ce_prims E) (ce_walk E) (ce_fuel E) (w_random w) (w_disk w) source rs max_index_size"
    and "argon2_within_limits \<lparr>m_cost = mc, t_cost = tc, p_cost = pc\<rparr>" "duress \<noteq> password"
    and "disk_ok (w_disk w)" "output_free (w_disk w) container None" "walk_plain (ce_walk E) (w_disk w) source"
    and "place_free (w_disk w) target" "target \<noteq> container"
    and "\<forall>s. starts_with (''.'' @ last target @ ''.cipherfs-stage-'') s \<longrightarrow> butlast target @ [s] \<noteq> container"
    and "\<forall>xs. set (ce_order E xs) \<subseteq> set xs" "calm (w_random w) w" "ce_handler E = Inr ()" "ce_pool E threads = Inr n"
    and "checked_mul max_index (1024 * 1024) = Some max_index_size"
    and "tm_answers t = Inr password # Inr password # Inr duress # Inr password # rest"
  shows "\<exists>t1 w1 t2 w2. execute_command E (CmdPack source (Some container) mc tc pc max_index threads) t w = Some (Inr (), t1, w1) \<and>
    execute_command E (CmdExtract container target threads) t1 w1 = Some (Inr (), t2, w2) \<and>
    same_tree (ce_walk E) (w_disk w) source (w_disk w2) target \<and>
    (\<forall>q. \<not> below target q \<longrightarrow> q \<noteq> container \<longrightarrow> w_disk w2 q = w_disk w q)"
  by (rule cli_round_trip [OF assms])

theorem command_line_round_trip_witness:
  "\<exists>t1 w1 t2 w2. execute_command demo_cli (CmdPack [''s''] (Some [''v'']) 65536 3 4 512 0)
       (demo_terminal [''pw'', ''pw'', ''duress'', ''pw'']) source_world = Some (Inr (), t1, w1) \<and>
     execute_command demo_cli (CmdExtract [''v''] [''o''] 0) t1 w1 = Some (Inr (), t2, w2) \<and>
     same_tree demo_walk source_disk [''s''] (w_disk w2) [''o'']"
proof -
  have env: "ce_prims demo_cli = demo" "ce_schedules demo_cli = demo_schedules" "ce_walk demo_cli = demo_walk" "ce_fuel demo_cli = 3"
    "ce_handler demo_cli = Inr ()" "ce_pool demo_cli 0 = Inr 1" "\<forall>xs. set (ce_order demo_cli xs) \<subseteq> set xs"
    by (simp_all add: demo_cli_def)
  have w: "w_random source_world = w_random demo_world" by (simp add: source_world_def)
  have params: "argon2_within_limits \<lparr>m_cost = 65536, t_cost = 3, p_cost = 4\<rparr>"
    using demo_params by (simp add: argon2_default_def)
  have lim: "checked_mul 512 (1024 * 1024) = Some MAX_INDEX_SIZE" by (simp add: checked_mul_def MAX_INDEX_SIZE_def)
  have stage: "\<forall>s. starts_with (''.'' @ last [''o''] @ ''.cipherfs-stage-'') s \<longrightarrow> butlast [''o''] @ [s] \<noteq> [''v'']"
    using demo_stage_free by auto
  have answers: "tm_answers (demo_terminal [''pw'', ''pw'', ''duress'', ''pw'']) = Inr ''pw'' # Inr ''pw'' # Inr ''duress'' # Inr ''pw'' # []"
    by (simp add: demo_terminal_def)
  show ?thesis
    using command_line_round_trip [of demo_cli source_world "[''s'']" "[[''a'']]" MAX_INDEX_SIZE 65536 3 4 "''duress''" "''pw''" "[''v'']" "[''o'']" 0 1 512
        "demo_terminal [''pw'', ''pw'', ''duress'', ''pw'']" "[]", unfolded env w source_calm(2), OF demo_prims_ok demo_schedules_ok demo_pack_ready
        params _ source_disk_ok demo_output_free demo_walk_plain demo_target_free _ stage _ source_calm(1) _ _ lim answers]
      env(7) by auto
qed

text \<open>C6: On any world, whatever fails or however sources and chunks are scheduled, a pack that reports success
  has published a container of the scanned tree with the content the files had; an output that existed
  is never replaced.\<close>

theorem published_container_good:
  assumes "pack_assumptions P sd walk source w"
    and "pack_inner P walk fuel sd source output password duress params max_index NoFault requested w = (Inr (), w')"
  shows "\<exists>es content. published P walk source output password (w_disk w) (w_disk w') es content"
  using pack_publishes [OF assms] .

theorem published_container_good_witness:
  "\<exists>(w' :: world) es content. published demo demo_walk [''s''] [''v''] ''pw'' source_disk (w_disk w') es content"
proof -
  from demo_pack_runs obtain w' where "pack_inner demo demo_walk 3 demo_schedules [''s''] [''v''] ''pw'' None argon2_default
      MAX_INDEX_SIZE NoFault None source_world = (Inr (), w')" by blast
  from published_container_good [OF demo_pack_assumptions this] obtain es content where
    "published demo demo_walk [''s''] [''v''] ''pw'' (w_disk source_world) (w_disk w') es content" by blast
  then show ?thesis unfolding source_calm(2) by (intro exI)
qed



section \<open>Opening, unlocking, reading\<close>

text \<open>C8: Opening a container succeeds only with a password that unlocks a live key slot and only on
  a file whose header, length and index passed every check; it changes nothing on disk.\<close>

theorem open_is_validated:
  assumes "\<And>f. w_disk w (follow (w_disk w) path) = Some (FileNode f) \<Longrightarrow> length (fd_bytes f) < 2 ^ 64"
    and "open_container P path password w = (Inr opened, w')"
  shows "\<exists>es f. opened_ok opened es \<and> header_within_limits (oc_header opened) \<and>
      unlock P (oc_header opened) password = Inr (Unlocked (oc_dek opened)) \<and>
      w_disk w' = w_disk w \<and> w_disk w (follow (w_disk w) path) = Some (FileNode f) \<and>
      length (fd_bytes f) = HEADER_SIZE + unat (h_index_size (oc_header opened)) + unat (h_data_size (oc_header opened)) \<and>
      oc_read opened = content_reader (fd_bytes f)"
  using open_container_ok [OF assms] .

theorem open_is_validated_witness:
  "\<exists>w'. w_disk w' = w_disk demo_world \<and> open_container demo [''c''] ''pw'' demo_world = (Inr demo_opened, w')"
proof -
  obtain w' where w': "open_container demo [''c''] ''pw'' demo_world = (Inr demo_opened, w')"
    using demo_open by blast
  have "\<And>f. w_disk demo_world (follow (w_disk demo_world) [''c'']) = Some (FileNode f) \<Longrightarrow> length (fd_bytes f) < 2 ^ 64"
    by (simp add: demo_follow demo_file_at) (use demo_fd_length in simp)
  from open_is_validated [OF this w'] w' show ?thesis by blast
qed



text \<open>C10: Unlocking comes to an answer for every password, whatever the slots of a header within the
  limits contain; only a failing key derivation can stop it.\<close>

theorem unlock_always_answers:
  assumes "argon_total P" "header_within_limits h"
  shows "\<exists>answer. unlock P h password = Inr answer"
  using unlock_total [OF assms] .

theorem unlock_always_answers_witness: "\<exists>answer. unlock demo demo_header ''anything'' = Inr answer"
  using unlock_always_answers [OF demo_ok(6) demo_limits] .

text \<open>C11: A range read through the mount returns exactly the bytes of the stored file in the range,
  cut at the end of the file, and keeps the cache correct, whatever the cache holds; the only
  request left out is the empty one at the start of a nonempty file.\<close>

theorem mount_read_correct:
  assumes "content_stored P opened es content" "cached_ok es content c"
    and "e \<in> set (files_of es)" and "sz \<noteq> 0 \<or> offset \<noteq> 0 \<or> e_size e = 0"
  shows "fst (fs_read P opened (e_id e) offset sz c) = Inr (slice (unat offset) (unat sz) (content e)) \<and>
    cached_ok es content (snd (fs_read P opened (e_id e) offset sz c))"
  using fs_read_content [OF assms] .

theorem mount_read_correct_witness:
  "fst (fs_read demo demo_opened 2 1 10 (cache_new 0)) = Inr [20, 30]"
proof -
  have "cached_ok demo_entries (\<lambda>_. demo_content) (cache_new 0)" by (simp add: cached_ok_def cache_new_def)
  from mount_read_correct [OF demo_content_stored this, of demo_file 10 1]
  show ?thesis by (simp add: demo_files) (simp add: demo_file_def demo_content_def slice_def)
qed

text \<open>C12: A chunk decrypts to a plaintext exactly when the encryption of that plaintext, bound to the
  container, the entry, the index of the chunk and its length, is stored at the place of the chunk.\<close>

theorem chunk_decrypts_iff_stored:
  assumes "aead_ok P" "opened_ok opened es" "e \<in> set es" "e_kind e = File" "i < unat (e_chunk_count e)"
    and "\<And>off n bs. oc_read opened off n = Inr bs \<Longrightarrow> length bs = n"
  shows "decrypt_chunk P opened e (of_nat i) = Inr plain \<longleftrightarrow> chunk_stored P opened e i plain"
  using decrypt_chunk_iff [OF assms] .

theorem chunk_decrypts_iff_stored_witness: "decrypt_chunk demo demo_opened demo_file 0 = Inr [10, 20, 30]"
proof -
  have "\<And>off n bs. oc_read demo_opened off n = Inr bs \<Longrightarrow> length bs = n"
    by (auto simp: demo_opened_def dest: content_reader_Inr)
  then show ?thesis
    using chunk_decrypts_iff_stored [OF demo_ok(1) demo_opened_ok, of demo_file 0 demo_content] demo_chunk_stored
    by (simp add: demo_entries_def demo_file_def demo_content_def)
qed

text \<open>C13: Without cancellation, verification succeeds exactly when every chunk of every file decrypts,
  whatever order the workers take the chunks in.\<close>

theorem verify_accepts_iff:
  assumes "opened_ok opened es" "\<And>n. \<not> w_cancelled w n"
    and "set (schedule (chunk_tasks (file_entries (oc_index opened)))) = set (chunk_tasks (file_entries (oc_index opened)))"
  shows "fst (verify_all_with_control P schedule opened w) = Inr () \<longleftrightarrow>
    (\<forall>e \<in> set es. e_kind e = File \<longrightarrow>
       (\<forall>i < unat (e_chunk_count e). \<exists>plain. decrypt_chunk P opened e (of_nat i) = Inr plain))"
proof -
  have files: "set (file_entries (oc_index opened)) = {e \<in> set es. e_kind e = File}"
    using assms(1) by (simp add: opened_ok_def set_file_entries)
  show ?thesis
  proof
    assume "fst (verify_all_with_control P schedule opened w) = Inr ()"
    then obtain w' where "verify_all_with_control P schedule opened w = (Inr (), w')" by (metis prod.collapse)
    from verify_all_sound [OF assms(3) this] files
    show "\<forall>e \<in> set es. e_kind e = File \<longrightarrow>
       (\<forall>i < unat (e_chunk_count e). \<exists>plain. decrypt_chunk P opened e (of_nat i) = Inr plain)" by blast
  next
    assume "\<forall>e \<in> set es. e_kind e = File \<longrightarrow>
       (\<forall>i < unat (e_chunk_count e). \<exists>plain. decrypt_chunk P opened e (of_nat i) = Inr plain)"
    then have "\<exists>w'. verify_all_with_control P schedule opened w = (Inr (), w')"
      using verify_all_complete [of opened es schedule w P] assms by (simp add: files)
    then show "fst (verify_all_with_control P schedule opened w) = Inr ()" by auto
  qed
qed

theorem verify_accepts_iff_witness: "fst (verify_all_with_control demo (\<lambda>x. x) demo_opened demo_world) = Inr ()"
proof -
  have "decrypt_chunk demo demo_opened demo_file 0 = Inr demo_content"
    using decrypt_chunk_stored [OF demo_ok(1) demo_opened_ok _ _ _ demo_chunk_stored]
    by (simp add: demo_entries_def) (simp add: demo_file_def)
  then show ?thesis
    using verify_accepts_iff [OF demo_opened_ok, of demo_world "\<lambda>x. x" demo]
    by (simp add: demo_world_def demo_entries_def demo_root_def) (simp add: demo_file_def)
qed

section \<open>Password change and duress\<close>



text \<open>C15: On a world where no call fails and nobody cancels, a change from a password that unlocks to
  one that is not the duress password succeeds, and afterwards the new password unlocks the same key
  through the only live slot.\<close>

theorem password_change_succeeds:
  assumes "aead_ok P" "argon_total P" "header_codec_ok P" "header_encoder_ok P"
    and "container_ready P (w_disk w) path h body" "unlock P h old = Inr (Unlocked dek)"
    and "unlock P h new \<noteq> Inr Duress" "unat (highest_generation h) + 1 < 2 ^ 64" "calm (w_random w) w"
  shows "\<exists>w' s. change_password_inner P path old new w = (Inr (), w') \<and>
    container_at P (w_disk w') (follow (w_disk w) path) (h\<lparr>h_slots := s\<rparr>) body \<and>
    unlock P (h\<lparr>h_slots := s\<rparr>) new = Inr (Unlocked dek) \<and> (\<exists>slot. live_slots (h\<lparr>h_slots := s\<rparr>) = {slot})"
proof -
  from runsD [OF change_password_runs [OF assms(1-8)] assms(9) refl] obtain w' where
    run: "change_password_inner P path old new w = (Inr (), w')" by (metis (full_types) old.unit.exhaust)
  have "container_at P (w_disk w) (follow (w_disk w) path) h body" using assms(5) by (simp add: container_ready_def)
  from change_password_outcome [OF assms(1,3) this assms(6) run] run show ?thesis by (auto simp: rotation_outcome_def)
qed

theorem password_change_succeeds_witness:
  "\<exists>w' s. change_password_inner demo [''c''] ''pw'' ''bad'' demo_world = (Inr (), w') \<and>
     unlock demo (demo_header\<lparr>h_slots := s\<rparr>) ''bad'' = Inr (Unlocked demo_dek)"
proof -
  have "unat (highest_generation demo_header) + 1 < 2 ^ 64"
    by (simp add: highest_generation_def demo_header_def demo_slot_def)
  from password_change_succeeds [OF demo_ok(1,6,4,7) demo_ready demo_unlock _ this demo_calm, of "''bad''"]
  show ?thesis by (auto simp: demo_unlock_bad)
qed

text \<open>C16: The duress password gets the answer of a wrong password, and once it has been given, with no
  call failing, no password opens the container again.\<close>

theorem duress_destroys:
  assumes "header_codec_ok P" "header_encoder_ok P" "container_ready P (w_disk w) path h body"
    and "unlock P h password = Inr Duress" "fault_free w" "open_container P path password w = (res, w')"
  shows "res = Inl [Msg cannot_unlock] \<and>
    (w_disk w2 = w_disk w' \<longrightarrow> open_container P path any w2 \<noteq> (Inr opened, w3))"
  using open_duress_destroys [OF assms(1-5) refl assms(6)] by blast

theorem duress_destroys_witness:
  "fst (open_container demo [''c''] ''duress'' demo_world) = Inl [Msg cannot_unlock] \<and>
   fst (open_container demo [''c''] ''pw'' (snd (open_container demo [''c''] ''duress'' demo_world))) \<noteq> Inr demo_opened"
  using duress_destroys [OF demo_ok(4,7) demo_ready demo_unlock_duress demo_fault_free surjective_pairing,
      of "snd (open_container demo [''c''] ''duress'' demo_world)" "''pw''" demo_opened]
  by (metis prod.collapse)



section \<open>The format\<close>

text \<open>C18: The index check accepts exactly the well-formed trees: bounded, with valid entries, unique
  ids, file ids and sibling names, every parent a directory one level up, and a data layout without
  gaps that ends at the announced size; it returns the tables of that tree.\<close>

theorem index_check_exact: "validate_index h es = Inr v \<longleftrightarrow> index_ok h es \<and> v = index_tables es"
  using validate_index_eq_Inr .

text \<open>C19: In an accepted index every entry reaches the root in as many steps as its depth, so the
  parent relation has no cycle.\<close>

theorem entries_reach_root:
  assumes "validate_index h es = Inr v" "e \<in> set es"
  shows "ancestor (vi_entries v) (unat (e_depth e)) (e_id e) = Some 1"
  using assms index_ok_reaches_root [of h es e] by (auto simp: validate_index_eq_Inr)

theorem entries_reach_root_witness: "ancestor (vi_entries (index_tables demo_entries)) 1 2 = Some 1"
  using entries_reach_root [of demo_header demo_entries "index_tables demo_entries" demo_file] demo_index_ok
  by (simp add: validate_index_eq_Inr demo_entries_def demo_file_def)

text \<open>C20: In an accepted index every file lies inside the data area and no two files overlap.\<close>

theorem regions_disjoint:
  assumes "validate_index h es = Inr v" "f \<in> set es" "e_kind f = File"
  shows "unat (e_data_offset f) + unat (e_encrypted_size f) \<le> unat (h_data_size h) \<and>
    (g \<in> set es \<and> e_kind g = File \<and> f \<noteq> g \<longrightarrow>
      unat (e_data_offset f) + unat (e_encrypted_size f) \<le> unat (e_data_offset g) \<or>
      unat (e_data_offset g) + unat (e_encrypted_size g) \<le> unat (e_data_offset f))"
  using assms index_ok_regions(1) [of h es f] index_ok_regions(2) [of h es f g] by (auto simp: validate_index_eq_Inr)

theorem regions_disjoint_witness: "unat (e_data_offset demo_file) + unat (e_encrypted_size demo_file) \<le> 19"
  using regions_disjoint [of demo_header demo_entries "index_tables demo_entries" demo_file demo_root] demo_index_ok demo_sizes
  by (simp add: validate_index_eq_Inr demo_entries_def demo_file_def)

text \<open>C21: The header check accepts exactly the headers within the limits whose sizes add up to the
  length of the file; the sum cannot wrap.\<close>

theorem header_check_exact:
  "validate_header_basic h (Some len) = Inr () \<longleftrightarrow>
     header_within_limits h \<and> HEADER_SIZE + unat (h_index_size h) + unat (h_data_size h) = unat len"
  using validate_header_basic_Some .



text \<open>C23: The associated data of a chunk determine the container, the file, its id, its size, the index
  of the chunk and the plaintext length.\<close>

theorem chunk_aad_binds:
  assumes "length (h_magic h) = length (h_magic h')" "length (h_container_id h) = length (h_container_id h')"
    and "length (e_file_id e) = length (e_file_id e')" "chunk_aad h e i n = chunk_aad h' e' i' n'"
  shows "h_container_id h = h_container_id h' \<and> e_file_id e = e_file_id e' \<and> e_id e = e_id e' \<and>
    e_size e = e_size e' \<and> i = i' \<and> n = n'"
  using chunk_aad_determines [OF assms] by simp

theorem chunk_aad_binds_witness: "e_size demo_file = e_size (demo_file\<lparr>e_name := ''b''\<rparr>)"
  using chunk_aad_binds [of demo_header demo_header demo_file "demo_file\<lparr>e_name := ''b''\<rparr>" 0 3 0 3]
  by (simp_all add: chunk_aad_def)

section \<open>The command line, the worker and the update\<close>

text \<open>C24: An update changes nothing before the user typed \<open>y\<close> to an update whose manifest a trusted key signed,
  for this target, of a newer version, with the size and the digest of the downloaded bytes; and a run that reports
  success replaced the executable by a new file that holds exactly those bytes.\<close>

theorem update_only_if_signed:
  assumes "update_interactive E t w = (r, t', w')" "w' \<noteq> w"
  shows "\<exists>(u :: portable_update) input rest. tm_answers t = Inr input # rest \<and> to_ascii_lowercase (trim input) = ''y'' \<and>
    w' = snd (install_update E (pu_bytes u) w) \<and>
    signed_update (ce_update E) (pu_bytes u) \<and>
    (r = Inr () \<longrightarrow> (\<exists>temp w1 w2 f. w_disk w temp = None \<and> ce_self_replace E temp w1 = (Inr (), w2) \<and>
       w_disk w1 temp = Some (FileNode f) \<and> fd_bytes f = pu_bytes u))"
proof -
  obtain u input rest where u: "download_portable_update (ce_update E) = Inr (Some u)" and ans: "tm_answers t = Inr input # rest"
    "to_ascii_lowercase (trim input) = ''y''" and w': "w' = snd (install_update E (pu_bytes u) w)"
    and ok: "r = Inr () \<Longrightarrow> fst (install_update E (pu_bytes u) w) = Inr ()"
    using update_installs [OF assms] by blast
  have "install_update E (pu_bytes u) w = (Inr (), w')" if "r = Inr ()" using ok [OF that] w' by (simp add: prod_eq_iff)
  then have "\<exists>temp w1 w2 f. w_disk w temp = None \<and> ce_self_replace E temp w1 = (Inr (), w2) \<and>
       w_disk w1 temp = Some (FileNode f) \<and> fd_bytes f = pu_bytes u" if "r = Inr ()"
    using install_update_bytes that by blast
  note installed = this
  show ?thesis
    by (rule exI [of _ u], rule exI [of _ input], rule exI [of _ rest])
      (rule conjI, rule ans(1), rule conjI, rule ans(2), rule conjI, rule w', rule conjI, rule portable_update_signed [OF u],
        rule impI, erule installed)
qed

theorem update_only_if_signed_witness:
  "\<exists>t' w' (u :: portable_update). update_interactive demo_cli (demo_terminal [''y'']) update_world = (Inr (), t', w') \<and>
     signed_update demo_update (pu_bytes u) \<and> w' = snd (install_update demo_cli (pu_bytes u) update_world)"
proof -
  obtain t' w' where run: "update_interactive demo_cli (demo_terminal [''y'']) update_world = (Inr (), t', w')" "w' \<noteq> update_world"
    using demo_update_runs by blast
  have "ce_update demo_cli = demo_update" by (simp add: demo_cli_def)
  with update_only_if_signed [OF run] run(1) show ?thesis by metis
qed

text \<open>C25: The parent is told the truth: when the frames of a worker arrive, the operation succeeds in the window
  exactly when it succeeded in the worker and every temporary artifact the worker reported is the one the window
  expected.\<close>

theorem worker_and_window_agree:
  assumes "read_frame dec_request stdin = (Inr (Some request), rest)" "rq_version request = PROTOCOL_VERSION"
    and "execute V (snd (command_loop dec_command rest)) (rq_operation request) w = (r, events, w1)"
    and "\<And>c p. rq_operation request \<noteq> OpMount c p"
    and "\<And>ev. ev \<in> set (events @ [terminal_event r]) \<Longrightarrow> carried enc dec ev"
    and "run_stdio V dec_request dec_command enc put_bytes flush_bytes stdin [] w = (r', out, w')"
    and "pipe_clean p" "pipe_bytes p = out"
    and "event_loop (read_frames dec (Suc (Suc (length events))) p) False h = (evs, result, h')"
  shows "r' = Inr () \<and> w' = w1 \<and>
    (result = Inr () \<longleftrightarrow> r = Inr () \<and> (\<forall>k q. EvTemporaryArtifact k q \<in> set events \<longrightarrow> oh_expected_artifact h = Some q))"
  by (rule worker_told_parent) (rule assms; assumption?)+

theorem worker_and_window_agree_witness:
  "\<exists>out w' evs result h'. run_stdio demo_worker (\<lambda>_. Inr demo_request) (\<lambda>_. Inr Cancel) demo_enc put_bytes flush_bytes
       (map Data (frame_of [7])) [] demo_world = (Inr (), out, w') \<and>
     event_loop (read_frames (demo_dec (terminal_event (fst (execute demo_worker [Unmount] (OpVerify [''x''] ''pw'') demo_world)))) 3 (map Data out))
       False (op_handle_start None) = (evs, result, h') \<and> result \<noteq> Inr ()"
proof -
  obtain rest where rest: "read_frame (\<lambda>_. Inr demo_request) (map Data (frame_of [7])) = (Inr (Some demo_request), rest)"
    using demo_stdin by blast
  let ?cs = "snd (command_loop (\<lambda>_. Inr Cancel) rest)"
  obtain e w1 where ex: "execute demo_worker ?cs (rq_operation demo_request) demo_world = (Inl e, [EvPhaseStarted PKeyDerivation], w1)"
    using demo_execute [of ?cs] by (auto simp: demo_request_def)
  have same: "fst (execute demo_worker [Unmount] (OpVerify [''x''] ''pw'') demo_world) = Inl e"
    using ex by (simp add: demo_request_def execute_def)
  obtain r' out w' where run: "run_stdio demo_worker (\<lambda>_. Inr demo_request) (\<lambda>_. Inr Cancel) demo_enc put_bytes flush_bytes
       (map Data (frame_of [7])) [] demo_world = (r', out, w')" by (metis prod_cases3)
  let ?dec = "demo_dec (terminal_event (Inl e))"
  obtain evs result h' where loop: "event_loop (read_frames ?dec (Suc (Suc (length [EvPhaseStarted PKeyDerivation]))) (map Data out)) False (op_handle_start None) =
      (evs, result, h')" by (metis prod_cases3)
  have "carried demo_enc ?dec ev" if "ev \<in> set ([EvPhaseStarted PKeyDerivation] @ [terminal_event (Inl e)])" for ev
    using that demo_carried by auto
  note agree = worker_and_window_agree [OF rest _ ex _ this run pipe_of_data(2,1) loop]
  have "rq_version demo_request = PROTOCOL_VERSION" "rq_operation demo_request \<noteq> OpMount c p" for c p
    by (simp_all add: demo_request_def)
  from agree [OF this] have "r' = Inr ()" "result \<noteq> Inr ()" by simp_all
  with run loop show ?thesis unfolding same by (auto simp: numeral_3_eq_3)
qed



section \<open>The mounted file system\<close>

text \<open>C27: Opening a container for WinFsp comes to its end, and afterwards the path of every entry, written
  with display names and backslashes, resolves to that entry.\<close>

theorem windows_path_resolves:
  assumes "ordinal_ok W" "opened_ok opened es" "2 * length es + unat MAX_DEPTH + 2 \<le> fuel" "fuel < 2 ^ 64"
  shows "\<exists>fs. winfsp_from W fuel opened modified (Inr descriptor) = Some (Inr fs) \<and>
    (\<forall>e \<in> set es. \<forall>A name. wa_to_string_lossy A name = windows_path es (wf_names fs) e \<longrightarrow>
       resolve W A fs name = Inr (node_of_entry e))"
  using winfsp_from_mounted [OF assms] resolve_display_path by blast

theorem windows_path_resolves_witness:
  "\<exists>fs units. winfsp_from demo_ordinal 2000 demo_opened None (Inr []) = Some (Inr fs) \<and>
     wa_to_string_lossy demo_api units = windows_path demo_entries (wf_names fs) demo_file \<and>
     resolve demo_ordinal demo_api fs units = Inr (node_of_entry demo_file)"
proof -
  have "2 * length demo_entries + unat MAX_DEPTH + 2 \<le> 2000" by (simp add: demo_entries_def MAX_DEPTH_def)
  from windows_path_resolves [OF demo_ordinal_ok demo_opened_ok this] obtain fs where
    fs: "winfsp_from demo_ordinal 2000 demo_opened None (Inr []) = Some (Inr fs)"
    and all: "\<And>e A name. e \<in> set demo_entries \<Longrightarrow> wa_to_string_lossy A name = windows_path demo_entries (wf_names fs) e \<Longrightarrow>
       resolve demo_ordinal A fs name = Inr (node_of_entry e)" by auto blast
  obtain units where units: "wa_to_string_lossy demo_api units = windows_path demo_entries (wf_names fs) demo_file"
    using demo_api_text by blast
  have "demo_file \<in> set demo_entries" by (simp add: demo_entries_def)
  from all [OF this units] fs units show ?thesis by blast
qed



text \<open>C29: A directory listed through FUSE, page by page at the offsets the kernel hands back, is exactly
  its own two names and its children, however much a page holds.\<close>

theorem fuse_listing_complete:
  assumes "index_ok h es" "d \<in> set es" "e_kind d = Directory"
    and "buffer_ok add entries" "entries blank = []" "\<And>e. \<not> fst (add e blank)" "length es + 2 < fuel" "fuel < 2 ^ 64"
  shows "read_pages fuel (readdir_page add entries blank (index_tables es) (e_id d)) entry_offset 0 =
      numbered (listing (node_of_entry d) (child_nodes es (e_id d))) \<and>
    set (child_nodes es (e_id d)) = node_of_entry ` {e \<in> set es. e_id e \<noteq> 1 \<and> e_parent_id e = e_id d} \<and>
    distinct (map n_id (child_nodes es (e_id d)))"
  using readdir_complete [OF assms] set_child_nodes child_nodes_distinct [OF assms(1)] by blast

theorem fuse_listing_complete_witness:
  "read_pages 9 (readdir_page demo_add id [] (index_tables demo_entries) 1) entry_offset 0 =
     numbered (listing (node_of_entry demo_root) (child_nodes demo_entries 1))"
proof -
  have d: "demo_root \<in> set demo_entries" "e_kind demo_root = Directory" "e_id demo_root = 1" "length demo_entries + 2 < 9"
    by (simp_all add: demo_entries_def demo_root_def)
  have add: "\<not> fst (demo_add e [])" for e :: fuse_dirent by (simp add: demo_add_def)
  show ?thesis
    using fuse_listing_complete [of demo_header demo_entries demo_root demo_add id "[]" 9, OF demo_index_ok d(1,2) demo_buffers(2) _ add d(4)] d(3)
    by simp
qed



text \<open>C31: On Windows the name map of an accepted index comes to its end, and every entry is found again
  under its parent and its display name, which is its own name or a mapped one.\<close>

theorem display_names_found:
  assumes "ordinal_ok W" "index_ok h es" "2 * length es + unat MAX_DEPTH + 2 \<le> fuel" "fuel < 2 ^ 64"
  shows "\<exists>m. name_map_new W fuel (map node_of_entry es) = Some m \<and>
    (\<forall>e \<in> set es. e_id e = 1 \<or>
       name_map_lookup W m (e_parent_id e) (name_map_name m (node_of_entry e)) = Some (e_id e) \<and>
       (name_map_name m (node_of_entry e) = e_name e \<or>
        (\<exists>a. name_map_name m (node_of_entry e) = mapped_name (e_name e) (e_id e) a)))"
  using index_names_complete [OF assms] .

theorem display_names_found_witness:
  "\<exists>m. name_map_new demo_ordinal 2000 (map node_of_entry demo_entries) = Some m \<and>
     name_map_lookup demo_ordinal m 1 (name_map_name m (node_of_entry demo_file)) = Some 2"
proof -
  have "2 * length demo_entries + unat MAX_DEPTH + 2 \<le> 2000" "(2000 :: nat) < 2 ^ 64"
    by (simp_all add: demo_entries_def MAX_DEPTH_def)
  from display_names_found [OF demo_ordinal_ok demo_index_ok this] obtain m where
    m: "name_map_new demo_ordinal 2000 (map node_of_entry demo_entries) = Some m"
    and all: "\<And>e. e \<in> set demo_entries \<Longrightarrow> e_id e \<noteq> 1 \<Longrightarrow>
      name_map_lookup demo_ordinal m (e_parent_id e) (name_map_name m (node_of_entry e)) = Some (e_id e)" by blast
  have ids: "e_id demo_file = 2" "e_parent_id demo_file = 1" by (simp_all add: demo_file_def)
  from all [of demo_file] m show ?thesis unfolding ids by (simp add: demo_entries_def)
qed

text \<open>C32: Whatever sequence of lookups and stores runs, racing misses included, the chunk cache holds at
  most its configured number of bytes.\<close>

theorem cache_never_exceeds:
  assumes "cache_reachable max_bytes c"
  shows "cache_held c \<le> max_bytes"
  using cache_reachable_inv [OF assms] by (auto simp: cache_inv_def)

theorem cache_never_exceeds_witness: "cache_held (racing_stores (cache_new 12)) \<le> 12"
proof -
  have "cache_reachable 12 (racing_stores (cache_new 12))"
    unfolding racing_stores_def Let_def
    by (intro cache_reachable.step [OF _ cache_step.intros(2)] cache_reachable.start)
  from cache_never_exceeds [OF this] show ?thesis .
qed

text \<open>C33: Lookup by parent and name finds exactly the entry of the index with that parent and name.\<close>

theorem lookup_exact:
  assumes "validate_index h es = Inr v"
  shows "fs_lookup v p name = Inr e \<longleftrightarrow> e \<in> set es \<and> e_id e \<noteq> 1 \<and> e_parent_id e = p \<and> e_name e = name"
  using assms fs_lookup_iff [of h es p name e] by (simp add: validate_index_eq_Inr)

theorem lookup_exact_witness: "fs_lookup (index_tables demo_entries) 1 ''a'' = Inr demo_file"
  using lookup_exact [of demo_header demo_entries "index_tables demo_entries" 1 "''a''" demo_file] demo_index_ok
  by (simp add: validate_index_eq_Inr demo_entries_def) (simp add: demo_file_def)

section \<open>Operations and positional files\<close>

text \<open>C34: The loop that reads exactly \<open>n\<close> bytes at an offset refines the exact reader, however short the
  transfers of the platform are.\<close>

theorem positional_read_refines:
  assumes "length c < 2 ^ 64"
  shows "read_exact_at (file_read_at lim c) n off = content_reader c off n"
  using content_reader_refines [OF assms] .

theorem positional_read_refines_witness: "read_exact_at (file_read_at (\<lambda>_. 1) [1, 2, 3, 4]) 2 1 = Inr [2, 3]"
  using positional_read_refines [of "[1, 2, 3, 4]" "\<lambda>_. 1" 2 1] by (simp add: content_reader_def slice_def)

text \<open>C35: Progress events never decrease and never pass the total, one per step, and end at the amount
  advanced, cut at the total.\<close>

theorem progress_monotone:
  assumes "unat (tr_completed t) \<le> unat (tr_total t)"
  shows "sorted (unat (tr_completed t) # completed_of (snd (advance_all as t))) \<and>
    length (snd (advance_all as t)) = length as \<and>
    (\<forall>n \<in> set (completed_of (snd (advance_all as t))). n \<le> unat (tr_total t)) \<and>
    unat (tr_completed (fst (advance_all as t))) = min (unat (tr_completed t) + sum_list (map unat as)) (unat (tr_total t))"
  using advance_all_events [OF assms] advance_all_final [OF assms] by simp

theorem progress_monotone_witness:
  "unat (tr_completed (fst (advance_all [3, 200] \<lparr>tr_phase = Verify, tr_total = 10, tr_completed = 0\<rparr>))) = 10"
  using progress_monotone [of "\<lparr>tr_phase = Verify, tr_total = 10, tr_completed = 0\<rparr>" "[3, 200]"] by simp

section \<open>The window and its workers\<close>

text \<open>C36: Whatever is pressed and typed in whatever order, and however the events of the worker and the mounting
  threads fall between, a window starts at most one worker, shows its forms only while none was started, keeps no
  typed password once it left the form for another page than an error or once a worker was asked for, and moves
  its controller only along the transitions of the state machine.\<close>

theorem one_worker_per_window:
  assumes "window_reachable V n w"
  shows "length (wn_requests n) \<le> 1 \<and>
    (ui_page (wn_ui n) \<in> {HELP, ACTIONS, FORM} \<longrightarrow>
       wn_requests n = [] \<and> rt_operation (wn_state n) = None \<and> rt_mount (wn_state n) = None) \<and>
    (ui_page (wn_ui n) \<notin> {FORM, ERROR} \<or> wn_requests n \<noteq> [] \<longrightarrow> no_secrets (wn_ui n)) \<and>
    app_reachable (rt_controller (wn_state n))"
  using window_reachable_inv [OF assms] unfolding window_inv_def core_inv_def page_inv_def by blast

theorem one_worker_per_window_witness:
  "\<exists>n. window_reachable demo_window_env n demo_world \<and> wn_requests n = [OpMount [''c''] ''pw''] \<and> no_secrets (wn_ui n)"
proof -
  obtain n where n: "window_reachable demo_window_env n demo_world" "wn_requests n = [OpMount [''c''] ''pw'']"
    using demo_window_reached by blast
  with one_worker_per_window [OF n(1)] show ?thesis by auto
qed







text \<open>C40: After a worker ends, the parent removes at most what it expected the worker to leave: nothing
  when it expected nothing or the worker succeeded, and never a path outside.\<close>

theorem failed_worker_leaves_the_rest:
  assumes "run_events reads h w = (evs, h', w')"
  shows "(oh_expected_artifact h = None \<longrightarrow> w_disk w' = w_disk w) \<and>
    (last evs = CtlFinished (Inr ()) \<longrightarrow> w_disk w' = w_disk w) \<and>
    (\<forall>p q. oh_expected_artifact h = Some p \<and> \<not> below p q \<longrightarrow> w_disk w' q = w_disk w q)"
  using run_events_disk [OF assms] by blast

theorem failed_worker_leaves_the_rest_witness:
  "w_disk (snd (snd (run_events [Inr (Some (EvFailed DIntegrity ''damaged''))] (op_handle_start (Some [''out''])) demo_world))) [''c''] =
     Some (FileNode demo_fd)"
proof -
  let ?r = "run_events [Inr (Some (EvFailed DIntegrity ''damaged''))] (op_handle_start (Some [''out''])) demo_world"
  have "?r = (fst ?r, fst (snd ?r), snd (snd ?r))" by simp
  from failed_worker_leaves_the_rest [OF this] have "w_disk (snd (snd ?r)) [''c''] = w_disk demo_world [''c'']"
    by (auto simp: op_handle_start_def below_def starts_with_iff)
  then show ?thesis by (simp add: demo_file_at)
qed

end
